(* ===== verification/FS_Prelude.thy ===== *)
theory FS_Prelude
  imports Main
begin

text \<open>
  Shared ground of the development: the error numbers the C code returns, the
  wrap-around of its unsigned counters, and the generic facts on lists, maps and
  integer intervals that the component theories use.

  C integers are modelled as \<^typ>\<open>int\<close>. Offsets and lengths inside a 4 MB block and
  positions inside a trunk file stay far below the width of \<open>int\<close> and \<open>int64_t\<close>;
  where the source relies on wrap-around (64-bit hash codes and serial numbers) the
  reduction is written out with \<open>u64\<close> and \<open>u32\<close>.

  A status of type \<^typ>\<open>int\<close> is a C return value: 0 for success, an \<open>errno\<close> otherwise.
\<close>

named_theorems fs_defs \<open>definitions unfolded by the component proofs\<close>

section \<open>Error numbers\<close>

abbreviation ENOENT :: int where "ENOENT \<equiv> 2"
abbreviation EINTR :: int where "EINTR \<equiv> 4"
abbreviation EAGAIN :: int where "EAGAIN \<equiv> 11"
abbreviation ENOMEM :: int where "ENOMEM \<equiv> 12"
abbreviation EEXIST :: int where "EEXIST \<equiv> 17"
abbreviation EINVAL :: int where "EINVAL \<equiv> 22"
abbreviation ENOSPC :: int where "ENOSPC \<equiv> 28"
abbreviation EINPROGRESS :: int where "EINPROGRESS \<equiv> 115"

text \<open>
  \<open>FAULT\<close> is no value of the C program: an operation of the model answers it where the
  C code would dereference a null or dangling pointer. It differs from 0, so a statement
  about a successful call never covers such a run.
\<close>

abbreviation FAULT :: int where "FAULT \<equiv> -14"

section \<open>Unsigned wrap-around\<close>

definition u64 :: "int \<Rightarrow> int" where
  "u64 x = x mod 2 ^ 64"

definition u32 :: "int \<Rightarrow> int" where
  "u32 x = x mod 2 ^ 32"

lemma u64_range: "0 \<le> u64 x" "u64 x < 2 ^ 64"
  by (simp_all add: u64_def)

lemma u64_id [simp]: "0 \<le> x \<Longrightarrow> x < 18446744073709551616 \<Longrightarrow> u64 x = x"
  by (simp add: u64_def)

lemma u32_range: "0 \<le> u32 x" "u32 x < 2 ^ 32"
  by (simp_all add: u32_def)

text \<open>Conversion to a signed integer of 32 or 64 bits keeps the low bits.\<close>

definition s32 :: "int \<Rightarrow> int" where
  "s32 x = (x + 2 ^ 31) mod 2 ^ 32 - 2 ^ 31"

definition s64 :: "int \<Rightarrow> int" where
  "s64 x = (x + 2 ^ 63) mod 2 ^ 64 - 2 ^ 63"

lemma s32_id: "0 \<le> x \<Longrightarrow> x < 2 ^ 31 \<Longrightarrow> s32 x = x"
  by (simp add: s32_def)

lemma s64_id: "0 \<le> x \<Longrightarrow> x < 2 ^ 63 \<Longrightarrow> s64 x = x"
  by (simp add: s64_def)

section \<open>Lists ordered by a relation\<close>

lemma sorted_wrt_filter: "sorted_wrt P xs \<Longrightarrow> sorted_wrt P (filter Q xs)"
  by (induction xs) auto

lemma sorted_wrt_remove1: "sorted_wrt P xs \<Longrightarrow> sorted_wrt P (remove1 x xs)"
proof (induction xs)
  case (Cons a xs)
  have "set (remove1 x xs) \<subseteq> set xs" by (rule set_remove1_subset)
  with Cons show ?case by auto
qed simp

lemma sorted_wrt_irrefl_distinct:
  "sorted_wrt P xs \<Longrightarrow> (\<And>x. \<not> P x x) \<Longrightarrow> distinct xs"
  by (induction xs) auto

lemma sorted_wrt_pick:
  "sorted_wrt P xs \<Longrightarrow> a \<in> set xs \<Longrightarrow> b \<in> set xs \<Longrightarrow> a = b \<or> P a b \<or> P b a"
  by (induction xs) auto

lemma sorted_wrt_last: "sorted_wrt P xs \<Longrightarrow> x \<in> set xs \<Longrightarrow> x = last xs \<or> P x (last xs)"
  by (induction xs) auto

lemma find_Some_unique:
  assumes "\<And>y z. y \<in> set xs \<Longrightarrow> z \<in> set xs \<Longrightarrow> P y \<Longrightarrow> P z \<Longrightarrow> y = z"
  shows "find P xs = Some x \<longleftrightarrow> x \<in> set xs \<and> P x"
  using assms
proof (induction xs)
  case (Cons a xs)
  then have "find P xs = Some x \<longleftrightarrow> x \<in> set xs \<and> P x" by simp
  with Cons.prems show ?case by (cases "P a") auto
qed simp

lemma list_all2_pick:
  assumes "list_all2 P xs ys"
  shows "y \<in> set ys \<Longrightarrow> \<exists>x\<in>set xs. P x y" "x \<in> set xs \<Longrightarrow> \<exists>y\<in>set ys. P x y"
  using assms by (induction xs ys rule: list_all2_induct) auto

lemma count_list_gt_0_iff: "0 < count_list xs x \<longleftrightarrow> x \<in> set xs"
  by (induction xs) auto

section \<open>Integer intervals\<close>

lemma card_int_interval_diff:
  fixes a b :: int
  assumes "a \<le> b" "finite S"
  shows "int (card ({a..<b} - S)) = b - a - int (card ({a..<b} \<inter> S))"
proof -
  have "card ({a..<b} - S) = card {a..<b} - card ({a..<b} \<inter> S)"
    by (simp add: card_Diff_subset_Int)
  moreover have "card ({a..<b} \<inter> S) \<le> card {a..<b}"
    by (rule card_mono) auto
  ultimately show ?thesis using assms(1) by simp
qed

lemma int_card_Un_disjoint:
  "finite A \<Longrightarrow> finite B \<Longrightarrow> A \<inter> B = {} \<Longrightarrow> int (card (A \<union> B)) = int (card A) + int (card B)"
  by (simp add: card_Un_disjoint)

section \<open>Early return\<close>

text \<open>
  \<open>then_ok\<close> is the C idiom \<open>if ((result=f(...)) != 0) return result;\<close>: the second step runs
  only after the first one succeeded, and the state reached so far is kept otherwise.
\<close>

definition then_ok :: "int \<times> 's \<Rightarrow> ('s \<Rightarrow> int \<times> 's) \<Rightarrow> int \<times> 's" where
  "then_ok r f = (if fst r \<noteq> 0 then r else f (snd r))"

lemma then_ok_0 [simp]: "then_ok (0, s) f = f s"
  by (simp add: then_ok_def)

lemma then_ok_err [simp]: "r \<noteq> 0 \<Longrightarrow> then_ok (r, s) f = (r, s)"
  by (simp add: then_ok_def)

lemma then_ok_success:
  "then_ok r f = (0, t) \<longleftrightarrow> (\<exists>s. r = (0, s) \<and> f s = (0, t))"
  by (cases r) (auto simp: then_ok_def)

text \<open>A step whose only failure is lack of memory.\<close>

definition oom_only :: "int \<times> 's \<Rightarrow> bool" where
  "oom_only r \<longleftrightarrow> fst r = 0 \<or> fst r = ENOMEM"

lemma oom_only_0: "oom_only (0, s)"
  by (simp add: oom_only_def)

lemma oom_only_then_ok: "oom_only r \<Longrightarrow> (\<And>s. oom_only (f s)) \<Longrightarrow> oom_only (then_ok r f)"
  by (auto simp: oom_only_def then_ok_def)

lemma oom_only_if: "oom_only a \<Longrightarrow> oom_only b \<Longrightarrow> oom_only (if c then a else b)"
  by simp

lemmas oom_only_intros = oom_only_0 oom_only_then_ok oom_only_if

lemma then_ok_oom:
  assumes "then_ok r (\<lambda>s. then_ok (f s) g) = (x, s')" "oom_only r" "\<And>s. oom_only (f s)"
    "\<not> (fst r = 0 \<and> fst (f (snd r)) = 0)"
  shows "x = ENOMEM"
  using assms(1,2,4) assms(3) [of "snd r"]
  by (cases r; cases "f (snd r)") (auto simp: then_ok_def oom_only_def split: if_splits)

end
