(* ===== verification/FS_Types.thy ===== *)
theory FS_Types
  imports FS_Prelude
begin

text \<open>
  The data the storage engine works on: block keys, slice sizes, trunk space and slice
  entries (\<open>src/common/fs_types.h\<close>, \<open>src/common/fs_func.h\<close>,
  \<open>src/server/storage/storage_types.h\<close>).

  A slice entry is a value here. Its fields \<open>ob\<close>, \<open>type\<close>, \<open>ssize\<close> and \<open>space\<close> are
  written once, before the entry is published, so every copy of it agrees; the field that
  does change, \<open>ref_count\<close>, is kept in a store addressed by \<open>sl_ptr\<close>, the entry's address
  (theory \<open>Slice_Heap\<close>). The pointer \<open>slice->ob\<close> is the key of the block it points to:
  keys are unique in the hash table.
\<close>

section \<open>Constants\<close>

abbreviation FS_FILE_BLOCK_SIZE :: int where "FS_FILE_BLOCK_SIZE \<equiv> 4194304"
abbreviation FS_SPACE_ALIGN_SIZE :: int where "FS_SPACE_ALIGN_SIZE \<equiv> 8"

section \<open>Records\<close>

record FSBlockKey =
  bk_oid :: int
  bk_offset :: int
  bk_hash_code :: int

record FSSliceSize =
  ss_offset :: int
  ss_length :: int

record FSBlockSliceKeyInfo =
  bs_block :: FSBlockKey
  bs_slice :: FSSliceSize

record FSTrunkIdInfo =
  ti_id :: int
  ti_subdir :: int

record FSTrunkSpaceInfo =
  ts_store :: nat
  ts_id_info :: FSTrunkIdInfo
  ts_offset :: int
  ts_size :: int

record FSTrunkSpaceWithVersion =
  tv_space :: FSTrunkSpaceInfo
  tv_version :: int

datatype OBSliceType = OB_SLICE_TYPE_FILE | OB_SLICE_TYPE_ALLOC

record OBSliceEntry =
  sl_ptr :: nat
  sl_ob :: nat
  sl_type :: OBSliceType
  sl_ssize :: FSSliceSize
  sl_space :: FSTrunkSpaceInfo

abbreviation sl_offset :: "OBSliceEntry \<Rightarrow> int" where
  "sl_offset s \<equiv> ss_offset (sl_ssize s)"

abbreviation sl_length :: "OBSliceEntry \<Rightarrow> int" where
  "sl_length s \<equiv> ss_length (sl_ssize s)"

abbreviation sl_end :: "OBSliceEntry \<Rightarrow> int" where
  "sl_end s \<equiv> sl_offset s + sl_length s"

section \<open>Functions of fs_func.h and fs_types.h\<close>

definition FS_FILE_BLOCK_ALIGN :: "int \<Rightarrow> int" where
  "FS_FILE_BLOCK_ALIGN offset = and offset (not (FS_FILE_BLOCK_SIZE - 1))"

definition FS_BLOCK_KEY_EQUAL :: "FSBlockKey \<Rightarrow> FSBlockKey \<Rightarrow> bool" where
  "FS_BLOCK_KEY_EQUAL k1 k2 \<longleftrightarrow> bk_oid k1 = bk_oid k2 \<and> bk_offset k1 = bk_offset k2"

text \<open>
  The sum is computed in \<open>int64_t\<close> and stored in a \<open>uint64_t\<close>; C division truncates, and
  the offset of a block is not negative.
\<close>

definition fs_calc_block_hashcode :: "FSBlockKey \<Rightarrow> FSBlockKey" where
  "fs_calc_block_hashcode k =
     k\<lparr>bk_hash_code := u64 (bk_oid k + bk_offset k + bk_offset k div FS_FILE_BLOCK_SIZE)\<rparr>"

definition fs_slice_is_overlap :: "FSSliceSize \<Rightarrow> FSSliceSize \<Rightarrow> bool" where
  "fs_slice_is_overlap s1 s2 =
     (if ss_offset s1 < ss_offset s2 then ss_offset s1 + ss_length s1 > ss_offset s2
      else ss_offset s2 + ss_length s2 > ss_offset s1)"

section \<open>Facts\<close>

definition ssize_range :: "FSSliceSize \<Rightarrow> int set" where
  "ssize_range s = {ss_offset s ..< ss_offset s + ss_length s}"

abbreviation slice_range :: "OBSliceEntry \<Rightarrow> int set" where
  "slice_range s \<equiv> ssize_range (sl_ssize s)"

lemma mem_ssize_range [simp]:
  "x \<in> ssize_range s \<longleftrightarrow> ss_offset s \<le> x \<and> x < ss_offset s + ss_length s"
  by (simp add: ssize_range_def)

lemma finite_ssize_range [simp]: "finite (ssize_range s)"
  by (simp add: ssize_range_def)

text \<open>\<open>fs_slice_is_overlap\<close> decides whether two non-empty slices share a byte.\<close>

lemma overlap_iff_common_byte:
  assumes "0 < ss_length a" "0 < ss_length b"
  shows "fs_slice_is_overlap a b \<longleftrightarrow> ssize_range a \<inter> ssize_range b \<noteq> {}"
proof -
  have "ssize_range a \<inter> ssize_range b =
      {max (ss_offset a) (ss_offset b) ..<
       min (ss_offset a + ss_length a) (ss_offset b + ss_length b)}"
    by (auto simp: ssize_range_def)
  then show ?thesis
    using assms by (auto simp: fs_slice_is_overlap_def max_def min_def)
qed

text \<open>The mask of \<open>FS_FILE_BLOCK_ALIGN\<close> rounds down to a multiple of the block size.\<close>

lemma block_align_eq: "FS_FILE_BLOCK_ALIGN x = x - x mod FS_FILE_BLOCK_SIZE"
proof -
  have m: "(FS_FILE_BLOCK_SIZE - 1 :: int) = mask 22" by (simp add: mask_eq_exp_minus_1)
  have "and x (not (mask 22)) = push_bit 22 (drop_bit 22 x)"
    by (rule bit_eqI) (auto simp: bit_simps)
  also have "\<dots> = x - take_bit 22 x"
    using bits_ident [of 22 x] by simp
  finally show ?thesis
    unfolding FS_FILE_BLOCK_ALIGN_def m by (simp add: take_bit_eq_mod)
qed

end
