(* ===== verification/FC_Contracts.thy ===== *)
theory FC_Contracts
  imports FS_Types "HOL-Library.Multiset"
begin

text \<open>
  The library functions the storage engine calls and this repository does not contain
  (libfastcommon: \<open>uniq_skiplist\<close>, \<open>fast_mblock\<close>, \<open>fc_list\<close>, \<open>fc_queue\<close>, \<open>fc_malloc\<close>,
  \<open>fc_compare_int64\<close>, \<open>MEM_ALIGN_CEIL\<close>) are parameters: the fields of the record
  \<open>fc_env\<close>, an argument of every definition that uses one of them. The locales
  \<open>skiplist_contract\<close> and \<open>fastcommon\<close> name what the engine relies on; \<open>list_env\<close> is a
  reference instance that satisfies them, used to evaluate the model.

  A skip list is represented by its level-0 chain, which the engine walks itself through
  the \<open>UNIQ_SKIPLIST_LEVEL0_*\<close> macros; a node is a position in that chain. A call that can
  run out of memory is also given the number of the call, so that two calls with equal
  arguments may differ; an allocation of an object is also told which addresses are in use,
  and answers \<open>None\<close> for a null pointer.
\<close>

section \<open>Comparison functions of the engine\<close>

definition slice_compare :: "OBSliceEntry \<Rightarrow> OBSliceEntry \<Rightarrow> int" where
  "slice_compare s1 s2 = sl_offset s1 - sl_offset s2"

section \<open>The parameters\<close>

record 'e uniq_skiplist =
  skl_find_ge :: "'e list \<Rightarrow> 'e \<Rightarrow> nat option"
  skl_find :: "'e list \<Rightarrow> 'e \<Rightarrow> 'e option"
  skl_insert :: "'e list \<Rightarrow> 'e \<Rightarrow> int \<times> 'e list"
  skl_delete :: "'e list \<Rightarrow> 'e \<Rightarrow> ('e \<times> 'e list) option"

record fc_env =
  env_slices :: "OBSliceEntry uniq_skiplist"
  env_trunks :: "(int \<times> nat) uniq_skiplist"
  env_malloc :: "nat \<Rightarrow> int \<Rightarrow> bool"
  env_slice_alloc :: "nat \<Rightarrow> (nat \<Rightarrow> bool) \<Rightarrow> nat option"
  env_trunk_alloc :: "nat \<Rightarrow> (nat \<Rightarrow> bool) \<Rightarrow> nat option"
  env_task_alloc :: "nat \<Rightarrow> bool"
  env_ob_alloc :: "nat \<Rightarrow> (nat \<Rightarrow> bool) \<Rightarrow> nat option"
  env_entry_alloc :: "nat \<Rightarrow> (nat \<Rightarrow> bool) \<Rightarrow> nat option"
  env_skl_new :: "nat \<Rightarrow> bool"
  env_list_add_tail :: "OBSliceEntry list \<Rightarrow> OBSliceEntry \<Rightarrow> OBSliceEntry list"
  env_list_del :: "OBSliceEntry list \<Rightarrow> OBSliceEntry \<Rightarrow> OBSliceEntry list"
  env_queue_push :: "nat list \<Rightarrow> nat \<Rightarrow> nat list"
  env_compare_int64 :: "int \<Rightarrow> int \<Rightarrow> int"
  env_align_ceil :: "int \<Rightarrow> int \<Rightarrow> int"
  env_ceil_prime :: "int \<Rightarrow> int"
  env_qsort :: "(OBSliceEntry \<Rightarrow> OBSliceEntry \<Rightarrow> int) \<Rightarrow> OBSliceEntry list \<Rightarrow> OBSliceEntry list"

text \<open>An element of a trunk's \<open>by_id\<close> skip list is a trunk pointer with the id it compares by.\<close>

definition compare_trunk_by_id :: "fc_env \<Rightarrow> int \<times> nat \<Rightarrow> int \<times> nat \<Rightarrow> int" where
  "compare_trunk_by_id E t1 t2 = env_compare_int64 E (fst t1) (fst t2)"

section \<open>What the engine relies on\<close>

definition skl_ordered :: "('e \<Rightarrow> 'e \<Rightarrow> int) \<Rightarrow> 'e list \<Rightarrow> bool" where
  "skl_ordered cmp xs \<longleftrightarrow> sorted_wrt (\<lambda>a b. cmp a b < 0) xs"

locale skiplist_contract =
  fixes S :: "'e uniq_skiplist"
    and cmp :: "'e \<Rightarrow> 'e \<Rightarrow> int"
  assumes cmp_refl: "cmp x x = 0"
    and find_ge_none: "skl_ordered cmp xs \<Longrightarrow>
          skl_find_ge S xs t = None \<longleftrightarrow> (\<forall>x\<in>set xs. cmp x t < 0)"
    and find_ge_some: "skl_ordered cmp xs \<Longrightarrow> skl_find_ge S xs t = Some i \<Longrightarrow>
          i < length xs \<and> 0 \<le> cmp (xs ! i) t \<and> (\<forall>j<i. cmp (xs ! j) t < 0)"
    and find_eq: "skl_ordered cmp xs \<Longrightarrow> skl_find S xs t = find (\<lambda>x. cmp x t = 0) xs"
    and insert_new: "skl_ordered cmp xs \<Longrightarrow> (\<forall>x\<in>set xs. cmp x e \<noteq> 0) \<Longrightarrow>
          \<exists>ys. skl_insert S xs e = (0, ys) \<and> skl_ordered cmp ys \<and> set ys = insert e (set xs)"
    and insert_dup: "skl_ordered cmp xs \<Longrightarrow> x \<in> set xs \<Longrightarrow> cmp x e = 0 \<Longrightarrow>
          skl_insert S xs e = (EEXIST, xs)"
    and delete_hit: "skl_ordered cmp xs \<Longrightarrow> x \<in> set xs \<Longrightarrow> cmp x e = 0 \<Longrightarrow>
          skl_delete S xs e = Some (x, remove1 x xs)"
    and delete_miss: "skl_ordered cmp xs \<Longrightarrow> (\<forall>x\<in>set xs. cmp x e \<noteq> 0) \<Longrightarrow>
          skl_delete S xs e = None"
begin

lemma ordered_distinct: "skl_ordered cmp xs \<Longrightarrow> distinct xs"
  unfolding skl_ordered_def by (rule sorted_wrt_irrefl_distinct) (auto simp: cmp_refl)

lemma delete_mem:
  assumes "skl_ordered cmp xs" "x \<in> set xs"
  shows "skl_delete S xs x = Some (x, remove1 x xs)"
    and "skl_ordered cmp (remove1 x xs)"
    and "set (remove1 x xs) = set xs - {x}"
proof -
  show "skl_delete S xs x = Some (x, remove1 x xs)"
    by (rule delete_hit [OF assms cmp_refl])
  show "skl_ordered cmp (remove1 x xs)"
    using assms(1) unfolding skl_ordered_def by (rule sorted_wrt_remove1)
  show "set (remove1 x xs) = set xs - {x}"
    using ordered_distinct [OF assms(1)] by simp
qed

text \<open>
  Together the two results of \<open>find_ge\<close> split the chain where the callers need it: the nodes
  before the position are smaller than the target and the ones from it on are not.
\<close>

definition ge_pos :: "'e list \<Rightarrow> 'e \<Rightarrow> nat" where
  "ge_pos xs t = (case skl_find_ge S xs t of None \<Rightarrow> length xs | Some i \<Rightarrow> i)"

lemma find_ge_split:
  assumes "skl_ordered cmp xs"
  shows "\<forall>x\<in>set (take (ge_pos xs t) xs). cmp x t < 0"
    and "ge_pos xs t < length xs \<Longrightarrow> 0 \<le> cmp (xs ! ge_pos xs t) t"
    and "ge_pos xs t \<le> length xs"
    and "skl_find_ge S xs t = None \<longleftrightarrow> ge_pos xs t = length xs"
  using find_ge_none [OF assms, of t] find_ge_some [OF assms, of t]
  unfolding ge_pos_def by (fastforce split: option.splits simp: in_set_conv_nth)+

end

locale fastcommon =
  SL: skiplist_contract "env_slices E" slice_compare +
  TR: skiplist_contract "env_trunks E" "compare_trunk_by_id E"
  for E :: fc_env +
  assumes slice_alloc_fresh: "env_slice_alloc E k used = Some p \<Longrightarrow> \<not> used p"
    and trunk_alloc_fresh: "env_trunk_alloc E k used = Some p \<Longrightarrow> \<not> used p"
    and ob_alloc_fresh: "env_ob_alloc E k used = Some p \<Longrightarrow> \<not> used p"
    and entry_alloc_fresh: "env_entry_alloc E k used = Some p \<Longrightarrow> \<not> used p"
    and list_add_tail: "env_list_add_tail E xs s = xs @ [s]"
    and list_del: "env_list_del E xs s = remove1 s xs"
    and queue_push: "env_queue_push E q p = q @ [p]"
    and compare_int64_neg: "env_compare_int64 E a b < 0 \<longleftrightarrow> a < b"
    and compare_int64_zero: "env_compare_int64 E a b = 0 \<longleftrightarrow> a = b"
    and align_ceil: "0 < n \<Longrightarrow> 0 \<le> x \<Longrightarrow>
          x \<le> env_align_ceil E x n \<and> env_align_ceil E x n < x + n \<and> n dvd env_align_ceil E x n"
    and ceil_prime: "x \<le> env_ceil_prime E x"
    and qsort_perm: "mset (env_qsort E cmp xs) = mset xs"
    and qsort_sorted: "(\<And>a b. cmp a b \<le> 0 \<or> cmp b a \<le> 0) \<Longrightarrow>
          (\<And>a b c. cmp a b \<le> 0 \<Longrightarrow> cmp b c \<le> 0 \<Longrightarrow> cmp a c \<le> 0) \<Longrightarrow>
          sorted_wrt (\<lambda>a b. cmp a b \<le> 0) (env_qsort E cmp xs)"

section \<open>A reference instance\<close>

definition list_skiplist :: "('e \<Rightarrow> int) \<Rightarrow> 'e uniq_skiplist" where
  "list_skiplist key = \<lparr>
     skl_find_ge = (\<lambda>xs t. let i = length (takeWhile (\<lambda>x. key x < key t) xs)
                           in if i < length xs then Some i else None),
     skl_find = (\<lambda>xs t. find (\<lambda>x. key x = key t) xs),
     skl_insert = (\<lambda>xs e. if \<exists>x\<in>set xs. key x = key e then (EEXIST, xs)
                          else (0, insort_key key e xs)),
     skl_delete = (\<lambda>xs e. case find (\<lambda>x. key x = key e) xs of
                            None \<Rightarrow> None | Some x \<Rightarrow> Some (x, remove1 x xs))\<rparr>"

lemma sorted_wrt_insort_key:
  "sorted_wrt (\<lambda>a b. key a < (key b :: int)) xs \<Longrightarrow> (\<forall>x\<in>set xs. key x \<noteq> key e) \<Longrightarrow>
   sorted_wrt (\<lambda>a b. key a < key b) (insort_key key e xs)"
  by (induction xs) (auto simp: set_insort_key)

lemma find_key_unique:
  assumes "sorted_wrt (\<lambda>a b. key a < (key b :: int)) xs" "x \<in> set xs"
  shows "find (\<lambda>y. key y = key x) xs = Some x"
  using assms by (induction xs) auto

lemma length_takeWhile_less: "length (takeWhile P xs) < length xs \<longleftrightarrow> \<not> (\<forall>x\<in>set xs. P x)"
  by (induction xs) auto

lemma list_skiplist_contract:
  assumes neg: "\<And>a b. cmp a b < 0 \<longleftrightarrow> key a < key b"
    and zero: "\<And>a b. cmp a b = 0 \<longleftrightarrow> key a = key b"
  shows "skiplist_contract (list_skiplist key) cmp"
proof
  fix xs :: "'a list" and t e x :: 'a and i :: nat
  have ge: "0 \<le> cmp a b \<longleftrightarrow> key b \<le> key a" for a b
    using neg [of a b] by linarith
  show "cmp x x = 0" by (simp add: zero)
  show "skl_find_ge (list_skiplist key) xs t = None \<longleftrightarrow> (\<forall>x\<in>set xs. cmp x t < 0)"
    by (simp add: list_skiplist_def neg Let_def length_takeWhile_less)
  show "i < length xs \<and> 0 \<le> cmp (xs ! i) t \<and> (\<forall>j<i. cmp (xs ! j) t < 0)"
    if "skl_find_ge (list_skiplist key) xs t = Some i"
  proof -
    from that have i: "i = length (takeWhile (\<lambda>x. key x < key t) xs)" "i < length xs"
      by (auto simp: list_skiplist_def Let_def split: if_splits)
    then have "\<not> key (xs ! i) < key t"
      using nth_length_takeWhile by fastforce
    moreover have "key (xs ! j) < key t" if "j < i" for j
      using that i(1) by (metis nth_mem set_takeWhileD takeWhile_nth)
    ultimately show ?thesis using i(2) by (simp add: ge neg)
  qed
  show "skl_find (list_skiplist key) xs t = find (\<lambda>x. cmp x t = 0) xs"
    by (simp add: list_skiplist_def zero)
  show "\<exists>ys. skl_insert (list_skiplist key) xs e = (0, ys) \<and> skl_ordered cmp ys \<and>
          set ys = insert e (set xs)"
    if "skl_ordered cmp xs" "\<forall>x\<in>set xs. cmp x e \<noteq> 0"
    using that sorted_wrt_insort_key [of key xs e]
    by (auto simp: list_skiplist_def skl_ordered_def neg zero set_insort_key)
  show "skl_insert (list_skiplist key) xs e = (EEXIST, xs)"
    if "x \<in> set xs" "cmp x e = 0"
    using that by (auto simp: list_skiplist_def zero)
  show "skl_delete (list_skiplist key) xs e = Some (x, remove1 x xs)"
    if "skl_ordered cmp xs" "x \<in> set xs" "cmp x e = 0"
    using that find_key_unique [of key xs x]
    by (auto simp: list_skiplist_def skl_ordered_def neg zero)
  show "skl_delete (list_skiplist key) xs e = None" if "\<forall>x\<in>set xs. cmp x e \<noteq> 0"
    using that by (auto simp: list_skiplist_def zero find_None_iff split: option.splits)
qed

definition fresh_addr :: "(nat \<Rightarrow> bool) \<Rightarrow> nat \<Rightarrow> nat option" where
  "fresh_addr used p = (if used p then None else Some p)"

fun insert_cmp :: "('e \<Rightarrow> 'e \<Rightarrow> int) \<Rightarrow> 'e \<Rightarrow> 'e list \<Rightarrow> 'e list" where
  "insert_cmp cmp x [] = [x]"
| "insert_cmp cmp x (y # ys) = (if cmp x y \<le> 0 then x # y # ys else y # insert_cmp cmp x ys)"

lemma insert_cmp_mset: "mset (insert_cmp cmp x ys) = add_mset x (mset ys)"
  by (induction ys) auto

lemma insert_cmp_sorted:
  assumes "\<And>a b. cmp a b \<le> 0 \<or> cmp b a \<le> 0"
    "\<And>a b c. cmp a b \<le> 0 \<Longrightarrow> cmp b c \<le> 0 \<Longrightarrow> cmp a c \<le> 0"
    "sorted_wrt (\<lambda>a b. cmp a b \<le> 0) ys"
  shows "sorted_wrt (\<lambda>a b. cmp a b \<le> 0) (insert_cmp cmp x ys)"
  using assms(3)
proof (induction ys)
  case (Cons y ys)
  have "set (insert_cmp cmp x ys) = insert x (set ys)"
    by (metis insert_cmp_mset set_mset_add_mset_insert set_mset_mset)
  with Cons assms(1) [of x y] show ?case by (auto intro: assms(2))
qed simp

lemma insertion_sort_mset: "mset (foldr (insert_cmp cmp) xs []) = mset xs"
  by (induction xs) (auto simp: insert_cmp_mset)

lemma insertion_sort_sorted:
  assumes "\<And>a b. cmp a b \<le> 0 \<or> cmp b a \<le> 0"
    "\<And>a b c. cmp a b \<le> 0 \<Longrightarrow> cmp b c \<le> 0 \<Longrightarrow> cmp a c \<le> 0"
  shows "sorted_wrt (\<lambda>a b. cmp a b \<le> 0) (foldr (insert_cmp cmp) xs [])"
  by (induction xs) (auto intro: insert_cmp_sorted [OF assms])

definition list_env :: fc_env where
  "list_env = \<lparr>
     env_slices = list_skiplist sl_offset,
     env_trunks = list_skiplist fst,
     env_malloc = (\<lambda>_ _. True),
     env_slice_alloc = (\<lambda>k used. fresh_addr used (1000 + k)),
     env_trunk_alloc = (\<lambda>k used. fresh_addr used (1000 + k)),
     env_task_alloc = (\<lambda>_. True),
     env_ob_alloc = (\<lambda>k used. fresh_addr used (1000 + k)),
     env_entry_alloc = (\<lambda>k used. fresh_addr used (1000 + k)),
     env_skl_new = (\<lambda>_. True),
     env_list_add_tail = (\<lambda>xs s. xs @ [s]),
     env_list_del = (\<lambda>xs s. remove1 s xs),
     env_queue_push = (\<lambda>q p. q @ [p]),
     env_compare_int64 = (\<lambda>a b. if a < b then -1 else if a = b then 0 else 1),
     env_align_ceil = (\<lambda>x n. (x + n - 1) div n * n),
     env_ceil_prime = (\<lambda>x. x),
     env_qsort = (\<lambda>cmp xs. foldr (insert_cmp cmp) xs [])\<rparr>"

lemma ceil_mult_bounds:
  fixes x n :: int
  assumes "0 < n"
  shows "x \<le> (x + n - 1) div n * n" "(x + n - 1) div n * n < x + n"
proof -
  have "(x + n - 1) div n * n = x + n - 1 - (x + n - 1) mod n"
    by (simp add: minus_mod_eq_div_mult)
  then show "x \<le> (x + n - 1) div n * n" "(x + n - 1) div n * n < x + n"
    using pos_mod_bound [OF assms, of "x + n - 1"] pos_mod_sign [OF assms, of "x + n - 1"]
    by linarith+
qed

interpretation list_fc: fastcommon list_env
proof -
  have 1: "skiplist_contract (env_slices list_env) slice_compare"
    by (simp add: list_env_def list_skiplist_contract slice_compare_def)
  have 2: "skiplist_contract (env_trunks list_env) (compare_trunk_by_id list_env)"
    unfolding list_env_def by (simp, rule list_skiplist_contract)
      (auto simp: compare_trunk_by_id_def)
  show "fastcommon list_env"
    by (rule fastcommon.intro [OF 1 2], unfold_locales)
      (auto simp: list_env_def fresh_addr_def ceil_mult_bounds insertion_sort_mset
        simp del: foldr.simps split: if_splits, rule insertion_sort_sorted)
qed

section \<open>\<open>qsort\<close> on other elements\<close>

type_synonym 'e qsort_fun = "('e \<Rightarrow> 'e \<Rightarrow> int) \<Rightarrow> 'e list \<Rightarrow> 'e list"

locale qsort_contract =
  fixes qs :: "'e qsort_fun"
  assumes perm: "mset (qs cmp xs) = mset xs"
    and sorted: "(\<And>a b. cmp a b \<le> 0 \<or> cmp b a \<le> 0) \<Longrightarrow> (\<And>a b c. cmp a b \<le> 0 \<Longrightarrow> cmp b c \<le> 0 \<Longrightarrow> cmp a c \<le> 0) \<Longrightarrow>
      sorted_wrt (\<lambda>a b. cmp a b \<le> 0) (qs cmp xs)"

definition list_qsort :: "'e qsort_fun" where
  "list_qsort cmp xs = foldr (insert_cmp cmp) xs []"

interpretation list_qs: qsort_contract list_qsort
proof
  fix cmp :: "'e \<Rightarrow> 'e \<Rightarrow> int" and xs
  show "mset (list_qsort cmp xs) = mset xs" by (simp add: list_qsort_def insertion_sort_mset)
  assume "\<And>a b. cmp a b \<le> 0 \<or> cmp b a \<le> 0" "\<And>a b c. cmp a b \<le> 0 \<Longrightarrow> cmp b c \<le> 0 \<Longrightarrow> cmp a c \<le> 0"
  then show "sorted_wrt (\<lambda>a b. cmp a b \<le> 0) (list_qsort cmp xs)" unfolding list_qsort_def by (rule insertion_sort_sorted)
qed

end
