(* ===== verification/Slice_Heap.thy ===== *)
theory Slice_Heap
  imports FC_Contracts
begin

text \<open>
  The memory of slice entries: allocation from the \<open>slice_entry\<close> pool and the reference
  counts (\<open>ob_index_free_slice\<close>, \<open>slice_free_func\<close> and the \<open>__sync_*\<close> counter updates of
  \<open>src/server/storage/object_block_index.c\<close>). An address without an entry in \<open>sh_refs\<close> is
  free. A new object has the count 0: \<open>fast_mblock\<close> hands out zeroed memory, and an object
  goes back to the pool with its count at 0.
\<close>

record slice_heap =
  sh_refs :: "nat \<rightharpoonup> int"
  sh_calls :: nat

abbreviation heap_used :: "slice_heap \<Rightarrow> nat \<Rightarrow> bool" where
  "heap_used h p \<equiv> sh_refs h p \<noteq> None"

definition heap_alloc :: "fc_env \<Rightarrow> slice_heap \<Rightarrow> nat option \<times> slice_heap" where
  "heap_alloc E h =
     (let h1 = h\<lparr>sh_calls := Suc (sh_calls h)\<rparr>
      in case env_slice_alloc E (sh_calls h) (heap_used h) of
           None \<Rightarrow> (None, h1)
         | Some p \<Rightarrow> (Some p, h1\<lparr>sh_refs := (sh_refs h)(p \<mapsto> 0)\<rparr>))"

definition heap_malloc :: "fc_env \<Rightarrow> int \<Rightarrow> slice_heap \<Rightarrow> bool \<times> slice_heap" where
  "heap_malloc E bytes h =
     (env_malloc E (sh_calls h) bytes, h\<lparr>sh_calls := Suc (sh_calls h)\<rparr>)"

definition slice_add_ref :: "nat \<Rightarrow> int \<Rightarrow> slice_heap \<Rightarrow> slice_heap" where
  "slice_add_ref p n h = h\<lparr>sh_refs := (sh_refs h)(p := map_option (\<lambda>c. c + n) (sh_refs h p))\<rparr>"

definition ob_index_free_slice :: "OBSliceEntry \<Rightarrow> slice_heap \<Rightarrow> slice_heap" where
  "ob_index_free_slice s h =
     (case sh_refs h (sl_ptr s) of
        None \<Rightarrow> h
      | Some c \<Rightarrow> if c - 1 = 0 then h\<lparr>sh_refs := (sh_refs h)(sl_ptr s := None)\<rparr>
                  else h\<lparr>sh_refs := (sh_refs h)(sl_ptr s \<mapsto> c - 1)\<rparr>)"

definition slice_free_func :: "OBSliceEntry \<Rightarrow> slice_heap \<Rightarrow> slice_heap" where
  "slice_free_func s h =
     (case sh_refs h (sl_ptr s) of
        None \<Rightarrow> h
      | Some c \<Rightarrow> if c - 1 = 0 then h\<lparr>sh_refs := (sh_refs h)(sl_ptr s := None)\<rparr>
                  else h\<lparr>sh_refs := (sh_refs h)(sl_ptr s \<mapsto> c - 1)\<rparr>)"

section \<open>Facts\<close>

text \<open>The two release functions of the source have the same body.\<close>

lemma slice_free_func_eq: "slice_free_func = ob_index_free_slice"
  by (intro ext) (simp add: slice_free_func_def ob_index_free_slice_def)

lemma free_slice_other [simp]:
  "p \<noteq> sl_ptr s \<Longrightarrow> sh_refs (ob_index_free_slice s h) p = sh_refs h p"
  by (simp add: ob_index_free_slice_def split: option.splits)

lemma free_slice_last:
  "sh_refs h (sl_ptr s) = Some 1 \<Longrightarrow> sh_refs (ob_index_free_slice s h) (sl_ptr s) = None"
  by (simp add: ob_index_free_slice_def)

lemma free_slice_shared:
  "sh_refs h (sl_ptr s) = Some c \<Longrightarrow> c \<noteq> 1 \<Longrightarrow>
   sh_refs (ob_index_free_slice s h) (sl_ptr s) = Some (c - 1)"
  by (simp add: ob_index_free_slice_def)

lemma add_ref_apply [simp]:
  "sh_refs (slice_add_ref p n h) q =
     (if q = p then map_option (\<lambda>c. c + n) (sh_refs h p) else sh_refs h q)"
  by (simp add: slice_add_ref_def)

lemma heap_malloc_refs [simp]: "heap_malloc E b h = (ok, h') \<Longrightarrow> sh_refs h' = sh_refs h"
  by (auto simp: heap_malloc_def)

context fastcommon
begin

lemma heap_alloc_Some:
  assumes "heap_alloc E h = (Some p, h')"
  shows "sh_refs h p = None" "sh_refs h' = (sh_refs h)(p \<mapsto> 0)"
  using assms slice_alloc_fresh [of "sh_calls h" "heap_used h" p]
  by (auto simp: heap_alloc_def Let_def split: option.splits)

lemma heap_alloc_None: "heap_alloc E h = (None, h') \<Longrightarrow> sh_refs h' = sh_refs h"
  by (auto simp: heap_alloc_def Let_def split: option.splits)

end

end
