(* ===== verification/Trunk_Allocator.thy ===== *)
theory Trunk_Allocator
  imports Complex_Main Slice_Heap
begin

text \<open>
  Trunk files and the per-path trunk allocators: the data of
  \<open>src/server/storage/storage_types.h\<close>, \<open>trunk_allocator.h\<close>, \<open>trunk_freelist.h\<close> and
  \<open>storage_allocator.h\<close>, and the operations of \<open>trunk_allocator.c\<close> that keep the books of a
  trunk: which slices live in it (\<open>used.slice_head\<close>), how many they are (\<open>used.count\<close>) and
  how many bytes they take (\<open>used.bytes\<close>).

  Trunk structs are mutated in place and shared between the skip lists, the free lists and
  the event queue, so they live in a store \<open>am_trunks\<close> and are named by address. An allocator
  is named by the index of its store path, its position in \<open>allocator_ptr_array\<close>. A chained
  list (\<open>freelist.head\<close> through \<open>alloc.next\<close>) is a list, head first.
\<close>

section \<open>Data\<close>

datatype trunk_status = FS_TRUNK_STATUS_NONE | FS_TRUNK_STATUS_REPUSH
  | FS_TRUNK_STATUS_ALLOCING | FS_TRUNK_STATUS_RECLAIMING

datatype trunk_util_event = EVENT_NONE | EVENT_CREATE | EVENT_UPDATE

record FSTrunkFileInfo =
  tf_allocator :: nat
  tf_id_info :: FSTrunkIdInfo
  tf_status :: trunk_status
  tf_used_count :: int
  tf_used_bytes :: int
  tf_slices :: "OBSliceEntry list"
  tf_size :: int
  tf_free_start :: int
  tf_event :: trunk_util_event
  tf_last_used_bytes :: int

abbreviation tf_id :: "FSTrunkFileInfo \<Rightarrow> int" where
  "tf_id t \<equiv> ti_id (tf_id_info t)"

abbreviation FS_TRUNK_AVAIL_SPACE :: "FSTrunkFileInfo \<Rightarrow> int" where
  "FS_TRUNK_AVAIL_SPACE t \<equiv> tf_size t - tf_free_start t"

record FSTrunkFreelist =
  fl_count :: int
  fl_water_mark :: int
  fl_trunks :: "nat list"

record FSStoragePathInfo =
  pi_trunk_total :: int
  pi_trunk_avail :: int
  pi_trunk_used :: int
  pi_trunk_last_used :: int
  pi_space_avail :: int
  pi_reserved :: int
  pi_last_stat_time :: int
  pi_used_ratio :: rat
  pi_reserved_ratio :: rat

record FSTrunkAllocator =
  ta_path_info :: FSStoragePathInfo
  ta_by_id :: "(int \<times> nat) list"
  ta_by_size :: "nat list"
  ta_freelist :: FSTrunkFreelist
  ta_last_trigger_time :: int
  ta_creating_trunks :: int
  ta_waiting_callers :: int
  ta_current_version :: int
  ta_last_errno :: int
  ta_queue :: "nat list"

record FSTrunkAllocatorPtrArray =
  aa_alloc :: int
  aa_items :: "nat list"

record FSStorageAllocatorManager =
  am_trunks :: "nat \<rightharpoonup> FSTrunkFileInfo"
  am_allocators :: "nat \<rightharpoonup> FSTrunkAllocator"
  am_full :: FSTrunkAllocatorPtrArray
  am_avail :: FSTrunkAllocatorPtrArray
  am_reclaim_freelist :: FSTrunkFreelist
  am_maker_tasks :: "(nat \<times> bool) list"
  am_delay_free :: "nat list"
  am_now :: int
  am_continue :: bool
  am_calls :: nat

text \<open>In-place updates of a shared struct.\<close>

definition upd_trunk :: "nat \<Rightarrow> (FSTrunkFileInfo \<Rightarrow> FSTrunkFileInfo) \<Rightarrow>
    FSStorageAllocatorManager \<Rightarrow> FSStorageAllocatorManager" where
  "upd_trunk p f m = m\<lparr>am_trunks := (am_trunks m)(p := map_option f (am_trunks m p))\<rparr>"

definition upd_allocator :: "nat \<Rightarrow> (FSTrunkAllocator \<Rightarrow> FSTrunkAllocator) \<Rightarrow>
    FSStorageAllocatorManager \<Rightarrow> FSStorageAllocatorManager" where
  "upd_allocator i f m = m\<lparr>am_allocators := (am_allocators m)(i := map_option f (am_allocators m i))\<rparr>"

definition upd_path_info :: "nat \<Rightarrow> (FSStoragePathInfo \<Rightarrow> FSStoragePathInfo) \<Rightarrow>
    FSStorageAllocatorManager \<Rightarrow> FSStorageAllocatorManager" where
  "upd_path_info i f = upd_allocator i (\<lambda>a. a\<lparr>ta_path_info := f (ta_path_info a)\<rparr>)"

section \<open>Operations\<close>

definition fs_set_trunk_status :: "nat \<Rightarrow> trunk_status \<Rightarrow> FSStorageAllocatorManager \<Rightarrow>
    FSStorageAllocatorManager" where
  "fs_set_trunk_status p new_status = upd_trunk p (\<lambda>t. t\<lparr>tf_status := new_status\<rparr>)"

definition push_trunk_util_change_event :: "fc_env \<Rightarrow> nat \<Rightarrow> nat \<Rightarrow> trunk_util_event \<Rightarrow>
    FSStorageAllocatorManager \<Rightarrow> FSStorageAllocatorManager" where
  "push_trunk_util_change_event E i p event m =
     (case am_trunks m p of
        None \<Rightarrow> m
      | Some t \<Rightarrow>
          if tf_event t = EVENT_NONE then
            upd_allocator i (\<lambda>a. a\<lparr>ta_queue := env_queue_push E (ta_queue a) p\<rparr>)
              (upd_trunk p (\<lambda>t. t\<lparr>tf_event := event\<rparr>) m)
          else m)"

text \<open>
  \<open>trunk_allocator_add\<close> takes a struct from the pool, fills it in and inserts it into the
  list by id; a duplicate id is refused and the struct released.
\<close>

definition new_trunk :: "nat \<Rightarrow> FSTrunkIdInfo \<Rightarrow> int \<Rightarrow> FSTrunkFileInfo" where
  "new_trunk i id_info sz = \<lparr>tf_allocator = i, tf_id_info = id_info,
     tf_status = FS_TRUNK_STATUS_NONE, tf_used_count = 0, tf_used_bytes = 0, tf_slices = [],
     tf_size = sz, tf_free_start = 0, tf_event = EVENT_NONE, tf_last_used_bytes = 0\<rparr>"

definition trunk_allocator_add :: "fc_env \<Rightarrow> nat \<Rightarrow> FSTrunkIdInfo \<Rightarrow> int \<Rightarrow>
    FSStorageAllocatorManager \<Rightarrow> int \<times> nat option \<times> FSStorageAllocatorManager" where
  "trunk_allocator_add E i id_info sz m =
     (let m1 = m\<lparr>am_calls := Suc (am_calls m)\<rparr>
      in case env_trunk_alloc E (am_calls m) (\<lambda>p. am_trunks m p \<noteq> None) of
           None \<Rightarrow> (ENOMEM, None, m1)
         | Some p \<Rightarrow>
             (case am_allocators m i of
                None \<Rightarrow> (FAULT, None, m1)
              | Some a \<Rightarrow>
                  (case skl_insert (env_trunks E) (ta_by_id a) (ti_id id_info, p) of (result, by_id) \<Rightarrow>
                     if result \<noteq> 0 then (result, None, m1)
                     else (0, Some p,
                       upd_allocator i (\<lambda>a. a\<lparr>ta_by_id := by_id\<rparr>)
                         (m1\<lparr>am_trunks := (am_trunks m)(p \<mapsto> new_trunk i id_info sz)\<rparr>)))))"

text \<open>The skip list hands the removed struct to a free that is delayed by 600 seconds.\<close>

definition trunk_allocator_delete :: "fc_env \<Rightarrow> nat \<Rightarrow> int \<Rightarrow> FSStorageAllocatorManager \<Rightarrow>
    int \<times> FSStorageAllocatorManager" where
  "trunk_allocator_delete E i tid m =
     (case am_allocators m i of
        None \<Rightarrow> (FAULT, m)
      | Some a \<Rightarrow>
          (case skl_delete (env_trunks E) (ta_by_id a) (tid, 0) of
             None \<Rightarrow> (ENOENT, m)
           | Some ((_, p), by_id) \<Rightarrow>
               (0, upd_allocator i (\<lambda>a. a\<lparr>ta_by_id := by_id\<rparr>)
                     (m\<lparr>am_delay_free := am_delay_free m @ [p]\<rparr>))))"

definition find_trunk :: "fc_env \<Rightarrow> nat \<Rightarrow> int \<Rightarrow> FSStorageAllocatorManager \<Rightarrow> nat option" where
  "find_trunk E i tid m =
     (case am_allocators m i of
        None \<Rightarrow> None
      | Some a \<Rightarrow> map_option snd (skl_find (env_trunks E) (ta_by_id a) (tid, 0)))"

definition trunk_allocator_add_slice :: "fc_env \<Rightarrow> nat \<Rightarrow> OBSliceEntry \<Rightarrow>
    FSStorageAllocatorManager \<Rightarrow> int \<times> FSStorageAllocatorManager" where
  "trunk_allocator_add_slice E i slice m =
     (case find_trunk E i (ti_id (ts_id_info (sl_space slice))) m of
        None \<Rightarrow> (ENOENT, m)
      | Some p \<Rightarrow>
          (0, upd_trunk p (\<lambda>t. t\<lparr>tf_used_bytes := tf_used_bytes t + ts_size (sl_space slice),
                tf_used_count := tf_used_count t + 1,
                tf_slices := env_list_add_tail E (tf_slices t) slice\<rparr>) m))"

text \<open>While the slice binlog is loaded, the free start follows the highest byte in use.\<close>

definition batch_add_one :: "fc_env \<Rightarrow> OBSliceEntry \<Rightarrow> FSTrunkFileInfo \<Rightarrow> FSTrunkFileInfo" where
  "batch_add_one E slice t =
     (let used_end = ts_offset (sl_space slice) + ts_size (sl_space slice);
          t1 = (if used_end > tf_free_start t then t\<lparr>tf_free_start := used_end\<rparr> else t)
      in t1\<lparr>tf_used_bytes := tf_used_bytes t1 + ts_size (sl_space slice),
            tf_used_count := tf_used_count t1 + 1,
            tf_slices := env_list_add_tail E (tf_slices t1) slice\<rparr>)"

definition trunk_allocator_batch_add_slices :: "fc_env \<Rightarrow> OBSliceEntry list \<Rightarrow>
    FSStorageAllocatorManager \<Rightarrow> int \<times> FSStorageAllocatorManager" where
  "trunk_allocator_batch_add_slices E slices m =
     (case slices of
        [] \<Rightarrow> (0, m)
      | s # _ \<Rightarrow>
          (case find_trunk E (ts_store (sl_space s)) (ti_id (ts_id_info (sl_space s))) m of
             None \<Rightarrow> (if am_allocators m (ts_store (sl_space s)) = None then (FAULT, m)
                      else (ENOENT, m))
           | Some p \<Rightarrow> (0, upd_trunk p (fold (batch_add_one E) slices) m)))"

definition trunk_allocator_delete_slice :: "fc_env \<Rightarrow> nat \<Rightarrow> OBSliceEntry \<Rightarrow>
    FSStorageAllocatorManager \<Rightarrow> int \<times> FSStorageAllocatorManager" where
  "trunk_allocator_delete_slice E i slice m =
     (case find_trunk E i (ti_id (ts_id_info (sl_space slice))) m of
        None \<Rightarrow> (ENOENT, m)
      | Some p \<Rightarrow>
          (0, push_trunk_util_change_event E i p EVENT_UPDATE
                (upd_trunk p (\<lambda>t. t\<lparr>tf_used_bytes := tf_used_bytes t - ts_size (sl_space slice),
                   tf_used_count := tf_used_count t - 1,
                   tf_slices := env_list_del E (tf_slices t) slice\<rparr>) m)))"

text \<open>The entry points of \<open>storage_allocator.h\<close> that the block index calls.\<close>

definition storage_allocator_add_slice :: "fc_env \<Rightarrow> OBSliceEntry \<Rightarrow> bool \<Rightarrow>
    FSStorageAllocatorManager \<Rightarrow> int \<times> FSStorageAllocatorManager" where
  "storage_allocator_add_slice E slice modify_used_space m =
     (let i = ts_store (sl_space slice)
      in if am_allocators m i = None then (FAULT, m)
         else trunk_allocator_add_slice E i slice
           (if modify_used_space
            then upd_path_info i (\<lambda>q. q\<lparr>pi_trunk_used := pi_trunk_used q + ts_size (sl_space slice)\<rparr>) m
            else m))"

definition storage_allocator_delete_slice :: "fc_env \<Rightarrow> OBSliceEntry \<Rightarrow> bool \<Rightarrow>
    FSStorageAllocatorManager \<Rightarrow> int \<times> FSStorageAllocatorManager" where
  "storage_allocator_delete_slice E slice modify_used_space m =
     (let i = ts_store (sl_space slice)
      in if am_allocators m i = None then (FAULT, m)
         else trunk_allocator_delete_slice E i slice
           (if modify_used_space
            then upd_path_info i (\<lambda>q. q\<lparr>pi_trunk_used := pi_trunk_used q - ts_size (sl_space slice)\<rparr>) m
            else m))"

section \<open>Well-formed managers\<close>

text \<open>
  Every id list is ordered, its pointers lead to live trunks of that allocator and id, and
  the books of each trunk add up.
\<close>

definition trunk_books_ok :: "FSTrunkFileInfo \<Rightarrow> bool" where
  "trunk_books_ok t \<longleftrightarrow> tf_used_count t = int (length (tf_slices t)) \<and>
     tf_used_bytes t = (\<Sum>s\<leftarrow>tf_slices t. ts_size (sl_space s))"

definition trunk_at :: "FSStorageAllocatorManager \<Rightarrow> nat \<Rightarrow> int \<Rightarrow> nat \<Rightarrow> bool" where
  "trunk_at m i tid p \<longleftrightarrow>
     (\<exists>t. am_trunks m p = Some t \<and> tf_allocator t = i \<and> tf_id t = tid)"

definition mgr_ok :: "fc_env \<Rightarrow> FSStorageAllocatorManager \<Rightarrow> bool" where
  "mgr_ok E m \<longleftrightarrow>
     (\<forall>i a. am_allocators m i = Some a \<longrightarrow> skl_ordered (compare_trunk_by_id E) (ta_by_id a) \<and>
        (\<forall>(tid, p)\<in>set (ta_by_id a). trunk_at m i tid p)) \<and>
     (\<forall>p t. am_trunks m p = Some t \<longrightarrow> trunk_books_ok t)"

text \<open>The slices booked on the trunk with a given path index and id, if there is one.\<close>

definition trunk_key :: "OBSliceEntry \<Rightarrow> nat \<times> int" where
  "trunk_key s = (ts_store (sl_space s), ti_id (ts_id_info (sl_space s)))"

definition booked :: "fc_env \<Rightarrow> FSStorageAllocatorManager \<Rightarrow> nat \<times> int \<Rightarrow> OBSliceEntry list option" where
  "booked E m k =
     (case find_trunk E (fst k) (snd k) m of
        None \<Rightarrow> None
      | Some p \<Rightarrow> map_option tf_slices (am_trunks m p))"

section \<open>The interface to the block index\<close>

text \<open>
  The index calls two operations of the storage allocator: one books a slice on its trunk,
  the other strikes it. \<open>entries\<close> is the ledger they maintain.
\<close>

locale slice_ledger =
  fixes add_s :: "OBSliceEntry \<Rightarrow> bool \<Rightarrow> 'm \<Rightarrow> int \<times> 'm"
    and del_s :: "OBSliceEntry \<Rightarrow> bool \<Rightarrow> 'm \<Rightarrow> int \<times> 'm"
    and entries :: "'m \<Rightarrow> nat \<times> int \<Rightarrow> OBSliceEntry list option"
    and ok :: "'m \<Rightarrow> bool"
  assumes add_known: "ok m \<Longrightarrow> entries m (trunk_key s) = Some xs \<Longrightarrow>
        \<exists>m'. add_s s b m = (0, m') \<and> ok m' \<and>
          entries m' = (entries m)(trunk_key s \<mapsto> xs @ [s])"
    and del_known: "ok m \<Longrightarrow> entries m (trunk_key s) = Some xs \<Longrightarrow> s \<in> set xs \<Longrightarrow>
        \<exists>m'. del_s s b m = (0, m') \<and> ok m' \<and>
          entries m' = (entries m)(trunk_key s \<mapsto> remove1 s xs)"
begin

text \<open>
  \<open>balanced m R xs\<close>: each trunk's ledger holds the slices of the chain \<open>xs\<close> that lie in it,
  and besides them those that \<open>R\<close> accounts for (the slices of the other blocks).
\<close>

definition balanced :: "'m \<Rightarrow> (nat \<times> int \<Rightarrow> OBSliceEntry multiset) \<Rightarrow> OBSliceEntry list \<Rightarrow> bool" where
  "balanced m R xs \<longleftrightarrow> ok m \<and> (\<forall>s\<in>set xs. entries m (trunk_key s) \<noteq> None) \<and>
     (\<forall>k ys. entries m k = Some ys \<longrightarrow>
        mset ys = R k + {#s \<in># mset xs. trunk_key s = k#})"

lemma balanced_del:
  assumes "balanced m R xs" "s \<in> set xs"
  shows "\<exists>m'. del_s s b m = (0, m') \<and> balanced m' R (remove1 s xs) \<and>
           dom (entries m') = dom (entries m)"
proof -
  from assms obtain ys where ok: "ok m" and ys: "entries m (trunk_key s) = Some ys"
    and bal: "\<And>k zs. entries m k = Some zs \<Longrightarrow> mset zs = R k + {#s \<in># mset xs. trunk_key s = k#}"
    unfolding balanced_def by blast
  have "s \<in># mset ys" using bal [OF ys] assms(2) by simp
  then have "s \<in> set ys" by simp
  from del_known [OF ok ys this] obtain m' where m': "del_s s b m = (0, m')" "ok m'"
    and e': "entries m' = (entries m)(trunk_key s \<mapsto> remove1 s ys)"
    by blast
  have "mset zs = R k + {#s \<in># mset (remove1 s xs). trunk_key s = k#}"
    if "entries m' k = Some zs" for k zs
  proof (cases "k = trunk_key s")
    case True
    then have "zs = remove1 s ys" using that e' by simp
    then show ?thesis using bal [OF ys] True assms(2) by simp
  next
    case False
    then have "mset zs = R k + {#s \<in># mset xs. trunk_key s = k#}"
      using that e' by (auto intro: bal)
    then show ?thesis using False by auto
  qed
  moreover have "\<forall>t\<in>set (remove1 s xs). entries m' (trunk_key t) \<noteq> None"
    using assms(1) e' notin_set_remove1 by (fastforce simp: balanced_def)
  moreover have "dom (entries m') = dom (entries m)"
    using e' ys by auto
  ultimately show ?thesis using m' by (auto simp: balanced_def)
qed

lemma balanced_add:
  assumes "balanced m R xs" "entries m (trunk_key s) \<noteq> None"
    and zs: "mset zs = add_mset s (mset xs)"
  shows "\<exists>m'. add_s s b m = (0, m') \<and> balanced m' R zs \<and> dom (entries m') = dom (entries m)"
proof -
  from assms obtain ys where ok: "ok m" and ys: "entries m (trunk_key s) = Some ys"
    and bal: "\<And>k zs. entries m k = Some zs \<Longrightarrow> mset zs = R k + {#s \<in># mset xs. trunk_key s = k#}"
    unfolding balanced_def by blast
  from add_known [OF ok ys] obtain m' where m': "add_s s b m = (0, m')" "ok m'"
    and e': "entries m' = (entries m)(trunk_key s \<mapsto> ys @ [s])"
    by blast
  have "mset us = R k + {#s \<in># mset zs. trunk_key s = k#}" if "entries m' k = Some us" for k us
    using that e' bal [OF ys] bal zs by (cases "k = trunk_key s") auto
  moreover have "set zs = insert s (set xs)"
    using zs by (metis set_mset_add_mset_insert set_mset_mset)
  then have "\<forall>t\<in>set zs. entries m' (trunk_key t) \<noteq> None"
    using assms(1) e' by (auto simp: balanced_def)
  moreover have "dom (entries m') = dom (entries m)"
    using e' ys by auto
  ultimately show ?thesis using m' by (auto simp: balanced_def)
qed

end

section \<open>The trunk allocator keeps the ledger\<close>

lemma find_trunk_upd_trunk [simp]: "find_trunk E i tid (upd_trunk p f m) = find_trunk E i tid m"
  by (simp add: find_trunk_def upd_trunk_def)

lemma find_trunk_upd_allocator:
  "(\<And>a. ta_by_id (f a) = ta_by_id a) \<Longrightarrow>
   find_trunk E i tid (upd_allocator j f m) = find_trunk E i tid m"
  by (simp add: find_trunk_def upd_allocator_def split: option.splits)

lemma am_trunks_upd_allocator [simp]: "am_trunks (upd_allocator j f m) = am_trunks m"
  by (simp add: upd_allocator_def)

lemma am_trunks_upd_trunk [simp]:
  "am_trunks (upd_trunk p f m) q = (if q = p then map_option f (am_trunks m p) else am_trunks m q)"
  by (simp add: upd_trunk_def)

lemma am_allocators_upd_trunk [simp]: "am_allocators (upd_trunk p f m) = am_allocators m"
  by (simp add: upd_trunk_def)

lemma am_allocators_upd_allocator [simp]:
  "am_allocators (upd_allocator j f m) i =
     (if i = j then map_option f (am_allocators m j) else am_allocators m i)"
  by (simp add: upd_allocator_def)

lemma mgr_ok_upd_trunk:
  assumes "mgr_ok E m"
    and "\<And>t. am_trunks m p = Some t \<Longrightarrow>
      tf_allocator (f t) = tf_allocator t \<and> tf_id (f t) = tf_id t \<and> trunk_books_ok (f t)"
  shows "mgr_ok E (upd_trunk p f m)"
proof -
  have "trunk_at (upd_trunk p f m) i tid q" if "trunk_at m i tid q" for i tid q
    using that assms(2) by (auto simp: trunk_at_def)
  then show ?thesis
    using assms unfolding mgr_ok_def by (fastforce split: if_splits)
qed

lemma mgr_ok_upd_allocator:
  assumes "mgr_ok E m" "\<And>a. ta_by_id (f a) = ta_by_id a"
  shows "mgr_ok E (upd_allocator j f m)"
proof -
  have "trunk_at (upd_allocator j f m) i tid q = trunk_at m i tid q" for i tid q
    by (simp add: trunk_at_def)
  then show ?thesis
    using assms unfolding mgr_ok_def by (fastforce split: if_splits)
qed

lemma booked_upd_allocator:
  "(\<And>a. ta_by_id (f a) = ta_by_id a) \<Longrightarrow> booked E (upd_allocator j f m) = booked E m"
  by (intro ext) (simp add: booked_def find_trunk_upd_allocator split: option.splits)

lemma booked_SomeD:
  assumes "booked E m k = Some xs"
  obtains p t where "find_trunk E (fst k) (snd k) m = Some p" "am_trunks m p = Some t"
    "tf_slices t = xs" "am_allocators m (fst k) \<noteq> None"
  using assms by (auto simp: booked_def find_trunk_def split: option.splits)

lemma mgr_ok_push_event: "mgr_ok E m \<Longrightarrow> mgr_ok E (push_trunk_util_change_event E i p ev m)"
  unfolding push_trunk_util_change_event_def
  by (auto intro!: mgr_ok_upd_allocator mgr_ok_upd_trunk split: option.splits)
    (auto simp: mgr_ok_def trunk_books_ok_def)

lemma booked_push_event: "booked E (push_trunk_util_change_event E i p ev m) = booked E m"
proof -
  have "booked E (upd_trunk p (\<lambda>t. t\<lparr>tf_event := ev\<rparr>) m) = booked E m"
    by (intro ext) (auto simp: booked_def option.map_comp o_def split: option.splits)
  then show ?thesis
    by (simp add: push_trunk_util_change_event_def booked_upd_allocator split: option.splits)
qed

context fastcommon
begin

lemma find_trunk_at:
  assumes "mgr_ok E m" "find_trunk E i tid m = Some p"
  shows "trunk_at m i tid p"
proof -
  from assms(2) obtain a tid' where a: "am_allocators m i = Some a"
    and f: "skl_find (env_trunks E) (ta_by_id a) (tid, 0) = Some (tid', p)"
    by (auto simp: find_trunk_def split: option.splits)
  from assms(1) a have "skl_ordered (compare_trunk_by_id E) (ta_by_id a)"
    and at: "\<forall>(tid, p)\<in>set (ta_by_id a). trunk_at m i tid p"
    by (auto simp: mgr_ok_def)
  then have "(tid', p) \<in> set (ta_by_id a)" "compare_trunk_by_id E (tid', p) (tid, 0) = 0"
    using f by (auto simp: TR.find_eq find_Some_iff)
  then show ?thesis
    using at by (auto simp: compare_trunk_by_id_def compare_int64_zero)
qed

lemma booked_update:
  assumes ok: "mgr_ok E m" and b: "booked E m (trunk_key s) = Some xs"
    and p: "find_trunk E (ts_store (sl_space s)) (ti_id (ts_id_info (sl_space s))) m = Some p"
  shows "booked E (upd_trunk p f m) =
    (booked E m)(trunk_key s := map_option (\<lambda>t. tf_slices (f t)) (am_trunks m p))"
proof
  fix k
  have at: "trunk_at m (fst (trunk_key s)) (snd (trunk_key s)) p"
    using find_trunk_at [OF ok p] by (simp add: trunk_key_def)
  show "booked E (upd_trunk p f m) k =
    ((booked E m)(trunk_key s := map_option (\<lambda>t. tf_slices (f t)) (am_trunks m p))) k"
  proof (cases "k = trunk_key s")
    case True
    then show ?thesis using p by (simp add: booked_def trunk_key_def option.map_comp o_def)
  next
    case False
    have "q \<noteq> p" if "find_trunk E (fst k) (snd k) m = Some q" for q
      using find_trunk_at [OF ok that] at False by (auto simp: trunk_at_def prod_eq_iff)
    with False show ?thesis by (simp add: booked_def split: option.splits)
  qed
qed

lemma storage_add_ledger:
  assumes ok: "mgr_ok E m" and b: "booked E m (trunk_key s) = Some xs"
  shows "\<exists>m'. storage_allocator_add_slice E s u m = (0, m') \<and> mgr_ok E m' \<and>
    booked E m' = (booked E m)(trunk_key s \<mapsto> xs @ [s])"
proof -
  let ?i = "ts_store (sl_space s)" and ?id = "ti_id (ts_id_info (sl_space s))"
  let ?m = "if u then upd_path_info ?i (\<lambda>q. q\<lparr>pi_trunk_used := pi_trunk_used q + ts_size (sl_space s)\<rparr>) m else m"
  let ?f = "\<lambda>t. t\<lparr>tf_used_bytes := tf_used_bytes t + ts_size (sl_space s),
                tf_used_count := tf_used_count t + 1, tf_slices := env_list_add_tail E (tf_slices t) s\<rparr>"
  have ok': "mgr_ok E ?m" and b': "booked E ?m = booked E m"
    using ok by (auto simp: upd_path_info_def mgr_ok_upd_allocator booked_upd_allocator)
  from b have "booked E ?m (trunk_key s) = Some xs" by (simp only: b')
  then obtain p t where p: "find_trunk E ?i ?id ?m = Some p" and t: "am_trunks ?m p = Some t"
    "tf_slices t = xs"
    by (rule booked_SomeD) (simp add: trunk_key_def)
  have al: "am_allocators m ?i \<noteq> None"
    using b by (rule booked_SomeD) (simp add: trunk_key_def)
  have "storage_allocator_add_slice E s u m = (0, upd_trunk p ?f ?m)"
    using al p by (cases u) (auto simp: storage_allocator_add_slice_def trunk_allocator_add_slice_def Let_def)
  moreover have "mgr_ok E (upd_trunk p ?f ?m)"
    using ok' t by (intro mgr_ok_upd_trunk) (auto simp: mgr_ok_def trunk_books_ok_def list_add_tail)
  moreover have "booked E (upd_trunk p ?f ?m) = (booked E m)(trunk_key s \<mapsto> xs @ [s])"
    using booked_update [OF ok', of s xs p] b b' p t by (simp add: list_add_tail)
  ultimately show ?thesis by blast
qed

lemma storage_delete_ledger:
  assumes ok: "mgr_ok E m" and b: "booked E m (trunk_key s) = Some xs" and mem: "s \<in> set xs"
  shows "\<exists>m'. storage_allocator_delete_slice E s u m = (0, m') \<and> mgr_ok E m' \<and>
    booked E m' = (booked E m)(trunk_key s \<mapsto> remove1 s xs)"
proof -
  let ?i = "ts_store (sl_space s)" and ?id = "ti_id (ts_id_info (sl_space s))"
  let ?m = "if u then upd_path_info ?i (\<lambda>q. q\<lparr>pi_trunk_used := pi_trunk_used q - ts_size (sl_space s)\<rparr>) m else m"
  let ?f = "\<lambda>t. t\<lparr>tf_used_bytes := tf_used_bytes t - ts_size (sl_space s),
                tf_used_count := tf_used_count t - 1, tf_slices := env_list_del E (tf_slices t) s\<rparr>"
  have ok': "mgr_ok E ?m" and b': "booked E ?m = booked E m"
    using ok by (auto simp: upd_path_info_def mgr_ok_upd_allocator booked_upd_allocator)
  from b have "booked E ?m (trunk_key s) = Some xs" by (simp only: b')
  then obtain p t where p: "find_trunk E ?i ?id ?m = Some p" and t: "am_trunks ?m p = Some t"
    "tf_slices t = xs"
    by (rule booked_SomeD) (simp add: trunk_key_def)
  have al: "am_allocators m ?i \<noteq> None"
    using b by (rule booked_SomeD) (simp add: trunk_key_def)
  have len: "int (length (remove1 s xs)) = int (length xs) - 1"
  proof -
    have "length (remove1 s xs) = length xs - 1" using mem by (simp add: length_remove1)
    with length_pos_if_in_set [OF mem] show ?thesis by linarith
  qed
  have "storage_allocator_delete_slice E s u m =
      (0, push_trunk_util_change_event E ?i p EVENT_UPDATE (upd_trunk p ?f ?m))"
    using al p by (cases u)
      (auto simp: storage_allocator_delete_slice_def trunk_allocator_delete_slice_def Let_def)
  moreover have "trunk_books_ok (?f t)"
  proof -
    have "trunk_books_ok t" using ok' t by (auto simp: mgr_ok_def)
    then show ?thesis
      using t len mem sum_list_map_remove1 [OF mem, of "\<lambda>s. ts_size (sl_space s)"]
      by (simp add: trunk_books_ok_def list_del)
  qed
  then have "mgr_ok E (push_trunk_util_change_event E ?i p EVENT_UPDATE (upd_trunk p ?f ?m))"
    using ok' t by (intro mgr_ok_push_event mgr_ok_upd_trunk) auto
  moreover have "booked E (upd_trunk p ?f ?m) = (booked E m)(trunk_key s \<mapsto> remove1 s xs)"
    using booked_update [OF ok', of s xs p] b b' p t by (simp add: list_del)
  ultimately show ?thesis by (auto simp: booked_push_event)
qed

end

sublocale fastcommon \<subseteq> ledger: slice_ledger
  "storage_allocator_add_slice E" "storage_allocator_delete_slice E" "booked E" "mgr_ok E"
  by unfold_locales (fact storage_add_ledger storage_delete_ledger)+

end
