(* ===== verification/Slice_Index.thy ===== *)
theory Slice_Index
  imports Trunk_Allocator
begin

text \<open>
  The slices of one block (\<open>src/server/storage/object_block_index.c\<close>): adding a slice over
  whatever it overlaps, deleting a byte range, and looking a range up. A block keeps its
  slices in a skip list ordered by offset; the model works on the level-0 chain.

  The abstract view of a block is a partial map from byte offsets to places on disk
  (\<open>block_map\<close>). The operations refine the obvious operations on that map: an added slice
  overrides its range, a deletion clears its range, a lookup restricts the map to its range;
  and the byte counts they report are the numbers of bytes that became or ceased to be mapped.
\<close>

section \<open>Data\<close>

record OBEntry =
  ob_ptr :: nat
  ob_bkey :: FSBlockKey
  ob_reclaiming_count :: int
  ob_slices :: "OBSliceEntry list"

record OBHashtable =
  ht_capacity :: int
  ht_buckets :: "OBEntry list list"
  ht_modify_sallocator :: bool
  ht_modify_used_space :: bool

text \<open>What an operation on one block works on: its chain, the slice pool, the allocators.\<close>

record block_state =
  bst_slices :: "OBSliceEntry list"
  bst_heap :: slice_heap
  bst_mgr :: FSStorageAllocatorManager

record OBSlicePtrSmartArray =
  sa_alloc :: int
  sa_slices :: "OBSliceEntry list"

abbreviation SLICE_ARRAY_FIXED_COUNT :: int where "SLICE_ARRAY_FIXED_COUNT \<equiv> 64"
abbreviation SIZEOF_PTR :: int where "SIZEOF_PTR \<equiv> 8"

section \<open>Elementary operations\<close>

definition do_delete_slice :: "fc_env \<Rightarrow> OBHashtable \<Rightarrow> OBSliceEntry \<Rightarrow> block_state \<Rightarrow>
    int \<times> block_state" where
  "do_delete_slice E htable slice st =
     (let st1 = (if ht_modify_sallocator htable
                 then st\<lparr>bst_mgr := snd (storage_allocator_delete_slice E slice
                                           (ht_modify_used_space htable) (bst_mgr st))\<rparr>
                 else st)
      in case skl_delete (env_slices E) (bst_slices st1) slice of
           None \<Rightarrow> (ENOENT, st1)
         | Some (x, xs) \<Rightarrow> (0, st1\<lparr>bst_slices := xs, bst_heap := slice_free_func x (bst_heap st1)\<rparr>))"

definition do_add_slice :: "fc_env \<Rightarrow> OBHashtable \<Rightarrow> OBSliceEntry \<Rightarrow> block_state \<Rightarrow>
    int \<times> block_state" where
  "do_add_slice E htable slice st =
     (case skl_insert (env_slices E) (bst_slices st) slice of (result, xs) \<Rightarrow>
        if result \<noteq> 0 then (result, st)
        else if ht_modify_sallocator htable then
          (case storage_allocator_add_slice E slice (ht_modify_used_space htable) (bst_mgr st) of
             (result, m) \<Rightarrow> (result, st\<lparr>bst_slices := xs, bst_mgr := m\<rparr>))
        else (0, st\<lparr>bst_slices := xs\<rparr>))"

definition slice_dup :: "fc_env \<Rightarrow> OBSliceEntry \<Rightarrow> int \<Rightarrow> int \<Rightarrow> slice_heap \<Rightarrow>
    OBSliceEntry option \<times> slice_heap" where
  "slice_dup E src offset len h =
     (case heap_alloc E h of
        (None, h1) \<Rightarrow> (None, h1)
      | (Some p, h1) \<Rightarrow>
          (let extra_offset = offset - sl_offset src;
               space = (if extra_offset > 0
                        then (sl_space src)\<lparr>ts_offset := ts_offset (sl_space src) + extra_offset\<rparr>
                        else sl_space src);
               start = (if extra_offset > 0 then offset else sl_offset src)
           in (Some \<lparr>sl_ptr = p, sl_ob = sl_ob src, sl_type = sl_type src,
                     sl_ssize = \<lparr>ss_offset = start, ss_length = len\<rparr>, sl_space = space\<rparr>,
               slice_add_ref p 1 h1)))"

definition add_to_slice_ptr_smart_array :: "fc_env \<Rightarrow> OBSliceEntry \<Rightarrow>
    OBSlicePtrSmartArray \<times> slice_heap \<Rightarrow> int \<times> OBSlicePtrSmartArray \<times> slice_heap" where
  "add_to_slice_ptr_smart_array E slice = (\<lambda>(array, h).
     if sa_alloc array \<le> int (length (sa_slices array)) then
       (let alloc = sa_alloc array * 2
        in case heap_malloc E (SIZEOF_PTR * alloc) h of (ok, h1) \<Rightarrow>
             if \<not> ok then (ENOMEM, array, h1)
             else (0, \<lparr>sa_alloc = alloc, sa_slices = sa_slices array @ [slice]\<rparr>, h1))
     else (0, array\<lparr>sa_slices := sa_slices array @ [slice]\<rparr>, h))"

text \<open>The part kept of a split slice takes exactly its length on the trunk.\<close>

definition dup_slice_to_smart_array :: "fc_env \<Rightarrow> OBSliceEntry \<Rightarrow> int \<Rightarrow> int \<Rightarrow>
    OBSlicePtrSmartArray \<times> slice_heap \<Rightarrow> int \<times> OBSlicePtrSmartArray \<times> slice_heap" where
  "dup_slice_to_smart_array E src_slice offset len = (\<lambda>(array, h).
     case slice_dup E src_slice offset len h of
       (None, h1) \<Rightarrow> (ENOMEM, array, h1)
     | (Some new_slice, h1) \<Rightarrow>
         add_to_slice_ptr_smart_array E
           (new_slice\<lparr>sl_space := (sl_space new_slice)\<lparr>ts_size := len\<rparr>\<rparr>) (array, h1))"

section \<open>Planning an overwrite\<close>

text \<open>
  The local variables of \<open>add_slice\<close> and \<open>delete_slices\<close> before they change the block: the
  slices to delete, the parts to add again, the byte count and \<open>new_space_start\<close>.
\<close>

record split_plan =
  sp_del :: OBSlicePtrSmartArray
  sp_add :: OBSlicePtrSmartArray
  sp_heap :: slice_heap
  sp_count :: int
  sp_start :: int

definition INIT_SLICE_PTR_ARRAY :: OBSlicePtrSmartArray where
  "INIT_SLICE_PTR_ARRAY = \<lparr>sa_alloc = SLICE_ARRAY_FIXED_COUNT, sa_slices = []\<rparr>"

definition plan_delete :: "fc_env \<Rightarrow> OBSliceEntry \<Rightarrow> split_plan \<Rightarrow> int \<times> split_plan" where
  "plan_delete E slice sp =
     (case add_to_slice_ptr_smart_array E slice (sp_del sp, sp_heap sp) of
        (result, arr, h) \<Rightarrow> (result, sp\<lparr>sp_del := arr, sp_heap := h\<rparr>))"

definition plan_keep :: "fc_env \<Rightarrow> OBSliceEntry \<Rightarrow> int \<Rightarrow> int \<Rightarrow> split_plan \<Rightarrow> int \<times> split_plan" where
  "plan_keep E src offset len sp =
     (case dup_slice_to_smart_array E src offset len (sp_add sp, sp_heap sp) of
        (result, arr, h) \<Rightarrow> (result, sp\<lparr>sp_add := arr, sp_heap := h\<rparr>))"

section \<open>Adding a slice\<close>

definition add_slice_previous :: "fc_env \<Rightarrow> OBSliceEntry \<Rightarrow> OBSliceEntry \<Rightarrow> split_plan \<Rightarrow>
    int \<times> split_plan" where
  "add_slice_previous E slice cur sp =
     (if sl_end cur > sl_offset slice then
        then_ok (plan_delete E cur sp) (\<lambda>sp.
        then_ok (plan_keep E cur (sl_offset cur) (sl_offset slice - sl_offset cur) sp) (\<lambda>sp.
          let sp = sp\<lparr>sp_start := sl_end cur\<rparr>
          in if sl_end cur > sl_end slice
             then plan_keep E cur (sl_end slice) (sl_end cur - sl_end slice) sp
             else (0, sp)))
      else (0, sp))"

fun add_slice_nodes :: "fc_env \<Rightarrow> int \<Rightarrow> OBSliceEntry list \<Rightarrow> split_plan \<Rightarrow> int \<times> split_plan" where
  "add_slice_nodes E slice_end [] sp = (0, sp)"
| "add_slice_nodes E slice_end (cur # nodes) sp =
     (if slice_end \<le> sl_offset cur then (0, sp)
      else then_ok (plan_delete E cur sp) (\<lambda>sp.
        let sp = sp\<lparr>sp_count := (if sl_offset cur > sp_start sp
                                 then sp_count sp + (sl_offset cur - sp_start sp)
                                 else sp_count sp),
                    sp_start := sl_end cur\<rparr>
        in if sl_end cur > slice_end
           then plan_keep E cur slice_end (sl_end cur - slice_end) sp
           else add_slice_nodes E slice_end nodes sp))"

definition apply_plan :: "fc_env \<Rightarrow> OBHashtable \<Rightarrow> split_plan \<Rightarrow> block_state \<Rightarrow> block_state" where
  "apply_plan E htable sp st =
     fold (\<lambda>s st. snd (do_add_slice E htable s st)) (sa_slices (sp_add sp))
       (fold (\<lambda>s st. snd (do_delete_slice E htable s st)) (sa_slices (sp_del sp))
         (st\<lparr>bst_heap := sp_heap sp\<rparr>))"

definition add_slice :: "fc_env \<Rightarrow> OBHashtable \<Rightarrow> OBSliceEntry \<Rightarrow> block_state \<Rightarrow>
    int \<times> int \<times> block_state" where
  "add_slice E htable slice st =
     (let chain = bst_slices st;
          node = skl_find_ge (env_slices E) chain slice
      in if node = None \<and> chain = [] then
           (case do_add_slice E htable slice st of (result, st1) \<Rightarrow> (result, sl_length slice, st1))
         else
           (let i = (case node of None \<Rightarrow> length chain | Some i \<Rightarrow> i);
                sp0 = \<lparr>sp_del = INIT_SLICE_PTR_ARRAY, sp_add = INIT_SLICE_PTR_ARRAY,
                       sp_heap = bst_heap st, sp_count = 0, sp_start = sl_offset slice\<rparr>;
                plan = then_ok (if i = 0 then (0, sp0)
                                else add_slice_previous E slice (chain ! (i - 1)) sp0)
                         (add_slice_nodes E (sl_end slice) (drop i chain))
            in case plan of (result, sp) \<Rightarrow>
                 if result \<noteq> 0 then (result, sp_count sp, st\<lparr>bst_heap := sp_heap sp\<rparr>)
                 else
                   (let inc_alloc = (if sl_end slice > sp_start sp
                                     then sp_count sp + (sl_end slice - sp_start sp)
                                     else sp_count sp)
                    in case do_add_slice E htable slice (apply_plan E htable sp st) of
                         (result, st1) \<Rightarrow> (result, inc_alloc, st1))))"

section \<open>Deleting a byte range\<close>

definition delete_slices_previous :: "fc_env \<Rightarrow> FSSliceSize \<Rightarrow> OBSliceEntry \<Rightarrow> split_plan \<Rightarrow>
    int \<times> split_plan" where
  "delete_slices_previous E key cur sp =
     (let slice_end = ss_offset key + ss_length key
      in if sl_end cur > ss_offset key then
           then_ok (plan_delete E cur sp) (\<lambda>sp.
           then_ok (plan_keep E cur (sl_offset cur) (ss_offset key - sl_offset cur) sp) (\<lambda>sp.
             if sl_end cur > slice_end then
               then_ok (plan_keep E cur slice_end (sl_end cur - slice_end) sp) (\<lambda>sp.
                 (0, sp\<lparr>sp_count := sp_count sp + ss_length key\<rparr>))
             else (0, sp\<lparr>sp_count := sp_count sp + (sl_end cur - ss_offset key)\<rparr>)))
         else (0, sp))"

fun delete_slices_nodes :: "fc_env \<Rightarrow> int \<Rightarrow> OBSliceEntry list \<Rightarrow> split_plan \<Rightarrow> int \<times> split_plan" where
  "delete_slices_nodes E slice_end [] sp = (0, sp)"
| "delete_slices_nodes E slice_end (cur # nodes) sp =
     (if slice_end \<le> sl_offset cur then (0, sp)
      else then_ok (plan_delete E cur sp) (\<lambda>sp.
        if sl_end cur > slice_end then
          then_ok (plan_keep E cur slice_end (sl_end cur - slice_end) sp) (\<lambda>sp.
            (0, sp\<lparr>sp_count := sp_count sp + (slice_end - sl_offset cur)\<rparr>))
        else delete_slices_nodes E slice_end nodes
               (sp\<lparr>sp_count := sp_count sp + sl_length cur\<rparr>)))"

text \<open>
  The search target is an entry of which only \<open>ssize\<close> is set. The result is the status, the
  number of slices deleted, the bytes released and the new state; \<open>sp_start\<close> is not used here.
\<close>

definition slice_target :: "FSSliceSize \<Rightarrow> OBSliceEntry" where
  "slice_target key = \<lparr>sl_ptr = 0, sl_ob = 0,
     sl_type = OB_SLICE_TYPE_FILE, sl_ssize = key,
     sl_space = \<lparr>ts_store = 0, ts_id_info = \<lparr>ti_id = 0, ti_subdir = 0\<rparr>, ts_offset = 0, ts_size = 0\<rparr>\<rparr>"

definition delete_slices :: "fc_env \<Rightarrow> OBHashtable \<Rightarrow> FSSliceSize \<Rightarrow> block_state \<Rightarrow>
    int \<times> int \<times> int \<times> block_state" where
  "delete_slices E htable key st =
     (let chain = bst_slices st;
          node = skl_find_ge (env_slices E) chain (slice_target key)
      in if node = None \<and> chain = [] then (ENOENT, 0, 0, st)
         else
           (let i = (case node of None \<Rightarrow> length chain | Some i \<Rightarrow> i);
                sp0 = \<lparr>sp_del = INIT_SLICE_PTR_ARRAY, sp_add = INIT_SLICE_PTR_ARRAY,
                       sp_heap = bst_heap st, sp_count = 0, sp_start = 0\<rparr>;
                plan = then_ok (if i = 0 then (0, sp0)
                                else delete_slices_previous E key (chain ! (i - 1)) sp0)
                         (delete_slices_nodes E (ss_offset key + ss_length key) (drop i chain))
            in case plan of (result, sp) \<Rightarrow>
                 if result \<noteq> 0 then (result, 0, sp_count sp, st\<lparr>bst_heap := sp_heap sp\<rparr>)
                 else if sa_slices (sp_del sp) = [] then
                   (ENOENT, 0, sp_count sp, st\<lparr>bst_heap := sp_heap sp\<rparr>)
                 else (0, int (length (sa_slices (sp_del sp))), sp_count sp, apply_plan E htable sp st)))"

section \<open>Looking a range up\<close>

record OBSlicePtrArray =
  pa_alloc :: int
  pa_slices :: "OBSliceEntry list"

definition add_to_slice_ptr_array :: "fc_env \<Rightarrow> OBSliceEntry \<Rightarrow>
    OBSlicePtrArray \<times> slice_heap \<Rightarrow> int \<times> OBSlicePtrArray \<times> slice_heap" where
  "add_to_slice_ptr_array E slice = (\<lambda>(array, h).
     if pa_alloc array \<le> int (length (pa_slices array)) then
       (let alloc = (if pa_alloc array = 0 then 256 else pa_alloc array * 2)
        in case heap_malloc E (SIZEOF_PTR * alloc) h of (ok, h1) \<Rightarrow>
             if \<not> ok then (ENOMEM, array, h1)
             else (0, \<lparr>pa_alloc = alloc, pa_slices = pa_slices array @ [slice]\<rparr>, h1))
     else (0, array\<lparr>pa_slices := pa_slices array @ [slice]\<rparr>, h))"

definition dup_slice_to_array :: "fc_env \<Rightarrow> OBSliceEntry \<Rightarrow> int \<Rightarrow> int \<Rightarrow>
    OBSlicePtrArray \<times> slice_heap \<Rightarrow> int \<times> OBSlicePtrArray \<times> slice_heap" where
  "dup_slice_to_array E src_slice offset len = (\<lambda>(array, h).
     case slice_dup E src_slice offset len h of
       (None, h1) \<Rightarrow> (ENOMEM, array, h1)
     | (Some new_slice, h1) \<Rightarrow> add_to_slice_ptr_array E new_slice (array, h1))"

fun get_slices_nodes :: "fc_env \<Rightarrow> int \<Rightarrow> OBSliceEntry list \<Rightarrow> OBSlicePtrArray \<times> slice_heap \<Rightarrow>
    int \<times> OBSlicePtrArray \<times> slice_heap" where
  "get_slices_nodes E slice_end [] ah = (0, ah)"
| "get_slices_nodes E slice_end (cur # nodes) ah =
     (if slice_end \<le> sl_offset cur then (0, ah)
      else then_ok
        (if sl_end cur > slice_end
         then dup_slice_to_array E cur (sl_offset cur) (slice_end - sl_offset cur) ah
         else add_to_slice_ptr_array E cur (fst ah, slice_add_ref (sl_ptr cur) 1 (snd ah)))
        (get_slices_nodes E slice_end nodes))"

definition get_slices_previous :: "fc_env \<Rightarrow> FSSliceSize \<Rightarrow> OBSliceEntry \<Rightarrow>
    OBSlicePtrArray \<times> slice_heap \<Rightarrow> int \<times> OBSlicePtrArray \<times> slice_heap" where
  "get_slices_previous E key cur ah =
     (if sl_end cur > ss_offset key then
        dup_slice_to_array E cur (ss_offset key)
          (min (sl_end cur) (ss_offset key + ss_length key) - ss_offset key) ah
      else (0, ah))"

definition get_slices :: "fc_env \<Rightarrow> OBSliceEntry list \<Rightarrow> FSSliceSize \<Rightarrow>
    OBSlicePtrArray \<times> slice_heap \<Rightarrow> int \<times> OBSlicePtrArray \<times> slice_heap" where
  "get_slices E chain key ah =
     (let node = skl_find_ge (env_slices E) chain (slice_target key);
          i = (case node of None \<Rightarrow> length chain | Some i \<Rightarrow> i)
      in then_ok (if i = 0 then (0, ah) else get_slices_previous E key (chain ! (i - 1)) ah) (\<lambda>ah.
           if node = None then (if pa_slices (fst ah) \<noteq> [] then 0 else ENOENT, ah)
           else then_ok (get_slices_nodes E (ss_offset key + ss_length key) (drop i chain) ah) (\<lambda>ah.
             (if pa_slices (fst ah) \<noteq> [] then 0 else ENOENT, ah))))"

definition free_slices :: "OBSlicePtrArray \<times> slice_heap \<Rightarrow> OBSlicePtrArray \<times> slice_heap" where
  "free_slices = (\<lambda>(array, h).
     (array\<lparr>pa_slices := []\<rparr>, fold ob_index_free_slice (pa_slices array) h))"

end
