(* ===== verification/Block_Map.thy ===== *)
theory Block_Map
  imports Slice_Index
begin

text \<open>
  The abstract view of a block and the shape of its chain. \<open>block_map\<close> sends a byte offset of
  the block to the place that holds it: slice type, store path, trunk and position in the
  trunk file. \<open>block_ok\<close> is the invariant of a chain: non-empty slices in increasing,
  non-overlapping order.
\<close>

definition byte_loc :: "OBSliceEntry \<Rightarrow> int \<Rightarrow> OBSliceType \<times> nat \<times> FSTrunkIdInfo \<times> int" where
  "byte_loc s x = (sl_type s, ts_store (sl_space s), ts_id_info (sl_space s),
     ts_offset (sl_space s) + (x - sl_offset s))"

definition block_map :: "OBSliceEntry list \<Rightarrow> int \<Rightarrow> (OBSliceType \<times> nat \<times> FSTrunkIdInfo \<times> int) option" where
  "block_map chain x = map_option (\<lambda>s. byte_loc s x) (find (\<lambda>s. x \<in> slice_range s) chain)"

definition block_ok :: "OBSliceEntry list \<Rightarrow> bool" where
  "block_ok chain \<longleftrightarrow> sorted_wrt (\<lambda>a b. sl_end a \<le> sl_offset b) chain \<and>
     (\<forall>s\<in>set chain. 0 < sl_length s)"

definition covered :: "OBSliceEntry list \<Rightarrow> int set" where
  "covered chain = (\<Union>s\<in>set chain. slice_range s)"

text \<open>The bytes of a single slice.\<close>

definition slice_map :: "OBSliceEntry \<Rightarrow> int \<Rightarrow> (OBSliceType \<times> nat \<times> FSTrunkIdInfo \<times> int) option" where
  "slice_map s x = (if x \<in> slice_range s then Some (byte_loc s x) else None)"

text \<open>A part of a slice: the same place on disk for every byte it still has.\<close>

definition is_part :: "OBSliceEntry \<Rightarrow> OBSliceEntry \<Rightarrow> int \<Rightarrow> int \<Rightarrow> bool" where
  "is_part t src offset len \<longleftrightarrow> sl_ob t = sl_ob src \<and> sl_type t = sl_type src \<and>
     sl_ssize t = \<lparr>ss_offset = offset, ss_length = len\<rparr> \<and>
     ts_store (sl_space t) = ts_store (sl_space src) \<and>
     ts_id_info (sl_space t) = ts_id_info (sl_space src) \<and>
     ts_offset (sl_space t) = ts_offset (sl_space src) + (offset - sl_offset src)"

section \<open>Chains\<close>

lemma block_ok_Nil [simp]: "block_ok []"
  by (simp add: block_ok_def)

lemma block_ok_Cons:
  "block_ok (s # chain) \<longleftrightarrow> 0 < sl_length s \<and> (\<forall>t\<in>set chain. sl_end s \<le> sl_offset t) \<and> block_ok chain"
  by (auto simp: block_ok_def)

lemma block_ok_append:
  "block_ok (xs @ ys) \<longleftrightarrow> block_ok xs \<and> block_ok ys \<and>
     (\<forall>s\<in>set xs. \<forall>t\<in>set ys. sl_end s \<le> sl_offset t)"
  by (auto simp: block_ok_def sorted_wrt_append)

lemma block_ok_pos: "block_ok chain \<Longrightarrow> s \<in> set chain \<Longrightarrow> 0 < sl_length s"
  by (simp add: block_ok_def)

lemma block_ok_ordered: "block_ok chain \<Longrightarrow> skl_ordered slice_compare chain"
  unfolding block_ok_def skl_ordered_def
  by (elim conjE, erule sorted_wrt_mono_rel [rotated]) (fastforce simp: slice_compare_def)

lemma block_ok_apart:
  assumes "block_ok chain" "s \<in> set chain" "t \<in> set chain" "s \<noteq> t"
  shows "sl_end s \<le> sl_offset t \<or> sl_end t \<le> sl_offset s"
  using assms by (induction chain) (auto simp: block_ok_Cons)

lemma block_ok_unique:
  assumes "block_ok chain" "s \<in> set chain" "t \<in> set chain" "x \<in> slice_range s" "x \<in> slice_range t"
  shows "s = t"
  using block_ok_apart [OF assms(1-3)] assms(4,5) by auto

lemma block_okI:
  assumes "skl_ordered slice_compare chain" "\<And>s. s \<in> set chain \<Longrightarrow> 0 < sl_length s"
    and "\<And>s t. s \<in> set chain \<Longrightarrow> t \<in> set chain \<Longrightarrow> sl_offset s < sl_offset t \<Longrightarrow> sl_end s \<le> sl_offset t"
  shows "block_ok chain"
proof -
  have "sorted_wrt (\<lambda>a b. sl_end a \<le> sl_offset b) chain"
    using assms(1) unfolding skl_ordered_def
    by (rule sorted_wrt_mono_rel [rotated]) (simp add: assms(3) slice_compare_def)
  with assms(2) show ?thesis by (simp add: block_ok_def)
qed

section \<open>The map of a chain\<close>

lemma block_map_Some:
  assumes "block_ok chain"
  shows "block_map chain x = Some l \<longleftrightarrow> (\<exists>s\<in>set chain. x \<in> slice_range s \<and> l = byte_loc s x)"
proof -
  have "find (\<lambda>s. x \<in> slice_range s) chain = Some s \<longleftrightarrow> s \<in> set chain \<and> x \<in> slice_range s" for s
    by (rule find_Some_unique) (blast dest: block_ok_unique [OF assms])
  then show ?thesis by (auto simp: block_map_def)
qed

lemma block_map_None: "block_map chain x = None \<longleftrightarrow> x \<notin> covered chain"
  by (auto simp: block_map_def find_None_iff covered_def)

lemma dom_block_map: "dom (block_map chain) = covered chain"
  using block_map_None by (auto simp: dom_def)

lemma block_map_cong:
  assumes "block_ok xs" "block_ok ys"
    and "\<And>l. (\<exists>s\<in>set xs. x \<in> slice_range s \<and> l = byte_loc s x) \<longleftrightarrow>
             (\<exists>s\<in>set ys. x \<in> slice_range s \<and> l = byte_loc s x)"
  shows "block_map xs x = block_map ys x"
  using assms(3) block_map_Some [OF assms(1), of x] block_map_Some [OF assms(2), of x]
  by (metis not_Some_eq)

lemma covered_Nil [simp]: "covered [] = {}"
  by (simp add: covered_def)

lemma covered_Cons: "covered (s # chain) = slice_range s \<union> covered chain"
  by (simp add: covered_def)

lemma covered_append: "covered (xs @ ys) = covered xs \<union> covered ys"
  by (auto simp: covered_def)

lemma finite_covered [simp]: "finite (covered chain)"
  by (simp add: covered_def)

lemma covered_ge:
  "(\<And>s. s \<in> set chain \<Longrightarrow> a \<le> sl_offset s) \<Longrightarrow> x \<in> covered chain \<Longrightarrow> a \<le> x"
  by (force simp: covered_def)

lemma part_byte_loc: "is_part t s a n \<Longrightarrow> byte_loc t x = byte_loc s x"
  by (simp add: is_part_def byte_loc_def)

lemma part_range: "is_part t s a n \<Longrightarrow> slice_range t = {a..<a + n}"
  by (auto simp: is_part_def ssize_range_def)

lemma part_size: "is_part t s a n \<Longrightarrow> sl_offset t = a \<and> sl_length t = n"
  by (auto simp: is_part_def)

lemma part_trunk_key: "is_part t s a n \<Longrightarrow> trunk_key t = trunk_key s"
  by (simp add: is_part_def trunk_key_def)

section \<open>Splitting a chain around a range\<close>

text \<open>
  What the planning phase computes for the range \<open>[lo, hi)\<close>: \<open>dels\<close> are the slices that
  overlap it and \<open>adds\<close> the parts of them that stick out on the left or on the right.
\<close>

definition overlaps :: "int \<Rightarrow> int \<Rightarrow> OBSliceEntry \<Rightarrow> bool" where
  "overlaps lo hi s \<longleftrightarrow> sl_offset s < hi \<and> lo < sl_end s"

definition left_part :: "int \<Rightarrow> OBSliceEntry \<Rightarrow> OBSliceEntry \<Rightarrow> bool" where
  "left_part lo s t \<longleftrightarrow> sl_offset s < lo \<and> is_part t s (sl_offset s) (lo - sl_offset s)"

definition right_part :: "int \<Rightarrow> OBSliceEntry \<Rightarrow> OBSliceEntry \<Rightarrow> bool" where
  "right_part hi s t \<longleftrightarrow> hi < sl_end s \<and> is_part t s hi (sl_end s - hi)"

definition split_of :: "OBSliceEntry list \<Rightarrow> int \<Rightarrow> int \<Rightarrow> OBSliceEntry list \<Rightarrow> OBSliceEntry list \<Rightarrow> bool" where
  "split_of chain lo hi dels adds \<longleftrightarrow>
     dels = filter (overlaps lo hi) chain \<and>
     (\<forall>t\<in>set adds. \<exists>s\<in>set dels. left_part lo s t \<or> right_part hi s t) \<and>
     (\<forall>s\<in>set dels. (sl_offset s < lo \<longrightarrow> (\<exists>t\<in>set adds. left_part lo s t)) \<and>
                    (hi < sl_end s \<longrightarrow> (\<exists>t\<in>set adds. right_part hi s t))) \<and>
     sorted_wrt (\<lambda>a b. sl_end a \<le> sl_offset b) adds"

lemma split_adds_sound:
  assumes "split_of chain lo hi dels adds" "block_ok chain" "lo < hi" "t \<in> set adds"
  obtains s where "s \<in> set chain" "overlaps lo hi s" "sl_offset s \<le> sl_offset t" "sl_end t \<le> sl_end s"
    "0 < sl_length t" "sl_end t \<le> lo \<or> hi \<le> sl_offset t" "\<And>x. byte_loc t x = byte_loc s x"
    "trunk_key t = trunk_key s"
proof -
  from assms obtain s where s: "s \<in> set chain" "overlaps lo hi s" "left_part lo s t \<or> right_part hi s t"
    unfolding split_of_def by (metis (lifting) mem_Collect_eq set_filter)
  have "sl_offset s \<le> sl_offset t" "sl_end t \<le> sl_end s" "0 < sl_length t"
    "sl_end t \<le> lo \<or> hi \<le> sl_offset t"
    using s assms(3) by (auto simp: left_part_def right_part_def overlaps_def dest!: part_size)
  moreover have "byte_loc t x = byte_loc s x" "trunk_key t = trunk_key s" for x
    using s(3) by (auto simp: left_part_def right_part_def part_byte_loc part_trunk_key)
  ultimately show thesis using s(1,2) that by blast
qed

text \<open>The slices that remain and the parts together map exactly the bytes outside the range.\<close>

lemma split_outside:
  assumes split: "split_of chain lo hi dels adds" and ok: "block_ok chain" and lt: "lo < hi"
    and out: "x < lo \<or> hi \<le> x"
  shows "(\<exists>s\<in>(set chain - set dels) \<union> set adds. x \<in> slice_range s \<and> l = byte_loc s x) \<longleftrightarrow>
         (\<exists>s\<in>set chain. x \<in> slice_range s \<and> l = byte_loc s x)" (is "?L \<longleftrightarrow> ?R")
proof
  assume ?L
  then consider s where "s \<in> set chain" "x \<in> slice_range s" "l = byte_loc s x"
    | t where "t \<in> set adds" "x \<in> slice_range t" "l = byte_loc t x" by blast
  then show ?R
  proof cases
    case (2 t)
    from split_adds_sound [OF split ok lt 2(1)] obtain s where "s \<in> set chain"
      "sl_offset s \<le> sl_offset t" "sl_end t \<le> sl_end s" "byte_loc t x = byte_loc s x" by metis
    then show ?thesis using 2 by (intro bexI [of _ s]) auto
  qed blast
next
  assume ?R
  then obtain s where s: "s \<in> set chain" "x \<in> slice_range s" "l = byte_loc s x" by blast
  show ?L
  proof (cases "s \<in> set dels")
    case True
    consider "x < lo" | "hi \<le> x" using out by blast
    then show ?thesis
    proof cases
      case 1
      then have "sl_offset s < lo" using s by simp
      with True split obtain t where "t \<in> set adds" "left_part lo s t" by (auto simp: split_of_def)
      then show ?thesis using 1 s by (intro bexI [of _ t]) (auto simp: left_part_def part_byte_loc part_range)
    next
      case 2
      then have "hi < sl_end s" using s by simp
      with True split obtain t where "t \<in> set adds" "right_part hi s t" by (auto simp: split_of_def)
      then show ?thesis using 2 s by (intro bexI [of _ t]) (auto simp: right_part_def part_byte_loc part_range)
    qed
  qed (use s in blast)
qed

lemma split_inside:
  assumes "split_of chain lo hi dels adds" "block_ok chain" "lo < hi" "lo \<le> x" "x < hi"
    and "s \<in> (set chain - set dels) \<union> set adds"
  shows "x \<notin> slice_range s"
proof (cases "s \<in> set adds")
  case True
  from split_adds_sound [OF assms(1-3) True] show ?thesis using assms(4,5) by fastforce
next
  case False
  with assms(6) have "s \<in> set chain" "\<not> overlaps lo hi s"
    using assms(1) by (auto simp: split_of_def)
  then show ?thesis using assms(4,5) by (auto simp: overlaps_def)
qed

text \<open>Any two slices of what remains and the parts are apart.\<close>

lemma split_apart:
  assumes split: "split_of chain lo hi dels adds" and ok: "block_ok chain" and lt: "lo < hi"
    and st: "s \<in> (set chain - set dels) \<union> set adds" "t \<in> (set chain - set dels) \<union> set adds" "s \<noteq> t"
  shows "sl_end s \<le> sl_offset t \<or> sl_end t \<le> sl_offset s"
proof -
  have one: "sl_end a \<le> sl_offset b \<or> sl_end b \<le> sl_offset a"
    if a: "a \<in> set chain - set dels" and b: "b \<in> set adds" for a b
  proof -
    from split_adds_sound [OF split ok lt b] obtain c where c: "c \<in> set chain" "overlaps lo hi c"
      "sl_offset c \<le> sl_offset b" "sl_end b \<le> sl_end c" by metis
    with a split have "a \<noteq> c" by (auto simp: split_of_def)
    with block_ok_apart [OF ok, of a c] a c show ?thesis by auto
  qed
  have "sl_end s \<le> sl_offset t \<or> sl_end t \<le> sl_offset s" if "s \<in> set adds" "t \<in> set adds"
  proof -
    have "sorted_wrt (\<lambda>a b. sl_end a \<le> sl_offset b) adds" using split by (simp add: split_of_def)
    then show ?thesis using that st(3) by (induction adds) auto
  qed
  then show ?thesis using st one [of s t] one [of t s] block_ok_apart [OF ok, of s t] by blast
qed

lemma adds_offsets:
  assumes split: "split_of chain lo hi dels adds" and ok: "block_ok chain" and lt: "lo < hi"
  shows "distinct (map sl_offset adds)"
proof -
  have pos: "0 < sl_length t" if "t \<in> set adds" for t
    by (rule split_adds_sound [OF split ok lt that])
  have "sorted_wrt (\<lambda>a b. sl_end a \<le> sl_offset b) adds" using split by (simp add: split_of_def)
  then have "sorted_wrt (\<lambda>a b. sl_offset a < sl_offset b) adds"
    by (rule sorted_wrt_mono_rel [rotated]) (use pos in fastforce)
  then have "sorted_wrt (<) (map sl_offset adds)" by (simp add: sorted_wrt_map)
  then show ?thesis by (simp add: strict_sorted_iff)
qed

lemma adds_apart:
  assumes split: "split_of chain lo hi dels adds" and ok: "block_ok chain" and lt: "lo < hi"
    and t: "t \<in> set adds" and x: "x \<in> set chain" "x \<notin> set dels"
  shows "sl_offset x \<noteq> sl_offset t"
proof -
  from split_adds_sound [OF split ok lt t] obtain s where s: "s \<in> set chain"
    "overlaps lo hi s" "sl_offset s \<le> sl_offset t" "sl_end t \<le> sl_end s" "0 < sl_length t" by metis
  have "x \<noteq> s" using s x split by (auto simp: split_of_def)
  with block_ok_apart [OF ok x(1) s(1)] s block_ok_pos [OF ok x(1)] show ?thesis by fastforce
qed

end
