(* ===== verification/Slice_Plan.thy ===== *)
theory Slice_Plan
  imports Block_Map
begin

text \<open>
  The planning loops of \<open>add_slice\<close> and \<open>delete_slices\<close>: when they succeed they have computed
  a split of the chain (\<open>split_of\<close>) and the number of bytes that change; when they fail they
  report \<open>ENOMEM\<close>.
\<close>

abbreviation plan_dels :: "split_plan \<Rightarrow> OBSliceEntry list" where
  "plan_dels sp \<equiv> sa_slices (sp_del sp)"

abbreviation plan_adds :: "split_plan \<Rightarrow> OBSliceEntry list" where
  "plan_adds sp \<equiv> sa_slices (sp_add sp)"

section \<open>Single steps\<close>

lemma smart_array_result: "oom_only (add_to_slice_ptr_smart_array E s ah)"
  by (auto simp: oom_only_def add_to_slice_ptr_smart_array_def Let_def split: prod.splits)

lemma smart_array_ok:
  "add_to_slice_ptr_smart_array E s (arr, h) = (0, arr', h') \<Longrightarrow>
   sa_slices arr' = sa_slices arr @ [s] \<and> sh_refs h' = sh_refs h"
  by (auto simp: add_to_slice_ptr_smart_array_def Let_def split: prod.splits if_splits)

lemma plan_delete_result: "oom_only (plan_delete E s sp)"
  using smart_array_result [of E s "(sp_del sp, sp_heap sp)"]
  by (auto simp: oom_only_def plan_delete_def split: prod.splits)

lemma plan_keep_result: "oom_only (plan_keep E s a n sp)"
proof (cases "slice_dup E s a n (sp_heap sp)")
  case (Pair t h)
  show ?thesis
  proof (cases t)
    case None
    with Pair show ?thesis by (simp add: oom_only_def plan_keep_def dup_slice_to_smart_array_def)
  next
    case (Some u)
    have "oom_only (add_to_slice_ptr_smart_array E (u\<lparr>sl_space := (sl_space u)\<lparr>ts_size := n\<rparr>\<rparr>) (sp_add sp, h))"
      by (rule smart_array_result)
    with Pair Some show ?thesis
      by (auto simp: oom_only_def plan_keep_def dup_slice_to_smart_array_def split: prod.splits)
  qed
qed

lemma plan_delete_ok:
  "plan_delete E s sp = (0, sp') \<Longrightarrow>
   plan_dels sp' = plan_dels sp @ [s] \<and> sp_add sp' = sp_add sp \<and>
   sp_count sp' = sp_count sp \<and> sp_start sp' = sp_start sp \<and>
   sh_refs (sp_heap sp') = sh_refs (sp_heap sp)"
  by (auto simp: plan_delete_def split: prod.splits dest: smart_array_ok)

lemma slice_dup_part:
  assumes "slice_dup E src a n h = (Some t, h')" "sl_offset src \<le> a"
  shows "is_part t src a n"
  using assms
  by (auto simp: slice_dup_def is_part_def Let_def split: prod.splits option.splits)

context fastcommon
begin

lemma slice_dup_refs:
  assumes "slice_dup E src a n h = (Some t, h')"
  shows "sh_refs h (sl_ptr t) = None" "sh_refs h' = (sh_refs h)(sl_ptr t \<mapsto> 1)"
proof -
  from assms obtain p h1 where "heap_alloc E h = (Some p, h1)" "sl_ptr t = p" "h' = slice_add_ref p 1 h1"
    by (auto simp: slice_dup_def Let_def split: prod.splits option.splits)
  then show "sh_refs h (sl_ptr t) = None" "sh_refs h' = (sh_refs h)(sl_ptr t \<mapsto> 1)"
    using heap_alloc_Some [of h p h1] by (auto simp: slice_add_ref_def)
qed

lemma plan_keep_ok:
  assumes "plan_keep E src a n sp = (0, sp')" "sl_offset src \<le> a"
  shows "\<exists>t. plan_adds sp' = plan_adds sp @ [t] \<and> is_part t src a n \<and> ts_size (sl_space t) = n \<and>
    sp_del sp' = sp_del sp \<and> sp_count sp' = sp_count sp \<and> sp_start sp' = sp_start sp \<and>
    sh_refs (sp_heap sp) (sl_ptr t) = None \<and>
    sh_refs (sp_heap sp') = (sh_refs (sp_heap sp))(sl_ptr t \<mapsto> 1)"
proof -
  from assms(1) obtain t0 h1 arr h2 where
    d: "slice_dup E src a n (sp_heap sp) = (Some t0, h1)" and
    r: "add_to_slice_ptr_smart_array E (t0\<lparr>sl_space := (sl_space t0)\<lparr>ts_size := n\<rparr>\<rparr>) (sp_add sp, h1) = (0, arr, h2)"
    and sp': "sp' = sp\<lparr>sp_add := arr, sp_heap := h2\<rparr>"
    by (auto simp: plan_keep_def dup_slice_to_smart_array_def split: prod.splits option.splits)
  let ?t = "t0\<lparr>sl_space := (sl_space t0)\<lparr>ts_size := n\<rparr>\<rparr>"
  have "is_part ?t src a n"
    using slice_dup_part [OF d assms(2)] by (simp add: is_part_def)
  then show ?thesis
    using smart_array_ok [OF r] slice_dup_refs [OF d] sp'
    by (intro exI [of _ ?t]) auto
qed

end

section \<open>Extending a plan\<close>

definition grown :: "slice_heap \<Rightarrow> OBSliceEntry list \<Rightarrow> slice_heap \<Rightarrow> bool" where
  "grown h ts h' \<longleftrightarrow> distinct (map sl_ptr ts) \<and> (\<forall>t\<in>set ts. sh_refs h (sl_ptr t) = None) \<and>
     sh_refs h' = (\<lambda>p. if p \<in> sl_ptr ` set ts then Some 1 else sh_refs h p)"

definition plan_ext :: "split_plan \<Rightarrow> OBSliceEntry list \<Rightarrow> OBSliceEntry list \<Rightarrow> split_plan \<Rightarrow> bool" where
  "plan_ext sp ds ts sp' \<longleftrightarrow> plan_dels sp' = plan_dels sp @ ds \<and> plan_adds sp' = plan_adds sp @ ts \<and>
     (\<forall>t\<in>set ts. ts_size (sl_space t) = sl_length t) \<and> grown (sp_heap sp) ts (sp_heap sp')"

lemma grown_refl: "sh_refs h' = sh_refs h \<Longrightarrow> grown h [] h'"
  by (simp add: grown_def)

lemma grown_trans:
  assumes "grown h ts h1" "grown h1 us h2"
  shows "grown h (ts @ us) h2"
proof -
  have "sl_ptr u \<notin> sl_ptr ` set ts \<and> sh_refs h (sl_ptr u) = None" if "u \<in> set us" for u
    using assms that by (auto simp: grown_def split: if_splits)
  then have "distinct (map sl_ptr (ts @ us))" "\<forall>t\<in>set (ts @ us). sh_refs h (sl_ptr t) = None"
    using assms by (auto simp: grown_def) (metis image_eqI)
  moreover have "sh_refs h2 = (\<lambda>p. if p \<in> sl_ptr ` set (ts @ us) then Some 1 else sh_refs h p)"
    using assms by (auto simp: grown_def fun_eq_iff)
  ultimately show ?thesis by (simp only: grown_def)
qed

lemma plan_ext_trans:
  "plan_ext sp ds ts sp1 \<Longrightarrow> plan_ext sp1 ds' ts' sp2 \<Longrightarrow> plan_ext sp (ds @ ds') (ts @ ts') sp2"
  by (auto simp: plan_ext_def intro: grown_trans)

lemma plan_ext_refl [simp]: "plan_ext sp [] [] sp"
  by (simp add: plan_ext_def grown_refl)

lemma plan_ext_count [simp]:
  "plan_ext (sp\<lparr>sp_count := c\<rparr>) ds ts sp' = plan_ext sp ds ts sp'"
  "plan_ext sp ds ts (sp'\<lparr>sp_count := c\<rparr>) = plan_ext sp ds ts sp'"
  "plan_ext (sp\<lparr>sp_start := c\<rparr>) ds ts sp' = plan_ext sp ds ts sp'"
  "plan_ext sp ds ts (sp'\<lparr>sp_start := c\<rparr>) = plan_ext sp ds ts sp'"
  by (simp_all add: plan_ext_def)

lemma plan_delete_ext: "plan_delete E s sp = (0, sp') \<Longrightarrow> plan_ext sp [s] [] sp'"
  by (auto simp: plan_ext_def grown_refl dest: plan_delete_ok)

context fastcommon
begin

lemma plan_keep_ext:
  assumes "plan_keep E src a n sp = (0, sp')" "sl_offset src \<le> a"
  obtains t where "plan_ext sp [] [t] sp'" "is_part t src a n"
proof -
  from plan_keep_ok [OF assms] obtain t where t: "plan_adds sp' = plan_adds sp @ [t]" "is_part t src a n"
    "ts_size (sl_space t) = n" "sp_del sp' = sp_del sp" "sh_refs (sp_heap sp) (sl_ptr t) = None"
    "sh_refs (sp_heap sp') = (sh_refs (sp_heap sp))(sl_ptr t \<mapsto> 1)" by blast
  then have "plan_ext sp [] [t] sp'"
    by (auto simp: plan_ext_def grown_def dest: part_size)
  with t(2) that show thesis by blast
qed

end

section \<open>The parts a plan keeps\<close>

definition tail_parts :: "int \<Rightarrow> OBSliceEntry list \<Rightarrow> OBSliceEntry list \<Rightarrow> bool" where
  "tail_parts hi nodes ts \<longleftrightarrow> length ts \<le> 1 \<and>
     (\<forall>t\<in>set ts. \<exists>s\<in>set nodes. sl_offset s < hi \<and> right_part hi s t) \<and>
     (\<forall>s\<in>set nodes. sl_offset s < hi \<and> hi < sl_end s \<longrightarrow> (\<exists>t\<in>set ts. right_part hi s t))"

definition prev_parts :: "int \<Rightarrow> int \<Rightarrow> OBSliceEntry \<Rightarrow> OBSliceEntry list \<Rightarrow> bool" where
  "prev_parts lo hi s ts \<longleftrightarrow>
     (if lo < sl_end s then
        (if hi < sl_end s then (\<exists>l r. ts = [l, r] \<and> left_part lo s l \<and> right_part hi s r)
         else (\<exists>l. ts = [l] \<and> left_part lo s l))
      else ts = [])"

lemma tail_parts_none:
  "(\<And>s. s \<in> set nodes \<Longrightarrow> hi \<le> sl_offset s) \<Longrightarrow> tail_parts hi nodes []"
  by (fastforce simp: tail_parts_def)

lemma tail_parts_skip:
  "sl_end s \<le> hi \<Longrightarrow> tail_parts hi nodes ts \<Longrightarrow> tail_parts hi (s # nodes) ts"
  by (auto simp: tail_parts_def)

lemma tail_parts_last:
  assumes "hi < sl_end s" "sl_offset s < hi" "is_part t s hi (sl_end s - hi)"
    "\<forall>u\<in>set nodes. sl_end s \<le> sl_offset u"
  shows "tail_parts hi (s # nodes) [t]"
  using assms by (fastforce simp: tail_parts_def right_part_def)

lemma prev_and_tail_split:
  assumes ok: "block_ok (pre @ nodes)" and lt: "lo < hi"
    and pre: "\<forall>s\<in>set pre. sl_offset s < lo" and nodes: "\<forall>s\<in>set nodes. lo \<le> sl_offset s"
    and ts: "if pre = [] then ts = [] else prev_parts lo hi (last pre) ts"
    and us: "tail_parts hi nodes us"
  shows "split_of (pre @ nodes) lo hi
    ((if pre \<noteq> [] \<and> lo < sl_end (last pre) then [last pre] else []) @ filter (\<lambda>s. sl_offset s < hi) nodes)
    (ts @ us)"
proof -
  let ?P = "if pre \<noteq> [] \<and> lo < sl_end (last pre) then [last pre] else []"
  have f1: "filter (overlaps lo hi) pre = ?P"
  proof (cases pre rule: rev_cases)
    case (snoc pre' q)
    have "\<forall>s\<in>set pre'. \<not> overlaps lo hi s"
      using ok pre snoc by (fastforce simp: block_ok_append overlaps_def)
    then have "filter (overlaps lo hi) pre' = []" by (simp add: filter_empty_conv)
    then show ?thesis using snoc pre lt by (auto simp: overlaps_def)
  qed simp
  have f2: "filter (overlaps lo hi) nodes = filter (\<lambda>s. sl_offset s < hi) nodes"
    using ok nodes by (intro filter_cong) (fastforce simp: overlaps_def block_ok_append dest: block_ok_pos)+
  have right_above: "hi < sl_end s \<Longrightarrow> pre \<noteq> [] \<Longrightarrow> s = last pre \<Longrightarrow> us = []" for s
  proof -
    assume "hi < sl_end s" "pre \<noteq> []" "s = last pre"
    then have "s \<in> set pre" by simp
    then have "\<forall>u\<in>set nodes. sl_end s \<le> sl_offset u" using ok by (auto simp: block_ok_append)
    then have "\<forall>u\<in>set nodes. hi < sl_offset u" using \<open>hi < sl_end s\<close> by fastforce
    then show "us = []" using us by (cases us) (auto simp: tail_parts_def)
  qed
  have sorted: "sorted_wrt (\<lambda>a b. sl_end a \<le> sl_offset b) (ts @ us)"
  proof -
    have "sl_offset u = hi" if "u \<in> set us" for u
      using us that by (auto simp: tail_parts_def right_part_def dest: part_size)
    moreover have "length us \<le> 1" using us by (simp add: tail_parts_def)
    then have "sorted_wrt (\<lambda>a b. sl_end a \<le> sl_offset b) us" by (cases us) auto
    ultimately show ?thesis
      using ts lt right_above
      by (auto simp: prev_parts_def left_part_def right_part_def sorted_wrt_append dest!: part_size
          split: if_splits)
  qed
  show ?thesis
    unfolding split_of_def
  proof (intro conjI)
    show "?P @ filter (\<lambda>s. sl_offset s < hi) nodes = filter (overlaps lo hi) (pre @ nodes)"
      using f1 f2 by simp
    show "\<forall>t\<in>set (ts @ us). \<exists>s\<in>set (?P @ filter (\<lambda>s. sl_offset s < hi) nodes). left_part lo s t \<or> right_part hi s t"
      using ts us by (auto simp: prev_parts_def tail_parts_def split: if_splits)
    show "\<forall>s\<in>set (?P @ filter (\<lambda>s. sl_offset s < hi) nodes).
        (sl_offset s < lo \<longrightarrow> (\<exists>t\<in>set (ts @ us). left_part lo s t)) \<and>
        (hi < sl_end s \<longrightarrow> (\<exists>t\<in>set (ts @ us). right_part hi s t))"
      using ts us pre nodes by (fastforce simp: prev_parts_def tail_parts_def split: if_splits)
  qed (rule sorted)
qed

section \<open>The planning loops\<close>

context fastcommon
begin

lemma add_slice_previous_ext:
  assumes "add_slice_previous E slice cur sp = (0, sp')" "sl_offset cur < sl_offset slice"
    "0 < sl_length slice"
  shows "\<exists>ts. plan_ext sp (if sl_offset slice < sl_end cur then [cur] else []) ts sp' \<and>
    prev_parts (sl_offset slice) (sl_end slice) cur ts"
proof (cases "sl_offset slice < sl_end cur")
  case True
  with assms(1) obtain sp1 sp2 where 1: "plan_delete E cur sp = (0, sp1)"
    and 2: "plan_keep E cur (sl_offset cur) (sl_offset slice - sl_offset cur) sp1 = (0, sp2)"
    and 3: "if sl_end slice < sl_end cur
      then plan_keep E cur (sl_end slice) (sl_end cur - sl_end slice) (sp2\<lparr>sp_start := sl_end cur\<rparr>) = (0, sp')
      else sp' = sp2\<lparr>sp_start := sl_end cur\<rparr>"
    by (auto simp: add_slice_previous_def then_ok_success Let_def split: if_splits)
  from 2 obtain l where l: "plan_ext sp1 [] [l] sp2" "left_part (sl_offset slice) cur l"
    using assms(2) by (elim plan_keep_ext) (auto simp: left_part_def)
  have sp2: "plan_ext sp [cur] [l] sp2"
    using plan_ext_trans [OF plan_delete_ext [OF 1] l(1)] by simp
  show ?thesis
  proof (cases "sl_end slice < sl_end cur")
    case True
    with 3 have "plan_keep E cur (sl_end slice) (sl_end cur - sl_end slice) (sp2\<lparr>sp_start := sl_end cur\<rparr>) = (0, sp')"
      by simp
    then obtain r where "plan_ext sp2 [] [r] sp'" "right_part (sl_end slice) cur r"
      using assms(2,3) True by (elim plan_keep_ext) (auto simp: right_part_def)
    then show ?thesis
      using plan_ext_trans [OF sp2] True l \<open>sl_offset slice < sl_end cur\<close>
      by (auto simp: prev_parts_def)
  next
    case False
    then show ?thesis using 3 sp2 l True by (auto simp: prev_parts_def)
  qed
next
  case False
  then show ?thesis using assms(1) by (auto simp: add_slice_previous_def prev_parts_def)
qed

lemma add_slice_nodes_ext:
  assumes "add_slice_nodes E hi nodes sp = (0, sp')" "block_ok nodes"
  shows "\<exists>ts. plan_ext sp (filter (\<lambda>s. sl_offset s < hi) nodes) ts sp' \<and> tail_parts hi nodes ts"
  using assms
proof (induction nodes arbitrary: sp)
  case Nil
  then show ?case by (auto intro!: tail_parts_none exI [of _ "[]"])
next
  case (Cons cur nodes)
  have above: "\<forall>u\<in>set nodes. sl_end cur \<le> sl_offset u" and ok: "block_ok nodes"
    and pos: "0 < sl_length cur"
    using Cons.prems(2) by (auto simp: block_ok_Cons)
  show ?case
  proof (cases "hi \<le> sl_offset cur")
    case True
    then have "\<forall>u\<in>set (cur # nodes). hi \<le> sl_offset u" using above pos by fastforce
    then have "filter (\<lambda>s. sl_offset s < hi) (cur # nodes) = []"
      by (auto simp: filter_empty_conv not_less)
    moreover have "tail_parts hi (cur # nodes) []"
      using \<open>\<forall>u\<in>set (cur # nodes). hi \<le> sl_offset u\<close> by (intro tail_parts_none) blast
    ultimately show ?thesis using Cons.prems(1) True by (intro exI [of _ "[]"]) auto
  next
    case False
    with Cons.prems(1) obtain sp1 sp2 where 1: "plan_delete E cur sp = (0, sp1)"
      and sp2: "\<exists>c. sp2 = sp1\<lparr>sp_count := c, sp_start := sl_end cur\<rparr>"
      and 2: "(if sl_end cur > hi then plan_keep E cur hi (sl_end cur - hi) sp2
               else add_slice_nodes E hi nodes sp2) = (0, sp')"
      by (auto simp: then_ok_success Let_def)
    from sp2 plan_delete_ext [OF 1] have e2: "plan_ext sp [cur] [] sp2" by auto
    show ?thesis
    proof (cases "sl_end cur > hi")
      case True
      with 2 False obtain t where t: "plan_ext sp2 [] [t] sp'" "is_part t cur hi (sl_end cur - hi)"
        by (metis linear plan_keep_ext)
      have "filter (\<lambda>s. sl_offset s < hi) nodes = []"
        using above True by (fastforce simp: filter_empty_conv)
      moreover have "tail_parts hi (cur # nodes) [t]"
        using tail_parts_last True False t(2) above by auto
      ultimately show ?thesis using plan_ext_trans [OF e2 t(1)] False by auto
    next
      case 3: False
      with 2 Cons.IH [OF _ ok] obtain ts where
        ts: "plan_ext sp2 (filter (\<lambda>s. sl_offset s < hi) nodes) ts sp'" "tail_parts hi nodes ts"
        by auto
      then show ?thesis
        using plan_ext_trans [OF e2 ts(1)] tail_parts_skip [of cur hi nodes ts] 3 False by auto
    qed
  qed
qed

lemma delete_slices_previous_ext:
  assumes "delete_slices_previous E key cur sp = (0, sp')" "sl_offset cur < ss_offset key"
    "0 < ss_length key"
  shows "\<exists>ts. plan_ext sp (if ss_offset key < sl_end cur then [cur] else []) ts sp' \<and>
    prev_parts (ss_offset key) (ss_offset key + ss_length key) cur ts"
proof (cases "ss_offset key < sl_end cur")
  case True
  let ?hi = "ss_offset key + ss_length key"
  from True assms(1) obtain sp1 sp2 where 1: "plan_delete E cur sp = (0, sp1)"
    and 2: "plan_keep E cur (sl_offset cur) (ss_offset key - sl_offset cur) sp1 = (0, sp2)"
    and 3: "if ?hi < sl_end cur
      then \<exists>sp3 c. plan_keep E cur ?hi (sl_end cur - ?hi) sp2 = (0, sp3) \<and> sp' = sp3\<lparr>sp_count := c\<rparr>
      else \<exists>c. sp' = sp2\<lparr>sp_count := c\<rparr>"
    by (cases "?hi < sl_end cur") (auto simp: delete_slices_previous_def then_ok_success Let_def)
  from 2 obtain l where l: "plan_ext sp1 [] [l] sp2" "left_part (ss_offset key) cur l"
    using assms(2) by (elim plan_keep_ext) (auto simp: left_part_def)
  have sp2: "plan_ext sp [cur] [l] sp2"
    using plan_ext_trans [OF plan_delete_ext [OF 1] l(1)] by simp
  show ?thesis
  proof (cases "?hi < sl_end cur")
    case True
    with 3 obtain sp3 c where "plan_keep E cur ?hi (sl_end cur - ?hi) sp2 = (0, sp3)"
      and 4: "sp' = sp3\<lparr>sp_count := c\<rparr>" by auto
    then obtain r where "plan_ext sp2 [] [r] sp3" "right_part ?hi cur r"
      using assms(2,3) True by (elim plan_keep_ext) (auto simp: right_part_def)
    then show ?thesis
      using plan_ext_trans [OF sp2] True l \<open>ss_offset key < sl_end cur\<close> 4
      by (auto simp: prev_parts_def)
  next
    case False
    then show ?thesis using 3 sp2 l True by (auto simp: prev_parts_def)
  qed
next
  case False
  then show ?thesis using assms(1) by (auto simp: delete_slices_previous_def prev_parts_def)
qed

lemma delete_slices_nodes_ext:
  assumes "delete_slices_nodes E hi nodes sp = (0, sp')" "block_ok nodes"
  shows "\<exists>ts. plan_ext sp (filter (\<lambda>s. sl_offset s < hi) nodes) ts sp' \<and> tail_parts hi nodes ts"
  using assms
proof (induction nodes arbitrary: sp)
  case Nil
  then show ?case by (auto intro!: tail_parts_none exI [of _ "[]"])
next
  case (Cons cur nodes)
  have above: "\<forall>u\<in>set nodes. sl_end cur \<le> sl_offset u" and ok: "block_ok nodes"
    and pos: "0 < sl_length cur"
    using Cons.prems(2) by (auto simp: block_ok_Cons)
  show ?case
  proof (cases "hi \<le> sl_offset cur")
    case True
    then have "\<forall>u\<in>set (cur # nodes). hi \<le> sl_offset u" using above pos by fastforce
    then have "filter (\<lambda>s. sl_offset s < hi) (cur # nodes) = []"
      by (auto simp: filter_empty_conv not_less)
    moreover have "tail_parts hi (cur # nodes) []"
      using \<open>\<forall>u\<in>set (cur # nodes). hi \<le> sl_offset u\<close> by (intro tail_parts_none) blast
    ultimately show ?thesis using Cons.prems(1) True by (intro exI [of _ "[]"]) auto
  next
    case False
    with Cons.prems(1) obtain sp1 where 1: "plan_delete E cur sp = (0, sp1)"
      and 2: "if sl_end cur > hi
        then \<exists>sp2 c. plan_keep E cur hi (sl_end cur - hi) sp1 = (0, sp2) \<and> sp' = sp2\<lparr>sp_count := c\<rparr>
        else \<exists>c. delete_slices_nodes E hi nodes (sp1\<lparr>sp_count := c\<rparr>) = (0, sp')"
      by (cases "sl_end cur > hi") (auto simp: then_ok_success)
    note e1 = plan_delete_ext [OF 1]
    show ?thesis
    proof (cases "sl_end cur > hi")
      case True
      with 2 False obtain t where t: "plan_ext sp1 [] [t] sp'" "is_part t cur hi (sl_end cur - hi)"
        by (metis linear plan_keep_ext plan_ext_count(2))
      have "filter (\<lambda>s. sl_offset s < hi) nodes = []"
        using above True by (fastforce simp: filter_empty_conv)
      moreover have "tail_parts hi (cur # nodes) [t]"
        using tail_parts_last True False t(2) above by auto
      ultimately show ?thesis using plan_ext_trans [OF e1 t(1)] False by auto
    next
      case 3: False
      with 2 Cons.IH [OF _ ok] obtain ts where
        ts: "plan_ext sp1 (filter (\<lambda>s. sl_offset s < hi) nodes) ts sp'" "tail_parts hi nodes ts"
        by (metis plan_ext_count(1))
      then show ?thesis
        using plan_ext_trans [OF e1 ts(1)] tail_parts_skip [of cur hi nodes ts] 3 False by auto
    qed
  qed
qed

section \<open>Counting bytes\<close>

text \<open>
  \<open>add_slice\<close> counts the bytes of the range that no slice covered, \<open>delete_slices\<close> those that
  one did.
\<close>

lemma add_slice_nodes_count:
  assumes "add_slice_nodes E hi nodes sp = (0, sp')" "block_ok nodes"
    "\<forall>s\<in>set nodes. sp_start sp \<le> sl_offset s"
  shows "sp_count sp' + (if hi > sp_start sp' then hi - sp_start sp' else 0) =
    sp_count sp + int (card ({sp_start sp..<hi} - covered nodes))"
  using assms
proof (induction nodes arbitrary: sp)
  case Nil
  then show ?case by simp
next
  case (Cons cur nodes)
  have above: "\<forall>u\<in>set nodes. sl_end cur \<le> sl_offset u" and ok: "block_ok nodes"
    and pos: "0 < sl_length cur" and start: "sp_start sp \<le> sl_offset cur"
    using Cons.prems(2,3) by (auto simp: block_ok_Cons)
  have cov: "sl_end cur \<le> x" if "x \<in> covered nodes" for x
    using covered_ge [OF _ that] above by blast
  show ?case
  proof (cases "hi \<le> sl_offset cur")
    case True
    then have "{sp_start sp..<hi} - covered (cur # nodes) = {sp_start sp..<hi}"
      using cov pos by (fastforce simp: covered_Cons)
    moreover have "sp' = sp" using Cons.prems(1) True by simp
    ultimately show ?thesis by simp
  next
    case False
    with Cons.prems(1) obtain sp1 where 1: "plan_delete E cur sp = (0, sp1)"
      and 2: "(if sl_end cur > hi then plan_keep E cur hi (sl_end cur - hi)
                 (sp1\<lparr>sp_count := sp_count sp1 + (sl_offset cur - sp_start sp1), sp_start := sl_end cur\<rparr>)
               else add_slice_nodes E hi nodes
                 (sp1\<lparr>sp_count := sp_count sp1 + (sl_offset cur - sp_start sp1), sp_start := sl_end cur\<rparr>)) = (0, sp')"
      using start plan_delete_ok
      by (fastforce simp: then_ok_success Let_def not_less dest: order_antisym split: if_splits)
    note d = plan_delete_ok [OF 1]
    show ?thesis
    proof (cases "sl_end cur > hi")
      case True
      with 2 False have "sp_count sp' = sp_count sp + (sl_offset cur - sp_start sp)" "sp_start sp' = sl_end cur"
        using plan_keep_ok [of cur hi _ _ sp'] d by fastforce+
      moreover have "{sp_start sp..<hi} - covered (cur # nodes) = {sp_start sp..<sl_offset cur}"
        using cov True False by (fastforce simp: covered_Cons)
      ultimately show ?thesis using True start by simp
    next
      case 3: False
      let ?sp = "sp1\<lparr>sp_count := sp_count sp1 + (sl_offset cur - sp_start sp1), sp_start := sl_end cur\<rparr>"
      have "add_slice_nodes E hi nodes ?sp = (0, sp')" using 2 3 by simp
      from Cons.IH [OF this ok] above
      have IH: "sp_count sp' + (if hi > sp_start sp' then hi - sp_start sp' else 0) =
          sp_count sp + (sl_offset cur - sp_start sp) + int (card ({sl_end cur..<hi} - covered nodes))"
        using d by simp
      have "{sp_start sp..<hi} - covered (cur # nodes) =
          {sp_start sp..<sl_offset cur} \<union> ({sl_end cur..<hi} - covered nodes)"
        using cov 3 False start pos by (fastforce simp: covered_Cons)
      then have "int (card ({sp_start sp..<hi} - covered (cur # nodes))) =
          (sl_offset cur - sp_start sp) + int (card ({sl_end cur..<hi} - covered nodes))"
        using start pos by (simp add: int_card_Un_disjoint disjoint_iff)
      with IH show ?thesis by simp
    qed
  qed
qed

lemma delete_slices_nodes_count:
  assumes "delete_slices_nodes E hi nodes sp = (0, sp')" "block_ok nodes"
  shows "sp_count sp' = sp_count sp + int (card ({..<hi} \<inter> covered nodes))"
  using assms
proof (induction nodes arbitrary: sp)
  case Nil
  then show ?case by simp
next
  case (Cons cur nodes)
  have above: "\<forall>u\<in>set nodes. sl_end cur \<le> sl_offset u" and ok: "block_ok nodes"
    and pos: "0 < sl_length cur"
    using Cons.prems(2) by (auto simp: block_ok_Cons)
  have cov: "sl_end cur \<le> x" if "x \<in> covered nodes" for x
    using covered_ge [OF _ that] above by blast
  show ?case
  proof (cases "hi \<le> sl_offset cur")
    case True
    then have "{..<hi} \<inter> covered (cur # nodes) = {}"
      using cov pos by (fastforce simp: covered_Cons)
    then show ?thesis using Cons.prems(1) True by simp
  next
    case False
    with Cons.prems(1) obtain sp1 where 1: "plan_delete E cur sp = (0, sp1)"
      and 2: "if sl_end cur > hi
        then \<exists>sp2. plan_keep E cur hi (sl_end cur - hi) sp1 = (0, sp2) \<and>
               sp' = sp2\<lparr>sp_count := sp_count sp2 + (hi - sl_offset cur)\<rparr>
        else delete_slices_nodes E hi nodes (sp1\<lparr>sp_count := sp_count sp1 + sl_length cur\<rparr>) = (0, sp')"
      by (cases "sl_end cur > hi") (auto simp: then_ok_success)
    note d = plan_delete_ok [OF 1]
    show ?thesis
    proof (cases "sl_end cur > hi")
      case True
      with 2 False have "sp_count sp' = sp_count sp + (hi - sl_offset cur)"
        using plan_keep_ok [of cur hi _ sp1] d by fastforce
      moreover have "{..<hi} \<inter> covered (cur # nodes) = {sl_offset cur..<hi}"
        using cov True False by (fastforce simp: covered_Cons)
      ultimately show ?thesis using False by simp
    next
      case 3: False
      then have "{..<hi} \<inter> covered (cur # nodes) = slice_range cur \<union> ({..<hi} \<inter> covered nodes)"
        by (auto simp: covered_Cons)
      moreover have "slice_range cur \<inter> ({..<hi} \<inter> covered nodes) = {}"
        using cov by fastforce
      ultimately have "int (card ({..<hi} \<inter> covered (cur # nodes))) =
          sl_length cur + int (card ({..<hi} \<inter> covered nodes))"
        using pos by (simp add: int_card_Un_disjoint ssize_range_def)
      then show ?thesis using Cons.IH [OF _ ok] 2 3 d by fastforce
    qed
  qed
qed

end

end
