(* ===== verification/Slice_Correct.thy ===== *)
theory Slice_Correct
  imports Slice_Plan
begin

text \<open>
  The block operations refine the operations on the block map. The theorems at the end are
  stated for every environment that satisfies the contract \<open>fastcommon\<close>.
\<close>

section \<open>Where the search splits a chain\<close>

lemma covered_before:
  assumes "block_ok pre" "pre \<noteq> []" "\<forall>s\<in>set pre. sl_offset s < lo"
  shows "{lo..} \<inter> covered pre = {lo..<sl_end (last pre)}"
proof (cases pre rule: rev_cases)
  case (snoc pre' q)
  then have "\<forall>s\<in>set pre'. sl_end s \<le> sl_offset q" "sl_offset q < lo"
    using assms by (auto simp: block_ok_append)
  then have "{lo..} \<inter> covered pre' = {}" by (fastforce simp: covered_def)
  then show ?thesis
    using snoc \<open>sl_offset q < lo\<close> by (auto simp: covered_append covered_Cons)
qed (use assms in simp)

lemma plan_start_after:
  assumes "block_ok (pre @ nodes)" "pre \<noteq> []" "\<forall>s\<in>set pre. sl_offset s < lo"
    and start: "start = (if lo < sl_end (last pre) then sl_end (last pre) else lo)"
  shows "{lo..<hi} - covered (pre @ nodes) = {start..<hi} - covered nodes"
proof -
  have H: "{lo..} \<inter> covered pre = {lo..<sl_end (last pre)}"
    using assms(1-3) by (intro covered_before) (auto simp: block_ok_append)
  have "x \<in> covered pre \<longleftrightarrow> x < sl_end (last pre)" if "lo \<le> x" for x
  proof -
    have "x \<in> {lo..} \<inter> covered pre \<longleftrightarrow> x \<in> {lo..<sl_end (last pre)}" by (simp only: H)
    with that show ?thesis by simp
  qed
  then show ?thesis by (auto simp: covered_append start)
qed

lemma covered_cut:
  assumes "block_ok (pre @ nodes)" "pre \<noteq> []" "\<forall>s\<in>set pre. sl_offset s < lo"
    "\<forall>s\<in>set nodes. lo \<le> sl_offset s" "lo < hi"
  shows "int (card ({lo..<hi} \<inter> covered (pre @ nodes))) =
    (if lo < sl_end (last pre) then min hi (sl_end (last pre)) - lo else 0) +
    int (card ({..<hi} \<inter> covered nodes))"
proof -
  have ok: "block_ok pre" and above: "\<forall>s\<in>set nodes. sl_end (last pre) \<le> sl_offset s"
    using assms(1,2) by (auto simp: block_ok_append)
  have "{lo..<hi} \<inter> covered pre = {..<hi} \<inter> ({lo..} \<inter> covered pre)" by auto
  also have "\<dots> = {lo..<min hi (sl_end (last pre))}"
    by (simp only: covered_before [OF ok assms(2,3)]) auto
  finally have p: "{lo..<hi} \<inter> covered pre = {lo..<min hi (sl_end (last pre))}" .
  have n: "{lo..<hi} \<inter> covered nodes = {..<hi} \<inter> covered nodes"
    using covered_ge [of nodes lo] assms(4) by auto
  have "sl_end (last pre) \<le> x" if "x \<in> covered nodes" for x
    using covered_ge [OF _ that] above by blast
  then have "{lo..<min hi (sl_end (last pre))} \<inter> ({..<hi} \<inter> covered nodes) = {}" by fastforce
  then show ?thesis
    using assms(5) by (simp add: covered_append Int_Un_distrib p n int_card_Un_disjoint)
qed

context fastcommon
begin

text \<open>The chain before and from the node that \<open>find_ge\<close> answers.\<close>

lemma ge_pos_chain:
  assumes ok: "block_ok chain" and off: "sl_offset t = lo"
  defines "i \<equiv> SL.ge_pos chain t"
  shows "chain = take i chain @ drop i chain" "\<forall>s\<in>set (take i chain). sl_offset s < lo"
    "\<forall>s\<in>set (drop i chain). lo \<le> sl_offset s" "i \<noteq> 0 \<Longrightarrow> chain ! (i - 1) = last (take i chain)"
    "take i chain = [] \<longleftrightarrow> i = 0 \<or> chain = []"
proof -
  note sp = SL.find_ge_split [OF block_ok_ordered [OF ok], of t, folded i_def]
  show "chain = take i chain @ drop i chain" by simp
  show "\<forall>s\<in>set (take i chain). sl_offset s < lo"
    using sp(1) off by (simp add: slice_compare_def)
  show "\<forall>s\<in>set (drop i chain). lo \<le> sl_offset s"
  proof (cases "i < length chain")
    case True
    then have d: "drop i chain = chain ! i # drop (Suc i) chain" by (simp add: Cons_nth_drop_Suc)
    have "block_ok (drop i chain)"
      using ok by (metis append_take_drop_id block_ok_append)
    then have "\<forall>s\<in>set (drop (Suc i) chain). sl_end (chain ! i) \<le> sl_offset s" "0 < sl_length (chain ! i)"
      unfolding d by (auto simp: block_ok_Cons)
    then show ?thesis unfolding d using sp(2) [OF True] off by (fastforce simp: slice_compare_def)
  qed simp
  show "chain ! (i - 1) = last (take i chain)" if "i \<noteq> 0"
  proof -
    have "take i chain \<noteq> []" using that sp(3) by auto
    then show ?thesis using that sp(3) by (simp add: last_conv_nth)
  qed
  show "take i chain = [] \<longleftrightarrow> i = 0 \<or> chain = []" by simp
qed

section \<open>Carrying a plan out\<close>

lemma do_delete_slice_chain:
  assumes "skl_ordered slice_compare (bst_slices st)" "s \<in> set (bst_slices st)"
  shows "bst_slices (snd (do_delete_slice E ht s st)) = remove1 s (bst_slices st)"
    "bst_heap (snd (do_delete_slice E ht s st)) = ob_index_free_slice s (bst_heap st)"
  using SL.delete_mem(1) [OF assms] by (auto simp: do_delete_slice_def Let_def slice_free_func_eq)

lemma do_add_slice_chain:
  assumes "skl_ordered slice_compare (bst_slices st)"
    "\<forall>x\<in>set (bst_slices st). sl_offset x \<noteq> sl_offset s"
  shows "skl_ordered slice_compare (bst_slices (snd (do_add_slice E ht s st)))"
    "set (bst_slices (snd (do_add_slice E ht s st))) = insert s (set (bst_slices st))"
    "bst_heap (snd (do_add_slice E ht s st)) = bst_heap st"
  using SL.insert_new [OF assms(1), of s] assms(2)
  by (auto simp: do_add_slice_def slice_compare_def split: prod.splits)

lemma fold_delete_chain:
  assumes "skl_ordered slice_compare (bst_slices st)" "set ds \<subseteq> set (bst_slices st)" "distinct ds"
  shows "skl_ordered slice_compare (bst_slices (fold (\<lambda>s st. snd (do_delete_slice E ht s st)) ds st)) \<and>
    set (bst_slices (fold (\<lambda>s st. snd (do_delete_slice E ht s st)) ds st)) = set (bst_slices st) - set ds \<and>
    bst_heap (fold (\<lambda>s st. snd (do_delete_slice E ht s st)) ds st) =
      fold ob_index_free_slice ds (bst_heap st)"
  using assms
proof (induction ds arbitrary: st)
  case (Cons d ds)
  let ?st = "snd (do_delete_slice E ht d st)"
  have d: "d \<in> set (bst_slices st)" using Cons.prems(2) by simp
  have "skl_ordered slice_compare (bst_slices ?st)" "set (bst_slices ?st) = set (bst_slices st) - {d}"
    "bst_heap ?st = ob_index_free_slice d (bst_heap st)"
    using do_delete_slice_chain [OF Cons.prems(1) d] SL.delete_mem(2,3) [OF Cons.prems(1) d] by auto
  with Cons.IH [of ?st] Cons.prems show ?case by auto
qed simp

lemma fold_add_chain:
  assumes "skl_ordered slice_compare (bst_slices st)" "distinct (map sl_offset ts)"
    "\<forall>t\<in>set ts. \<forall>x\<in>set (bst_slices st). sl_offset x \<noteq> sl_offset t"
  shows "skl_ordered slice_compare (bst_slices (fold (\<lambda>s st. snd (do_add_slice E ht s st)) ts st)) \<and>
    set (bst_slices (fold (\<lambda>s st. snd (do_add_slice E ht s st)) ts st)) = set (bst_slices st) \<union> set ts \<and>
    bst_heap (fold (\<lambda>s st. snd (do_add_slice E ht s st)) ts st) = bst_heap st"
  using assms
proof (induction ts arbitrary: st)
  case (Cons t ts)
  let ?st = "snd (do_add_slice E ht t st)"
  have t: "\<forall>x\<in>set (bst_slices st). sl_offset x \<noteq> sl_offset t" using Cons.prems(3) by simp
  note a = do_add_slice_chain [OF Cons.prems(1) t, of ht]
  have "\<forall>u\<in>set ts. \<forall>x\<in>set (bst_slices ?st). sl_offset x \<noteq> sl_offset u"
    using a(2) Cons.prems(2,3) by (auto simp: image_iff)
  with Cons.IH [of ?st] Cons.prems a show ?case by auto
qed simp

lemma apply_plan_chain:
  assumes ok: "block_ok (bst_slices st)" and lt: "lo < hi"
    and split: "split_of (bst_slices st) lo hi (plan_dels sp) (plan_adds sp)"
    and st': "st' = apply_plan E ht sp st"
  shows "skl_ordered slice_compare (bst_slices st')"
    "set (bst_slices st') = (set (bst_slices st) - set (plan_dels sp)) \<union> set (plan_adds sp)"
    "bst_heap st' = fold ob_index_free_slice (plan_dels sp) (sp_heap sp)"
proof -
  let ?st0 = "st\<lparr>bst_heap := sp_heap sp\<rparr>"
  let ?st1 = "fold (\<lambda>s st. snd (do_delete_slice E ht s st)) (plan_dels sp) ?st0"
  have ord: "skl_ordered slice_compare (bst_slices st)" by (rule block_ok_ordered [OF ok])
  have dels: "set (plan_dels sp) \<subseteq> set (bst_slices st)" "distinct (plan_dels sp)"
    using split SL.ordered_distinct [OF ord] by (auto simp: split_of_def)
  from fold_delete_chain [of ?st0 "plan_dels sp" ht] ord dels
  have 1: "skl_ordered slice_compare (bst_slices ?st1)"
    "set (bst_slices ?st1) = set (bst_slices st) - set (plan_dels sp)"
    "bst_heap ?st1 = fold ob_index_free_slice (plan_dels sp) (sp_heap sp)" by auto
  have "\<forall>t\<in>set (plan_adds sp). \<forall>x\<in>set (bst_slices ?st1). sl_offset x \<noteq> sl_offset t"
    using adds_apart [OF split ok lt] 1(2) by blast
  then show "skl_ordered slice_compare (bst_slices st')"
    "set (bst_slices st') = (set (bst_slices st) - set (plan_dels sp)) \<union> set (plan_adds sp)"
    "bst_heap st' = fold ob_index_free_slice (plan_dels sp) (sp_heap sp)"
    using fold_add_chain [OF 1(1) adds_offsets [OF split ok lt], of ht] 1(2,3) by (auto simp: st' apply_plan_def)
qed

end

section \<open>The plan of an overwrite\<close>

lemma add_previous_result: "oom_only (add_slice_previous E slice cur sp)"
  unfolding add_slice_previous_def Let_def
  by (intro oom_only_intros plan_delete_result plan_keep_result)

lemma add_nodes_result: "oom_only (add_slice_nodes E hi nodes sp)"
proof (induction nodes arbitrary: sp)
  case (Cons cur nodes)
  show ?case
    unfolding add_slice_nodes.simps Let_def
    by (intro oom_only_intros plan_delete_result plan_keep_result Cons.IH)
qed (simp add: oom_only_0)

lemma delete_previous_result: "oom_only (delete_slices_previous E key cur sp)"
  unfolding delete_slices_previous_def Let_def
  by (intro oom_only_intros plan_delete_result plan_keep_result)

lemma delete_nodes_result: "oom_only (delete_slices_nodes E hi nodes sp)"
proof (induction nodes arbitrary: sp)
  case (Cons cur nodes)
  show ?case
    unfolding delete_slices_nodes.simps Let_def
    by (intro oom_only_intros plan_delete_result plan_keep_result Cons.IH)
qed (simp add: oom_only_0)

definition plan0 :: "slice_heap \<Rightarrow> int \<Rightarrow> split_plan" where
  "plan0 h start = \<lparr>sp_del = INIT_SLICE_PTR_ARRAY, sp_add = INIT_SLICE_PTR_ARRAY,
     sp_heap = h, sp_count = 0, sp_start = start\<rparr>"

lemma plan_ext_plan0:
  "plan_ext (plan0 h a) ds ts sp \<Longrightarrow>
   plan_dels sp = ds \<and> plan_adds sp = ts \<and> grown h ts (sp_heap sp) \<and>
   (\<forall>t\<in>set ts. ts_size (sl_space t) = sl_length t)"
  by (simp add: plan_ext_def plan0_def INIT_SLICE_PTR_ARRAY_def)

context fastcommon
begin

lemma add_previous_start:
  assumes "add_slice_previous E slice cur sp = (0, sp')" "sl_offset cur < sl_offset slice"
    "0 < sl_length slice"
  shows "sp_count sp' = sp_count sp"
    "sp_start sp' = (if sl_offset slice < sl_end cur then sl_end cur else sp_start sp)"
  using assms
  by (auto simp: add_slice_previous_def then_ok_success Let_def split: if_splits
      dest!: plan_delete_ok plan_keep_ok)

lemma add_slice_plan:
  assumes ok: "block_ok chain" and len: "0 < sl_length slice"
    and i: "i = SL.ge_pos chain slice"
    and plan: "then_ok (if i = 0 then (0, plan0 h (sl_offset slice))
                 else add_slice_previous E slice (chain ! (i - 1)) (plan0 h (sl_offset slice)))
               (add_slice_nodes E (sl_end slice) (drop i chain)) = (0, sp)"
  shows "split_of chain (sl_offset slice) (sl_end slice) (plan_dels sp) (plan_adds sp)"
    "sp_count sp + (if sl_end slice > sp_start sp then sl_end slice - sp_start sp else 0) =
       int (card ({sl_offset slice..<sl_end slice} - covered chain))"
    "grown h (plan_adds sp) (sp_heap sp)"
    "\<forall>t\<in>set (plan_adds sp). ts_size (sl_space t) = sl_length t"
proof -
  let ?lo = "sl_offset slice" and ?hi = "sl_end slice"
  let ?pre = "take i chain" and ?nodes = "drop i chain"
  note ch = ge_pos_chain [OF ok refl, of slice, folded i]
  have ok': "block_ok (?pre @ ?nodes)" and okn: "block_ok ?nodes" using ok by (auto simp: block_ok_append)
      (metis append_take_drop_id block_ok_append)
  from plan obtain sp1 where
    1: "(if i = 0 then (0, plan0 h ?lo) else add_slice_previous E slice (chain ! (i - 1)) (plan0 h ?lo)) = (0, sp1)"
    and 2: "add_slice_nodes E ?hi ?nodes sp1 = (0, sp)"
    by (auto simp: then_ok_success)
  from add_slice_nodes_ext [OF 2 okn] obtain us where
    us: "plan_ext sp1 (filter (\<lambda>s. sl_offset s < ?hi) ?nodes) us sp" "tail_parts ?hi ?nodes us" by blast
  have prev: "\<exists>ts. plan_ext (plan0 h ?lo) (if ?pre \<noteq> [] \<and> ?lo < sl_end (last ?pre) then [last ?pre] else []) ts sp1 \<and>
      (if ?pre = [] then ts = [] else prev_parts ?lo ?hi (last ?pre) ts) \<and> sp_count sp1 = 0 \<and>
      sp_start sp1 = (if ?pre \<noteq> [] \<and> ?lo < sl_end (last ?pre) then sl_end (last ?pre) else ?lo)"
  proof (cases "i = 0")
    case True
    then show ?thesis using 1 by (auto simp: plan0_def intro!: exI [of _ "[]"])
  next
    case False
    have ne: "?pre \<noteq> []" using False SL.find_ge_split(3) [OF block_ok_ordered [OF ok], of slice] i by auto
    then have q: "sl_offset (last ?pre) < ?lo" using ch(2) by simp
    have a: "add_slice_previous E slice (last ?pre) (plan0 h ?lo) = (0, sp1)"
      using 1 False ch(4) by simp
    show ?thesis
      using add_slice_previous_ext [OF a q len] add_previous_start [OF a q len] ne
      by (auto simp: plan0_def)
  qed
  then obtain ts where ts: "plan_ext (plan0 h ?lo) (if ?pre \<noteq> [] \<and> ?lo < sl_end (last ?pre) then [last ?pre] else []) ts sp1"
    "if ?pre = [] then ts = [] else prev_parts ?lo ?hi (last ?pre) ts" "sp_count sp1 = 0"
    "sp_start sp1 = (if ?pre \<noteq> [] \<and> ?lo < sl_end (last ?pre) then sl_end (last ?pre) else ?lo)" by blast
  note all = plan_ext_plan0 [OF plan_ext_trans [OF ts(1) us(1)]]
  show "split_of chain ?lo ?hi (plan_dels sp) (plan_adds sp)"
    using prev_and_tail_split [OF ok' _ ch(2,3) ts(2) us(2)] all len by simp
  show "grown h (plan_adds sp) (sp_heap sp)"
    "\<forall>t\<in>set (plan_adds sp). ts_size (sl_space t) = sl_length t" using all by auto
  have "\<forall>s\<in>set ?nodes. sp_start sp1 \<le> sl_offset s"
  proof
    fix s assume s: "s \<in> set ?nodes"
    have "sl_end (last ?pre) \<le> sl_offset s" if "?pre \<noteq> []"
      using ok' [unfolded block_ok_append] s last_in_set [OF that] by blast
    then show "sp_start sp1 \<le> sl_offset s" using ts(4) ch(3) s by simp
  qed
  from add_slice_nodes_count [OF 2 okn this] ts(3)
  have "sp_count sp + (if ?hi > sp_start sp then ?hi - sp_start sp else 0) =
      int (card ({sp_start sp1..<?hi} - covered ?nodes))" by simp
  moreover have "{?lo..<?hi} - covered chain = {sp_start sp1..<?hi} - covered ?nodes"
  proof (cases "?pre = []")
    case True
    then have "?nodes = chain" by (cases "i = 0") auto
    with True ts(4) show ?thesis by simp
  next
    case False
    then show ?thesis using plan_start_after [OF ok' False ch(2), of "sp_start sp1" ?hi] ts(4) by simp
  qed
  ultimately show "sp_count sp + (if ?hi > sp_start sp then ?hi - sp_start sp else 0) =
       int (card ({?lo..<?hi} - covered chain))" by simp
qed


section \<open>The plan of a deletion\<close>

lemma plan_keep_count: "plan_keep E src a n sp = (r, sp') \<Longrightarrow> sp_count sp' = sp_count sp"
  by (auto simp: plan_keep_def split: prod.splits)

lemma plan_delete_count: "plan_delete E s sp = (r, sp') \<Longrightarrow> sp_count sp' = sp_count sp"
  by (auto simp: plan_delete_def split: prod.splits)

lemma delete_previous_count:
  assumes "delete_slices_previous E key cur sp = (0, sp')" "sl_offset cur < ss_offset key"
  shows "sp_count sp' = sp_count sp +
    (if ss_offset key < sl_end cur
     then min (ss_offset key + ss_length key) (sl_end cur) - ss_offset key else 0)"
proof (cases "ss_offset key + ss_length key < sl_end cur")
  case True
  with assms show ?thesis
    by (auto simp: delete_slices_previous_def then_ok_success Let_def split: if_splits
        dest!: plan_delete_count plan_keep_count)
next
  case False
  with assms show ?thesis
    by (auto simp: delete_slices_previous_def then_ok_success Let_def split: if_splits
        dest!: plan_delete_count plan_keep_count)
qed

lemma delete_slices_plan:
  assumes ok: "block_ok chain" and len: "0 < ss_length key"
    and i: "i = SL.ge_pos chain (slice_target key)"
    and plan: "then_ok (if i = 0 then (0, plan0 h 0)
                 else delete_slices_previous E key (chain ! (i - 1)) (plan0 h 0))
               (delete_slices_nodes E (ss_offset key + ss_length key) (drop i chain)) = (0, sp)"
  shows "split_of chain (ss_offset key) (ss_offset key + ss_length key) (plan_dels sp) (plan_adds sp)"
    "sp_count sp = int (card (ssize_range key \<inter> covered chain))"
    "grown h (plan_adds sp) (sp_heap sp)"
    "\<forall>t\<in>set (plan_adds sp). ts_size (sl_space t) = sl_length t"
proof -
  let ?lo = "ss_offset key" and ?hi = "ss_offset key + ss_length key"
  let ?pre = "take i chain" and ?nodes = "drop i chain"
  have off: "sl_offset (slice_target key) = ?lo" by (simp add: slice_target_def)
  note ch = ge_pos_chain [OF ok off, folded i]
  have ok': "block_ok (?pre @ ?nodes)" using ok by simp
  then have okn: "block_ok ?nodes" unfolding block_ok_append by blast
  from plan obtain sp1 where
    1: "(if i = 0 then (0, plan0 h 0) else delete_slices_previous E key (chain ! (i - 1)) (plan0 h 0)) = (0, sp1)"
    and 2: "delete_slices_nodes E ?hi ?nodes sp1 = (0, sp)"
    by (auto simp: then_ok_success)
  from delete_slices_nodes_ext [OF 2 okn] obtain us where
    us: "plan_ext sp1 (filter (\<lambda>s. sl_offset s < ?hi) ?nodes) us sp" "tail_parts ?hi ?nodes us" by blast
  have prev: "\<exists>ts. plan_ext (plan0 h 0) (if ?pre \<noteq> [] \<and> ?lo < sl_end (last ?pre) then [last ?pre] else []) ts sp1 \<and>
      (if ?pre = [] then ts = [] else prev_parts ?lo ?hi (last ?pre) ts) \<and>
      sp_count sp1 = (if ?pre \<noteq> [] \<and> ?lo < sl_end (last ?pre) then min ?hi (sl_end (last ?pre)) - ?lo else 0)"
  proof (cases "i = 0")
    case True
    then show ?thesis using 1 by (auto simp: plan0_def intro!: exI [of _ "[]"])
  next
    case False
    have ne: "?pre \<noteq> []"
      using False SL.find_ge_split(3) [OF block_ok_ordered [OF ok], of "slice_target key"] i by auto
    then have q: "sl_offset (last ?pre) < ?lo" using ch(2) by simp
    have a: "delete_slices_previous E key (last ?pre) (plan0 h 0) = (0, sp1)"
      using 1 False ch(4) by simp
    show ?thesis
      using delete_slices_previous_ext [OF a q len] delete_previous_count [OF a q] ne
      by (auto simp: plan0_def)
  qed
  then obtain ts where ts: "plan_ext (plan0 h 0) (if ?pre \<noteq> [] \<and> ?lo < sl_end (last ?pre) then [last ?pre] else []) ts sp1"
    "if ?pre = [] then ts = [] else prev_parts ?lo ?hi (last ?pre) ts"
    "sp_count sp1 = (if ?pre \<noteq> [] \<and> ?lo < sl_end (last ?pre) then min ?hi (sl_end (last ?pre)) - ?lo else 0)"
    by blast
  note all = plan_ext_plan0 [OF plan_ext_trans [OF ts(1) us(1)]]
  show "split_of chain ?lo ?hi (plan_dels sp) (plan_adds sp)"
    using prev_and_tail_split [OF ok' _ ch(2,3) ts(2) us(2)] all len by simp
  show "grown h (plan_adds sp) (sp_heap sp)"
    "\<forall>t\<in>set (plan_adds sp). ts_size (sl_space t) = sl_length t" using all by auto
  have cnt: "sp_count sp = sp_count sp1 + int (card ({..<?hi} \<inter> covered ?nodes))"
    by (rule delete_slices_nodes_count [OF 2 okn])
  show "sp_count sp = int (card (ssize_range key \<inter> covered chain))"
  proof (cases "?pre = []")
    case True
    then have n: "?nodes = chain" by (cases "i = 0") auto
    have "x \<in> covered chain \<Longrightarrow> ?lo \<le> x" for x
      using covered_ge [of chain ?lo x] ch(3) n by auto
    then have "ssize_range key \<inter> covered chain = {..<?hi} \<inter> covered chain" by auto
    with cnt ts(3) True n show ?thesis by simp
  next
    case False
    then show ?thesis
      using covered_cut [OF ok' False ch(2,3), of ?hi] cnt ts(3) len
      by (simp add: ssize_range_def)
  qed
qed

section \<open>The block after a plan\<close>

lemma apply_plan_map:
  assumes ok: "block_ok (bst_slices st)" and lt: "lo < hi"
    and split: "split_of (bst_slices st) lo hi (plan_dels sp) (plan_adds sp)"
    and st': "st' = apply_plan E ht sp st"
  shows "block_ok (bst_slices st')"
    "block_map (bst_slices st') = (\<lambda>x. if lo \<le> x \<and> x < hi then None else block_map (bst_slices st) x)"
    "s \<in> set (bst_slices st') \<Longrightarrow> sl_end s \<le> lo \<or> hi \<le> sl_offset s"
proof -
  note ap = apply_plan_chain [OF ok lt split st']
  have pos: "0 < sl_length s" if "s \<in> set (bst_slices st')" for s
    using that split_adds_sound [OF split ok lt] block_ok_pos [OF ok] unfolding ap(2)
    by (metis DiffD1 UnE)
  have ap': "sl_end s \<le> sl_offset t"
    if "s \<in> set (bst_slices st')" "t \<in> set (bst_slices st')" "sl_offset s < sl_offset t" for s t
    using split_apart [OF split ok lt, of s t] that pos [of t] unfolding ap(2) by fastforce
  show ok': "block_ok (bst_slices st')" by (rule block_okI [OF ap(1) pos ap'])
  show "sl_end s \<le> lo \<or> hi \<le> sl_offset s" if s: "s \<in> set (bst_slices st')"
  proof (rule ccontr)
    assume c: "\<not> (sl_end s \<le> lo \<or> hi \<le> sl_offset s)"
    let ?x = "max lo (sl_offset s)"
    have "?x \<in> slice_range s" "lo \<le> ?x" "?x < hi" using c pos [OF s] lt by auto
    then show False using split_inside [OF split ok lt, of ?x s] s unfolding ap(2) by blast
  qed
  show "block_map (bst_slices st') = (\<lambda>x. if lo \<le> x \<and> x < hi then None else block_map (bst_slices st) x)"
  proof
    fix x
    show "block_map (bst_slices st') x = (if lo \<le> x \<and> x < hi then None else block_map (bst_slices st) x)"
    proof (cases "lo \<le> x \<and> x < hi")
      case True
      then have "x \<notin> covered (bst_slices st')"
        using split_inside [OF split ok lt, of x] unfolding covered_def ap(2) by blast
      with True show ?thesis by (simp add: block_map_None)
    next
      case False
      then have "x < lo \<or> hi \<le> x" by auto
      from split_outside [OF split ok lt this] have "block_map (bst_slices st') x = block_map (bst_slices st) x"
        by (intro block_map_cong ok ok') (simp only: ap(2))
      with False show ?thesis by auto
    qed
  qed
qed

text \<open>Inserting the new slice into the gap that the plan has made.\<close>

lemma do_add_slice_gap:
  assumes ok: "block_ok (bst_slices st)" and len: "0 < sl_length slice"
    and gap: "\<forall>s\<in>set (bst_slices st). sl_end s \<le> sl_offset slice \<or> sl_end slice \<le> sl_offset s"
    and st': "st' = snd (do_add_slice E ht slice st)"
  shows "block_ok (bst_slices st')"
    "block_map (bst_slices st') = block_map (bst_slices st) ++ slice_map slice"
    "set (bst_slices st') = insert slice (set (bst_slices st))" "slice \<notin> set (bst_slices st)"
proof -
  have ne: "\<forall>x\<in>set (bst_slices st). sl_offset x \<noteq> sl_offset slice"
    using gap block_ok_pos [OF ok] len by fastforce
  note ad = do_add_slice_chain [OF block_ok_ordered [OF ok] ne, of ht, folded st']
  show "set (bst_slices st') = insert slice (set (bst_slices st))" by (rule ad(2))
  show "slice \<notin> set (bst_slices st)" using ne by blast
  show ok': "block_ok (bst_slices st')"
  proof (rule block_okI [OF ad(1)])
    show "0 < sl_length s" if "s \<in> set (bst_slices st')" for s
      using that len block_ok_pos [OF ok] ad(2) by auto
    show "sl_end s \<le> sl_offset t" if "s \<in> set (bst_slices st')" "t \<in> set (bst_slices st')"
      "sl_offset s < sl_offset t" for s t
      using that gap block_ok_apart [OF ok, of s t] block_ok_pos [OF ok, of t] len unfolding ad(2)
      by (smt (verit) insertE)
  qed
  show "block_map (bst_slices st') = block_map (bst_slices st) ++ slice_map slice"
  proof
    fix x
    show "block_map (bst_slices st') x = (block_map (bst_slices st) ++ slice_map slice) x"
    proof (cases "x \<in> slice_range slice")
      case True
      then have "block_map (bst_slices st') x = Some (byte_loc slice x)"
        unfolding block_map_Some [OF ok'] ad(2) by blast
      with True show ?thesis by (simp add: slice_map_def map_add_def)
    next
      case False
      then have "block_map (bst_slices st') x = block_map (bst_slices st) x"
        by (intro block_map_cong ok ok') (auto simp: ad(2))
      with False show ?thesis by (auto simp: slice_map_def map_add_def)
    qed
  qed
qed

end

end
