(* ===== verification/Slice_Books.thy ===== *)
theory Slice_Books
  imports Slice_Correct
begin

text \<open>
  What the block operations do to the books outside the block: the ledger of the trunks
  (\<open>used.bytes\<close>, \<open>used.count\<close> and \<open>used.slice_head\<close>) and the reference counts of the slices.
\<close>

section \<open>Reference counts\<close>

text \<open>
  \<open>heap_holds h X P\<close>: the live addresses are exactly those that the index (\<open>P\<close>, one reference
  each) or somebody else (\<open>X\<close>) holds, and the counts add up.
\<close>

definition heap_holds :: "slice_heap \<Rightarrow> (nat \<Rightarrow> int) \<Rightarrow> nat set \<Rightarrow> bool" where
  "heap_holds h X P \<longleftrightarrow> (\<forall>p. 0 \<le> X p \<and>
     sh_refs h p = (let c = X p + (if p \<in> P then 1 else 0) in if c = 0 then None else Some c))"

abbreviation ptrs :: "OBSliceEntry list \<Rightarrow> nat set" where
  "ptrs xs \<equiv> sl_ptr ` set xs"

lemma heap_holds_free:
  assumes "heap_holds h X P" "sl_ptr s \<in> P"
  shows "heap_holds (ob_index_free_slice s h) X (P - {sl_ptr s})"
proof -
  have X: "0 \<le> X (sl_ptr s)" using assms(1) by (simp add: heap_holds_def)
  then have c: "sh_refs h (sl_ptr s) = Some (X (sl_ptr s) + 1)"
    using assms unfolding heap_holds_def Let_def by (smt (verit))
  have "sh_refs (ob_index_free_slice s h) (sl_ptr s) = (if X (sl_ptr s) = 0 then None else Some (X (sl_ptr s)))"
    using c by (simp add: ob_index_free_slice_def)
  moreover have "sh_refs (ob_index_free_slice s h) p = sh_refs h p" if "p \<noteq> sl_ptr s" for p
    using that by simp
  ultimately show ?thesis
    using assms(1) X unfolding heap_holds_def Let_def by (smt (verit) Diff_iff singletonD singletonI)
qed

lemma heap_holds_fold_free:
  assumes "heap_holds h X P" "sl_ptr ` set ds \<subseteq> P" "distinct (map sl_ptr ds)"
  shows "heap_holds (fold ob_index_free_slice ds h) X (P - sl_ptr ` set ds)"
  using assms
proof (induction ds arbitrary: h P)
  case (Cons d ds)
  have "heap_holds (ob_index_free_slice d h) X (P - {sl_ptr d})"
    using Cons.prems by (intro heap_holds_free) auto
  moreover have "sl_ptr ` set ds \<subseteq> P - {sl_ptr d}" "distinct (map sl_ptr ds)"
    using Cons.prems(2,3) by (simp_all add: subset_Diff_insert)
  ultimately have "heap_holds (fold ob_index_free_slice ds (ob_index_free_slice d h)) X (P - {sl_ptr d} - sl_ptr ` set ds)"
    by (rule Cons.IH)
  moreover have "P - {sl_ptr d} - sl_ptr ` set ds = P - sl_ptr ` set (d # ds)" by auto
  ultimately show ?case by simp
qed simp

lemma heap_holds_grown:
  assumes "heap_holds h X P" "grown h ts h'"
  shows "heap_holds h' X (P \<union> sl_ptr ` set ts)" "P \<inter> sl_ptr ` set ts = {}"
    "p \<in> sl_ptr ` set ts \<Longrightarrow> X p = 0"
proof -
  have new: "X p = 0 \<and> p \<notin> P" if "p \<in> sl_ptr ` set ts" for p
  proof -
    have "sh_refs h p = None" using that assms(2) by (auto simp: grown_def)
    moreover have "0 \<le> X p" using assms(1) by (simp add: heap_holds_def)
    ultimately show ?thesis using assms(1) unfolding heap_holds_def Let_def by (smt (verit) option.distinct(1))
  qed
  then show "P \<inter> sl_ptr ` set ts = {}" "p \<in> sl_ptr ` set ts \<Longrightarrow> X p = 0" by auto
  have "sh_refs h' p = (if p \<in> sl_ptr ` set ts then Some 1 else sh_refs h p)" for p
    using assms(2) by (simp add: grown_def)
  then show "heap_holds h' X (P \<union> sl_ptr ` set ts)"
    using assms(1) new unfolding heap_holds_def Let_def by auto
qed

text \<open>The caller's reference to a slice becomes the one of the index.\<close>

lemma heap_holds_move:
  assumes "heap_holds h X P" "p \<notin> P" "1 \<le> X p"
  shows "heap_holds h (X(p := X p - 1)) (insert p P)"
proof -
  have "0 \<le> X q" for q using assms(1) by (simp add: heap_holds_def)
  then have "X q + 1 \<noteq> 0" for q by (metis add_nonneg_pos less_irrefl zero_less_one)
  then show ?thesis using assms unfolding heap_holds_def Let_def by auto
qed

lemma heap_holds_refs: "heap_holds h X P \<Longrightarrow> sh_refs h' = sh_refs h \<Longrightarrow> heap_holds h' X P"
  by (simp add: heap_holds_def)

context fastcommon
begin

lemma apply_plan_refs:
  assumes ok: "block_ok (bst_slices st)" and lt: "lo < hi"
    and split: "split_of (bst_slices st) lo hi (plan_dels sp) (plan_adds sp)"
    and h: "heap_holds (bst_heap st) X (ptrs (bst_slices st))" "inj_on sl_ptr (set (bst_slices st))"
    and g: "grown (bst_heap st) (plan_adds sp) (sp_heap sp)"
    and st': "st' = apply_plan E ht sp st"
  shows "heap_holds (bst_heap st') X (ptrs (bst_slices st'))" "inj_on sl_ptr (set (bst_slices st'))"
    "p \<in> ptrs (bst_slices st') \<Longrightarrow> p \<in> ptrs (bst_slices st) \<or> X p = 0"
proof -
  note ap = apply_plan_chain [OF ok lt split st']
  note gr = heap_holds_grown [OF h(1) g]
  have sub: "set (plan_dels sp) \<subseteq> set (bst_slices st)" and dd: "distinct (plan_dels sp)"
    using split SL.ordered_distinct [OF block_ok_ordered [OF ok]] by (auto simp: split_of_def)
  have dm: "distinct (map sl_ptr (plan_dels sp))"
    using dd inj_on_subset [OF h(2) sub] by (simp add: distinct_map)
  have diff: "sl_ptr ` (set (bst_slices st) - set (plan_dels sp)) = ptrs (bst_slices st) - ptrs (plan_dels sp)"
    by (rule inj_on_image_set_diff [OF h(2) Diff_subset sub])
  have un: "ptrs (bst_slices st') = (ptrs (bst_slices st) \<union> ptrs (plan_adds sp)) - ptrs (plan_dels sp)"
    unfolding ap(2) image_Un diff using gr(2) sub by blast
  have "ptrs (plan_dels sp) \<subseteq> ptrs (bst_slices st) \<union> ptrs (plan_adds sp)" using sub by blast
  from heap_holds_fold_free [OF gr(1) this dm]
  show "heap_holds (bst_heap st') X (ptrs (bst_slices st'))" by (simp only: ap(3) un)
  have "inj_on sl_ptr (set (plan_adds sp))" using g by (simp add: grown_def distinct_map)
  moreover have "inj_on sl_ptr (set (bst_slices st) - set (plan_dels sp))"
    by (rule inj_on_subset [OF h(2)]) blast
  ultimately show "inj_on sl_ptr (set (bst_slices st'))"
    unfolding ap(2) inj_on_Un using gr(2) by blast
  show "p \<in> ptrs (bst_slices st) \<or> X p = 0" if "p \<in> ptrs (bst_slices st')"
    using that gr(3) un by blast
qed

section \<open>The ledger of the trunks\<close>

lemma insert_mset:
  assumes "skl_ordered slice_compare xs" "\<forall>x\<in>set xs. slice_compare x s \<noteq> 0"
    "skl_insert (env_slices E) xs s = (r, ys)"
  shows "r = 0 \<and> mset ys = add_mset s (mset xs)"
proof -
  from SL.insert_new [OF assms(1,2)] assms(3) have r: "r = 0" "skl_ordered slice_compare ys"
    "set ys = insert s (set xs)" by auto
  have "s \<notin> set xs" using assms(2) by (auto simp: slice_compare_def)
  then have "mset ys = mset (s # xs)"
    using r(3) SL.ordered_distinct [OF r(2)] SL.ordered_distinct [OF assms(1)]
    by (intro set_eq_iff_mset_eq_distinct [THEN iffD1]) auto
  with r(1) show ?thesis by simp
qed

lemma do_add_slice_balanced:
  assumes m: "ht_modify_sallocator ht" and ord: "skl_ordered slice_compare (bst_slices st)"
    and new: "\<forall>x\<in>set (bst_slices st). sl_offset x \<noteq> sl_offset s"
    and bal: "ledger.balanced (bst_mgr st) R (bst_slices st)" and k: "booked E (bst_mgr st) (trunk_key s) \<noteq> None"
    and st': "do_add_slice E ht s st = (r, st')"
  shows "r = 0" "ledger.balanced (bst_mgr st') R (bst_slices st')"
    "dom (booked E (bst_mgr st')) = dom (booked E (bst_mgr st))"
proof -
  have new': "\<forall>x\<in>set (bst_slices st). slice_compare x s \<noteq> 0" using new by (simp add: slice_compare_def)
  obtain r0 ys where ins: "skl_insert (env_slices E) (bst_slices st) s = (r0, ys)" by fastforce
  note i = insert_mset [OF ord new' ins]
  from ledger.balanced_add [OF bal k, of ys "ht_modify_used_space ht"] i
  obtain m' where "storage_allocator_add_slice E s (ht_modify_used_space ht) (bst_mgr st) = (0, m')"
    "ledger.balanced m' R ys" "dom (booked E m') = dom (booked E (bst_mgr st))" by blast
  moreover from this have "r = 0 \<and> st' = st\<lparr>bst_slices := ys, bst_mgr := m'\<rparr>"
    using st' ins i m by (simp add: do_add_slice_def)
  ultimately show "r = 0" "ledger.balanced (bst_mgr st') R (bst_slices st')"
    "dom (booked E (bst_mgr st')) = dom (booked E (bst_mgr st))" by simp_all
qed

lemma do_delete_slice_balanced:
  assumes m: "ht_modify_sallocator ht" and ord: "skl_ordered slice_compare (bst_slices st)"
    and mem: "s \<in> set (bst_slices st)"
    and bal: "ledger.balanced (bst_mgr st) R (bst_slices st)" and st': "st' = snd (do_delete_slice E ht s st)"
  shows "ledger.balanced (bst_mgr st') R (bst_slices st')"
    "dom (booked E (bst_mgr st')) = dom (booked E (bst_mgr st))"
proof -
  from ledger.balanced_del [OF bal mem, of "ht_modify_used_space ht"] obtain m' where
    "storage_allocator_delete_slice E s (ht_modify_used_space ht) (bst_mgr st) = (0, m')"
    "ledger.balanced m' R (remove1 s (bst_slices st))" "dom (booked E m') = dom (booked E (bst_mgr st))"
    by blast
  then show "ledger.balanced (bst_mgr st') R (bst_slices st')"
    "dom (booked E (bst_mgr st')) = dom (booked E (bst_mgr st))"
    using st' m SL.delete_mem(1) [OF ord mem] by (simp_all add: do_delete_slice_def Let_def)
qed

lemma fold_delete_balanced:
  assumes "ht_modify_sallocator ht" "skl_ordered slice_compare (bst_slices st)"
    "set ds \<subseteq> set (bst_slices st)" "distinct ds" "ledger.balanced (bst_mgr st) R (bst_slices st)"
    and "st' = fold (\<lambda>s st. snd (do_delete_slice E ht s st)) ds st"
  shows "ledger.balanced (bst_mgr st') R (bst_slices st') \<and>
    dom (booked E (bst_mgr st')) = dom (booked E (bst_mgr st))"
  using assms
proof (induction ds arbitrary: st)
  case (Cons d ds)
  let ?st = "snd (do_delete_slice E ht d st)"
  have d: "d \<in> set (bst_slices st)" using Cons.prems(3) by simp
  note one = do_delete_slice_balanced [OF Cons.prems(1,2) d Cons.prems(5) refl]
  have "skl_ordered slice_compare (bst_slices ?st)" "set (bst_slices ?st) = set (bst_slices st) - {d}"
    using do_delete_slice_chain [OF Cons.prems(2) d] SL.delete_mem(2,3) [OF Cons.prems(2) d] by auto
  then show ?case
    using Cons.IH [of ?st] Cons.prems one by (simp add: subset_Diff_insert)
qed simp

lemma fold_add_balanced:
  assumes "ht_modify_sallocator ht" "skl_ordered slice_compare (bst_slices st)"
    "distinct (map sl_offset ts)" "\<forall>t\<in>set ts. \<forall>x\<in>set (bst_slices st). sl_offset x \<noteq> sl_offset t"
    "ledger.balanced (bst_mgr st) R (bst_slices st)"
    "\<forall>t\<in>set ts. booked E (bst_mgr st) (trunk_key t) \<noteq> None"
    and "st' = fold (\<lambda>s st. snd (do_add_slice E ht s st)) ts st"
  shows "ledger.balanced (bst_mgr st') R (bst_slices st') \<and>
    dom (booked E (bst_mgr st')) = dom (booked E (bst_mgr st))"
  using assms
proof (induction ts arbitrary: st)
  case (Cons t ts)
  let ?st = "snd (do_add_slice E ht t st)"
  have t: "\<forall>x\<in>set (bst_slices st). sl_offset x \<noteq> sl_offset t" "booked E (bst_mgr st) (trunk_key t) \<noteq> None"
    using Cons.prems(4,6) by simp_all
  note one = do_add_slice_balanced [OF Cons.prems(1,2) t(1) Cons.prems(5) t(2), of _ ?st]
  have b: "ledger.balanced (bst_mgr ?st) R (bst_slices ?st)"
    "dom (booked E (bst_mgr ?st)) = dom (booked E (bst_mgr st))"
    by (rule one(2,3) [of "fst (do_add_slice E ht t st)"], simp)+
  note a = do_add_slice_chain [OF Cons.prems(2) t(1), of ht]
  have "\<forall>u\<in>set ts. \<forall>x\<in>set (bst_slices ?st). sl_offset x \<noteq> sl_offset u"
    using a(2) Cons.prems(3,4) by (auto simp: image_iff)
  moreover have "\<forall>u\<in>set ts. booked E (bst_mgr ?st) (trunk_key u) \<noteq> None"
    using b(2) Cons.prems(6) by (auto simp: dom_def)
  ultimately show ?case
    using Cons.IH [of ?st] Cons.prems a(1) b by simp
qed simp

lemma apply_plan_balanced:
  assumes ok: "block_ok (bst_slices st)" and lt: "lo < hi"
    and split: "split_of (bst_slices st) lo hi (plan_dels sp) (plan_adds sp)"
    and m: "ht_modify_sallocator ht" and bal: "ledger.balanced (bst_mgr st) R (bst_slices st)"
    and st': "st' = apply_plan E ht sp st"
  shows "ledger.balanced (bst_mgr st') R (bst_slices st') \<and>
    dom (booked E (bst_mgr st')) = dom (booked E (bst_mgr st))"
proof -
  let ?st0 = "st\<lparr>bst_heap := sp_heap sp\<rparr>"
  let ?st1 = "fold (\<lambda>s st. snd (do_delete_slice E ht s st)) (plan_dels sp) ?st0"
  have ord: "skl_ordered slice_compare (bst_slices st)" by (rule block_ok_ordered [OF ok])
  have dels: "set (plan_dels sp) \<subseteq> set (bst_slices st)" "distinct (plan_dels sp)"
    using split SL.ordered_distinct [OF ord] by (auto simp: split_of_def)
  note c1 = fold_delete_chain [of ?st0 "plan_dels sp" ht]
  note b1 = fold_delete_balanced [OF m, of ?st0 "plan_dels sp" R ?st1]
  have one: "skl_ordered slice_compare (bst_slices ?st1)"
    "set (bst_slices ?st1) = set (bst_slices st) - set (plan_dels sp)"
    "ledger.balanced (bst_mgr ?st1) R (bst_slices ?st1)"
    "dom (booked E (bst_mgr ?st1)) = dom (booked E (bst_mgr st))"
    using c1 b1 ord dels bal by simp_all
  have known: "booked E (bst_mgr ?st1) (trunk_key t) \<noteq> None" if "t \<in> set (plan_adds sp)" for t
  proof -
    from split_adds_sound [OF split ok lt that] obtain s where "s \<in> set (bst_slices st)"
      "trunk_key t = trunk_key s" by metis
    then have "trunk_key t \<in> dom (booked E (bst_mgr st))"
      using bal by (auto simp: ledger.balanced_def)
    with one(4) show ?thesis by blast
  qed
  have "ledger.balanced (bst_mgr st') R (bst_slices st') \<and>
    dom (booked E (bst_mgr st')) = dom (booked E (bst_mgr ?st1))"
    by (rule fold_add_balanced [OF m one(1) adds_offsets [OF split ok lt] _ one(3)])
      (use one(2) known adds_apart [OF split ok lt] st' in \<open>auto simp: apply_plan_def\<close>)
  with one(4) show ?thesis by simp
qed

section \<open>The whole operations\<close>

text \<open>The branch for an empty block gives what the general branch would give.\<close>

lemma add_slice_eq:
  assumes ok: "block_ok (bst_slices st)" and len: "0 < sl_length slice"
  shows "add_slice E ht slice st =
     (let i = SL.ge_pos (bst_slices st) slice;
          plan = then_ok (if i = 0 then (0, plan0 (bst_heap st) (sl_offset slice))
                          else add_slice_previous E slice (bst_slices st ! (i - 1))
                                 (plan0 (bst_heap st) (sl_offset slice)))
                   (add_slice_nodes E (sl_end slice) (drop i (bst_slices st)))
      in case plan of (result, sp) \<Rightarrow>
           if result \<noteq> 0 then (result, sp_count sp, st\<lparr>bst_heap := sp_heap sp\<rparr>)
           else (case do_add_slice E ht slice (apply_plan E ht sp st) of
                   (result, st1) \<Rightarrow> (result, sp_count sp +
                      (if sl_end slice > sp_start sp then sl_end slice - sp_start sp else 0), st1)))"
  using len SL.find_ge_none [OF block_ok_ordered [OF ok], of slice]
  by (cases "bst_slices st = []"; cases "skl_find_ge (env_slices E) (bst_slices st) slice")
    (auto simp: add_slice_def Let_def plan0_def SL.ge_pos_def apply_plan_def INIT_SLICE_PTR_ARRAY_def
      do_add_slice_def split: prod.splits)

lemma delete_slices_eq:
  assumes ok: "block_ok (bst_slices st)"
  shows "delete_slices E ht key st =
     (let i = SL.ge_pos (bst_slices st) (slice_target key);
          plan = then_ok (if i = 0 then (0, plan0 (bst_heap st) 0)
                          else delete_slices_previous E key (bst_slices st ! (i - 1)) (plan0 (bst_heap st) 0))
                   (delete_slices_nodes E (ss_offset key + ss_length key) (drop i (bst_slices st)))
      in case plan of (result, sp) \<Rightarrow>
           if result \<noteq> 0 then (result, 0, sp_count sp, st\<lparr>bst_heap := sp_heap sp\<rparr>)
           else if plan_dels sp = [] then (ENOENT, 0, sp_count sp, st\<lparr>bst_heap := sp_heap sp\<rparr>)
           else (0, int (length (plan_dels sp)), sp_count sp, apply_plan E ht sp st))"
  using SL.find_ge_none [OF block_ok_ordered [OF ok], of "slice_target key"]
  by (cases "bst_slices st = []"; cases "skl_find_ge (env_slices E) (bst_slices st) (slice_target key)")
    (auto simp: delete_slices_def Let_def plan0_def SL.ge_pos_def INIT_SLICE_PTR_ARRAY_def
      split: prod.splits)

text \<open>
  Either memory ran out and only the heap has changed, or the plan was carried out and the
  slice inserted into the gap.
\<close>

lemma add_slice_cases:
  assumes ok: "block_ok (bst_slices st)" and len: "0 < sl_length slice"
    and run: "add_slice E ht slice st = (r, inc, st')"
  obtains (oom) h where "r = ENOMEM" "st' = st\<lparr>bst_heap := h\<rparr>"
  | (finished) sp st1 where "st1 = apply_plan E ht sp st" "do_add_slice E ht slice st1 = (r, st')"
      "split_of (bst_slices st) (sl_offset slice) (sl_end slice) (plan_dels sp) (plan_adds sp)"
      "inc = int (card (slice_range slice - covered (bst_slices st)))"
      "grown (bst_heap st) (plan_adds sp) (sp_heap sp)"
proof -
  let ?plan = "then_ok (if SL.ge_pos (bst_slices st) slice = 0 then (0, plan0 (bst_heap st) (sl_offset slice))
        else add_slice_previous E slice (bst_slices st ! (SL.ge_pos (bst_slices st) slice - 1))
               (plan0 (bst_heap st) (sl_offset slice)))
      (add_slice_nodes E (sl_end slice) (drop (SL.ge_pos (bst_slices st) slice) (bst_slices st)))"
  obtain r0 sp where plan: "?plan = (r0, sp)" by fastforce
  have "oom_only ?plan"
    by (intro oom_only_intros add_previous_result add_nodes_result)
  with plan have r0: "r0 = 0 \<or> r0 = ENOMEM" by (simp add: oom_only_def)
  note eq = run [unfolded add_slice_eq [OF ok len] Let_def plan]
  show thesis
  proof (cases "r0 = 0")
    case True
    note pl = add_slice_plan [OF ok len refl plan [unfolded True]]
    from eq True have "do_add_slice E ht slice (apply_plan E ht sp st) = (r, st')"
      "inc = int (card ({sl_offset slice..<sl_end slice} - covered (bst_slices st)))"
      using pl(2) by (auto split: prod.splits)
    then show ?thesis using pl finished by (simp add: ssize_range_def)
  next
    case False
    with r0 eq have "r = ENOMEM \<and> st' = st\<lparr>bst_heap := sp_heap sp\<rparr>" by auto
    then show ?thesis using oom by blast
  qed
qed

lemma delete_slices_cases:
  assumes ok: "block_ok (bst_slices st)" and len: "0 < ss_length key"
    and run: "delete_slices E ht key st = (r, cnt, dec, st')"
  obtains (oom) h where "r = ENOMEM" "st' = st\<lparr>bst_heap := h\<rparr>"
  | (none) h where "r = ENOENT" "st' = st\<lparr>bst_heap := h\<rparr>" "sh_refs h = sh_refs (bst_heap st)"
      "cnt = 0" "dec = 0" "ssize_range key \<inter> covered (bst_slices st) = {}"
  | (finished) sp where "r = 0" "st' = apply_plan E ht sp st" "plan_dels sp \<noteq> []"
      "split_of (bst_slices st) (ss_offset key) (ss_offset key + ss_length key) (plan_dels sp) (plan_adds sp)"
      "dec = int (card (ssize_range key \<inter> covered (bst_slices st)))"
      "cnt = int (length (plan_dels sp))" "grown (bst_heap st) (plan_adds sp) (sp_heap sp)"
proof -
  let ?i = "SL.ge_pos (bst_slices st) (slice_target key)"
  let ?plan = "then_ok (if ?i = 0 then (0, plan0 (bst_heap st) 0)
        else delete_slices_previous E key (bst_slices st ! (?i - 1)) (plan0 (bst_heap st) 0))
      (delete_slices_nodes E (ss_offset key + ss_length key) (drop ?i (bst_slices st)))"
  obtain r0 sp where plan: "?plan = (r0, sp)" by fastforce
  have "oom_only ?plan"
    by (intro oom_only_intros delete_previous_result delete_nodes_result)
  with plan have r0: "r0 = 0 \<or> r0 = ENOMEM" by (simp add: oom_only_def)
  note eq = run [unfolded delete_slices_eq [OF ok] Let_def plan]
  consider "r0 \<noteq> 0" | "r0 = 0" "plan_dels sp = []" | "r0 = 0" "plan_dels sp \<noteq> []" by blast
  then show thesis
  proof cases
    case 1
    with r0 eq have "r = ENOMEM \<and> st' = st\<lparr>bst_heap := sp_heap sp\<rparr>" by auto
    then show ?thesis using oom by blast
  next
    case 2
    note pl = delete_slices_plan [OF ok len refl plan [unfolded 2]]
    have no: "\<not> overlaps (ss_offset key) (ss_offset key + ss_length key) s" if "s \<in> set (bst_slices st)" for s
      using pl(1) 2(2) that by (auto simp: split_of_def dest!: sym [of "[]"] simp: filter_empty_conv)
    then have empty: "ssize_range key \<inter> covered (bst_slices st) = {}"
      by (fastforce simp: overlaps_def covered_def)
    have "plan_adds sp = []" using pl(1) 2(2) by (cases "plan_adds sp") (auto simp: split_of_def)
    then have "sh_refs (sp_heap sp) = sh_refs (bst_heap st)" using pl(3) by (simp add: grown_def)
    then show ?thesis using none [of "sp_heap sp"] eq 2 pl(2) empty by simp
  next
    case 3
    note pl = delete_slices_plan [OF ok len refl plan [unfolded 3(1)]]
    show ?thesis by (rule finished [of sp]) (use eq 3 pl in auto)
  qed
qed

end

end
