(* ===== verification/Slice_Lookup.thy ===== *)
theory Slice_Lookup
  imports Slice_Books
begin

text \<open>
  Looking a range up: \<open>get_slices\<close> answers the slices that overlap the range, clipped to it,
  and takes one reference on each slice it answers.
\<close>

section \<open>Clipping a chain to a range\<close>

definition clipped :: "int \<Rightarrow> int \<Rightarrow> OBSliceEntry \<Rightarrow> OBSliceEntry \<Rightarrow> bool" where
  "clipped lo hi s t \<longleftrightarrow>
     is_part t s (max lo (sl_offset s)) (min hi (sl_end s) - max lo (sl_offset s))"

definition clip_of :: "OBSliceEntry list \<Rightarrow> int \<Rightarrow> int \<Rightarrow> OBSliceEntry list \<Rightarrow> bool" where
  "clip_of chain lo hi ts \<longleftrightarrow> list_all2 (clipped lo hi) (filter (overlaps lo hi) chain) ts"

lemma clipped_range: "clipped lo hi s t \<Longrightarrow> slice_range t = slice_range s \<inter> {lo..<hi}"
  by (auto simp: clipped_def dest: part_range)

lemma clipped_size:
  "clipped lo hi s t \<Longrightarrow> sl_offset t = max lo (sl_offset s) \<and> sl_end t = min hi (sl_end s)"
  by (auto simp: clipped_def dest: part_size)

lemma clipped_loc: "clipped lo hi s t \<Longrightarrow> byte_loc t x = byte_loc s x"
  by (simp add: clipped_def part_byte_loc)

lemma clip_of_mem:
  assumes "clip_of chain lo hi ts"
  shows "t \<in> set ts \<Longrightarrow> \<exists>s\<in>set chain. overlaps lo hi s \<and> clipped lo hi s t"
    "s \<in> set chain \<Longrightarrow> overlaps lo hi s \<Longrightarrow> \<exists>t\<in>set ts. clipped lo hi s t"
  using list_all2_pick [OF assms [unfolded clip_of_def]] by (fastforce, fastforce)

lemma clip_of_ok:
  assumes "clip_of chain lo hi ts" "block_ok chain" "lo < hi"
  shows "block_ok ts"
  using assms(1,2)
proof (induction chain arbitrary: ts)
  case (Cons s chain)
  show ?case
  proof (cases "overlaps lo hi s")
    case True
    with Cons.prems(1) obtain t us where ts: "ts = t # us" "clipped lo hi s t" "clip_of chain lo hi us"
      by (auto simp: clip_of_def list_all2_Cons1)
    have "sl_end t \<le> sl_offset u" if "u \<in> set us" for u
    proof -
      from clip_of_mem(1) [OF ts(3) that] obtain v where "v \<in> set chain" "clipped lo hi v u" by blast
      with Cons.prems(2) ts(2) show ?thesis by (auto simp: block_ok_Cons dest!: clipped_size)
    qed
    moreover have "0 < sl_length t"
      using clipped_size [OF ts(2)] True assms(3) Cons.prems(2) by (auto simp: overlaps_def block_ok_Cons)
    ultimately show ?thesis using Cons.IH [OF ts(3)] Cons.prems(2) ts(1) by (simp add: block_ok_Cons)
  next
    case False
    with Cons.prems Cons.IH [of ts] show ?thesis by (simp add: clip_of_def block_ok_Cons)
  qed
qed (simp add: clip_of_def)

lemma clip_of_map:
  assumes cl: "clip_of chain lo hi ts" and ok: "block_ok chain" and lt: "lo < hi"
  shows "block_map ts = block_map chain |` {lo..<hi}"
proof
  fix x
  note ok' = clip_of_ok [OF cl ok lt]
  show "block_map ts x = (block_map chain |` {lo..<hi}) x"
  proof (cases "x \<in> {lo..<hi}")
    case True
    have "(\<exists>t\<in>set ts. x \<in> slice_range t \<and> l = byte_loc t x) \<longleftrightarrow>
          (\<exists>s\<in>set chain. x \<in> slice_range s \<and> l = byte_loc s x)" for l
    proof
      assume "\<exists>t\<in>set ts. x \<in> slice_range t \<and> l = byte_loc t x"
      then obtain t where t: "t \<in> set ts" "x \<in> slice_range t" "l = byte_loc t x" by blast
      from clip_of_mem(1) [OF cl t(1)] obtain s where "s \<in> set chain" "clipped lo hi s t" by blast
      with t show "\<exists>s\<in>set chain. x \<in> slice_range s \<and> l = byte_loc s x"
        using clipped_range [of lo hi s t] clipped_loc [of lo hi s t x] by (intro bexI [of _ s]) auto
    next
      assume "\<exists>s\<in>set chain. x \<in> slice_range s \<and> l = byte_loc s x"
      then obtain s where s: "s \<in> set chain" "x \<in> slice_range s" "l = byte_loc s x" by blast
      then have "overlaps lo hi s" using True by (auto simp: overlaps_def)
      from clip_of_mem(2) [OF cl s(1) this] obtain t where "t \<in> set ts" "clipped lo hi s t" by blast
      with s True show "\<exists>t\<in>set ts. x \<in> slice_range t \<and> l = byte_loc t x"
        using clipped_range [of lo hi s t] clipped_loc [of lo hi s t x] by (intro bexI [of _ t]) auto
    qed
    then have "block_map ts x = block_map chain x" by (rule block_map_cong [OF ok' ok])
    with True show ?thesis by simp
  next
    case False
    then have "x \<notin> covered ts"
      using clip_of_mem(1) [OF cl] clipped_range unfolding covered_def by blast
    with False show ?thesis by (simp add: block_map_None)
  qed
qed

section \<open>References\<close>

lemma heap_holds_at:
  assumes "heap_holds h X P"
  shows "0 \<le> X p"
    "sh_refs h p = (if X p = 0 \<and> p \<notin> P then None else Some (X p + (if p \<in> P then 1 else 0)))"
proof -
  show X: "0 \<le> X p" using assms by (simp add: heap_holds_def)
  have "sh_refs h p = (let c = X p + (if p \<in> P then 1 else 0) in if c = 0 then None else Some c)"
    using assms by (simp add: heap_holds_def)
  with X show "sh_refs h p = (if X p = 0 \<and> p \<notin> P then None else Some (X p + (if p \<in> P then 1 else 0)))"
    by (simp add: Let_def)
qed

lemma heap_holds_change:
  assumes h: "heap_holds h X P" and x: "0 \<le> x"
    and other: "\<And>q. q \<noteq> p \<Longrightarrow> sh_refs h' q = sh_refs h q"
    and at: "sh_refs h' p = (if x = 0 \<and> p \<notin> P then None else Some (x + (if p \<in> P then 1 else 0)))"
  shows "heap_holds h' (X(p := x)) P"
  unfolding heap_holds_def
proof
  fix q
  show "0 \<le> (X(p := x)) q \<and> sh_refs h' q =
    (let c = (X(p := x)) q + (if q \<in> P then 1 else 0) in if c = 0 then None else Some c)"
    using heap_holds_at [OF h, of q] x at other [of q] by (cases "q = p") (auto simp: Let_def)
qed

lemma heap_holds_take:
  assumes "heap_holds h X P" "p \<in> P \<or> 1 \<le> X p"
  shows "heap_holds (slice_add_ref p 1 h) (X(p := X p + 1)) P"
proof (rule heap_holds_change [OF assms(1)])
  show "0 \<le> X p + 1" using heap_holds_at(1) [OF assms(1), of p] by simp
  have "sh_refs h p = Some (X p + (if p \<in> P then 1 else 0))"
    by (subst heap_holds_at(2) [OF assms(1)]) (use assms(2) in auto)
  then show "sh_refs (slice_add_ref p 1 h) p =
    (if X p + 1 = 0 \<and> p \<notin> P then None else Some (X p + 1 + (if p \<in> P then 1 else 0)))"
    using heap_holds_at(1) [OF assms(1), of p] by simp
qed simp

lemma heap_holds_drop:
  assumes "heap_holds h X P" "1 \<le> X (sl_ptr s)"
  shows "heap_holds (ob_index_free_slice s h) (X(sl_ptr s := X (sl_ptr s) - 1)) P"
proof (rule heap_holds_change [OF assms(1)])
  show "0 \<le> X (sl_ptr s) - 1" using assms(2) by simp
  have "sh_refs h (sl_ptr s) = Some (X (sl_ptr s) + (if sl_ptr s \<in> P then 1 else 0))"
    by (subst heap_holds_at(2) [OF assms(1)]) (use assms(2) in auto)
  then show "sh_refs (ob_index_free_slice s h) (sl_ptr s) =
    (if X (sl_ptr s) - 1 = 0 \<and> sl_ptr s \<notin> P then None
     else Some (X (sl_ptr s) - 1 + (if sl_ptr s \<in> P then 1 else 0)))"
    using assms(2) by (simp add: ob_index_free_slice_def)
qed simp

text \<open>The references of a list of slices, counted by address.\<close>

definition taken :: "(nat \<Rightarrow> int) \<Rightarrow> OBSliceEntry list \<Rightarrow> nat \<Rightarrow> int" where
  "taken X ts p = X p + int (count_list (map sl_ptr ts) p)"

lemma taken_Nil [simp]: "taken X [] = X"
  by (simp add: taken_def fun_eq_iff)

lemma taken_append: "taken X (ts @ us) = taken (taken X ts) us"
  by (simp add: taken_def fun_eq_iff)

lemma taken_one: "taken X [t] = X(sl_ptr t := X (sl_ptr t) + 1)"
  by (simp add: taken_def fun_eq_iff)

lemma heap_holds_free_all:
  assumes "heap_holds h (taken X ts) P" "\<And>p. 0 \<le> X p"
  shows "heap_holds (fold ob_index_free_slice ts h) X P"
  using assms(1)
proof (induction ts arbitrary: h)
  case (Cons t ts)
  have "1 \<le> taken X (t # ts) (sl_ptr t)" using assms(2) [of "sl_ptr t"] by (simp add: taken_def)
  from heap_holds_drop [OF Cons.prems this]
  have "heap_holds (ob_index_free_slice t h) (taken X ts) P"
    by (rule back_subst [of "\<lambda>Y. heap_holds (ob_index_free_slice t h) Y P"]) (auto simp: taken_def)
  then show ?case using Cons.IH by simp
qed simp

lemma heap_holds_same_refs:
  "heap_holds h X P \<Longrightarrow> heap_holds h' X P \<Longrightarrow> sh_refs h' = sh_refs h"
  by (rule ext) (simp add: heap_holds_def)

section \<open>The lookup loop\<close>

lemma array_add_ok:
  "add_to_slice_ptr_array E s (arr, h) = (0, arr', h') \<Longrightarrow>
   pa_slices arr' = pa_slices arr @ [s] \<and> sh_refs h' = sh_refs h"
  by (auto simp: add_to_slice_ptr_array_def Let_def split: prod.splits if_splits)

lemma array_add_result: "oom_only (add_to_slice_ptr_array E s ah)"
  by (auto simp: oom_only_def add_to_slice_ptr_array_def Let_def split: prod.splits)

lemma dup_to_array_result: "oom_only (dup_slice_to_array E s a n ah)"
proof -
  obtain arr h where ah: "ah = (arr, h)" by fastforce
  obtain t h1 where d: "slice_dup E s a n h = (t, h1)" by fastforce
  show ?thesis
    using array_add_result [of E _ "(arr, h1)"] ah d
    by (cases t) (simp_all add: dup_slice_to_array_def oom_only_def)
qed

lemma get_nodes_result: "oom_only (get_slices_nodes E hi nodes ah)"
proof (induction nodes arbitrary: ah)
  case (Cons cur nodes)
  show ?case
    unfolding get_slices_nodes.simps
    by (intro oom_only_intros dup_to_array_result array_add_result Cons.IH)
qed (simp add: oom_only_0)

lemma get_previous_result: "oom_only (get_slices_previous E key cur ah)"
  unfolding get_slices_previous_def by (intro oom_only_intros dup_to_array_result)

text \<open>
  A step of the lookup answers the part \<open>t\<close> and takes one reference on it; \<open>got\<close> says so for
  a list of parts.
\<close>

definition got :: "nat set \<Rightarrow> OBSlicePtrArray \<times> slice_heap \<Rightarrow> OBSliceEntry list \<Rightarrow>
    OBSlicePtrArray \<times> slice_heap \<Rightarrow> bool" where
  "got P ah ts ah' \<longleftrightarrow> pa_slices (fst ah') = pa_slices (fst ah) @ ts \<and>
     (\<forall>X. heap_holds (snd ah) X P \<longrightarrow> heap_holds (snd ah') (taken X ts) P)"

lemma got_refl [simp]: "got P ah [] ah"
  by (simp add: got_def)

lemma got_trans: "got P ah ts ah1 \<Longrightarrow> got P ah1 us ah2 \<Longrightarrow> got P ah (ts @ us) ah2"
  by (auto simp: got_def taken_append)

context fastcommon
begin

lemma dup_to_array_got:
  assumes "dup_slice_to_array E src a n ah = (0, ah')" "sl_offset src \<le> a"
  shows "\<exists>t. got P ah [t] ah' \<and> is_part t src a n"
proof -
  obtain arr h where ah: "ah = (arr, h)" by fastforce
  from assms(1) obtain t h1 where d: "slice_dup E src a n h = (Some t, h1)"
    and r: "add_to_slice_ptr_array E t (arr, h1) = (0, ah')"
    by (auto simp: dup_slice_to_array_def ah split: prod.splits option.splits)
  obtain arr' h' where ah': "ah' = (arr', h')" by fastforce
  note rf = slice_dup_refs [OF d]
  have "heap_holds h' (taken X [t]) P" if "heap_holds h X P" for X
  proof -
    have "heap_holds h' (X(sl_ptr t := X (sl_ptr t) + 1)) P"
      using heap_holds_at [OF that, of "sl_ptr t"] rf array_add_ok [OF r [unfolded ah']]
      by (intro heap_holds_change [OF that]) (auto split: if_splits)
    then show ?thesis by (simp add: taken_one)
  qed
  then show ?thesis
    using array_add_ok [OF r [unfolded ah']] slice_dup_part [OF d assms(2)]
    by (auto simp: got_def ah ah')
qed

lemma get_nodes_got:
  assumes "get_slices_nodes E hi nodes ah = (0, ah')" "block_ok nodes" "ptrs nodes \<subseteq> P"
    "\<forall>s\<in>set nodes. lo \<le> sl_offset s"
  shows "\<exists>ts. got P ah ts ah' \<and> clip_of nodes lo hi ts"
  using assms
proof (induction nodes arbitrary: ah)
  case Nil
  then show ?case by (auto simp: clip_of_def intro!: exI [of _ "[]"])
next
  case (Cons cur nodes)
  have later: "\<forall>s\<in>set nodes. sl_offset cur < sl_offset s" using Cons.prems(2) by (fastforce simp: block_ok_Cons)
  show ?case
  proof (cases "hi \<le> sl_offset cur")
    case True
    then have "clip_of (cur # nodes) lo hi []"
      using later by (force simp: clip_of_def overlaps_def filter_empty_conv)
    with True Cons.prems(1) show ?thesis by (auto intro!: exI [of _ "[]"])
  next
    case False
    have lo: "lo \<le> sl_offset cur" and pos: "0 < sl_length cur" and P: "sl_ptr cur \<in> P"
      using Cons.prems by (auto simp: block_ok_Cons)
    from False Cons.prems(1) obtain ah1 where
      1: "(if sl_end cur > hi then dup_slice_to_array E cur (sl_offset cur) (hi - sl_offset cur) ah
           else add_to_slice_ptr_array E cur (fst ah, slice_add_ref (sl_ptr cur) 1 (snd ah))) = (0, ah1)"
      and 2: "get_slices_nodes E hi nodes ah1 = (0, ah')"
      by (auto simp: then_ok_success)
    have "\<exists>t. got P ah [t] ah1 \<and> clipped lo hi cur t"
    proof (cases "sl_end cur > hi")
      case True
      with 1 dup_to_array_got [of cur "sl_offset cur" "hi - sl_offset cur" ah ah1 P] lo
      show ?thesis by (auto simp: clipped_def)
    next
      case False
      then have c: "clipped lo hi cur cur"
        using lo by (cases "sl_ssize cur") (auto simp: clipped_def is_part_def)
      obtain arr1 h1 where ah1: "ah1 = (arr1, h1)" by fastforce
      note ok = array_add_ok [OF 1 [simplified False, simplified, unfolded ah1]]
      have "heap_holds h1 (taken X [cur]) P" if "heap_holds (snd ah) X P" for X
        using heap_holds_take [OF that, of "sl_ptr cur"] P ok by (auto simp: taken_one intro: heap_holds_refs)
      then have "got P ah [cur] ah1" using ok by (simp add: got_def ah1)
      with c show ?thesis by blast
    qed
    then obtain t where t: "got P ah [t] ah1" "clipped lo hi cur t" by blast
    from Cons.IH [OF 2] Cons.prems obtain ts where ts: "got P ah1 ts ah'" "clip_of nodes lo hi ts"
      by (auto simp: block_ok_Cons)
    have "overlaps lo hi cur" using False lo pos by (auto simp: overlaps_def)
    with ts(2) t(2) have "clip_of (cur # nodes) lo hi (t # ts)" by (simp add: clip_of_def)
    with got_trans [OF t(1) ts(1)] show ?thesis by auto
  qed
qed

lemma get_previous_got:
  assumes "get_slices_previous E key cur ah = (0, ah')" "sl_offset cur < ss_offset key" "0 < ss_length key"
  shows "\<exists>ts. got P ah ts ah' \<and> clip_of [cur] (ss_offset key) (ss_offset key + ss_length key) ts"
proof (cases "ss_offset key < sl_end cur")
  case True
  with assms obtain t where t: "got P ah [t] ah'" "is_part t cur (ss_offset key)
      (min (sl_end cur) (ss_offset key + ss_length key) - ss_offset key)"
    using dup_to_array_got [of cur "ss_offset key" _ ah ah' P] by (auto simp: get_slices_previous_def)
  have "clipped (ss_offset key) (ss_offset key + ss_length key) cur t"
    using t(2) assms(2) by (simp add: clipped_def max_def min.commute)
  with True t(1) assms(2,3) show ?thesis
    by (intro exI [of _ "[t]"]) (simp add: clip_of_def overlaps_def)
next
  case False
  with assms show ?thesis
    by (intro exI [of _ "[]"]) (simp add: clip_of_def overlaps_def get_slices_previous_def)
qed

lemma clip_of_append:
  "clip_of xs lo hi ts \<Longrightarrow> clip_of ys lo hi us \<Longrightarrow> clip_of (xs @ ys) lo hi (ts @ us)"
  by (simp add: clip_of_def list_all2_appendI)

lemma clip_of_before:
  assumes "block_ok pre" "pre \<noteq> []" "\<forall>s\<in>set pre. sl_offset s < lo"
  shows "clip_of pre lo hi ts = clip_of [last pre] lo hi ts"
proof -
  obtain pre' q where pre: "pre = pre' @ [q]" using assms(2) by (metis append_butlast_last_id)
  have "\<forall>s\<in>set pre'. \<not> overlaps lo hi s"
    using assms(1,3) pre by (fastforce simp: block_ok_append overlaps_def)
  then have "filter (overlaps lo hi) pre' = []" by (simp add: filter_empty_conv)
  then show ?thesis by (simp add: clip_of_def pre)
qed

lemma get_slices_cases:
  assumes ok: "block_ok chain" and len: "0 < ss_length key" and P: "ptrs chain \<subseteq> P"
    and run: "get_slices E chain key ah = (r, ah')"
  shows "r = ENOMEM \<or> (\<exists>ts. got P ah ts ah' \<and>
    clip_of chain (ss_offset key) (ss_offset key + ss_length key) ts \<and>
    r = (if pa_slices (fst ah') \<noteq> [] then 0 else ENOENT))"
proof -
  let ?i = "SL.ge_pos chain (slice_target key)" and ?lo = "ss_offset key"
  let ?hi = "?lo + ss_length key" and ?t = "slice_target key"
  let ?pre = "take ?i chain" and ?nodes = "drop ?i chain"
  let ?one = "if ?i = 0 then (0, ah) else get_slices_previous E key (chain ! (?i - 1)) ah"
  have off: "sl_offset ?t = ?lo" by (simp add: slice_target_def)
  note ch = ge_pos_chain [OF ok off]
  have ok': "block_ok ?pre" "block_ok ?nodes" using ok block_ok_append [of ?pre ?nodes] by simp_all
  have nodes: "ptrs ?nodes \<subseteq> P" using P set_drop_subset [of ?i chain] by blast
  have none: "skl_find_ge (env_slices E) chain ?t = None \<Longrightarrow> ?nodes = []"
    by (simp add: SL.ge_pos_def)
  have "get_slices E chain key ah = then_ok ?one (\<lambda>ah.
      then_ok (get_slices_nodes E ?hi ?nodes ah) (\<lambda>ah. (if pa_slices (fst ah) \<noteq> [] then 0 else ENOENT, ah)))"
    using none by (cases "skl_find_ge (env_slices E) chain ?t")
      (simp_all add: get_slices_def SL.ge_pos_def Let_def)
  note eq = run [unfolded this]
  show ?thesis
  proof (cases "fst ?one = 0 \<and> fst (get_slices_nodes E ?hi ?nodes (snd ?one)) = 0")
    case False
    have "oom_only ?one" by (rule oom_only_if [OF oom_only_0 get_previous_result])
    from then_ok_oom [OF eq this get_nodes_result False] show ?thesis by blast
  next
    case True
    define ah1 where "ah1 = snd ?one"
    define ah2 where "ah2 = snd (get_slices_nodes E ?hi ?nodes ah1)"
    have 1: "?one = (0, ah1)" and 2: "get_slices_nodes E ?hi ?nodes ah1 = (0, ah2)"
      using True by (auto simp: ah1_def ah2_def prod_eq_iff)
    from eq 1 2 have res: "ah' = ah2" "r = (if pa_slices (fst ah') \<noteq> [] then 0 else ENOENT)" by auto
    have "\<exists>ts. got P ah ts ah1 \<and> clip_of ?pre ?lo ?hi ts"
    proof (cases "?i = 0")
      case True
      with 1 show ?thesis by (auto simp: clip_of_def intro!: exI [of _ "[]"])
    next
      case False
      have ne: "?pre \<noteq> []"
        using False SL.find_ge_split(3) [OF block_ok_ordered [OF ok], of ?t] by auto
      have "get_slices_previous E key (last ?pre) ah = (0, ah1)" using 1 False ch(4) by simp
      from get_previous_got [OF this _ len, of P] ch(2) ne
      show ?thesis by (simp add: clip_of_before [OF ok'(1) ne ch(2)])
    qed
    then obtain ts where ts: "got P ah ts ah1" "clip_of ?pre ?lo ?hi ts" by blast
    from get_nodes_got [OF 2 ok'(2) nodes ch(3)] obtain us where
      us: "got P ah1 us ah2" "clip_of ?nodes ?lo ?hi us" by blast
    from clip_of_append [OF ts(2) us(2)] got_trans [OF ts(1) us(1)] res show ?thesis by auto
  qed
qed

end

end
