(* ===== verification/Block_Theorems.thy ===== *)
theory Block_Theorems
  imports Slice_Lookup
begin

text \<open>
  The properties of the operations on one block, for every library environment that meets the
  contract \<open>fastcommon\<close>, and an example block on which they are applied.
\<close>

section \<open>The ledger, spelled out\<close>

text \<open>
  \<open>books_balanced E m R xs\<close>: the manager is well-formed, every trunk of the slices \<open>xs\<close> is
  known, and the slices booked on each trunk are those of \<open>xs\<close> that lie in it, and besides
  them those that \<open>R\<close> accounts for (the slices of the other blocks).
\<close>

definition books_balanced :: "fc_env \<Rightarrow> FSStorageAllocatorManager \<Rightarrow>
    (nat \<times> int \<Rightarrow> OBSliceEntry multiset) \<Rightarrow> OBSliceEntry list \<Rightarrow> bool" where
  "books_balanced E m R xs \<longleftrightarrow> mgr_ok E m \<and> (\<forall>s\<in>set xs. booked E m (trunk_key s) \<noteq> None) \<and>
     (\<forall>k ys. booked E m k = Some ys \<longrightarrow> mset ys = R k + {#s \<in># mset xs. trunk_key s = k#})"

context fastcommon
begin

lemma books_balanced_eq: "books_balanced E = ledger.balanced"
  by (intro ext) (simp add: books_balanced_def ledger.balanced_def)

lemma add_slice_done:
  assumes ok: "block_ok (bst_slices st)" and len: "0 < sl_length slice"
    and split: "split_of (bst_slices st) (sl_offset slice) (sl_end slice) (plan_dels sp) (plan_adds sp)"
    and st1: "st1 = apply_plan E ht sp st" and add: "do_add_slice E ht slice st1 = (r, st')"
  shows "block_ok (bst_slices st')" "slice \<notin> set (bst_slices st1)"
    "block_map (bst_slices st') = block_map (bst_slices st) ++ slice_map slice"
    "set (bst_slices st') = insert slice (set (bst_slices st1))"
    "\<forall>x\<in>set (bst_slices st1). sl_offset x \<noteq> sl_offset slice" "block_ok (bst_slices st1)"
proof -
  have lt: "sl_offset slice < sl_end slice" using len by simp
  note ap = apply_plan_map [OF ok lt split st1]
  have st': "st' = snd (do_add_slice E ht slice st1)" using add by simp
  have "\<forall>s\<in>set (bst_slices st1). sl_end s \<le> sl_offset slice \<or> sl_end slice \<le> sl_offset s"
    using ap(3) by blast
  note gap = do_add_slice_gap [OF ap(1) len this st']
  show "block_ok (bst_slices st')" "set (bst_slices st') = insert slice (set (bst_slices st1))"
    "slice \<notin> set (bst_slices st1)" "block_ok (bst_slices st1)"
    using gap ap(1) by auto
  show "\<forall>x\<in>set (bst_slices st1). sl_offset x \<noteq> sl_offset slice"
    using ap(3) block_ok_pos [OF ap(1)] len by fastforce
  show "block_map (bst_slices st') = block_map (bst_slices st) ++ slice_map slice"
    by (subst gap(2), subst ap(2)) (auto simp: map_add_def slice_map_def fun_eq_iff split: option.splits)
qed

lemma add_slice_overwrites':
  assumes ok: "block_ok (bst_slices st)" and len: "0 < sl_length slice"
    and run: "add_slice E ht slice st = (0, inc, st')"
  shows "block_ok (bst_slices st') \<and>
    block_map (bst_slices st') = block_map (bst_slices st) ++ slice_map slice \<and>
    inc = int (card (slice_range slice - covered (bst_slices st))) \<and> slice \<in> set (bst_slices st')"
  using ok len run
proof (cases rule: add_slice_cases)
  case (finished sp st1)
  from add_slice_done [OF ok len finished(3,1,2)] finished(4) show ?thesis by simp
qed simp

lemma add_slice_atomic:
  assumes ok: "block_ok (bst_slices st)" and len: "0 < sl_length slice"
    and bal: "ht_modify_sallocator ht \<longrightarrow> books_balanced E (bst_mgr st) R (bst_slices st)"
    and known: "ht_modify_sallocator ht \<longrightarrow> booked E (bst_mgr st) (trunk_key slice) \<noteq> None"
    and run: "add_slice E ht slice st = (r, inc, st')"
  shows "r = 0 \<or> (r = ENOMEM \<and> bst_slices st' = bst_slices st \<and> bst_mgr st' = bst_mgr st)"
  using ok len run
proof (cases rule: add_slice_cases)
  case (finished sp st1)
  note dn = add_slice_done [OF ok len finished(3,1,2)]
  have lt: "sl_offset slice < sl_end slice" using len by simp
  have "r = 0"
  proof (cases "ht_modify_sallocator ht")
    case True
    have "ledger.balanced (bst_mgr st1) R (bst_slices st1) \<and>
        dom (booked E (bst_mgr st1)) = dom (booked E (bst_mgr st))"
      using apply_plan_balanced [OF ok lt finished(3) True _ finished(1)] bal True
      by (simp add: books_balanced_eq)
    moreover from this known True have "booked E (bst_mgr st1) (trunk_key slice) \<noteq> None" by blast
    ultimately show ?thesis
      using do_add_slice_balanced(1) [OF True block_ok_ordered [OF dn(6)] dn(5) _ _ finished(2)] by blast
  next
    case False
    then show ?thesis
      using finished(2) SL.insert_new [OF block_ok_ordered [OF dn(6)], of slice] dn(5)
      by (auto simp: do_add_slice_def slice_compare_def split: prod.splits)
  qed
  then show ?thesis ..
qed simp

lemma add_slice_books:
  assumes ok: "block_ok (bst_slices st)" and len: "0 < sl_length slice" and m: "ht_modify_sallocator ht"
    and bal: "books_balanced E (bst_mgr st) R (bst_slices st)"
    and known: "booked E (bst_mgr st) (trunk_key slice) \<noteq> None"
    and run: "add_slice E ht slice st = (0, inc, st')"
  shows "books_balanced E (bst_mgr st') R (bst_slices st') \<and>
    dom (booked E (bst_mgr st')) = dom (booked E (bst_mgr st))"
  using ok len run
proof (cases rule: add_slice_cases)
  case (finished sp st1)
  note dn = add_slice_done [OF ok len finished(3,1,2)]
  have lt: "sl_offset slice < sl_end slice" using len by simp
  have b1: "ledger.balanced (bst_mgr st1) R (bst_slices st1)"
    and d1: "dom (booked E (bst_mgr st1)) = dom (booked E (bst_mgr st))"
    using apply_plan_balanced [OF ok lt finished(3) m _ finished(1)] bal by (simp_all add: books_balanced_eq)
  from d1 known have "booked E (bst_mgr st1) (trunk_key slice) \<noteq> None" by blast
  from do_add_slice_balanced(2,3) [OF m block_ok_ordered [OF dn(6)] dn(5) b1 this finished(2)] d1
  show ?thesis by (simp add: books_balanced_eq)
qed simp

lemma add_slice_refs:
  assumes ok: "block_ok (bst_slices st)" and len: "0 < sl_length slice"
    and h: "heap_holds (bst_heap st) X (ptrs (bst_slices st))" "inj_on sl_ptr (set (bst_slices st))"
    and own: "1 \<le> X (sl_ptr slice)" "sl_ptr slice \<notin> ptrs (bst_slices st)"
    and run: "add_slice E ht slice st = (0, inc, st')"
  shows "heap_holds (bst_heap st') (X(sl_ptr slice := X (sl_ptr slice) - 1)) (ptrs (bst_slices st')) \<and>
    inj_on sl_ptr (set (bst_slices st')) \<and>
    (\<forall>p\<in>ptrs (bst_slices st'). p \<in> ptrs (bst_slices st) \<or> p = sl_ptr slice \<or> X p = 0)"
  using ok len run
proof (cases rule: add_slice_cases)
  case (finished sp st1)
  note dn = add_slice_done [OF ok len finished(3,1,2)]
  have lt: "sl_offset slice < sl_end slice" using len by simp
  note ref = apply_plan_refs [OF ok lt finished(3) h finished(5,1)]
  have new: "sl_ptr slice \<notin> ptrs (bst_slices st1)"
  proof
    assume "sl_ptr slice \<in> ptrs (bst_slices st1)"
    from ref(3) [OF this] own show False by simp
  qed
  have "bst_heap st' = bst_heap st1"
    using do_add_slice_chain(3) [OF block_ok_ordered [OF dn(6)] dn(5), of ht] finished(2) by simp
  then have "heap_holds (bst_heap st') (X(sl_ptr slice := X (sl_ptr slice) - 1)) (ptrs (bst_slices st'))"
    using heap_holds_move [OF ref(1) new own(1)] dn(4) by simp
  moreover have "inj_on sl_ptr (set (bst_slices st'))" using ref(2) new dn(4) by (simp add: inj_on_insert) blast
  moreover have "\<forall>p\<in>ptrs (bst_slices st'). p \<in> ptrs (bst_slices st) \<or> p = sl_ptr slice \<or> X p = 0"
    using ref(3) dn(4) by auto
  ultimately show ?thesis by blast
qed simp

lemma delete_slices_map:
  assumes ok: "block_ok (bst_slices st)" and len: "0 < ss_length key"
    and run: "delete_slices E ht key st = (0, cnt, dec, st')"
  shows "block_ok (bst_slices st') \<and>
    block_map (bst_slices st') = block_map (bst_slices st) |` (- ssize_range key) \<and>
    dec = int (card (ssize_range key \<inter> covered (bst_slices st))) \<and> 0 < cnt"
  using ok len run
proof (cases rule: delete_slices_cases)
  case (finished sp)
  have lt: "ss_offset key < ss_offset key + ss_length key" using len by simp
  note ap = apply_plan_map [OF ok lt finished(4,2)]
  have "block_map (bst_slices st') = block_map (bst_slices st) |` (- ssize_range key)"
    by (subst ap(2)) (auto simp: restrict_map_def fun_eq_iff)
  with ap(1) finished show ?thesis by simp
qed simp_all

lemma delete_slices_result:
  assumes ok: "block_ok (bst_slices st)" and len: "0 < ss_length key"
    and run: "delete_slices E ht key st = (r, cnt, dec, st')"
  shows "(r = 0 \<and> ssize_range key \<inter> covered (bst_slices st) \<noteq> {}) \<or>
    ((r = ENOENT \<and> ssize_range key \<inter> covered (bst_slices st) = {} \<and> dec = 0 \<or> r = ENOMEM) \<and>
     bst_slices st' = bst_slices st \<and> bst_mgr st' = bst_mgr st)"
  using ok len run
proof (cases rule: delete_slices_cases)
  case (finished sp)
  then obtain s where s: "s \<in> set (bst_slices st)" "overlaps (ss_offset key) (ss_offset key + ss_length key) s"
    by (auto simp: split_of_def filter_empty_conv)
  let ?x = "max (ss_offset key) (sl_offset s)"
  have "?x \<in> slice_range s" "?x \<in> ssize_range key"
    using s len block_ok_pos [OF ok s(1)] by (auto simp: overlaps_def)
  then have "?x \<in> ssize_range key \<inter> covered (bst_slices st)" using s(1) unfolding covered_def by blast
  with finished(1) show ?thesis by blast
qed simp_all

lemma delete_slices_books:
  assumes ok: "block_ok (bst_slices st)" and len: "0 < ss_length key"
    and bal: "ht_modify_sallocator ht \<Longrightarrow> books_balanced E (bst_mgr st) R (bst_slices st)"
    and h: "heap_holds (bst_heap st) X (ptrs (bst_slices st))" "inj_on sl_ptr (set (bst_slices st))"
    and run: "delete_slices E ht key st = (0, cnt, dec, st')"
  shows "(ht_modify_sallocator ht \<longrightarrow> books_balanced E (bst_mgr st') R (bst_slices st') \<and>
      dom (booked E (bst_mgr st')) = dom (booked E (bst_mgr st))) \<and>
    heap_holds (bst_heap st') X (ptrs (bst_slices st')) \<and> inj_on sl_ptr (set (bst_slices st')) \<and>
    (\<forall>p\<in>ptrs (bst_slices st'). p \<in> ptrs (bst_slices st) \<or> X p = 0)"
  using ok len run
proof (cases rule: delete_slices_cases)
  case (finished sp)
  have lt: "ss_offset key < ss_offset key + ss_length key" using len by simp
  note ref = apply_plan_refs [OF ok lt finished(4) h finished(7,2)]
  have "ht_modify_sallocator ht \<longrightarrow> books_balanced E (bst_mgr st') R (bst_slices st') \<and>
      dom (booked E (bst_mgr st')) = dom (booked E (bst_mgr st))"
    using apply_plan_balanced [OF ok lt finished(4) _ _ finished(2)] bal unfolding books_balanced_eq by blast
  with ref show ?thesis by blast
qed simp_all

lemma get_slices_map:
  assumes ok: "block_ok chain" and len: "0 < ss_length key" and arr: "pa_slices arr = []"
    and run: "get_slices E chain key (arr, h) = (r, arr', h')"
  shows "r = ENOMEM \<or>
    (block_ok (pa_slices arr') \<and> block_map (pa_slices arr') = block_map chain |` ssize_range key \<and>
     r = (if ssize_range key \<inter> covered chain = {} then ENOENT else 0))"
proof (cases "r = ENOMEM")
  case False
  have lt: "ss_offset key < ss_offset key + ss_length key" using len by simp
  from get_slices_cases [OF ok len subset_refl run] False arr obtain ts where
    ts: "pa_slices arr' = ts" "clip_of chain (ss_offset key) (ss_offset key + ss_length key) ts"
    "r = (if ts \<noteq> [] then 0 else ENOENT)"
    by (auto simp: got_def)
  note cm = clip_of_map [OF ts(2) ok lt, folded ssize_range_def] and co = clip_of_ok [OF ts(2) ok lt]
  have "covered ts = ssize_range key \<inter> covered chain"
    using arg_cong [OF cm, of dom] by (auto simp: dom_block_map)
  moreover have "covered ts = {} \<longleftrightarrow> ts = []"
    using block_ok_pos [OF co] by (cases ts) (auto simp: covered_Cons ssize_range_def)
  ultimately show ?thesis using cm co ts by simp
qed simp

lemma get_free_refs:
  assumes ok: "block_ok chain" and len: "0 < ss_length key" and arr: "pa_slices arr = []"
    and h: "heap_holds h X (ptrs chain)"
    and run: "get_slices E chain key (arr, h) = (0, arr', h')" and fr: "free_slices (arr', h') = (arr'', h'')"
  shows "(\<forall>s\<in>set (pa_slices arr'). \<exists>c\<ge>1. sh_refs h' (sl_ptr s) = Some c) \<and>
    sh_refs h'' = sh_refs h \<and> pa_slices arr'' = []"
proof -
  from get_slices_cases [OF ok len subset_refl run] arr h obtain ts where
    ts: "pa_slices arr' = ts" "heap_holds h' (taken X ts) (ptrs chain)"
    by (auto simp: got_def)
  have X: "0 \<le> X p" for p by (rule heap_holds_at(1) [OF h])
  have "\<exists>c\<ge>1. sh_refs h' (sl_ptr s) = Some c" if "s \<in> set ts" for s
  proof -
    have "sl_ptr s \<in> set (map sl_ptr ts)" using that by simp
    then have "0 < count_list (map sl_ptr ts) (sl_ptr s)" by (simp only: count_list_gt_0_iff)
    then have "1 \<le> taken X ts (sl_ptr s)"
      using X [of "sl_ptr s"] unfolding taken_def by linarith
    then show ?thesis by (subst heap_holds_at(2) [OF ts(2)]) auto
  qed
  moreover have "heap_holds h'' X (ptrs chain)"
    using heap_holds_free_all [OF ts(2) X] fr ts(1) by (auto simp: free_slices_def)
  ultimately show ?thesis
    using heap_holds_same_refs [OF h] ts(1) fr by (auto simp: free_slices_def)
qed

end

section \<open>An example block\<close>

text \<open>
  One trunk of 64 KB with id 7 on store path 0; the block holds the bytes 0 to 4095 and 8192
  to 12287. The new slice overwrites 2048 to 10239.
\<close>

definition ex_key :: FSBlockKey where
  "ex_key = fs_calc_block_hashcode \<lparr>bk_oid = 11, bk_offset = 0, bk_hash_code = 0\<rparr>"

definition ex_slice :: "nat \<Rightarrow> int \<Rightarrow> int \<Rightarrow> int \<Rightarrow> OBSliceEntry" where
  "ex_slice p off len pos = \<lparr>sl_ptr = p, sl_ob = 1, sl_type = OB_SLICE_TYPE_FILE,
     sl_ssize = \<lparr>ss_offset = off, ss_length = len\<rparr>,
     sl_space = \<lparr>ts_store = 0, ts_id_info = \<lparr>ti_id = 7, ti_subdir = 1\<rparr>, ts_offset = pos, ts_size = len\<rparr>\<rparr>"

definition ex_chain :: "OBSliceEntry list" where
  "ex_chain = [ex_slice 1 0 4096 0, ex_slice 2 8192 4096 4096]"

definition ex_new :: OBSliceEntry where
  "ex_new = ex_slice 3 2048 8192 8192"

definition ex_trunk :: FSTrunkFileInfo where
  "ex_trunk = (new_trunk 0 \<lparr>ti_id = 7, ti_subdir = 1\<rparr> 65536)\<lparr>tf_used_count := 2,
     tf_used_bytes := 8192, tf_slices := ex_chain, tf_free_start := 16384\<rparr>"

definition ex_freelist :: FSTrunkFreelist where
  "ex_freelist = \<lparr>fl_count = 0, fl_water_mark = 2, fl_trunks = []\<rparr>"

definition ex_allocator :: FSTrunkAllocator where
  "ex_allocator = \<lparr>ta_path_info = \<lparr>pi_trunk_total = 65536, pi_trunk_avail = 49152, pi_trunk_used = 8192,
       pi_trunk_last_used = 0, pi_space_avail = 1000000, pi_reserved = 0, pi_last_stat_time = 0,
       pi_used_ratio = 0, pi_reserved_ratio = 0\<rparr>,
     ta_by_id = [(7, 1)], ta_by_size = [], ta_freelist = ex_freelist, ta_last_trigger_time = 0, ta_creating_trunks = 0,
     ta_waiting_callers = 0, ta_current_version = 0, ta_last_errno = 0, ta_queue = []\<rparr>"

definition ex_mgr :: FSStorageAllocatorManager where
  "ex_mgr = \<lparr>am_trunks = [1 \<mapsto> ex_trunk], am_allocators = [0 \<mapsto> ex_allocator],
     am_full = \<lparr>aa_alloc = 0, aa_items = []\<rparr>, am_avail = \<lparr>aa_alloc = 1, aa_items = [0]\<rparr>,
     am_reclaim_freelist = ex_freelist, am_maker_tasks = [], am_delay_free = [], am_now = 0,
     am_continue = True, am_calls = 0\<rparr>"

definition ex_heap :: slice_heap where
  "ex_heap = \<lparr>sh_refs = [1 \<mapsto> 1, 2 \<mapsto> 1, 3 \<mapsto> 1], sh_calls = 0\<rparr>"

definition ex_st :: block_state where
  "ex_st = \<lparr>bst_slices = ex_chain, bst_heap = ex_heap, bst_mgr = ex_mgr\<rparr>"

definition ex_ht :: OBHashtable where
  "ex_ht = \<lparr>ht_capacity = 11, ht_buckets = replicate 11 [], ht_modify_sallocator = True,
     ht_modify_used_space = True\<rparr>"

definition ex_range :: FSSliceSize where
  "ex_range = \<lparr>ss_offset = 2048, ss_length = 8192\<rparr>"

text \<open>What the other blocks and threads hold: nothing on the trunk, one reference on address 3.\<close>

definition ex_X :: "nat \<Rightarrow> int" where
  "ex_X p = (if p = 3 then 1 else 0)"

lemmas ex_defs = ex_st_def ex_chain_def ex_new_def ex_slice_def ex_heap_def ex_mgr_def ex_trunk_def
  ex_allocator_def ex_freelist_def ex_ht_def ex_range_def new_trunk_def

lemma ex_st_sel: "bst_slices ex_st = ex_chain" "bst_mgr ex_st = ex_mgr" "bst_heap ex_st = ex_heap"
  by (simp_all add: ex_st_def)

lemma ex_block_ok: "block_ok (bst_slices ex_st)"
  by (simp add: block_ok_def ex_defs)

lemma ex_run: "fst (add_slice list_env ex_ht ex_new ex_st) = 0"
  "fst (delete_slices list_env ex_ht ex_range ex_st) = 0"
  "fst (get_slices list_env (bst_slices ex_st) ex_range (\<lparr>pa_alloc = 0, pa_slices = []\<rparr>, ex_heap)) = 0"
  by code_simp+

lemma ex_trunk_books: "trunk_books_ok ex_trunk"
  by (simp add: trunk_books_ok_def ex_defs)

lemma ex_mgr_ok: "mgr_ok list_env ex_mgr"
  using ex_trunk_books
  by (auto simp: mgr_ok_def trunk_at_def ex_mgr_def ex_allocator_def skl_ordered_def ex_trunk_def new_trunk_def
      split: if_splits)

lemma ex_booked: "booked list_env ex_mgr k = (if k = (0, 7) then Some ex_chain else None)"
  by (cases k) (auto simp: booked_def find_trunk_def ex_mgr_def ex_allocator_def ex_trunk_def new_trunk_def
      list_env_def list_skiplist_def)

lemma ex_trunk_key: "trunk_key (ex_slice p a n o') = (0, 7)"
  by (simp add: trunk_key_def ex_slice_def)

lemma ex_balanced: "books_balanced list_env (bst_mgr ex_st) (\<lambda>_. {#}) (bst_slices ex_st)"
  by (auto simp: books_balanced_def ex_mgr_ok ex_booked ex_st_def ex_chain_def ex_trunk_key split: if_splits)

lemma ex_new_facts: "0 < sl_length ex_new" "booked list_env (bst_mgr ex_st) (trunk_key ex_new) \<noteq> None"
  by (simp_all add: ex_booked ex_st_def ex_new_def ex_trunk_key) (simp add: ex_slice_def)

text \<open>An environment in which the slice pool is exhausted.\<close>

definition oom_env :: fc_env where
  "oom_env = list_env\<lparr>env_slice_alloc := (\<lambda>_ _. None)\<rparr>"

interpretation oom_fc: fastcommon oom_env
proof -
  have "compare_trunk_by_id oom_env = compare_trunk_by_id list_env"
    by (intro ext) (simp add: compare_trunk_by_id_def oom_env_def)
  then show "fastcommon oom_env"
    using list_fc.fastcommon_axioms unfolding fastcommon_def fastcommon_axioms_def oom_env_def
    by simp (elim conjE, intro conjI, assumption+)
qed

lemma oom_env_same: "books_balanced oom_env = books_balanced list_env" "booked oom_env = booked list_env"
proof -
  have c: "compare_trunk_by_id oom_env = compare_trunk_by_id list_env"
    by (intro ext) (simp add: compare_trunk_by_id_def oom_env_def)
  show b: "booked oom_env = booked list_env"
    by (intro ext) (simp add: booked_def find_trunk_def oom_env_def cong: option.case_cong)
  show "books_balanced oom_env = books_balanced list_env"
    by (intro ext) (simp add: books_balanced_def mgr_ok_def b c)
qed

lemma ex_oom: "fst (add_slice oom_env ex_ht ex_new ex_st) = ENOMEM"
  by code_simp

lemma ex_held: "heap_holds (bst_heap ex_st) ex_X (ptrs (bst_slices ex_st))"
  "inj_on sl_ptr (set (bst_slices ex_st))"
  by (auto simp: heap_holds_def ex_X_def ex_defs Let_def)

lemma run_split: "fst r = (x :: int) \<Longrightarrow> r = (x, fst (snd r), snd (snd r))"
  by (cases r) simp

lemma run_split4: "fst r = (x :: int) \<Longrightarrow> r = (x, fst (snd r), fst (snd (snd r)), snd (snd (snd r)))"
  by (cases r) simp

section \<open>Overwriting\<close>

text \<open>
  A successful \<open>add_slice\<close> overrides exactly the bytes of the new slice: every other
  byte of the block keeps the place on disk it had, whatever the new slice overlaps, cuts or
  covers; the chain stays ordered and free of overlaps; and \<open>inc_alloc\<close> is the number of bytes
  that were not mapped before.
\<close>
theorem add_slice_overwrites:
  assumes "fastcommon E" "block_ok (bst_slices st)" "0 < sl_length slice"
    "add_slice E ht slice st = (0, inc, st')"
  shows "block_ok (bst_slices st') \<and>
    block_map (bst_slices st') = block_map (bst_slices st) ++ slice_map slice \<and>
    inc = int (card (slice_range slice - covered (bst_slices st)))"
  using fastcommon.add_slice_overwrites' [OF assms] by blast

theorem add_slice_overwrites_witness:
  "let r = add_slice list_env ex_ht ex_new ex_st
   in block_map (bst_slices (snd (snd r))) = block_map ex_chain ++ slice_map ex_new \<and>
      fst (snd r) = int (card (slice_range ex_new - covered ex_chain))"
  using add_slice_overwrites [OF list_fc.fastcommon_axioms ex_block_ok _ run_split [OF ex_run(1)]]
  by (simp add: Let_def ex_st_def ex_new_def ex_slice_def)



text \<open>
  A successful \<open>add_slice\<close> keeps the books of the trunks: each trunk's list holds
  exactly the slices that the index keeps in that trunk, its \<open>used.bytes\<close> is the sum of their
  sizes and its \<open>used.count\<close> their number (\<open>mgr_ok\<close>), and no trunk appears or disappears.
\<close>
theorem add_slice_keeps_books:
  assumes "fastcommon E" "block_ok (bst_slices st)" "0 < sl_length slice" "ht_modify_sallocator ht"
    "books_balanced E (bst_mgr st) R (bst_slices st)" "booked E (bst_mgr st) (trunk_key slice) \<noteq> None"
    "add_slice E ht slice st = (0, inc, st')"
  shows "books_balanced E (bst_mgr st') R (bst_slices st') \<and>
    dom (booked E (bst_mgr st')) = dom (booked E (bst_mgr st))"
  by (rule fastcommon.add_slice_books [OF assms])

theorem add_slice_keeps_books_witness:
  "let st' = snd (snd (add_slice list_env ex_ht ex_new ex_st))
   in books_balanced list_env (bst_mgr st') (\<lambda>_. {#}) (bst_slices st')"
  using add_slice_keeps_books [OF list_fc.fastcommon_axioms ex_block_ok _ _ ex_balanced _
      run_split [OF ex_run(1)]]
  by (simp add: Let_def ex_booked ex_st_def ex_new_def ex_trunk_key) (simp add: ex_slice_def ex_ht_def)

text \<open>
  A successful \<open>add_slice\<close> keeps the reference counts exact: the reference of the
  caller to the new slice becomes the one of the index, replaced slices lose the one of the
  index and are freed when nobody else reads them, and the parts that remain of them are new
  slices held by the index only. In particular no slice of the block has been freed.
\<close>
theorem add_slice_keeps_refs:
  assumes "fastcommon E" "block_ok (bst_slices st)" "0 < sl_length slice"
    "heap_holds (bst_heap st) X (ptrs (bst_slices st))" "inj_on sl_ptr (set (bst_slices st))"
    "1 \<le> X (sl_ptr slice)" "sl_ptr slice \<notin> ptrs (bst_slices st)"
    "add_slice E ht slice st = (0, inc, st')"
  shows "heap_holds (bst_heap st') (X(sl_ptr slice := X (sl_ptr slice) - 1)) (ptrs (bst_slices st')) \<and>
    inj_on sl_ptr (set (bst_slices st'))"
  using fastcommon.add_slice_refs [OF assms] by blast

theorem add_slice_keeps_refs_witness:
  "let st' = snd (snd (add_slice list_env ex_ht ex_new ex_st))
   in heap_holds (bst_heap st') (ex_X(3 := 0)) (ptrs (bst_slices st'))"
  using add_slice_keeps_refs [OF list_fc.fastcommon_axioms ex_block_ok _ ex_held _ _ run_split [OF ex_run(1)]]
  by (simp add: Let_def ex_new_def ex_slice_def ex_X_def ex_st_def ex_chain_def)

section \<open>Deleting\<close>

text \<open>
  A successful \<open>delete_slices\<close> unmaps exactly the bytes of the range and nothing else,
  keeps the chain ordered and free of overlaps, and \<open>dec_alloc\<close> is the number of bytes that
  were mapped in the range.
\<close>
theorem delete_slices_clears:
  assumes "fastcommon E" "block_ok (bst_slices st)" "0 < ss_length key"
    "delete_slices E ht key st = (0, cnt, dec, st')"
  shows "block_ok (bst_slices st') \<and>
    block_map (bst_slices st') = block_map (bst_slices st) |` (- ssize_range key) \<and>
    dec = int (card (ssize_range key \<inter> covered (bst_slices st))) \<and> 0 < cnt"
  by (rule fastcommon.delete_slices_map [OF assms])

theorem delete_slices_clears_witness:
  "let r = delete_slices list_env ex_ht ex_range ex_st
   in block_map (bst_slices (snd (snd (snd r)))) = block_map ex_chain |` (- ssize_range ex_range)"
  using delete_slices_clears [OF list_fc.fastcommon_axioms ex_block_ok _ run_split4 [OF ex_run(2)]]
  by (simp add: Let_def ex_st_def ex_range_def)

text \<open>
  The outcome of \<open>delete_slices\<close>: 0, \<open>ENOENT\<close> exactly when no byte of the range is
  mapped (unless memory runs out), or \<open>ENOMEM\<close>; and unless it answers 0 the block and the books
  of the trunks are untouched.
\<close>
theorem delete_slices_outcome:
  assumes "fastcommon E" "block_ok (bst_slices st)" "0 < ss_length key"
    "delete_slices E ht key st = (r, cnt, dec, st')"
  shows "(r = 0 \<and> ssize_range key \<inter> covered (bst_slices st) \<noteq> {}) \<or>
    ((r = ENOENT \<and> ssize_range key \<inter> covered (bst_slices st) = {} \<and> dec = 0 \<or> r = ENOMEM) \<and>
     bst_slices st' = bst_slices st \<and> bst_mgr st' = bst_mgr st)"
  by (rule fastcommon.delete_slices_result [OF assms])

theorem delete_slices_outcome_witness:
  "let r = delete_slices list_env ex_ht \<lparr>ss_offset = 5000, ss_length = 10\<rparr> ex_st
   in fst r = ENOENT \<and> bst_slices (snd (snd (snd r))) = ex_chain"
proof -
  have r: "fst (delete_slices list_env ex_ht \<lparr>ss_offset = 5000, ss_length = 10\<rparr> ex_st) = ENOENT"
    by code_simp
  from delete_slices_outcome [OF list_fc.fastcommon_axioms ex_block_ok _ run_split4 [OF this]] r
  show ?thesis by (simp add: Let_def ex_st_def)
qed

text \<open>
  A successful \<open>delete_slices\<close> keeps the books of the trunks and the reference counts.
\<close>
theorem delete_slices_keeps_books:
  assumes "fastcommon E" "block_ok (bst_slices st)" "0 < ss_length key" "ht_modify_sallocator ht"
    "books_balanced E (bst_mgr st) R (bst_slices st)"
    "heap_holds (bst_heap st) X (ptrs (bst_slices st))" "inj_on sl_ptr (set (bst_slices st))"
    "delete_slices E ht key st = (0, cnt, dec, st')"
  shows "books_balanced E (bst_mgr st') R (bst_slices st') \<and>
    heap_holds (bst_heap st') X (ptrs (bst_slices st')) \<and> inj_on sl_ptr (set (bst_slices st'))"
  using fastcommon.delete_slices_books [OF assms(1-3) _ assms(6-8)] assms(4,5) by blast

theorem delete_slices_keeps_books_witness:
  "let st' = snd (snd (snd (delete_slices list_env ex_ht ex_range ex_st)))
   in books_balanced list_env (bst_mgr st') (\<lambda>_. {#}) (bst_slices st')"
  using delete_slices_keeps_books [OF list_fc.fastcommon_axioms ex_block_ok _ _ ex_balanced ex_held
      run_split4 [OF ex_run(2)]]
  by (simp add: Let_def ex_range_def ex_ht_def)

section \<open>Looking up\<close>

text \<open>
  \<open>get_slices\<close> with an empty array answers the map of the block restricted to the
  range, as an ordered chain without overlaps; it answers \<open>ENOENT\<close> exactly when no byte of the
  range is mapped (unless memory runs out).
\<close>
theorem get_slices_restricts:
  assumes "fastcommon E" "block_ok chain" "0 < ss_length key" "pa_slices arr = []"
    "get_slices E chain key (arr, h) = (r, arr', h')"
  shows "r = ENOMEM \<or>
    (block_ok (pa_slices arr') \<and> block_map (pa_slices arr') = block_map chain |` ssize_range key \<and>
     r = (if ssize_range key \<inter> covered chain = {} then ENOENT else 0))"
  by (rule fastcommon.get_slices_map [OF assms])

theorem get_slices_restricts_witness:
  "let r = get_slices list_env ex_chain ex_range (\<lparr>pa_alloc = 0, pa_slices = []\<rparr>, ex_heap)
   in fst r = 0 \<and> block_map (pa_slices (fst (snd r))) = block_map ex_chain |` ssize_range ex_range"
  using get_slices_restricts [OF list_fc.fastcommon_axioms ex_block_ok _ _ run_split [OF ex_run(3)]] ex_run(3)
  by (simp add: Let_def ex_st_def ex_range_def)

text \<open>
  A lookup takes one reference on every slice it answers, so none of them can be freed
  under the reader; \<open>free_slices\<close> gives exactly these references back: after both, the
  reference counts are what they were.
\<close>
theorem get_then_free_slices:
  assumes "fastcommon E" "block_ok chain" "0 < ss_length key" "pa_slices arr = []"
    "heap_holds h X (ptrs chain)"
    "get_slices E chain key (arr, h) = (0, arr', h')" "free_slices (arr', h') = (arr'', h'')"
  shows "(\<forall>s\<in>set (pa_slices arr'). \<exists>c\<ge>1. sh_refs h' (sl_ptr s) = Some c) \<and>
    sh_refs h'' = sh_refs h \<and> pa_slices arr'' = []"
  by (rule fastcommon.get_free_refs [OF assms])

theorem get_then_free_slices_witness:
  "let r = get_slices list_env (bst_slices ex_st) ex_range (\<lparr>pa_alloc = 0, pa_slices = []\<rparr>, ex_heap)
   in sh_refs (snd (free_slices (snd r))) = sh_refs ex_heap"
proof -
  let ?r = "get_slices list_env (bst_slices ex_st) ex_range (\<lparr>pa_alloc = 0, pa_slices = []\<rparr>, ex_heap)"
  have "0 < ss_length ex_range" by (simp add: ex_range_def)
  from get_then_free_slices [OF list_fc.fastcommon_axioms ex_block_ok this _
      ex_held(1) [unfolded ex_st_sel(3)] run_split [OF ex_run(3)],
      of "fst (free_slices (snd ?r))" "snd (free_slices (snd ?r))"]
  show ?thesis by (simp add: Let_def)
qed

end
