(* ===== verification/Block_Table.thy ===== *)
theory Block_Table
  imports Block_Theorems
begin

text \<open>
  The hash table of blocks (\<open>src/server/storage/object_block_index.c\<close>, \<open>.h\<close>). A bucket is a
  chain of entries ordered by key, linked through \<open>next\<close>; the model has it as the list of its
  entries. An entry carries its address: the C code keeps pointers to entries in slices
  (\<open>slice->ob\<close>) and, while it waits for a trunk reclaim, in local variables. An entry that is in
  no chain has been freed, and reading through its address gives \<open>FAULT\<close>.

  One call of an operation holds the lock of the bucket from its first access to its last one,
  except while it waits on the condition variable for \<open>reclaiming_count\<close> to drop to 0. What the
  other threads do during these waits is the argument \<open>sched\<close>, one state change for each wake-up;
  \<open>None\<close> is the outcome that the caller still waits when \<open>sched\<close> is used up.
\<close>

section \<open>State\<close>

record ob_index =
  ix_ht :: OBHashtable
  ix_heap :: slice_heap
  ix_mgr :: FSStorageAllocatorManager
  ix_sn :: int
  ix_calls :: nat

definition bucket_index :: "OBHashtable \<Rightarrow> FSBlockKey \<Rightarrow> nat" where
  "bucket_index ht bkey = nat (bk_hash_code bkey mod ht_capacity ht)"

definition set_bucket :: "nat \<Rightarrow> OBEntry list \<Rightarrow> ob_index \<Rightarrow> ob_index" where
  "set_bucket i chain st = st\<lparr>ix_ht := (ix_ht st)\<lparr>ht_buckets := (ht_buckets (ix_ht st))[i := chain]\<rparr>\<rparr>"

definition bucket_at :: "ob_index \<Rightarrow> FSBlockKey \<Rightarrow> OBEntry list" where
  "bucket_at st bkey = ht_buckets (ix_ht st) ! bucket_index (ix_ht st) bkey"

definition entries :: "ob_index \<Rightarrow> OBEntry list" where
  "entries st = concat (ht_buckets (ix_ht st))"

text \<open>Reading and writing through an address.\<close>

definition ob_deref :: "ob_index \<Rightarrow> nat \<Rightarrow> OBEntry option" where
  "ob_deref st p = find (\<lambda>ob. ob_ptr ob = p) (entries st)"

definition upd_entry :: "nat \<Rightarrow> (OBEntry \<Rightarrow> OBEntry) \<Rightarrow> ob_index \<Rightarrow> ob_index" where
  "upd_entry p f st = st\<lparr>ix_ht := (ix_ht st)\<lparr>ht_buckets :=
     map (map (\<lambda>ob. if ob_ptr ob = p then f ob else ob)) (ht_buckets (ix_ht st))\<rparr>\<rparr>"

section \<open>Finding and creating an entry\<close>

definition ob_index_compare_block_key :: "fc_env \<Rightarrow> FSBlockKey \<Rightarrow> FSBlockKey \<Rightarrow> int" where
  "ob_index_compare_block_key E bkey1 bkey2 =
     (let sub = env_compare_int64 E (bk_oid bkey1) (bk_oid bkey2)
      in if sub \<noteq> 0 then sub else env_compare_int64 E (bk_offset bkey1) (bk_offset bkey2))"

text \<open>
  The walk along a chain: the entries passed (the last of them is \<open>*pprev\<close>), the entry found,
  and the entries behind the place where it is or would be.
\<close>

fun chain_walk :: "fc_env \<Rightarrow> FSBlockKey \<Rightarrow> OBEntry list \<Rightarrow>
    OBEntry list \<times> OBEntry option \<times> OBEntry list" where
  "chain_walk E bkey [] = ([], None, [])"
| "chain_walk E bkey (ob # rest) =
     (let cmpr = ob_index_compare_block_key E bkey (ob_bkey ob)
      in if cmpr = 0 then ([], Some ob, rest)
         else if cmpr < 0 then ([], None, ob # rest)
         else (case chain_walk E bkey rest of (pre, hit, post) \<Rightarrow> (ob # pre, hit, post)))"

definition pprev_of :: "OBEntry list \<Rightarrow> nat option" where
  "pprev_of pre = (if pre = [] then None else Some (ob_ptr (last pre)))"

definition get_ob_entry_ex :: "fc_env \<Rightarrow> FSBlockKey \<Rightarrow> bool \<Rightarrow> ob_index \<Rightarrow>
    OBEntry option \<times> nat option \<times> ob_index" where
  "get_ob_entry_ex E bkey create_flag st =
     (case chain_walk E bkey (bucket_at st bkey) of (pre, hit, post) \<Rightarrow>
        (case hit of
           Some ob \<Rightarrow> (Some ob, pprev_of pre, st)
         | None \<Rightarrow>
             if \<not> create_flag then (None, pprev_of pre, st)
             else
               (let st1 = st\<lparr>ix_calls := Suc (ix_calls st)\<rparr>
                in case env_ob_alloc E (ix_calls st) (\<lambda>p. ob_deref st p \<noteq> None) of
                     None \<Rightarrow> (None, pprev_of pre, st1)
                   | Some p \<Rightarrow>
                       if \<not> env_skl_new E (ix_calls st) then (None, pprev_of pre, st1)
                       else
                         (let ob = \<lparr>ob_ptr = p, ob_bkey = bkey, ob_reclaiming_count = 0, ob_slices = []\<rparr>
                          in (Some ob, pprev_of pre,
                              set_bucket (bucket_index (ix_ht st) bkey) (pre @ [ob] @ post) st1)))))"

abbreviation get_ob_entry :: "fc_env \<Rightarrow> FSBlockKey \<Rightarrow> ob_index \<Rightarrow> OBEntry option" where
  "get_ob_entry E bkey st \<equiv> fst (get_ob_entry_ex E bkey False st)"

definition ob_index_get_ob_entry_ex :: "fc_env \<Rightarrow> FSBlockKey \<Rightarrow> ob_index \<Rightarrow> OBEntry option" where
  "ob_index_get_ob_entry_ex E bkey st = get_ob_entry E bkey st"

definition ob_index_reclaim_lock :: "fc_env \<Rightarrow> FSBlockKey \<Rightarrow> ob_index \<Rightarrow> nat option \<times> ob_index" where
  "ob_index_reclaim_lock E bkey st =
     (case get_ob_entry E bkey st of
        None \<Rightarrow> (None, st)
      | Some ob \<Rightarrow> (Some (ob_ptr ob),
          upd_entry (ob_ptr ob) (\<lambda>ob. ob\<lparr>ob_reclaiming_count := ob_reclaiming_count ob + 1\<rparr>) st))"

definition ob_index_reclaim_unlock :: "nat \<Rightarrow> ob_index \<Rightarrow> int \<times> ob_index" where
  "ob_index_reclaim_unlock p st =
     (case ob_deref st p of
        None \<Rightarrow> (FAULT, st)
      | Some _ \<Rightarrow>
          (0, upd_entry p (\<lambda>ob. ob\<lparr>ob_reclaiming_count := ob_reclaiming_count ob - 1\<rparr>) st))"

text \<open>
  A new slice entry belongs to the (possibly new) entry of its block. Of a fresh object only
  \<open>ob\<close> and the reference count are set; the other fields are zero or what an earlier use left,
  here the argument \<open>junk\<close>.
\<close>

definition ob_index_alloc_slice_ex :: "fc_env \<Rightarrow> OBSliceEntry \<Rightarrow> FSBlockKey \<Rightarrow> int \<Rightarrow> ob_index \<Rightarrow>
    OBSliceEntry option \<times> ob_index" where
  "ob_index_alloc_slice_ex E junk bkey init_refer st =
     (case get_ob_entry_ex E bkey True st of
        (None, _, st1) \<Rightarrow> (None, st1)
      | (Some ob, _, st1) \<Rightarrow>
          (case heap_alloc E (ix_heap st1) of
             (None, h) \<Rightarrow> (None, st1\<lparr>ix_heap := h\<rparr>)
           | (Some p, h) \<Rightarrow>
               (Some (junk\<lparr>sl_ptr := p, sl_ob := ob_ptr ob\<rparr>),
                st1\<lparr>ix_heap := (if init_refer > 0 then slice_add_ref p init_refer h else h)\<rparr>)))"

section \<open>Waiting for a reclaim\<close>

fun wait_reclaim_done :: "(ob_index \<Rightarrow> ob_index) list \<Rightarrow> nat \<Rightarrow> ob_index \<Rightarrow> (int \<times> ob_index) option" where
  "wait_reclaim_done sched p st =
     (case ob_deref st p of
        None \<Rightarrow> Some (FAULT, st)
      | Some ob \<Rightarrow>
          if ob_reclaiming_count ob > 0 then
            (case sched of [] \<Rightarrow> None | f # fs \<Rightarrow> wait_reclaim_done fs p (f st))
          else Some (0, st))"

declare wait_reclaim_done.simps [simp del]

definition CHECK_AND_WAIT_RECLAIM_DONE :: "bool \<Rightarrow> (ob_index \<Rightarrow> ob_index) list \<Rightarrow> nat \<Rightarrow> ob_index \<Rightarrow>
    (int \<times> ob_index) option" where
  "CHECK_AND_WAIT_RECLAIM_DONE is_reclaim sched p st =
     (if is_reclaim then Some (0, st) else wait_reclaim_done sched p st)"

section \<open>Operations on a block of the table\<close>

definition block_in :: "ob_index \<Rightarrow> OBEntry \<Rightarrow> block_state" where
  "block_in st ob = \<lparr>bst_slices = ob_slices ob, bst_heap = ix_heap st, bst_mgr = ix_mgr st\<rparr>"

definition put_block :: "nat \<Rightarrow> block_state \<Rightarrow> ob_index \<Rightarrow> ob_index" where
  "put_block p bs st = (upd_entry p (\<lambda>ob. ob\<lparr>ob_slices := bst_slices bs\<rparr>) st)
     \<lparr>ix_heap := bst_heap bs, ix_mgr := bst_mgr bs\<rparr>"

text \<open>\<open>*sn = __sync_add_and_fetch(&SLICE_BINLOG_SN, 1)\<close> when the caller asks for a serial number.\<close>

definition next_sn :: "bool \<Rightarrow> ob_index \<Rightarrow> int option \<times> ob_index" where
  "next_sn want st = (if want then (Some (u64 (ix_sn st + 1)), st\<lparr>ix_sn := u64 (ix_sn st + 1)\<rparr>)
                      else (None, st))"

text \<open>The results are the status, the serial number given, the byte count and the new state.\<close>

definition ob_index_add_slice_ex :: "fc_env \<Rightarrow> (ob_index \<Rightarrow> ob_index) list \<Rightarrow> OBSliceEntry \<Rightarrow> bool \<Rightarrow>
    bool \<Rightarrow> ob_index \<Rightarrow> (int \<times> int option \<times> int \<times> ob_index) option" where
  "ob_index_add_slice_ex E sched slice want_sn is_reclaim st =
     (if ob_deref st (sl_ob slice) = None then Some (FAULT, None, 0, st)
      else
        (case CHECK_AND_WAIT_RECLAIM_DONE is_reclaim sched (sl_ob slice) st of
           None \<Rightarrow> None
         | Some (_, st1) \<Rightarrow>
             (case ob_deref st1 (sl_ob slice) of
                None \<Rightarrow> Some (FAULT, None, 0, st1)
              | Some ob \<Rightarrow>
                  (case add_slice E (ix_ht st1) slice (block_in st1 ob) of (result, inc_alloc, bs) \<Rightarrow>
                     (let st2 = put_block (sl_ob slice) bs st1
                      in if result \<noteq> 0 then Some (result, None, inc_alloc, st2)
                         else
                           (case next_sn want_sn (st2\<lparr>ix_heap := slice_add_ref (sl_ptr slice) 1 (ix_heap st2)\<rparr>) of
                              (sn, st3) \<Rightarrow> Some (0, sn, inc_alloc, st3)))))))"

definition ob_index_add_slice_by_binlog :: "fc_env \<Rightarrow> OBSliceEntry \<Rightarrow> ob_index \<Rightarrow> int \<times> ob_index" where
  "ob_index_add_slice_by_binlog E slice st =
     (case ob_deref st (sl_ob slice) of
        None \<Rightarrow> (FAULT, st)
      | Some ob \<Rightarrow>
          (case add_slice E (ix_ht st) slice (block_in st ob) of (result, inc_alloc, bs) \<Rightarrow>
             (result, put_block (sl_ob slice) bs st)))"

text \<open>
  Unlinking an entry with the predecessor found earlier. The list operations say what the
  pointer assignments do even when the chain has changed since: what lies between the
  predecessor (or the head) and the entry is no longer linked.
\<close>

definition after_entry :: "nat \<Rightarrow> OBEntry list \<Rightarrow> OBEntry list" where
  "after_entry p chain = tl (dropWhile (\<lambda>ob. ob_ptr ob \<noteq> p) chain)"

definition upto_entry :: "nat \<Rightarrow> OBEntry list \<Rightarrow> OBEntry list" where
  "upto_entry p chain = takeWhile (\<lambda>ob. ob_ptr ob \<noteq> p) chain @
     take 1 (dropWhile (\<lambda>ob. ob_ptr ob \<noteq> p) chain)"

definition OB_INDEX_DELETE_OB_ENTRY :: "OBEntry \<Rightarrow> nat option \<Rightarrow> ob_index \<Rightarrow> int \<times> ob_index" where
  "OB_INDEX_DELETE_OB_ENTRY ob previous st =
     (let i = bucket_index (ix_ht st) (ob_bkey ob);
          chain = ht_buckets (ix_ht st) ! i;
          st1 = st\<lparr>ix_heap := fold slice_free_func (ob_slices ob) (ix_heap st)\<rparr>
      in case previous of
           None \<Rightarrow> (0, set_bucket i (after_entry (ob_ptr ob) chain) st1)
         | Some q \<Rightarrow>
             if ob_deref st q = None then (FAULT, st1)
             else (0, set_bucket i (upto_entry q chain @ after_entry (ob_ptr ob) chain) st1))"

definition ob_index_delete_slices_ex :: "fc_env \<Rightarrow> (ob_index \<Rightarrow> ob_index) list \<Rightarrow> FSBlockSliceKeyInfo \<Rightarrow>
    bool \<Rightarrow> bool \<Rightarrow> ob_index \<Rightarrow> (int \<times> int option \<times> int \<times> ob_index) option" where
  "ob_index_delete_slices_ex E sched bs_key want_sn is_reclaim st =
     (case get_ob_entry_ex E (bs_block bs_key) False st of
        (None, _, _) \<Rightarrow> Some (ENOENT, None, 0, st)
      | (Some ob0, previous, _) \<Rightarrow>
          (case CHECK_AND_WAIT_RECLAIM_DONE is_reclaim sched (ob_ptr ob0) st of
             None \<Rightarrow> None
           | Some (_, st1) \<Rightarrow>
               (case ob_deref st1 (ob_ptr ob0) of
                  None \<Rightarrow> Some (FAULT, None, 0, st1)
                | Some ob \<Rightarrow>
                    (case delete_slices E (ix_ht st1) (bs_slice bs_key) (block_in st1 ob) of
                       (result, cnt, dec_alloc, bs) \<Rightarrow>
                         (let st2 = put_block (ob_ptr ob) bs st1
                          in if result \<noteq> 0 then Some (result, None, dec_alloc, st2)
                             else
                               (case (if bst_slices bs = []
                                      then OB_INDEX_DELETE_OB_ENTRY (ob\<lparr>ob_slices := []\<rparr>) previous st2
                                      else (0, st2)) of
                                  (r, st3) \<Rightarrow>
                                    if r \<noteq> 0 then Some (r, None, dec_alloc, st3)
                                    else (case next_sn want_sn st3 of
                                            (sn, st4) \<Rightarrow> Some (0, sn, dec_alloc, st4))))))))"

fun delete_block_slices :: "fc_env \<Rightarrow> OBHashtable \<Rightarrow> OBSliceEntry list \<Rightarrow>
    int \<times> FSStorageAllocatorManager \<Rightarrow> int \<times> FSStorageAllocatorManager" where
  "delete_block_slices E ht [] (dec_alloc, m) = (dec_alloc, m)"
| "delete_block_slices E ht (slice # rest) (dec_alloc, m) =
     delete_block_slices E ht rest
       (dec_alloc + sl_length slice,
        if ht_modify_sallocator ht
        then snd (storage_allocator_delete_slice E slice (ht_modify_used_space ht) m) else m)"

definition ob_index_delete_block_ex :: "fc_env \<Rightarrow> (ob_index \<Rightarrow> ob_index) list \<Rightarrow> FSBlockKey \<Rightarrow>
    bool \<Rightarrow> bool \<Rightarrow> ob_index \<Rightarrow> (int \<times> int option \<times> int \<times> ob_index) option" where
  "ob_index_delete_block_ex E sched bkey want_sn is_reclaim st =
     (case get_ob_entry_ex E bkey False st of
        (None, _, _) \<Rightarrow> Some (ENOENT, None, 0, st)
      | (Some ob0, previous, _) \<Rightarrow>
          (case CHECK_AND_WAIT_RECLAIM_DONE is_reclaim sched (ob_ptr ob0) st of
             None \<Rightarrow> None
           | Some (_, st1) \<Rightarrow>
               (case ob_deref st1 (ob_ptr ob0) of
                  None \<Rightarrow> Some (FAULT, None, 0, st1)
                | Some ob \<Rightarrow>
                    (case delete_block_slices E (ix_ht st1) (ob_slices ob) (0, ix_mgr st1) of
                       (dec_alloc, m) \<Rightarrow>
                         (case OB_INDEX_DELETE_OB_ENTRY ob previous (st1\<lparr>ix_mgr := m\<rparr>) of
                            (r, st2) \<Rightarrow>
                              if r \<noteq> 0 then Some (r, None, dec_alloc, st2)
                              else if dec_alloc > 0 then
                                (case next_sn want_sn st2 of (sn, st3) \<Rightarrow> Some (0, sn, dec_alloc, st3))
                              else Some (ENOENT, None, dec_alloc, st2))))))"

definition ob_index_get_slices_ex :: "fc_env \<Rightarrow> (ob_index \<Rightarrow> ob_index) list \<Rightarrow> FSBlockSliceKeyInfo \<Rightarrow>
    OBSlicePtrArray \<Rightarrow> bool \<Rightarrow> ob_index \<Rightarrow> (int \<times> OBSlicePtrArray \<times> ob_index) option" where
  "ob_index_get_slices_ex E sched bs_key sarray0 is_reclaim st =
     (let sarray = sarray0\<lparr>pa_slices := []\<rparr>
      in case get_ob_entry E (bs_block bs_key) st of
           None \<Rightarrow> Some (ENOENT, sarray, st)
         | Some ob0 \<Rightarrow>
             (case CHECK_AND_WAIT_RECLAIM_DONE is_reclaim sched (ob_ptr ob0) st of
                None \<Rightarrow> None
              | Some (_, st1) \<Rightarrow>
                  (case ob_deref st1 (ob_ptr ob0) of
                     None \<Rightarrow> Some (FAULT, sarray, st1)
                   | Some ob \<Rightarrow>
                       (case get_slices E (ob_slices ob) (bs_slice bs_key) (sarray, ix_heap st1) of
                          (result, ah) \<Rightarrow>
                            (case (if result \<noteq> 0 \<and> pa_slices (fst ah) \<noteq> [] then free_slices ah else ah) of
                               (arr, h) \<Rightarrow> Some (result, arr, st1\<lparr>ix_heap := h\<rparr>))))))"

section \<open>Creating and destroying a table\<close>

definition ob_index_init_htable_ex :: "fc_env \<Rightarrow> int \<Rightarrow> slice_heap \<Rightarrow> int \<times> OBHashtable option \<times> slice_heap" where
  "ob_index_init_htable_ex E capacity h =
     (let cap = env_ceil_prime E capacity
      in case heap_malloc E (SIZEOF_PTR * cap) h of (ok, h1) \<Rightarrow>
           if \<not> ok then (ENOMEM, None, h1)
           else (0, Some \<lparr>ht_capacity = cap, ht_buckets = replicate (nat cap) [],
                          ht_modify_sallocator = False, ht_modify_used_space = False\<rparr>, h1))"

fun destroy_bucket :: "OBEntry list \<Rightarrow> slice_heap \<Rightarrow> slice_heap" where
  "destroy_bucket [] h = h"
| "destroy_bucket (ob # rest) h = destroy_bucket rest (fold slice_free_func (ob_slices ob) h)"

definition ob_index_destroy_htable :: "ob_index \<Rightarrow> ob_index" where
  "ob_index_destroy_htable st =
     st\<lparr>ix_heap := fold destroy_bucket (ht_buckets (ix_ht st)) (ix_heap st),
        ix_ht := (ix_ht st)\<lparr>ht_buckets := []\<rparr>\<rparr>"

section \<open>Booking all slices on their trunks\<close>

definition compare_slice_by_trunk_id :: "fc_env \<Rightarrow> OBSliceEntry \<Rightarrow> OBSliceEntry \<Rightarrow> int" where
  "compare_slice_by_trunk_id E slice1 slice2 =
     (let sub = int (ts_store (sl_space slice1)) - int (ts_store (sl_space slice2))
      in if sub \<noteq> 0 then sub
         else env_compare_int64 E (ti_id (ts_id_info (sl_space slice1))) (ti_id (ts_id_info (sl_space slice2))))"

text \<open>
  The loop of \<open>add_slices_to_trunk\<close>: \<open>run\<close> holds the slices from \<open>first\<close> on that lie in the
  same trunk, and is booked when the next slice lies in another one.
\<close>

fun add_slices_runs :: "fc_env \<Rightarrow> OBSliceEntry list \<Rightarrow> OBSliceEntry list \<Rightarrow> FSStorageAllocatorManager \<Rightarrow>
    int \<times> FSStorageAllocatorManager" where
  "add_slices_runs E run [] m = trunk_allocator_batch_add_slices E run m"
| "add_slices_runs E run (slice # rest) m =
     (if run \<noteq> [] \<and> compare_slice_by_trunk_id E slice (hd run) \<noteq> 0 then
        then_ok (trunk_allocator_batch_add_slices E run m) (add_slices_runs E [slice] rest)
      else add_slices_runs E (run @ [slice]) rest m)"

definition add_slices_to_trunk :: "fc_env \<Rightarrow> OBSliceEntry list \<Rightarrow> FSStorageAllocatorManager \<Rightarrow>
    int \<times> FSStorageAllocatorManager" where
  "add_slices_to_trunk E slices m =
     add_slices_runs E [] (env_qsort E (compare_slice_by_trunk_id E) slices) m"

definition init_slice_ptr_array :: "fc_env \<Rightarrow> int \<Rightarrow> slice_heap \<Rightarrow> int \<times> OBSlicePtrArray \<times> slice_heap" where
  "init_slice_ptr_array E alloc h =
     (case heap_malloc E (SIZEOF_PTR * alloc) h of (ok, h1) \<Rightarrow>
        if \<not> ok then (ENOMEM, \<lparr>pa_alloc = 0, pa_slices = []\<rparr>, h1)
        else (0, \<lparr>pa_alloc = alloc, pa_slices = []\<rparr>, h1))"

definition realloc_slice_ptr_array :: "fc_env \<Rightarrow> OBSlicePtrArray \<times> slice_heap \<Rightarrow>
    int \<times> OBSlicePtrArray \<times> slice_heap" where
  "realloc_slice_ptr_array E = (\<lambda>(sarray, h).
     let new_alloc = pa_alloc sarray * 2
     in case heap_malloc E (SIZEOF_PTR * new_alloc) h of (ok, h1) \<Rightarrow>
          if \<not> ok then (ENOMEM, sarray, h1) else (0, sarray\<lparr>pa_alloc := new_alloc\<rparr>, h1))"

fun dump_collect :: "fc_env \<Rightarrow> OBSliceEntry list \<Rightarrow> OBSlicePtrArray \<times> slice_heap \<Rightarrow>
    int \<times> OBSlicePtrArray \<times> slice_heap" where
  "dump_collect E [] ah = (0, ah)"
| "dump_collect E (slice # rest) ah =
     then_ok (if int (length (pa_slices (fst ah))) = pa_alloc (fst ah)
              then realloc_slice_ptr_array E ah else (0, ah)) (\<lambda>(sarray, h).
       dump_collect E rest (sarray\<lparr>pa_slices := pa_slices sarray @ [slice]\<rparr>, h))"

definition ob_index_dump_slices_to_trunk_ex :: "fc_env \<Rightarrow> nat \<Rightarrow> nat \<Rightarrow> ob_index \<Rightarrow> int \<times> int \<times> ob_index" where
  "ob_index_dump_slices_to_trunk_ex E start_index end_index st =
     (case init_slice_ptr_array E (128 * 1024) (ix_heap st) of (result, ah) \<Rightarrow>
        if result \<noteq> 0 then (result, 0, st\<lparr>ix_heap := snd ah\<rparr>)
        else
          (case dump_collect E (concat (map ob_slices (concat (drop start_index
                  (take end_index (ht_buckets (ix_ht st))))))) ah of (result, sarray, h) \<Rightarrow>
             if result \<noteq> 0 then (result, 0, st\<lparr>ix_heap := h\<rparr>)
             else if pa_slices sarray \<noteq> [] then
               (case add_slices_to_trunk E (pa_slices sarray) (ix_mgr st) of (result, m) \<Rightarrow>
                  (result, int (length (pa_slices sarray)), st\<lparr>ix_heap := h, ix_mgr := m\<rparr>))
             else (0, 0, st\<lparr>ix_heap := h\<rparr>)))"

end
