(* ===== verification/Block_Table_Facts.thy ===== *)
theory Block_Table_Facts
  imports Block_Table
begin

text \<open>
  The invariant of the hash table and the abstract view of it: a partial map from block ids to
  entries (\<open>tab\<close>), and from there to the bytes of all blocks (\<open>byte_map\<close>).
\<close>

section \<open>Invariant and abstraction\<close>

definition key_ok :: "FSBlockKey \<Rightarrow> bool" where
  "key_ok k \<longleftrightarrow> fs_calc_block_hashcode k = k"

definition block_id :: "FSBlockKey \<Rightarrow> int \<times> int" where
  "block_id k = (bk_oid k, bk_offset k)"

definition bucket_ok :: "fc_env \<Rightarrow> OBHashtable \<Rightarrow> nat \<Rightarrow> OBEntry list \<Rightarrow> bool" where
  "bucket_ok E ht i chain \<longleftrightarrow>
     sorted_wrt (\<lambda>a b. ob_index_compare_block_key E (ob_bkey a) (ob_bkey b) < 0) chain \<and>
     (\<forall>ob\<in>set chain. key_ok (ob_bkey ob) \<and> bucket_index ht (ob_bkey ob) = i \<and> block_ok (ob_slices ob))"

definition table_ok :: "fc_env \<Rightarrow> ob_index \<Rightarrow> bool" where
  "table_ok E st \<longleftrightarrow> 0 < ht_capacity (ix_ht st) \<and>
     length (ht_buckets (ix_ht st)) = nat (ht_capacity (ix_ht st)) \<and>
     (\<forall>i<length (ht_buckets (ix_ht st)). bucket_ok E (ix_ht st) i (ht_buckets (ix_ht st) ! i)) \<and>
     distinct (map ob_ptr (entries st))"

definition tab :: "ob_index \<Rightarrow> int \<times> int \<Rightarrow> OBEntry option" where
  "tab st b = find (\<lambda>ob. block_id (ob_bkey ob) = b) (entries st)"

definition byte_map :: "ob_index \<Rightarrow> int \<times> int \<Rightarrow> int \<Rightarrow> (OBSliceType \<times> nat \<times> FSTrunkIdInfo \<times> int) option" where
  "byte_map st b = (case tab st b of None \<Rightarrow> (\<lambda>_. None) | Some ob \<Rightarrow> block_map (ob_slices ob))"

section \<open>Keys\<close>

lemma key_eqI:
  assumes "key_ok k1" "key_ok k2" "block_id k1 = block_id k2"
  shows "k1 = k2"
proof -
  have "bk_hash_code k = u64 (bk_oid k + bk_offset k + bk_offset k div FS_FILE_BLOCK_SIZE)" if "key_ok k" for k
    using arg_cong [OF that [unfolded key_ok_def], of bk_hash_code] by (simp add: fs_calc_block_hashcode_def)
  from this [OF assms(1)] this [OF assms(2)] assms(3) have "bk_hash_code k1 = bk_hash_code k2"
    by (simp add: block_id_def)
  with assms(3) show ?thesis by (simp add: block_id_def)
qed

lemma bucket_index_less: "0 < ht_capacity ht \<Longrightarrow> bucket_index ht k < nat (ht_capacity ht)"
  by (simp add: bucket_index_def nat_less_iff)

context fastcommon
begin

lemma compare_key_zero: "ob_index_compare_block_key E a b = 0 \<longleftrightarrow> block_id a = block_id b"
  by (auto simp: ob_index_compare_block_key_def compare_int64_zero block_id_def Let_def)

lemma compare_key_less:
  "ob_index_compare_block_key E a b < 0 \<longleftrightarrow> bk_oid a < bk_oid b \<or> (bk_oid a = bk_oid b \<and> bk_offset a < bk_offset b)"
  using compare_int64_zero [of "bk_oid a" "bk_oid b"]
  by (auto simp: ob_index_compare_block_key_def compare_int64_neg Let_def)

lemma compare_key_flip: "0 < ob_index_compare_block_key E a b \<longleftrightarrow> ob_index_compare_block_key E b a < 0"
proof -
  have "0 < ob_index_compare_block_key E a b \<longleftrightarrow>
      \<not> ob_index_compare_block_key E a b < 0 \<and> \<not> ob_index_compare_block_key E a b = 0" by linarith
  also have "\<dots> \<longleftrightarrow> ob_index_compare_block_key E b a < 0"
    unfolding compare_key_less compare_key_zero block_id_def by auto
  finally show ?thesis .
qed

lemma compare_key_trans:
  "ob_index_compare_block_key E a b < 0 \<Longrightarrow> ob_index_compare_block_key E b c < 0 \<Longrightarrow>
   ob_index_compare_block_key E a c < 0"
  by (auto simp: compare_key_less)

section \<open>The walk along a bucket\<close>

lemma chain_walk_split:
  assumes "chain_walk E k chain = (pre, hit, post)"
    "sorted_wrt (\<lambda>a b. ob_index_compare_block_key E (ob_bkey a) (ob_bkey b) < 0) chain"
  shows "chain = pre @ (case hit of None \<Rightarrow> [] | Some ob \<Rightarrow> [ob]) @ post"
    "\<forall>ob\<in>set pre. ob_index_compare_block_key E (ob_bkey ob) k < 0"
    "\<forall>ob\<in>set post. ob_index_compare_block_key E k (ob_bkey ob) < 0"
    "hit = Some ob \<Longrightarrow> block_id (ob_bkey ob) = block_id k"
  using assms
proof (induction chain arbitrary: pre)
  case (Cons ob' rest)
  let ?c = "ob_index_compare_block_key E k (ob_bkey ob')"
  {
    case 1
    with Cons.IH(1) show ?case by (auto simp: Let_def split: if_splits prod.splits)
  next
    case 2
    moreover have "ob_index_compare_block_key E (ob_bkey ob') k < 0" if "\<not> ?c = 0" "\<not> ?c < 0"
      using that compare_key_flip [of k "ob_bkey ob'"] by linarith
    ultimately show ?case using Cons.IH(2) by (auto simp: Let_def split: if_splits prod.splits)
  next
    case 3
    have "ob_index_compare_block_key E k (ob_bkey x) < 0" if "?c = 0 \<or> ?c < 0" "x \<in> set rest" for x
    proof -
      have x: "ob_index_compare_block_key E (ob_bkey ob') (ob_bkey x) < 0" using 3(2) that(2) by simp
      show ?thesis
      proof (cases "?c = 0")
        case True
        with x show ?thesis by (auto simp: compare_key_zero compare_key_less block_id_def)
      next
        case False
        with that x compare_key_trans show ?thesis by blast
      qed
    qed
    with 3 Cons.IH(3) show ?case by (auto simp: Let_def split: if_splits prod.splits)
  next
    case 4
    with Cons.IH(4) show ?case
      by (auto simp: Let_def compare_key_zero split: if_splits prod.splits)
  }
qed auto

end

section \<open>Entries\<close>

lemma entries_set: "set (entries st) = (\<Union>i<length (ht_buckets (ix_ht st)). set (ht_buckets (ix_ht st) ! i))"
  by (force simp: entries_def set_conv_nth [of "ht_buckets _"])

lemma concat_update_mset:
  "i < length bs \<Longrightarrow> mset (concat (bs[i := c])) + mset (bs ! i) = mset (concat bs) + mset c"
  by (induction bs arbitrary: i) (auto split: nat.splits)

lemma distinct_map_mset: "mset xs = mset ys \<Longrightarrow> distinct (map f xs) = distinct (map f ys)"
  by (metis mset_eq_imp_distinct_iff mset_map)

context fastcommon
begin

lemma table_entry:
  assumes "table_ok E st" "ob \<in> set (entries st)"
  shows "key_ok (ob_bkey ob)" "block_ok (ob_slices ob)"
    "ob \<in> set (bucket_at st (ob_bkey ob))" "bucket_index (ix_ht st) (ob_bkey ob) < length (ht_buckets (ix_ht st))"
proof -
  from assms(2) obtain i where i: "i < length (ht_buckets (ix_ht st))" "ob \<in> set (ht_buckets (ix_ht st) ! i)"
    by (auto simp: entries_set)
  with assms(1) have "bucket_ok E (ix_ht st) i (ht_buckets (ix_ht st) ! i)" by (simp add: table_ok_def)
  with i show "key_ok (ob_bkey ob)" "block_ok (ob_slices ob)" "ob \<in> set (bucket_at st (ob_bkey ob))"
    "bucket_index (ix_ht st) (ob_bkey ob) < length (ht_buckets (ix_ht st))"
    by (auto simp: bucket_ok_def bucket_at_def)
qed

lemma bucket_at_ok:
  assumes "table_ok E st"
  shows "bucket_index (ix_ht st) k < length (ht_buckets (ix_ht st))"
    "bucket_ok E (ix_ht st) (bucket_index (ix_ht st) k) (bucket_at st k)"
    "set (bucket_at st k) \<subseteq> set (entries st)"
proof -
  show i: "bucket_index (ix_ht st) k < length (ht_buckets (ix_ht st))"
    using assms bucket_index_less [of "ix_ht st" k] by (simp add: table_ok_def)
  then show "bucket_ok E (ix_ht st) (bucket_index (ix_ht st) k) (bucket_at st k)"
    "set (bucket_at st k) \<subseteq> set (entries st)"
    using assms by (auto simp: table_ok_def bucket_at_def entries_set)
qed

lemma table_unique:
  assumes ok: "table_ok E st" and a: "a \<in> set (entries st)" and b: "b \<in> set (entries st)"
    and id: "block_id (ob_bkey a) = block_id (ob_bkey b)"
  shows "a = b"
proof -
  have k: "ob_bkey a = ob_bkey b"
    by (rule key_eqI [OF table_entry(1) [OF ok a] table_entry(1) [OF ok b] id])
  have ab: "a \<in> set (bucket_at st (ob_bkey a))" "b \<in> set (bucket_at st (ob_bkey a))"
    using table_entry(3) [OF ok a] table_entry(3) [OF ok b] k by simp_all
  have "sorted_wrt (\<lambda>a b. ob_index_compare_block_key E (ob_bkey a) (ob_bkey b) < 0) (bucket_at st (ob_bkey a))"
    using bucket_at_ok(2) [OF ok] by (simp add: bucket_ok_def)
  moreover have "\<not> ob_index_compare_block_key E (ob_bkey a) (ob_bkey b) < 0"
    "\<not> ob_index_compare_block_key E (ob_bkey b) (ob_bkey a) < 0"
    using k compare_key_zero [of "ob_bkey a" "ob_bkey a"] by simp_all
  ultimately show ?thesis using sorted_wrt_pick [OF _ ab] by blast
qed

lemma tab_Some:
  assumes "table_ok E st"
  shows "tab st b = Some ob \<longleftrightarrow> ob \<in> set (entries st) \<and> block_id (ob_bkey ob) = b"
  unfolding tab_def by (rule find_Some_unique) (use table_unique [OF assms] in blast)

lemma tab_None: "tab st b = None \<longleftrightarrow> (\<forall>ob\<in>set (entries st). block_id (ob_bkey ob) \<noteq> b)"
  by (auto simp: tab_def find_None_iff)

lemma deref_Some:
  assumes "table_ok E st"
  shows "ob_deref st p = Some ob \<longleftrightarrow> ob \<in> set (entries st) \<and> ob_ptr ob = p"
  unfolding ob_deref_def
proof (rule find_Some_unique)
  have "inj_on ob_ptr (set (entries st))" using assms by (simp add: table_ok_def distinct_map)
  then show "y = z" if "y \<in> set (entries st)" "z \<in> set (entries st)" "ob_ptr y = p" "ob_ptr z = p" for y z
    using that by (simp add: inj_on_def)
qed

lemma deref_None: "ob_deref st p = None \<longleftrightarrow> (\<forall>ob\<in>set (entries st). ob_ptr ob \<noteq> p)"
  by (auto simp: ob_deref_def find_None_iff)

lemma walk_bucket:
  assumes ok: "table_ok E st" and k: "key_ok k"
    and w: "chain_walk E k (bucket_at st k) = (pre, hit, post)"
  shows "hit = tab st (block_id k)"
    "bucket_at st k = pre @ (case hit of None \<Rightarrow> [] | Some ob \<Rightarrow> [ob]) @ post"
proof -
  have srt: "sorted_wrt (\<lambda>a b. ob_index_compare_block_key E (ob_bkey a) (ob_bkey b) < 0) (bucket_at st k)"
    using bucket_at_ok(2) [OF ok] by (simp add: bucket_ok_def)
  note sp = chain_walk_split [OF w srt]
  show "bucket_at st k = pre @ (case hit of None \<Rightarrow> [] | Some ob \<Rightarrow> [ob]) @ post" by (rule sp(1))
  show "hit = tab st (block_id k)"
  proof (cases hit)
    case (Some ob)
    then have "ob \<in> set (bucket_at st k)" using sp(1) by simp
    then show ?thesis
      using Some sp(4) [OF Some] bucket_at_ok(3) [OF ok] tab_Some [OF ok, of "block_id k" ob] by auto
  next
    case None
    have "block_id (ob_bkey ob) \<noteq> block_id k" if ob: "ob \<in> set (entries st)" for ob
    proof
      assume id: "block_id (ob_bkey ob) = block_id k"
      from key_eqI [OF table_entry(1) [OF ok ob] k id] have "ob \<in> set (bucket_at st k)"
        using table_entry(3) [OF ok ob] by simp
      with None sp(1) have "ob \<in> set pre \<or> ob \<in> set post" by auto
      with sp(2,3) id show False using compare_key_zero by (metis less_irrefl)
    qed
    then have "tab st (block_id k) = None" by (simp add: tab_None)
    with None show ?thesis by simp
  qed
qed

lemma get_ob_entry_tab:
  assumes "table_ok E st" "key_ok k"
  shows "get_ob_entry E k st = tab st (block_id k)" "snd (snd (get_ob_entry_ex E k False st)) = st"
  using walk_bucket [OF assms]
  by (auto simp: get_ob_entry_ex_def split: prod.splits option.splits)

lemma get_ob_entry_found:
  assumes "table_ok E st" "key_ok k" "tab st (block_id k) = Some ob"
  obtains pre post where "get_ob_entry_ex E k False st = (Some ob, pprev_of pre, st)"
    "bucket_at st k = pre @ [ob] @ post"
proof -
  obtain pre hit post where w: "chain_walk E k (bucket_at st k) = (pre, hit, post)" by (metis prod_cases3)
  from walk_bucket [OF assms(1,2) w] assms(3) w that [of pre post] show thesis
    by (simp add: get_ob_entry_ex_def)
qed

lemma get_ob_entry_none:
  assumes "table_ok E st" "key_ok k" "tab st (block_id k) = None"
  shows "fst (get_ob_entry_ex E k False st) = None"
  using get_ob_entry_tab(1) [OF assms(1,2)] assms(3) by simp

section \<open>Changing one entry\<close>

definition same_entry :: "(OBEntry \<Rightarrow> OBEntry) \<Rightarrow> bool" where
  "same_entry f \<longleftrightarrow> (\<forall>ob. ob_ptr (f ob) = ob_ptr ob \<and> ob_bkey (f ob) = ob_bkey ob)"

definition at_ptr :: "nat \<Rightarrow> (OBEntry \<Rightarrow> OBEntry) \<Rightarrow> OBEntry \<Rightarrow> OBEntry" where
  "at_ptr p f ob = (if ob_ptr ob = p then f ob else ob)"

lemma at_ptr_same: "same_entry f \<Longrightarrow> ob_ptr (at_ptr p f ob) = ob_ptr ob \<and> ob_bkey (at_ptr p f ob) = ob_bkey ob"
  by (simp add: at_ptr_def same_entry_def)

lemma upd_entry_buckets:
  "ht_buckets (ix_ht (upd_entry p f st)) = map (map (at_ptr p f)) (ht_buckets (ix_ht st))"
  by (simp add: upd_entry_def at_ptr_def [abs_def])

lemma upd_entry_frame [simp]:
  "ht_capacity (ix_ht (upd_entry p f st)) = ht_capacity (ix_ht st)"
  "ht_modify_sallocator (ix_ht (upd_entry p f st)) = ht_modify_sallocator (ix_ht st)"
  "ht_modify_used_space (ix_ht (upd_entry p f st)) = ht_modify_used_space (ix_ht st)"
  "ix_heap (upd_entry p f st) = ix_heap st" "ix_mgr (upd_entry p f st) = ix_mgr st"
  "ix_sn (upd_entry p f st) = ix_sn st" "ix_calls (upd_entry p f st) = ix_calls st"
  "bucket_index (ix_ht (upd_entry p f st)) = bucket_index (ix_ht st)"
  by (simp_all add: upd_entry_def bucket_index_def fun_eq_iff)

lemma upd_entry_entries: "entries (upd_entry p f st) = map (at_ptr p f) (entries st)"
  by (simp add: entries_def upd_entry_buckets map_concat)

lemma find_map_same: "(\<And>x. P (g x) = P x) \<Longrightarrow> find P (map g xs) = map_option g (find P xs)"
  by (induction xs) auto

lemma upd_entry_tab:
  assumes "same_entry f"
  shows "tab (upd_entry p f st) b = map_option (at_ptr p f) (tab st b)"
    "ob_deref (upd_entry p f st) q = map_option (at_ptr p f) (ob_deref st q)"
  unfolding tab_def ob_deref_def upd_entry_entries
  by (rule find_map_same, use at_ptr_same [OF assms] in simp)+

lemma upd_entry_ok:
  assumes ok: "table_ok E st" and f: "same_entry f"
    and blk: "\<And>ob. ob \<in> set (entries st) \<Longrightarrow> ob_ptr ob = p \<Longrightarrow> block_ok (ob_slices (f ob))"
  shows "table_ok E (upd_entry p f st)"
proof -
  have g: "ob_ptr (at_ptr p f ob) = ob_ptr ob" "ob_bkey (at_ptr p f ob) = ob_bkey ob" for ob
    using at_ptr_same [OF f] by auto
  have "bucket_ok E (ix_ht (upd_entry p f st)) i (map (at_ptr p f) (ht_buckets (ix_ht st) ! i))"
    if i: "i < length (ht_buckets (ix_ht st))" for i
  proof -
    have b: "bucket_ok E (ix_ht st) i (ht_buckets (ix_ht st) ! i)" using ok i by (simp add: table_ok_def)
    moreover have "ob \<in> set (ht_buckets (ix_ht st) ! i) \<Longrightarrow> block_ok (ob_slices (at_ptr p f ob))" for ob
      using b blk [of ob] i by (auto simp: at_ptr_def bucket_ok_def entries_set)
    ultimately show ?thesis by (auto simp: bucket_ok_def sorted_wrt_map g)
  qed
  moreover have "map ob_ptr (entries (upd_entry p f st)) = map ob_ptr (entries st)"
    by (simp add: upd_entry_entries g)
  ultimately show ?thesis using ok by (simp add: table_ok_def upd_entry_buckets)
qed

lemma put_block_ok:
  assumes ok: "table_ok E st" and d: "ob_deref st p = Some ob" and blk: "block_ok (bst_slices bs)"
  shows "table_ok E (put_block p bs st)"
    "tab (put_block p bs st) = (tab st)(block_id (ob_bkey ob) \<mapsto> ob\<lparr>ob_slices := bst_slices bs\<rparr>)"
    "ob_deref (put_block p bs st) p = Some (ob\<lparr>ob_slices := bst_slices bs\<rparr>)"
proof -
  let ?f = "\<lambda>ob. ob\<lparr>ob_slices := bst_slices bs\<rparr>"
  have f: "same_entry ?f" by (simp add: same_entry_def)
  have same: "table_ok E (put_block p bs st) = table_ok E (upd_entry p ?f st)"
    "tab (put_block p bs st) = tab (upd_entry p ?f st)" "ob_deref (put_block p bs st) = ob_deref (upd_entry p ?f st)"
    by (simp_all add: put_block_def table_ok_def tab_def [abs_def] ob_deref_def [abs_def] entries_def)
  show "table_ok E (put_block p bs st)" using upd_entry_ok [OF ok f] blk same by simp
  have e: "ob \<in> set (entries st)" "ob_ptr ob = p" using d deref_Some [OF ok] by auto
  show "ob_deref (put_block p bs st) p = Some (ob\<lparr>ob_slices := bst_slices bs\<rparr>)"
    using d e same(3) by (simp add: upd_entry_tab [OF f] at_ptr_def)
  show "tab (put_block p bs st) = (tab st)(block_id (ob_bkey ob) \<mapsto> ?f ob)"
  proof
    fix b
    show "tab (put_block p bs st) b = ((tab st)(block_id (ob_bkey ob) \<mapsto> ?f ob)) b"
    proof (cases "b = block_id (ob_bkey ob)")
      case True
      then have "tab st b = Some ob" using e tab_Some [OF ok] by simp
      with True e same(2) show ?thesis by (simp add: upd_entry_tab [OF f] at_ptr_def)
    next
      case False
      have "map_option (at_ptr p ?f) (tab st b) = tab st b"
      proof (cases "tab st b")
        case (Some x)
        then have "x \<in> set (entries st)" "block_id (ob_bkey x) = b" using tab_Some [OF ok] by auto
        with False e ok have "ob_ptr x \<noteq> p" by (auto simp: table_ok_def distinct_map inj_on_def)
        with Some show ?thesis by (simp add: at_ptr_def)
      qed simp
      with False same(2) show ?thesis by (simp add: upd_entry_tab [OF f])
    qed
  qed
qed

section \<open>Linking and unlinking entries\<close>

lemma set_bucket_frame [simp]:
  "ht_capacity (ix_ht (set_bucket i c st)) = ht_capacity (ix_ht st)"
  "ht_buckets (ix_ht (set_bucket i c st)) = (ht_buckets (ix_ht st))[i := c]"
  "ht_modify_sallocator (ix_ht (set_bucket i c st)) = ht_modify_sallocator (ix_ht st)"
  "ht_modify_used_space (ix_ht (set_bucket i c st)) = ht_modify_used_space (ix_ht st)"
  "ix_heap (set_bucket i c st) = ix_heap st" "ix_mgr (set_bucket i c st) = ix_mgr st"
  "ix_sn (set_bucket i c st) = ix_sn st" "ix_calls (set_bucket i c st) = ix_calls st"
  "bucket_index (ix_ht (set_bucket i c st)) = bucket_index (ix_ht st)"
  by (simp_all add: set_bucket_def bucket_index_def fun_eq_iff)

lemma bucket_ok_ht:
  "ht_capacity ht = ht_capacity ht' \<Longrightarrow> bucket_ok E ht i c = bucket_ok E ht' i c"
  by (simp add: bucket_ok_def bucket_index_def)

lemma set_bucket_ok:
  assumes ok: "table_ok E st" and i: "i < length (ht_buckets (ix_ht st))"
    and c: "bucket_ok E (ix_ht st) i c" and d: "distinct (map ob_ptr (entries (set_bucket i c st)))"
  shows "table_ok E (set_bucket i c st)"
proof -
  have "bucket_ok E (ix_ht (set_bucket i c st)) j ((ht_buckets (ix_ht st))[i := c] ! j)"
    if "j < length (ht_buckets (ix_ht st))" for j
    using that ok c i bucket_ok_ht [of "ix_ht (set_bucket i c st)" "ix_ht st"]
    by (cases "j = i") (auto simp: table_ok_def)
  with ok d show ?thesis by (simp add: table_ok_def)
qed

lemma set_bucket_mset:
  assumes "i < length (ht_buckets (ix_ht st))"
  shows "mset (entries (set_bucket i c st)) + mset (ht_buckets (ix_ht st) ! i) = mset (entries st) + mset c"
  using concat_update_mset [OF assms] by (simp add: entries_def)

text \<open>A new entry is linked between the entries passed and the ones behind.\<close>

lemma insert_entry:
  assumes ok: "table_ok E st" and k: "key_ok k"
    and w: "chain_walk E k (bucket_at st k) = (pre, None, post)"
    and ob: "ob_bkey ob = k" "ob_slices ob = []" "\<forall>x\<in>set (entries st). ob_ptr x \<noteq> ob_ptr ob"
    and st': "st' = set_bucket (bucket_index (ix_ht st) k) (pre @ [ob] @ post) st"
  shows "table_ok E st'" "tab st' = (tab st)(block_id k \<mapsto> ob)" "tab st (block_id k) = None"
proof -
  let ?i = "bucket_index (ix_ht st) k"
  note b = bucket_at_ok [OF ok, of k] and wb = walk_bucket [OF ok k w]
  show none: "tab st (block_id k) = None" using wb(1) by simp
  have srt: "sorted_wrt (\<lambda>a b. ob_index_compare_block_key E (ob_bkey a) (ob_bkey b) < 0) (bucket_at st k)"
    using b(2) by (simp add: bucket_ok_def)
  note sp = chain_walk_split [OF w srt]
  have ms: "mset (entries st') = add_mset ob (mset (entries st))"
    using set_bucket_mset [OF b(1), of "pre @ [ob] @ post"] wb(2) st' by (simp add: bucket_at_def)
  then have es: "set (entries st') = insert ob (set (entries st))"
    by (metis set_mset_add_mset_insert set_mset_mset)
  have "mset (entries st') = mset (ob # entries st)" using ms by simp
  from distinct_map_mset [OF this, of ob_ptr] have "distinct (map ob_ptr (entries st'))"
    using ok ob(3) by (auto simp: table_ok_def)
  moreover have "bucket_ok E (ix_ht st) ?i (pre @ [ob] @ post)"
    using b(2) wb(2) sp(2,3) ob k by (auto simp: bucket_ok_def sorted_wrt_append)
  ultimately show ok': "table_ok E st'" unfolding st' by (intro set_bucket_ok [OF ok b(1)])
  show "tab st' = (tab st)(block_id k \<mapsto> ob)"
  proof
    fix x
    show "tab st' x = ((tab st)(block_id k \<mapsto> ob)) x"
    proof (cases "x = block_id k")
      case True
      then show ?thesis using tab_Some [OF ok', of x ob] es ob(1) by simp
    next
      case False
      then have "tab st' x = Some y \<longleftrightarrow> tab st x = Some y" for y
        using tab_Some [OF ok'] tab_Some [OF ok] es ob(1) by auto
      then have "tab st' x = tab st x" by (metis not_None_eq)
      with False show ?thesis by simp
    qed
  qed
qed

lemma unlink_lists:
  assumes "distinct (map ob_ptr (pre @ [ob] @ post))"
  shows "after_entry (ob_ptr ob) (pre @ [ob] @ post) = post"
    "pre \<noteq> [] \<Longrightarrow> upto_entry (ob_ptr (last pre)) (pre @ [ob] @ post) = pre"
proof -
  have "dropWhile (\<lambda>x. ob_ptr x \<noteq> ob_ptr ob) (pre @ [ob] @ post) = ob # post"
    using assms by (subst dropWhile_append2) (auto simp: image_iff)
  then show "after_entry (ob_ptr ob) (pre @ [ob] @ post) = post" by (simp add: after_entry_def)
  assume "pre \<noteq> []"
  then obtain pre' q where pre: "pre = pre' @ [q]" by (metis append_butlast_last_id)
  have "\<forall>x\<in>set pre'. ob_ptr x \<noteq> ob_ptr q" using assms pre by (auto simp: image_iff)
  then have "takeWhile (\<lambda>x. ob_ptr x \<noteq> ob_ptr q) (pre' @ q # ob # post) = pre'"
    "dropWhile (\<lambda>x. ob_ptr x \<noteq> ob_ptr q) (pre' @ q # ob # post) = q # ob # post"
    by (subst takeWhile_append2 dropWhile_append2, auto)+
  then show "upto_entry (ob_ptr (last pre)) (pre @ [ob] @ post) = pre"
    by (simp add: upto_entry_def pre)
qed

lemma delete_entry:
  assumes ok: "table_ok E st" and b: "bucket_at st (ob_bkey ob) = pre @ [ob] @ post"
    and run: "OB_INDEX_DELETE_OB_ENTRY ob (pprev_of pre) st = (r, st')"
  shows "r = 0" "table_ok E st'" "tab st' = (tab st)(block_id (ob_bkey ob) := None)"
    "ix_heap st' = fold slice_free_func (ob_slices ob) (ix_heap st)" "ix_mgr st' = ix_mgr st"
    "ix_sn st' = ix_sn st" "mset (entries st) = add_mset ob (mset (entries st'))"
    "ht_modify_sallocator (ix_ht st') = ht_modify_sallocator (ix_ht st)"
proof -
  let ?i = "bucket_index (ix_ht st) (ob_bkey ob)" and ?h = "fold slice_free_func (ob_slices ob) (ix_heap st)"
  note bk = bucket_at_ok [OF ok, of "ob_bkey ob"]
  have sub: "set (pre @ [ob] @ post) \<subseteq> set (entries st)" using bk(3) b by simp
  have d: "distinct (map ob_ptr (pre @ [ob] @ post))"
  proof -
    have "distinct (map ob_ptr (bucket_at st (ob_bkey ob)))"
      using ok bk(1) by (auto simp: table_ok_def entries_def map_concat bucket_at_def distinct_concat_iff)
    then show ?thesis by (simp add: b)
  qed
  have st': "r = 0 \<and> st' = set_bucket ?i (pre @ post) (st\<lparr>ix_heap := ?h\<rparr>)"
  proof (cases "pre = []")
    case True
    then show ?thesis
      using run b unlink_lists(1) [OF d] by (simp add: OB_INDEX_DELETE_OB_ENTRY_def pprev_of_def Let_def bucket_at_def)
  next
    case False
    then have "last pre \<in> set (entries st)" using sub by auto
    then have "ob_deref st (ob_ptr (last pre)) \<noteq> None" by (auto simp: deref_None)
    then show ?thesis
      using run b unlink_lists [OF d] False
      by (auto simp: OB_INDEX_DELETE_OB_ENTRY_def pprev_of_def Let_def bucket_at_def)
  qed
  then show "r = 0" "ix_heap st' = ?h" "ix_mgr st' = ix_mgr st" "ix_sn st' = ix_sn st"
    "ht_modify_sallocator (ix_ht st') = ht_modify_sallocator (ix_ht st)" by simp_all
  have "mset (entries st') + mset (pre @ [ob] @ post) = mset (entries st) + mset (pre @ post)"
    using set_bucket_mset [of ?i "st\<lparr>ix_heap := ?h\<rparr>" "pre @ post"] bk(1) b st'
    by (simp add: entries_def bucket_at_def)
  then show ms: "mset (entries st) = add_mset ob (mset (entries st'))" by simp
  then have m2: "mset (entries st) = mset (ob # entries st')" by simp
  then have es: "set (entries st) = insert ob (set (entries st'))"
    by (metis list.simps(15) mset_eq_setD)
  have dist: "distinct (map ob_ptr (ob # entries st'))"
    using distinct_map_mset [OF m2, of ob_ptr] ok by (simp add: table_ok_def)
  have "table_ok E (st\<lparr>ix_heap := ?h\<rparr>)" using ok by (simp add: table_ok_def entries_def)
  moreover have "bucket_ok E (ix_ht st) ?i (pre @ post)"
    using bk(2) b by (auto simp: bucket_ok_def sorted_wrt_append)
  ultimately show ok': "table_ok E st'"
    using st' bk(1) dist by (auto intro!: set_bucket_ok)
  have gone: "block_id (ob_bkey x) \<noteq> block_id (ob_bkey ob)" if "x \<in> set (entries st')" for x
    using table_unique [OF ok, of x ob] es that dist by auto
  show "tab st' = (tab st)(block_id (ob_bkey ob) := None)"
  proof
    fix x
    show "tab st' x = ((tab st)(block_id (ob_bkey ob) := None)) x"
    proof (cases "x = block_id (ob_bkey ob)")
      case True
      then show ?thesis using gone by (simp add: tab_None)
    next
      case False
      then have "tab st' x = Some y \<longleftrightarrow> tab st x = Some y" for y
        using tab_Some [OF ok'] tab_Some [OF ok] es by auto
      then have "tab st' x = tab st x" by (metis not_None_eq)
      with False show ?thesis by simp
    qed
  qed
qed

text \<open>A caller that need not wait goes on at once, whatever the other threads would do.\<close>

lemma no_wait:
  assumes "ob_deref st p = Some ob" "is_reclaim \<or> ob_reclaiming_count ob \<le> 0"
  shows "CHECK_AND_WAIT_RECLAIM_DONE is_reclaim sched p st = Some (0, st)"
  using assms by (auto simp: CHECK_AND_WAIT_RECLAIM_DONE_def wait_reclaim_done.simps [of sched])

end

end
