(* ===== verification/Block_Table_Theorems.thy ===== *)
theory Block_Table_Theorems
  imports Block_Table_Facts
begin

text \<open>
  The operations on the whole index keep its invariant (\<open>index_ok\<close>) and refine the obvious
  operations on the byte map.
\<close>

section \<open>The invariant of the index\<close>

definition all_slices :: "ob_index \<Rightarrow> OBSliceEntry list" where
  "all_slices st = concat (map ob_slices (entries st))"

text \<open>
  The table is well-formed; the slices of all blocks are at different addresses; the reference
  counts are exact, with \<open>X\<close> for the references held outside the index; and, once the index is
  connected to the allocators, the ledger of every trunk holds exactly the slices of the index
  that lie in it.
\<close>

definition index_ok :: "fc_env \<Rightarrow> (nat \<Rightarrow> int) \<Rightarrow> ob_index \<Rightarrow> bool" where
  "index_ok E X st \<longleftrightarrow> table_ok E st \<and> distinct (map sl_ptr (all_slices st)) \<and>
     heap_holds (ix_heap st) X (ptrs (all_slices st)) \<and>
     (ht_modify_sallocator (ix_ht st) \<longrightarrow> books_balanced E (ix_mgr st) (\<lambda>_. {#}) (all_slices st))"

lemma books_balanced_mset:
  assumes "mset xs = mset ys"
  shows "books_balanced E m R xs = books_balanced E m R ys"
  using assms mset_eq_setD [OF assms] by (simp add: books_balanced_def)

lemma books_balanced_focus:
  "books_balanced E m (\<lambda>_. {#}) (xs @ ys) \<longleftrightarrow>
   books_balanced E m (\<lambda>k. {#s \<in># mset ys. trunk_key s = k#}) xs \<and>
   (\<forall>s\<in>set ys. booked E m (trunk_key s) \<noteq> None)"
  by (auto simp: books_balanced_def add.commute)

lemma heap_holds_focus:
  assumes "P \<inter> Q = {}" "\<And>p. 0 \<le> X p"
  shows "heap_holds h X (P \<union> Q) \<longleftrightarrow> heap_holds h (\<lambda>p. X p + (if p \<in> Q then 1 else 0)) P"
  unfolding heap_holds_def
proof (rule all_cong1)
  fix p
  have "p \<notin> P \<or> p \<notin> Q" using assms(1) by blast
  then show "(0 \<le> X p \<and> sh_refs h p =
      (let c = X p + (if p \<in> P \<union> Q then 1 else 0) in if c = 0 then None else Some c)) =
    (0 \<le> X p + (if p \<in> Q then 1 else 0) \<and> sh_refs h p =
      (let c = X p + (if p \<in> Q then 1 else 0) + (if p \<in> P then 1 else 0) in if c = 0 then None else Some c))"
    using assms(2) [of p] by auto
qed

text \<open>Only the table matters for the table part of the invariant.\<close>

lemma same_table:
  assumes "ix_ht st' = ix_ht st"
  shows "entries st' = entries st" "table_ok E st' = table_ok E st" "tab st' = tab st"
    "ob_deref st' = ob_deref st" "all_slices st' = all_slices st" "byte_map st' = byte_map st"
    "bucket_at st' = bucket_at st"
proof -
  show e: "entries st' = entries st" by (simp add: entries_def assms)
  then show "table_ok E st' = table_ok E st" "tab st' = tab st" "ob_deref st' = ob_deref st"
    "all_slices st' = all_slices st" "bucket_at st' = bucket_at st"
    by (simp_all add: table_ok_def tab_def [abs_def] ob_deref_def [abs_def] all_slices_def assms bucket_at_def [abs_def])
  then show "byte_map st' = byte_map st" by (simp add: byte_map_def [abs_def])
qed

lemma next_sn_table:
  "next_sn w st = (sn, st') \<Longrightarrow> ix_ht st' = ix_ht st \<and> ix_heap st' = ix_heap st \<and> ix_mgr st' = ix_mgr st"
  by (auto simp: next_sn_def split: if_splits)

lemma next_sn_value:
  "next_sn w st = (sn, st') \<Longrightarrow> sn = (if w then Some (u64 (ix_sn st + 1)) else None) \<and>
   ix_sn st' = (if w then u64 (ix_sn st + 1) else ix_sn st)"
  by (auto simp: next_sn_def split: if_splits)

lemma byte_map_put:
  "tab st' = (tab st)(b \<mapsto> ob) \<Longrightarrow> byte_map st' = (byte_map st)(b := block_map (ob_slices ob))"
  by (intro ext) (simp add: byte_map_def)

lemma byte_map_drop:
  "tab st' = (tab st)(b := None) \<Longrightarrow> byte_map st' = (byte_map st)(b := (\<lambda>_. None))"
  by (intro ext) (simp add: byte_map_def)

section \<open>The slices of one block among all\<close>

definition others :: "ob_index \<Rightarrow> OBEntry \<Rightarrow> OBSliceEntry list" where
  "others st ob = concat (map ob_slices (remove1 ob (entries st)))"

lemma all_slices_mset: "mset (all_slices st) = (\<Sum>ob\<in>#mset (entries st). mset (ob_slices ob))"
  by (simp add: all_slices_def mset_concat sum_mset_sum_list flip: sum_mset_sum_list)
    (metis mset_map sum_mset_sum_list comp_apply map_eq_conv)

lemma others_mset:
  assumes "ob \<in> set (entries st)"
  shows "mset (all_slices st) = mset (ob_slices ob @ others st ob)"
proof -
  have "mset (entries st) = add_mset ob (mset (remove1 ob (entries st)))" using assms by simp
  then have "mset (all_slices st) = mset (ob_slices ob) + (\<Sum>ob\<in>#mset (remove1 ob (entries st)). mset (ob_slices ob))"
    by (simp only: all_slices_mset image_mset_add_mset sum_mset.add_mset)
  moreover have "mset (others st ob) = (\<Sum>ob\<in>#mset (remove1 ob (entries st)). mset (ob_slices ob))"
    by (simp add: others_def mset_concat flip: sum_mset_sum_list mset_map) (simp add: multiset.map_comp comp_def)
  ultimately show ?thesis by simp
qed

text \<open>The view of one block on the rest of the index, and back.\<close>

definition outside :: "(nat \<Rightarrow> int) \<Rightarrow> ob_index \<Rightarrow> OBEntry \<Rightarrow> nat \<Rightarrow> int" where
  "outside X st ob p = X p + (if p \<in> ptrs (others st ob) then 1 else 0)"

definition rest :: "ob_index \<Rightarrow> OBEntry \<Rightarrow> nat \<times> int \<Rightarrow> OBSliceEntry multiset" where
  "rest st ob k = {#s \<in># mset (others st ob). trunk_key s = k#}"

lemma outside_zero: "0 \<le> X p \<Longrightarrow> outside X st ob p = 0 \<Longrightarrow> p \<notin> ptrs (others st ob)"
  by (auto simp: outside_def split: if_splits)

lemma others_disjoint:
  assumes "\<forall>p\<in>P. p \<in> ptrs (ob_slices ob) \<or> p \<in> Q \<or> outside X st ob p = 0"
    "ptrs (ob_slices ob) \<inter> ptrs (others st ob) = {}" "Q \<inter> ptrs (others st ob) = {}" "\<And>p. 0 \<le> X p"
  shows "P \<inter> ptrs (others st ob) = {}"
proof (rule equals0I)
  fix p assume "p \<in> P \<inter> ptrs (others st ob)"
  then have p: "p \<in> P" "p \<in> ptrs (others st ob)" by (rule IntD1, rule IntD2)
  from bspec [OF assms(1) p(1)] show False
  proof (elim disjE)
    assume "p \<in> ptrs (ob_slices ob)"
    with p(2) assms(2) show False by (metis IntI empty_iff)
  next
    assume "p \<in> Q"
    with p(2) assms(3) show False by (metis IntI empty_iff)
  next
    assume "outside X st ob p = 0"
    with outside_zero [of X p st ob] assms(4) p(2) show False by blast
  qed
qed

context fastcommon
begin

lemma byte_map_at:
  assumes "table_ok E st" "ob \<in> set (entries st)"
  shows "tab st (block_id (ob_bkey ob)) = Some ob" "byte_map st (block_id (ob_bkey ob)) = block_map (ob_slices ob)"
proof -
  show "tab st (block_id (ob_bkey ob)) = Some ob" using tab_Some [OF assms(1)] assms(2) by simp
  then show "byte_map st (block_id (ob_bkey ob)) = block_map (ob_slices ob)" by (simp add: byte_map_def)
qed

lemma put_block_mset:
  assumes ok: "table_ok E st" and d: "ob_deref st p = Some ob"
  shows "mset (all_slices (put_block p bs st)) = mset (bst_slices bs @ others st ob)"
proof -
  let ?f = "\<lambda>ob. ob\<lparr>ob_slices := bst_slices bs\<rparr>"
  have e: "ob \<in> set (entries st)" "ob_ptr ob = p" using d deref_Some [OF ok] by auto
  have "entries (put_block p bs st) = map (at_ptr p ?f) (entries st)"
    using upd_entry_entries [of p ?f st] by (simp add: put_block_def entries_def)
  moreover have ms: "mset (entries st) = add_mset ob (mset (remove1 ob (entries st)))" using e by simp
  moreover have "map (at_ptr p ?f) (remove1 ob (entries st)) = remove1 ob (entries st)"
  proof (rule map_idI)
    fix x assume x: "x \<in> set (remove1 ob (entries st))"
    have dist: "distinct (map ob_ptr (entries st))" using ok by (simp add: table_ok_def)
    have "mset (entries st) = mset (ob # remove1 ob (entries st))" using e by simp
    from distinct_map_mset [OF this, of ob_ptr] dist have "ob_ptr ob \<notin> ob_ptr ` set (remove1 ob (entries st))"
      by (simp del: set_remove1_eq)
    with x have "ob_ptr x \<noteq> ob_ptr ob" by (metis image_eqI)
    with e show "at_ptr p ?f x = x" by (simp add: at_ptr_def)
  qed
  ultimately have "mset (entries (put_block p bs st)) = add_mset (?f ob) (mset (remove1 ob (entries st)))"
    using arg_cong [of "mset (entries st)" _ "image_mset (at_ptr p ?f)"] e(2)
    by (metis (no_types, lifting) at_ptr_def image_mset_add_mset mset_map)
  then have "mset (all_slices (put_block p bs st)) =
      mset (bst_slices bs) + (\<Sum>ob\<in>#mset (remove1 ob (entries st)). mset (ob_slices ob))"
    by (simp only: all_slices_mset image_mset_add_mset sum_mset.add_mset) simp
  moreover have "mset (all_slices st) = mset (ob_slices ob) + (\<Sum>ob\<in>#mset (remove1 ob (entries st)). mset (ob_slices ob))"
    using ms by (simp only: all_slices_mset image_mset_add_mset sum_mset.add_mset)
  ultimately show ?thesis using others_mset [OF e(1)] by simp
qed

lemma index_focus:
  assumes ok: "index_ok E X st" and ob: "ob \<in> set (entries st)"
  shows "heap_holds (ix_heap st) (outside X st ob) (ptrs (ob_slices ob))" "inj_on sl_ptr (set (ob_slices ob))"
    "ptrs (ob_slices ob) \<inter> ptrs (others st ob) = {}" "block_ok (ob_slices ob)"
    "ht_modify_sallocator (ix_ht st) \<Longrightarrow> books_balanced E (ix_mgr st) (rest st ob) (ob_slices ob)"
    "ht_modify_sallocator (ix_ht st) \<Longrightarrow> \<forall>s\<in>set (others st ob). booked E (ix_mgr st) (trunk_key s) \<noteq> None"
    "distinct (map sl_ptr (others st ob))" "ptrs (all_slices st) = ptrs (ob_slices ob) \<union> ptrs (others st ob)"
proof -
  note ms = others_mset [OF ob]
  from mset_eq_setD [OF ms] have set: "set (all_slices st) = set (ob_slices ob) \<union> set (others st ob)" by simp
  show pu: "ptrs (all_slices st) = ptrs (ob_slices ob) \<union> ptrs (others st ob)" by (simp add: set image_Un)
  have d: "distinct (map sl_ptr (ob_slices ob @ others st ob))"
    using ok distinct_map_mset [OF ms, of sl_ptr] by (simp add: index_ok_def)
  then show disj: "ptrs (ob_slices ob) \<inter> ptrs (others st ob) = {}" "distinct (map sl_ptr (others st ob))"
    "inj_on sl_ptr (set (ob_slices ob))" by (auto simp: distinct_map)
  have h: "heap_holds (ix_heap st) X (ptrs (all_slices st))" using ok by (simp add: index_ok_def)
  have "heap_holds (ix_heap st) X (ptrs (ob_slices ob) \<union> ptrs (others st ob))"
    using h by (simp only: pu)
  then show "heap_holds (ix_heap st) (outside X st ob) (ptrs (ob_slices ob))"
    using heap_holds_focus [OF disj(1) heap_holds_at(1) [OF h]] by (simp add: outside_def [abs_def])
  show "block_ok (ob_slices ob)" using ok ob table_entry(2) by (auto simp: index_ok_def)
  assume "ht_modify_sallocator (ix_ht st)"
  then have "books_balanced E (ix_mgr st) (\<lambda>_. {#}) (ob_slices ob @ others st ob)"
    using ok books_balanced_mset [OF ms] by (simp add: index_ok_def)
  then show "books_balanced E (ix_mgr st) (rest st ob) (ob_slices ob)"
    "\<forall>s\<in>set (others st ob). booked E (ix_mgr st) (trunk_key s) \<noteq> None"
    unfolding books_balanced_focus rest_def by blast+
qed

lemma index_unfocus:
  assumes tab: "table_ok E st'" and ms: "mset (all_slices st') = mset (xs @ others st ob)"
    and h: "heap_holds (ix_heap st') (outside X st ob) (ptrs xs)" and X: "\<And>p. 0 \<le> X p"
    and inj: "distinct (map sl_ptr xs)" "distinct (map sl_ptr (others st ob))"
    and disj: "ptrs xs \<inter> ptrs (others st ob) = {}"
    and bal: "ht_modify_sallocator (ix_ht st') \<Longrightarrow> books_balanced E (ix_mgr st') (rest st ob) xs \<and>
      (\<forall>s\<in>set (others st ob). booked E (ix_mgr st') (trunk_key s) \<noteq> None)"
  shows "index_ok E X st'"
proof -
  from mset_eq_setD [OF ms] have "ptrs (all_slices st') = ptrs xs \<union> ptrs (others st ob)" by (simp add: image_Un)
  moreover have "heap_holds (ix_heap st') X (ptrs xs \<union> ptrs (others st ob))"
    using h heap_holds_focus [OF disj X] by (simp add: outside_def [abs_def])
  moreover have "distinct (map sl_ptr (all_slices st'))"
    unfolding distinct_map_mset [OF ms] using inj disj by simp
  moreover have "books_balanced E (ix_mgr st') (\<lambda>_. {#}) (all_slices st')"
    if "ht_modify_sallocator (ix_ht st')"
    unfolding books_balanced_mset [OF ms] books_balanced_focus using bal [OF that] by (simp add: rest_def [abs_def])
  ultimately show ?thesis using tab by (simp add: index_ok_def)
qed

section \<open>Adding a slice\<close>

lemma add_ex_cases:
  assumes ok: "table_ok E st" and d: "ob_deref st (sl_ob slice) = Some ob"
    and nw: "is_reclaim \<or> ob_reclaiming_count ob \<le> 0" and len: "0 < sl_length slice"
    and run: "ob_index_add_slice_ex E sched slice want is_reclaim st = Some (0, sn, inc, st')"
  obtains bs st2 where "add_slice E (ix_ht st) slice (block_in st ob) = (0, inc, bs)"
    "st2 = put_block (sl_ob slice) bs st" "ix_ht st' = ix_ht st2"
    "ix_heap st' = slice_add_ref (sl_ptr slice) 1 (bst_heap bs)" "ix_mgr st' = bst_mgr bs"
    "sn = (if want then Some (u64 (ix_sn st + 1)) else None)"
    "ix_sn st' = (if want then u64 (ix_sn st + 1) else ix_sn st)"
proof -
  obtain r0 i0 bs where a: "add_slice E (ix_ht st) slice (block_in st ob) = (r0, i0, bs)" by (metis prod_cases3)
  let ?st2 = "put_block (sl_ob slice) bs st"
  let ?st3 = "?st2\<lparr>ix_heap := slice_add_ref (sl_ptr slice) 1 (ix_heap ?st2)\<rparr>"
  have "r0 = 0 \<and> i0 = inc \<and> next_sn want ?st3 = (sn, st')"
    using run d a no_wait [OF d nw, of sched]
    by (auto simp: ob_index_add_slice_ex_def Let_def split: if_splits prod.splits)
  then show thesis
    using that [of bs ?st2] a next_sn_table [of want ?st3 sn st'] next_sn_value [of want ?st3 sn st']
    by (simp add: put_block_def)
qed

lemma add_ex_map:
  assumes ok: "table_ok E st" and d: "ob_deref st (sl_ob slice) = Some ob"
    and nw: "is_reclaim \<or> ob_reclaiming_count ob \<le> 0" and len: "0 < sl_length slice"
    and run: "ob_index_add_slice_ex E sched slice want is_reclaim st = Some (0, sn, inc, st')"
  shows "table_ok E st'"
    "byte_map st' = (byte_map st)(block_id (ob_bkey ob) := byte_map st (block_id (ob_bkey ob)) ++ slice_map slice)"
    "inc = int (card (slice_range slice - dom (byte_map st (block_id (ob_bkey ob)))))"
proof -
  from ok d nw len run obtain bs st2 where a: "add_slice E (ix_ht st) slice (block_in st ob) = (0, inc, bs)"
    and st2: "st2 = put_block (sl_ob slice) bs st" "ix_ht st' = ix_ht st2" by (rule add_ex_cases)
  have e: "ob \<in> set (entries st)" using d deref_Some [OF ok] by simp
  have blk: "block_ok (bst_slices (block_in st ob))" using table_entry(2) [OF ok e] by (simp add: block_in_def)
  have add: "block_ok (bst_slices bs)" "block_map (bst_slices bs) = block_map (ob_slices ob) ++ slice_map slice"
    "inc = int (card (slice_range slice - covered (ob_slices ob)))"
    using add_slice_overwrites' [OF blk len a] by (simp_all add: block_in_def)
  note bm = byte_map_at(2) [OF ok e]
  note pb = put_block_ok [OF ok d add(1), folded st2(1)]
  show "table_ok E st'" using pb(1) same_table(2) [OF st2(2)] by simp
  show "byte_map st' = (byte_map st)(block_id (ob_bkey ob) := byte_map st (block_id (ob_bkey ob)) ++ slice_map slice)"
    using byte_map_put [OF pb(2)] same_table(6) [OF st2(2)] add(2) bm by simp
  show "inc = int (card (slice_range slice - dom (byte_map st (block_id (ob_bkey ob)))))"
    using add(3) bm by (simp add: dom_block_map)
qed

lemma add_ex_index_ok:
  assumes ok: "index_ok E X st" and d: "ob_deref st (sl_ob slice) = Some ob"
    and nw: "is_reclaim \<or> ob_reclaiming_count ob \<le> 0" and len: "0 < sl_length slice"
    and own: "1 \<le> X (sl_ptr slice)" "sl_ptr slice \<notin> ptrs (all_slices st)"
    and trunk: "ht_modify_sallocator (ix_ht st) \<Longrightarrow> booked E (ix_mgr st) (trunk_key slice) \<noteq> None"
    and run: "ob_index_add_slice_ex E sched slice want is_reclaim st = Some (0, sn, inc, st')"
  shows "index_ok E X st'"
proof -
  have tok: "table_ok E st" using ok by (simp add: index_ok_def)
  from tok d nw len run obtain bs st2 where a: "add_slice E (ix_ht st) slice (block_in st ob) = (0, inc, bs)"
    and st2: "st2 = put_block (sl_ob slice) bs st" "ix_ht st' = ix_ht st2"
    and st': "ix_heap st' = slice_add_ref (sl_ptr slice) 1 (bst_heap bs)" "ix_mgr st' = bst_mgr bs"
    by (rule add_ex_cases)
  have e: "ob \<in> set (entries st)" using d deref_Some [OF tok] by simp
  note fo = index_focus [OF ok e]
  let ?Y = "outside X st ob"
  have Y: "1 \<le> ?Y (sl_ptr slice)" "?Y (sl_ptr slice) = X (sl_ptr slice)" "sl_ptr slice \<notin> ptrs (ob_slices ob)"
    "sl_ptr slice \<notin> ptrs (others st ob)"
    using own fo(8) by (auto simp: outside_def)
  have X: "0 \<le> X p" for p using ok heap_holds_at(1) by (auto simp: index_ok_def)
  have blk: "block_ok (bst_slices (block_in st ob))" using fo(4) by (simp add: block_in_def)
  have ref: "heap_holds (bst_heap bs) (?Y(sl_ptr slice := ?Y (sl_ptr slice) - 1)) (ptrs (bst_slices bs))"
    "inj_on sl_ptr (set (bst_slices bs))"
    "\<forall>p\<in>ptrs (bst_slices bs). p \<in> ptrs (ob_slices ob) \<or> p = sl_ptr slice \<or> ?Y p = 0"
    using add_slice_refs [OF blk len _ _ _ _ a, of ?Y] fo(1,2) Y by (simp_all add: block_in_def)
  have added: "block_ok (bst_slices bs)" "slice \<in> set (bst_slices bs)"
    using add_slice_overwrites' [OF blk len a] by simp_all
  have "heap_holds (ix_heap st') ?Y (ptrs (bst_slices bs))"
  proof -
    have "sl_ptr slice \<in> ptrs (bst_slices bs)" using added(2) by blast
    from heap_holds_take [OF ref(1), of "sl_ptr slice"] this show ?thesis by (simp add: st'(1))
  qed
  moreover have "ptrs (bst_slices bs) \<inter> ptrs (others st ob) = {}"
    by (rule others_disjoint [OF _ fo(3) _ X, where Q = "{sl_ptr slice}"]) (use ref(3) Y(4) in simp_all)
  moreover have "distinct (map sl_ptr (bst_slices bs))"
    using ref(2) SL.ordered_distinct [OF block_ok_ordered [OF added(1)]] by (simp add: distinct_map)
  moreover have "books_balanced E (ix_mgr st') (rest st ob) (bst_slices bs) \<and>
      (\<forall>s\<in>set (others st ob). booked E (ix_mgr st') (trunk_key s) \<noteq> None)" if "ht_modify_sallocator (ix_ht st')"
  proof -
    have m: "ht_modify_sallocator (ix_ht st)" using that st2 by (simp add: put_block_def)
    have "books_balanced E (bst_mgr bs) (rest st ob) (bst_slices bs) \<and>
        dom (booked E (bst_mgr bs)) = dom (booked E (ix_mgr st))"
      using add_slice_books [OF blk len m _ _ a, of "rest st ob"] fo(5) [OF m] trunk [OF m] by (simp add: block_in_def)
    with fo(6) [OF m] st'(2) show ?thesis by auto
  qed
  moreover have "mset (all_slices st') = mset (bst_slices bs @ others st ob)"
    using put_block_mset [OF tok d] same_table(5) [OF st2(2)] st2(1) by simp
  moreover have "table_ok E st'" using put_block_ok(1) [OF tok d added(1)] same_table(2) [OF st2(2)] st2(1) by simp
  ultimately show ?thesis using fo(7) X by (intro index_unfocus) auto
qed

section \<open>Deleting a range of a block\<close>

lemma put_block_index_ok:
  assumes ok: "index_ok E X st" and d: "ob_deref st p = Some ob" and blk: "block_ok (bst_slices bs)"
    and h: "heap_holds (bst_heap bs) (outside X st ob) (ptrs (bst_slices bs))" "inj_on sl_ptr (set (bst_slices bs))"
    and new: "\<forall>p\<in>ptrs (bst_slices bs). p \<in> ptrs (ob_slices ob) \<or> outside X st ob p = 0"
    and bal: "ht_modify_sallocator (ix_ht st) \<Longrightarrow> books_balanced E (bst_mgr bs) (rest st ob) (bst_slices bs) \<and>
      dom (booked E (bst_mgr bs)) = dom (booked E (ix_mgr st))"
  shows "index_ok E X (put_block p bs st)"
proof -
  have tok: "table_ok E st" using ok by (simp add: index_ok_def)
  have e: "ob \<in> set (entries st)" using d deref_Some [OF tok] by simp
  note fo = index_focus [OF ok e]
  have X: "0 \<le> X p" for p using ok heap_holds_at(1) by (auto simp: index_ok_def)
  have fr: "ix_heap (put_block p bs st) = bst_heap bs" "ix_mgr (put_block p bs st) = bst_mgr bs"
    "ht_modify_sallocator (ix_ht (put_block p bs st)) = ht_modify_sallocator (ix_ht st)"
    by (simp_all add: put_block_def)
  show ?thesis
  proof (rule index_unfocus [OF put_block_ok(1) [OF tok d blk] put_block_mset [OF tok d]])
    show "heap_holds (ix_heap (put_block p bs st)) (outside X st ob) (ptrs (bst_slices bs))" using h(1) fr by simp
    show "distinct (map sl_ptr (bst_slices bs))"
      using h(2) SL.ordered_distinct [OF block_ok_ordered [OF blk]] by (simp add: distinct_map)
    show "ptrs (bst_slices bs) \<inter> ptrs (others st ob) = {}"
      by (rule others_disjoint [OF _ fo(3) _ X, where Q = "{}"]) (use new in simp_all)
    show "books_balanced E (ix_mgr (put_block p bs st)) (rest st ob) (bst_slices bs) \<and>
      (\<forall>s\<in>set (others st ob). booked E (ix_mgr (put_block p bs st)) (trunk_key s) \<noteq> None)"
      if "ht_modify_sallocator (ix_ht (put_block p bs st))"
      using bal fo(6) that unfolding fr by blast
  qed (use fo(7) X in auto)
qed

lemma put_block_bucket:
  assumes b: "bucket_at st k = pre @ [ob] @ post" and p: "ob_ptr ob = p"
    and i: "bucket_index (ix_ht st) k < length (ht_buckets (ix_ht st))"
  shows "\<exists>pre' post'. bucket_at (put_block p bs st) k = pre' @ [ob\<lparr>ob_slices := bst_slices bs\<rparr>] @ post' \<and>
    pprev_of pre' = pprev_of pre"
proof -
  let ?g = "at_ptr p (\<lambda>ob. ob\<lparr>ob_slices := bst_slices bs\<rparr>)"
  have "bucket_at (put_block p bs st) k = map ?g (bucket_at st k)"
    using i by (simp add: bucket_at_def put_block_def upd_entry_buckets bucket_index_def upd_entry_def [abs_def] at_ptr_def [abs_def])
  then have "bucket_at (put_block p bs st) k = map ?g pre @ [ob\<lparr>ob_slices := bst_slices bs\<rparr>] @ map ?g post"
    using b p by (simp add: at_ptr_def)
  moreover have "pprev_of (map ?g pre) = pprev_of pre"
    by (simp add: pprev_of_def last_map at_ptr_def)
  ultimately show ?thesis by blast
qed

lemma delete_entry_index_ok:
  assumes ok: "index_ok E X st" and b: "bucket_at st (ob_bkey ob) = pre @ [ob] @ post"
    and bal: "ht_modify_sallocator (ix_ht st) \<Longrightarrow> books_balanced E m (rest st ob) [] \<and>
      (\<forall>s\<in>set (others st ob). booked E m (trunk_key s) \<noteq> None)"
    and run: "OB_INDEX_DELETE_OB_ENTRY ob (pprev_of pre) (st\<lparr>ix_mgr := m\<rparr>) = (r, st')"
  shows "index_ok E X st'"
proof -
  have tok: "table_ok E st" using ok by (simp add: index_ok_def)
  have e: "ob \<in> set (entries st)" using b bucket_at_ok(3) [OF tok, of "ob_bkey ob"] by auto
  note fo = index_focus [OF ok e]
  have same: "ix_ht (st\<lparr>ix_mgr := m\<rparr>) = ix_ht st" by simp
  note sm = same_table [OF same]
  note de = delete_entry [OF _ _ run, unfolded sm, OF tok b]
  have X: "0 \<le> X p" for p using ok heap_holds_at(1) by (auto simp: index_ok_def)
  have d: "distinct (map sl_ptr (ob_slices ob))"
    using fo(2,4) SL.ordered_distinct [OF block_ok_ordered] by (auto simp: distinct_map)
  have ms: "mset (all_slices st') = mset ([] @ others st ob)"
  proof -
    have "mset (all_slices st) = mset (ob_slices ob) + mset (all_slices st')"
      using de(7) by (simp only: all_slices_mset image_mset_add_mset sum_mset.add_mset)
    with others_mset [OF e] show ?thesis by simp
  qed
  have "heap_holds (ix_heap st') (outside X st ob) (ptrs (ob_slices ob) - ptrs (ob_slices ob))"
    using heap_holds_fold_free [OF fo(1) subset_refl d] de(4) by (simp add: slice_free_func_eq)
  then have "heap_holds (ix_heap st') (outside X st ob) (ptrs [])" by simp
  then show ?thesis
    using de(2,5,8) ms fo(7) X bal by (intro index_unfocus [OF de(2) ms]) auto
qed

lemma delete_ex_cases:
  assumes ok: "table_ok E st" and k: "key_ok (bs_block key)" and d: "tab st (block_id (bs_block key)) = Some ob"
    and nw: "is_reclaim \<or> ob_reclaiming_count ob \<le> 0"
    and run: "ob_index_delete_slices_ex E sched key want is_reclaim st = Some (0, sn, dec, st')"
  obtains cnt bs pre post st2 st3 where
    "delete_slices E (ix_ht st) (bs_slice key) (block_in st ob) = (0, cnt, dec, bs)"
    "bucket_at st (bs_block key) = pre @ [ob] @ post" "st2 = put_block (ob_ptr ob) bs st"
    "ob_deref st (ob_ptr ob) = Some ob"
    "(if bst_slices bs = [] then OB_INDEX_DELETE_OB_ENTRY (ob\<lparr>ob_slices := []\<rparr>) (pprev_of pre) st2 else (0, st2)) = (0, st3)"
    "ix_ht st' = ix_ht st3" "ix_heap st' = ix_heap st3" "ix_mgr st' = ix_mgr st3" "(sn, st') = next_sn want st3"
proof -
  from get_ob_entry_found [OF ok k d] obtain pre post where
    g: "get_ob_entry_ex E (bs_block key) False st = (Some ob, pprev_of pre, st)"
    and b: "bucket_at st (bs_block key) = pre @ [ob] @ post" by blast
  have dr: "ob_deref st (ob_ptr ob) = Some ob" using d tab_Some [OF ok] deref_Some [OF ok] by simp
  obtain r0 cnt d0 bs where a: "delete_slices E (ix_ht st) (bs_slice key) (block_in st ob) = (r0, cnt, d0, bs)"
    by (metis prod_cases4)
  let ?st2 = "put_block (ob_ptr ob) bs st"
  obtain r1 st3 where o: "(if bst_slices bs = [] then OB_INDEX_DELETE_OB_ENTRY (ob\<lparr>ob_slices := []\<rparr>) (pprev_of pre) ?st2
      else (0, ?st2)) = (r1, st3)" by fastforce
  note run' = run [unfolded ob_index_delete_slices_ex_def g prod.case option.case no_wait [OF dr nw] dr a Let_def o]
  obtain sn3 st4 where n: "next_sn want st3 = (sn3, st4)" by fastforce
  have "r0 = 0 \<and> d0 = dec \<and> r1 = 0 \<and> next_sn want st3 = (sn, st')"
    using run' unfolding n prod.case by (cases "r0 = 0"; cases "r1 = 0") simp_all
  then have f: "r0 = 0" "d0 = dec" "r1 = 0" "next_sn want st3 = (sn, st')" by simp_all
  show thesis
    by (rule that [OF a [unfolded f(1,2)] b refl dr o [unfolded f(3)]]) (use next_sn_table [OF f(4)] f(4) in simp_all)
qed

lemma delete_ex_map:
  assumes ok: "table_ok E st" and k: "key_ok (bs_block key)" and d: "tab st (block_id (bs_block key)) = Some ob"
    and nw: "is_reclaim \<or> ob_reclaiming_count ob \<le> 0" and len: "0 < ss_length (bs_slice key)"
    and run: "ob_index_delete_slices_ex E sched key want is_reclaim st = Some (0, sn, dec, st')"
  defines "b \<equiv> block_id (bs_block key)"
  shows "table_ok E st'" "byte_map st' = (byte_map st)(b := byte_map st b |` (- ssize_range (bs_slice key)))"
    "dec = int (card (ssize_range (bs_slice key) \<inter> dom (byte_map st b)))"
proof -
  from ok k d nw run obtain cnt bs pre post st2 st3 where
    a: "delete_slices E (ix_ht st) (bs_slice key) (block_in st ob) = (0, cnt, dec, bs)"
    and bk: "bucket_at st (bs_block key) = pre @ [ob] @ post" and st2: "st2 = put_block (ob_ptr ob) bs st"
    and dr: "ob_deref st (ob_ptr ob) = Some ob"
    and o: "(if bst_slices bs = [] then OB_INDEX_DELETE_OB_ENTRY (ob\<lparr>ob_slices := []\<rparr>) (pprev_of pre) st2 else (0, st2)) = (0, st3)"
    and fr: "ix_ht st' = ix_ht st3" by (rule delete_ex_cases)
  have e: "ob \<in> set (entries st)" and idb: "block_id (ob_bkey ob) = b" using d tab_Some [OF ok] by (auto simp: b_def)
  have kb: "ob_bkey ob = bs_block key" using key_eqI [OF table_entry(1) [OF ok e] k] idb by (simp add: b_def)
  have blk: "block_ok (bst_slices (block_in st ob))" using table_entry(2) [OF ok e] by (simp add: block_in_def)
  have del: "block_ok (bst_slices bs)" "block_map (bst_slices bs) = block_map (ob_slices ob) |` (- ssize_range (bs_slice key))"
    "dec = int (card (ssize_range (bs_slice key) \<inter> covered (ob_slices ob)))"
    using delete_slices_map [OF blk len a] by (simp_all add: block_in_def)
  have bm: "byte_map st b = block_map (ob_slices ob)" using byte_map_at(2) [OF ok e] idb by simp
  show "dec = int (card (ssize_range (bs_slice key) \<inter> dom (byte_map st b)))" using del(3) bm by (simp add: dom_block_map)
  note pb = put_block_ok [OF ok dr del(1), folded st2]
  have m2: "byte_map st2 = (byte_map st)(b := byte_map st b |` (- ssize_range (bs_slice key)))"
    using byte_map_put [OF pb(2)] del(2) bm idb by simp
  have "table_ok E st3 \<and> byte_map st3 = byte_map st2"
  proof (cases "bst_slices bs = []")
    case True
    from put_block_bucket [OF bk refl bucket_at_ok(1) [OF ok], of bs] obtain pre' post' where
      b2: "bucket_at st2 (ob_bkey (ob\<lparr>ob_slices := []\<rparr>)) = pre' @ [ob\<lparr>ob_slices := []\<rparr>] @ post'" "pprev_of pre' = pprev_of pre"
      using True kb st2 by auto
    have run3: "OB_INDEX_DELETE_OB_ENTRY (ob\<lparr>ob_slices := []\<rparr>) (pprev_of pre') st2 = (0, st3)"
      using o True b2(2) by simp
    note de = delete_entry [OF pb(1) b2(1) run3]
    have "byte_map st3 = (byte_map st2)(b := (\<lambda>_. None))" using byte_map_drop [OF de(3)] idb by simp
    moreover have "byte_map st2 b = (\<lambda>_. None)"
      using byte_map_put [OF pb(2)] True idb by (simp add: block_map_def [abs_def])
    ultimately show ?thesis using de(2) by (simp add: fun_upd_idem)
  next
    case False
    with o pb(1) show ?thesis by auto
  qed
  with m2 same_table(2,6) [OF fr] show "table_ok E st'"
    "byte_map st' = (byte_map st)(b := byte_map st b |` (- ssize_range (bs_slice key)))" by simp_all
qed

lemma delete_ex_index_ok:
  assumes ok: "index_ok E X st" and k: "key_ok (bs_block key)" and d: "tab st (block_id (bs_block key)) = Some ob"
    and nw: "is_reclaim \<or> ob_reclaiming_count ob \<le> 0" and len: "0 < ss_length (bs_slice key)"
    and run: "ob_index_delete_slices_ex E sched key want is_reclaim st = Some (0, sn, dec, st')"
  shows "index_ok E X st'"
proof -
  have tok: "table_ok E st" using ok by (simp add: index_ok_def)
  from tok k d nw run obtain cnt bs pre post st2 st3 where
    a: "delete_slices E (ix_ht st) (bs_slice key) (block_in st ob) = (0, cnt, dec, bs)"
    and bk: "bucket_at st (bs_block key) = pre @ [ob] @ post" and st2: "st2 = put_block (ob_ptr ob) bs st"
    and dr: "ob_deref st (ob_ptr ob) = Some ob"
    and o: "(if bst_slices bs = [] then OB_INDEX_DELETE_OB_ENTRY (ob\<lparr>ob_slices := []\<rparr>) (pprev_of pre) st2 else (0, st2)) = (0, st3)"
    and fr: "ix_ht st' = ix_ht st3" "ix_heap st' = ix_heap st3" "ix_mgr st' = ix_mgr st3" by (rule delete_ex_cases)
  have e: "ob \<in> set (entries st)" using d tab_Some [OF tok] by simp
  have kb: "ob_bkey ob = bs_block key" using key_eqI [OF table_entry(1) [OF tok e] k] d tab_Some [OF tok] by simp
  note fo = index_focus [OF ok e]
  have blk: "block_ok (bst_slices (block_in st ob))" using fo(4) by (simp add: block_in_def)
  note bks = delete_slices_books [OF blk len, of "ix_ht st" "rest st ob" "outside X st ob" cnt dec bs, unfolded block_in_def block_state.select_convs]
  have books: "(ht_modify_sallocator (ix_ht st) \<longrightarrow> books_balanced E (bst_mgr bs) (rest st ob) (bst_slices bs) \<and>
      dom (booked E (bst_mgr bs)) = dom (booked E (ix_mgr st))) \<and>
    heap_holds (bst_heap bs) (outside X st ob) (ptrs (bst_slices bs)) \<and> inj_on sl_ptr (set (bst_slices bs)) \<and>
    (\<forall>p\<in>ptrs (bst_slices bs). p \<in> ptrs (ob_slices ob) \<or> outside X st ob p = 0)"
    by (rule bks [OF fo(5) fo(1,2)]) (use a in \<open>simp_all add: block_in_def\<close>)
  have blk': "block_ok (bst_slices bs)" using delete_slices_map [OF blk len a] by simp
  have ok2: "index_ok E X st2"
    unfolding st2 using books by (intro put_block_index_ok [OF ok dr blk']) auto
  have "index_ok E X st3"
  proof (cases "bst_slices bs = []")
    case True
    from put_block_bucket [OF bk refl bucket_at_ok(1) [OF tok], of bs] obtain pre' post' where
      b2: "bucket_at st2 (ob_bkey (ob\<lparr>ob_slices := []\<rparr>)) = pre' @ [ob\<lparr>ob_slices := []\<rparr>] @ post'" "pprev_of pre' = pprev_of pre"
      using True kb st2 by auto
    have run3: "OB_INDEX_DELETE_OB_ENTRY (ob\<lparr>ob_slices := []\<rparr>) (pprev_of pre') (st2\<lparr>ix_mgr := ix_mgr st2\<rparr>) = (0, st3)"
      using o True b2(2) by simp
    have e2: "ob\<lparr>ob_slices := []\<rparr> \<in> set (entries st2)"
      using b2(1) bucket_at_ok(3) [of st2 "ob_bkey ob"] ok2 by (auto simp: index_ok_def)
    note fo2 = index_focus [OF ok2 e2]
    show ?thesis by (rule delete_entry_index_ok [OF ok2 b2(1) _ run3]) (use fo2(5,6) in simp)
  next
    case False
    with o ok2 show ?thesis by simp
  qed
  then show ?thesis using same_table [OF fr(1)] fr by (simp add: index_ok_def)
qed

section \<open>Deleting a block\<close>

lemma delete_block_slices_dec:
  "delete_block_slices E ht xs (d, m) = (dec, m') \<Longrightarrow> dec = d + (\<Sum>s\<leftarrow>xs. sl_length s)"
  by (induction xs arbitrary: d m) fastforce+

lemma delete_block_slices_books:
  assumes "books_balanced E m R xs" "ht_modify_sallocator ht" "delete_block_slices E ht xs (d, m) = (dec, m')"
  shows "books_balanced E m' R [] \<and> dom (booked E m') = dom (booked E m)"
  using assms
proof (induction xs arbitrary: d m)
  case (Cons s xs)
  from ledger.balanced_del [of m R "s # xs" s "ht_modify_used_space ht"] Cons.prems(1)
  obtain m1 where m1: "storage_allocator_delete_slice E s (ht_modify_used_space ht) m = (0, m1)"
    "books_balanced E m1 R xs" "dom (booked E m1) = dom (booked E m)" by (auto simp: books_balanced_eq)
  from Cons.IH [OF m1(2)] Cons.prems(2,3) m1(1,3) show ?case by simp
qed simp

lemma block_ok_lengths:
  "block_ok chain \<Longrightarrow> (\<Sum>s\<leftarrow>chain. sl_length s) = int (card (covered chain))"
proof (induction chain)
  case (Cons s chain)
  have "x \<in> covered chain \<Longrightarrow> sl_end s \<le> x" for x
    using covered_ge [of chain "sl_end s" x] Cons.prems by (auto simp: block_ok_Cons)
  then have "slice_range s \<inter> covered chain = {}" by fastforce
  then have "int (card (covered (s # chain))) = sl_length s + int (card (covered chain))"
    using Cons.prems by (simp add: covered_Cons int_card_Un_disjoint block_ok_Cons) (simp add: ssize_range_def)
  with Cons show ?case by (simp add: block_ok_Cons)
qed simp

lemma delete_block_cases:
  assumes ok: "table_ok E st" and k: "key_ok k" and d: "tab st (block_id k) = Some ob"
    and nw: "is_reclaim \<or> ob_reclaiming_count ob \<le> 0"
    and run: "ob_index_delete_block_ex E sched k want is_reclaim st = Some (r, sn, dec, st')"
  obtains m pre post st2 where
    "delete_block_slices E (ix_ht st) (ob_slices ob) (0, ix_mgr st) = (dec, m)"
    "bucket_at st (ob_bkey ob) = pre @ [ob] @ post" "ob_bkey ob = k"
    "OB_INDEX_DELETE_OB_ENTRY ob (pprev_of pre) (st\<lparr>ix_mgr := m\<rparr>) = (0, st2)"
    "ix_ht st' = ix_ht st2" "ix_heap st' = ix_heap st2" "ix_mgr st' = ix_mgr st2"
    "r = (if dec > 0 then 0 else ENOENT)"
proof -
  from get_ob_entry_found [OF ok k d] obtain pre post where
    g: "get_ob_entry_ex E k False st = (Some ob, pprev_of pre, st)"
    and b: "bucket_at st k = pre @ [ob] @ post" by blast
  have e: "ob \<in> set (entries st)" and dr: "ob_deref st (ob_ptr ob) = Some ob"
    using d tab_Some [OF ok] deref_Some [OF ok] by simp_all
  have kb: "ob_bkey ob = k" using key_eqI [OF table_entry(1) [OF ok e] k] d tab_Some [OF ok] by simp
  obtain d0 m where a: "delete_block_slices E (ix_ht st) (ob_slices ob) (0, ix_mgr st) = (d0, m)" by fastforce
  obtain r1 st2 where o: "OB_INDEX_DELETE_OB_ENTRY ob (pprev_of pre) (st\<lparr>ix_mgr := m\<rparr>) = (r1, st2)" by fastforce
  have same: "ix_ht (st\<lparr>ix_mgr := m\<rparr>) = ix_ht st" by simp
  have b': "bucket_at st (ob_bkey ob) = pre @ [ob] @ post" using b kb by simp
  have r1: "r1 = 0" by (rule delete_entry(1) [OF _ _ o, unfolded same_table [OF same], OF ok b'])
  note run' = run [unfolded ob_index_delete_block_ex_def g prod.case option.case no_wait [OF dr nw] dr a o r1]
  obtain sn3 st4 where n: "next_sn want st2 = (sn3, st4)" by fastforce
  have f: "d0 = dec" "r = (if dec > 0 then 0 else ENOENT)" "st' = st2 \<or> st' = st4"
    using run' unfolding n prod.case by (cases "0 < d0"; simp)+
  show thesis
    by (rule that [OF a [unfolded f(1)] b' kb o [unfolded r1] _ _ _ f(2)]) (use f(3) next_sn_table [OF n] in auto)
qed

lemma delete_block_map:
  assumes ok: "table_ok E st" and k: "key_ok k" and d: "tab st (block_id k) = Some ob"
    and nw: "is_reclaim \<or> ob_reclaiming_count ob \<le> 0"
    and run: "ob_index_delete_block_ex E sched k want is_reclaim st = Some (r, sn, dec, st')"
  shows "table_ok E st'" "byte_map st' = (byte_map st)(block_id k := (\<lambda>_. None))"
    "dec = int (card (dom (byte_map st (block_id k))))" "r = (if dom (byte_map st (block_id k)) = {} then ENOENT else 0)"
proof -
  from ok k d nw run obtain m pre post st2 where
    a: "delete_block_slices E (ix_ht st) (ob_slices ob) (0, ix_mgr st) = (dec, m)"
    and bk: "bucket_at st (ob_bkey ob) = pre @ [ob] @ post" and kb: "ob_bkey ob = k"
    and o: "OB_INDEX_DELETE_OB_ENTRY ob (pprev_of pre) (st\<lparr>ix_mgr := m\<rparr>) = (0, st2)"
    and fr: "ix_ht st' = ix_ht st2" and r: "r = (if dec > 0 then 0 else ENOENT)" by (rule delete_block_cases)
  have e: "ob \<in> set (entries st)" using d tab_Some [OF ok] by simp
  have bm: "byte_map st (block_id k) = block_map (ob_slices ob)" using byte_map_at(2) [OF ok e] kb by simp
  have same: "ix_ht (st\<lparr>ix_mgr := m\<rparr>) = ix_ht st" by simp
  note de = delete_entry [OF _ _ o, unfolded same_table [OF same], OF ok bk]
  show "table_ok E st'" "byte_map st' = (byte_map st)(block_id k := (\<lambda>_. None))"
    using de(2) byte_map_drop [OF de(3)] same_table [OF fr] kb by simp_all
  show dec: "dec = int (card (dom (byte_map st (block_id k))))"
    using delete_block_slices_dec [OF a] block_ok_lengths [OF table_entry(2) [OF ok e]] bm by (simp add: dom_block_map)
  have "finite (dom (byte_map st (block_id k)))" using bm by (simp add: dom_block_map)
  then show "r = (if dom (byte_map st (block_id k)) = {} then ENOENT else 0)"
    using r dec by (simp add: card_gt_0_iff)
qed

lemma delete_block_index_ok:
  assumes ok: "index_ok E X st" and k: "key_ok k" and d: "tab st (block_id k) = Some ob"
    and nw: "is_reclaim \<or> ob_reclaiming_count ob \<le> 0"
    and run: "ob_index_delete_block_ex E sched k want is_reclaim st = Some (r, sn, dec, st')"
  shows "index_ok E X st'"
proof -
  have tok: "table_ok E st" using ok by (simp add: index_ok_def)
  from tok k d nw run obtain m pre post st2 where
    a: "delete_block_slices E (ix_ht st) (ob_slices ob) (0, ix_mgr st) = (dec, m)"
    and bk: "bucket_at st (ob_bkey ob) = pre @ [ob] @ post"
    and o: "OB_INDEX_DELETE_OB_ENTRY ob (pprev_of pre) (st\<lparr>ix_mgr := m\<rparr>) = (0, st2)"
    and fr: "ix_ht st' = ix_ht st2" "ix_heap st' = ix_heap st2" "ix_mgr st' = ix_mgr st2" by (rule delete_block_cases)
  have e: "ob \<in> set (entries st)" using d tab_Some [OF tok] by simp
  note fo = index_focus [OF ok e]
  have "books_balanced E m (rest st ob) [] \<and> (\<forall>s\<in>set (others st ob). booked E m (trunk_key s) \<noteq> None)"
    if mod: "ht_modify_sallocator (ix_ht st)"
    using delete_block_slices_books [OF fo(5) [OF mod] mod a] fo(6) [OF mod] by blast
  then have "index_ok E X st2" by (intro delete_entry_index_ok [OF ok bk _ o]) auto
  then show ?thesis using same_table [OF fr(1)] fr by (simp add: index_ok_def)
qed

section \<open>Looking up\<close>

lemma get_ex_cases:
  assumes ok: "table_ok E st" and k: "key_ok (bs_block key)" and d: "tab st (block_id (bs_block key)) = Some ob"
    and nw: "is_reclaim \<or> ob_reclaiming_count ob \<le> 0"
    and run: "ob_index_get_slices_ex E sched key arr0 is_reclaim st = Some (r, arr, st')"
  obtains ah h where
    "get_slices E (ob_slices ob) (bs_slice key) (arr0\<lparr>pa_slices := []\<rparr>, ix_heap st) = (r, ah)"
    "(arr, h) = (if r \<noteq> 0 \<and> pa_slices (fst ah) \<noteq> [] then free_slices ah else ah)" "st' = st\<lparr>ix_heap := h\<rparr>"
proof -
  from get_ob_entry_found [OF ok k d] obtain pre where
    g: "get_ob_entry_ex E (bs_block key) False st = (Some ob, pprev_of pre, st)" by blast
  have dr: "ob_deref st (ob_ptr ob) = Some ob" using d tab_Some [OF ok] deref_Some [OF ok] by simp
  obtain r0 ah where a: "get_slices E (ob_slices ob) (bs_slice key) (arr0\<lparr>pa_slices := []\<rparr>, ix_heap st) = (r0, ah)"
    by (metis surj_pair)
  obtain a1 h where b: "(if r0 \<noteq> 0 \<and> pa_slices (fst ah) \<noteq> [] then free_slices ah else ah) = (a1, h)" by fastforce
  note run' = run [unfolded ob_index_get_slices_ex_def g prod.case option.case fst_conv no_wait [OF dr nw] dr Let_def a b]
  then have f: "r0 = r" "a1 = arr" "st' = st\<lparr>ix_heap := h\<rparr>" by simp_all
  show thesis by (rule that [OF a [unfolded f(1)] _ f(3)]) (use b f(1,2) in simp)
qed

lemma get_ex_map:
  assumes ok: "table_ok E st" and k: "key_ok (bs_block key)" and d: "tab st (block_id (bs_block key)) = Some ob"
    and nw: "is_reclaim \<or> ob_reclaiming_count ob \<le> 0" and len: "0 < ss_length (bs_slice key)"
    and run: "ob_index_get_slices_ex E sched key arr0 is_reclaim st = Some (0, arr, st')"
  shows "block_ok (pa_slices arr)" "block_map (pa_slices arr) = byte_map st (block_id (bs_block key)) |` ssize_range (bs_slice key)"
    "byte_map st' = byte_map st" "table_ok E st'"
proof -
  from ok k d nw run obtain ah h where
    a: "get_slices E (ob_slices ob) (bs_slice key) (arr0\<lparr>pa_slices := []\<rparr>, ix_heap st) = (0, ah)"
    and ah: "(arr, h) = (if (0::int) \<noteq> 0 \<and> pa_slices (fst ah) \<noteq> [] then free_slices ah else ah)"
    and st': "st' = st\<lparr>ix_heap := h\<rparr>" by (rule get_ex_cases)
  have e: "ob \<in> set (entries st)" "block_id (ob_bkey ob) = block_id (bs_block key)" using d tab_Some [OF ok] by auto
  have "get_slices E (ob_slices ob) (bs_slice key) (arr0\<lparr>pa_slices := []\<rparr>, ix_heap st) = (0, arr, h)"
    using a ah by simp
  from get_slices_map [OF table_entry(2) [OF ok e(1)] len _ this]
  show "block_ok (pa_slices arr)" "block_map (pa_slices arr) = byte_map st (block_id (bs_block key)) |` ssize_range (bs_slice key)"
    using byte_map_at(2) [OF ok e(1)] e(2) by simp_all
  have same: "ix_ht st' = ix_ht st" by (simp add: st')
  show "byte_map st' = byte_map st" "table_ok E st'" using same_table [OF same] ok by simp_all
qed

lemma get_ex_index_ok:
  assumes ok: "index_ok E X st" and k: "key_ok (bs_block key)" and d: "tab st (block_id (bs_block key)) = Some ob"
    and nw: "is_reclaim \<or> ob_reclaiming_count ob \<le> 0" and len: "0 < ss_length (bs_slice key)"
    and run: "ob_index_get_slices_ex E sched key arr0 is_reclaim st = Some (0, arr, st')"
  shows "index_ok E (taken X (pa_slices arr)) st'"
proof -
  have tok: "table_ok E st" using ok by (simp add: index_ok_def)
  from tok k d nw run obtain ah h where
    a: "get_slices E (ob_slices ob) (bs_slice key) (arr0\<lparr>pa_slices := []\<rparr>, ix_heap st) = (0, ah)"
    and ah: "(arr, h) = (if (0::int) \<noteq> 0 \<and> pa_slices (fst ah) \<noteq> [] then free_slices ah else ah)"
    and st': "st' = st\<lparr>ix_heap := h\<rparr>" by (rule get_ex_cases)
  have e: "ob \<in> set (entries st)" using d tab_Some [OF tok] by simp
  note fo = index_focus [OF ok e]
  have g: "get_slices E (ob_slices ob) (bs_slice key) (arr0\<lparr>pa_slices := []\<rparr>, ix_heap st) = (0, arr, h)"
    using a ah by simp
  have P: "ptrs (ob_slices ob) \<subseteq> ptrs (all_slices st)" using fo(8) by simp
  from get_slices_cases [OF fo(4) len P g] obtain ts where "got (ptrs (all_slices st)) (arr0\<lparr>pa_slices := []\<rparr>, ix_heap st) ts (arr, h)"
    by auto
  then have "heap_holds h (taken X (pa_slices arr)) (ptrs (all_slices st))"
    using ok by (auto simp: got_def index_ok_def)
  moreover have "ix_ht st' = ix_ht st" by (simp add: st')
  note same_table [OF this]
  ultimately show ?thesis using ok st' by (simp add: index_ok_def)
qed

section \<open>Allocating a slice\<close>

lemma alloc_slice_map:
  assumes ok: "table_ok E st" and k: "key_ok k"
    and run: "ob_index_alloc_slice_ex E junk k n st = (Some slice, st')"
  shows "table_ok E st'" "byte_map st' = byte_map st"
    "\<exists>ob. ob_deref st' (sl_ob slice) = Some ob \<and> ob_bkey ob = k \<and> tab st' (block_id k) = Some ob"
    "mset (all_slices st') = mset (all_slices st)"
proof -
  obtain pre hit post where w: "chain_walk E k (bucket_at st k) = (pre, hit, post)" by (metis prod_cases3)
  obtain ob pv st1 where g: "get_ob_entry_ex E k True st = (Some ob, pv, st1)"
    and sl: "sl_ob slice = ob_ptr ob" and fr: "ix_ht st' = ix_ht st1"
    using run by (auto simp: ob_index_alloc_slice_ex_def split: prod.splits option.splits)
  have main: "table_ok E st1 \<and> byte_map st1 = byte_map st \<and> ob \<in> set (entries st1) \<and> ob_bkey ob = k \<and>
    mset (all_slices st1) = mset (all_slices st)"
  proof (cases hit)
    case (Some ob')
    with g w have eq: "ob' = ob" "st1 = st" by (auto simp: get_ob_entry_ex_def)
    have "tab st (block_id k) = Some ob" using walk_bucket(1) [OF ok k w] Some eq by simp
    then have e: "ob \<in> set (entries st)" "block_id (ob_bkey ob) = block_id k" using tab_Some [OF ok] by auto
    then have "ob_bkey ob = k" using key_eqI [OF table_entry(1) [OF ok e(1)] k] by simp
    with e eq ok show ?thesis by simp
  next
    case None
    let ?st = "st\<lparr>ix_calls := Suc (ix_calls st)\<rparr>"
    have same: "ix_ht ?st = ix_ht st" by simp
    note sm = same_table [OF same]
    from None g w obtain p where p: "env_ob_alloc E (ix_calls st) (\<lambda>p. ob_deref st p \<noteq> None) = Some p"
      and ob: "ob = \<lparr>ob_ptr = p, ob_bkey = k, ob_reclaiming_count = 0, ob_slices = []\<rparr>"
      and st1: "st1 = set_bucket (bucket_index (ix_ht st) k) (pre @ [ob] @ post) ?st"
      by (auto simp: get_ob_entry_ex_def Let_def split: option.splits if_splits)
    have fresh: "\<forall>x\<in>set (entries st). ob_ptr x \<noteq> ob_ptr ob"
      using ob_alloc_fresh [OF p] ob by (simp add: deref_None)
    have w': "chain_walk E k (bucket_at ?st k) = (pre, None, post)" using w None sm by simp
    have st1': "st1 = set_bucket (bucket_index (ix_ht ?st) k) (pre @ [ob] @ post) ?st" using st1 by simp
    note ins = insert_entry [OF _ k w' _ _ _ st1', unfolded sm, OF ok _ _ fresh]
    have i1: "table_ok E st1" "tab st1 = (tab st)(block_id k \<mapsto> ob)" "tab st (block_id k) = None"
      using ins ob by simp_all
    have "ob \<in> set (entries st1)" using i1(2) tab_Some [OF i1(1), of "block_id k" ob] by simp
    moreover have "byte_map st1 = byte_map st"
      using byte_map_put [OF i1(2)] i1(3) ob by (auto simp: byte_map_def fun_eq_iff block_map_def)
    moreover have "mset (entries st1) = add_mset ob (mset (entries st))"
      using set_bucket_mset [of "bucket_index (ix_ht st) k" ?st "pre @ [ob] @ post"] bucket_at_ok(1) [OF ok]
        walk_bucket(2) [OF ok k w] None st1 sm by (simp add: bucket_at_def)
    then have "mset (all_slices st1) = mset (all_slices st)" using ob by (simp add: all_slices_mset)
    ultimately show ?thesis using i1(1) ob by simp
  qed
  note sm = same_table [OF fr]
  show "table_ok E st'" "byte_map st' = byte_map st" using main sm by simp_all
  show "mset (all_slices st') = mset (all_slices st)" using main sm by simp
  show "\<exists>ob. ob_deref st' (sl_ob slice) = Some ob \<and> ob_bkey ob = k \<and> tab st' (block_id k) = Some ob"
    using main sm sl deref_Some [of st1] tab_Some [of st1] by auto
qed

lemma get_ob_entry_ex_frame:
  "get_ob_entry_ex E k c st = (r, pv, st1) \<Longrightarrow>
   ix_heap st1 = ix_heap st \<and> ix_mgr st1 = ix_mgr st \<and> ix_sn st1 = ix_sn st \<and>
   ht_modify_sallocator (ix_ht st1) = ht_modify_sallocator (ix_ht st)"
  by (auto simp: get_ob_entry_ex_def Let_def split: prod.splits option.splits if_splits)

lemma alloc_slice_index_ok:
  assumes ok: "index_ok E X st" and k: "key_ok k" and n: "1 \<le> n"
    and run: "ob_index_alloc_slice_ex E junk k n st = (Some slice, st')"
  shows "index_ok E (X(sl_ptr slice := n)) st'" "sl_ptr slice \<notin> ptrs (all_slices st')" "X (sl_ptr slice) = 0"
proof -
  have tok: "table_ok E st" using ok by (simp add: index_ok_def)
  obtain ob pv st1 p h where g: "get_ob_entry_ex E k True st = (Some ob, pv, st1)"
    and p: "heap_alloc E (ix_heap st1) = (Some p, h)" "sl_ptr slice = p"
    and st': "st' = st1\<lparr>ix_heap := slice_add_ref p n h\<rparr>"
    using run n by (auto simp: ob_index_alloc_slice_ex_def split: prod.splits option.splits)
  note fr = get_ob_entry_ex_frame [OF g] and am = alloc_slice_map [OF tok k run]
  have ps: "ptrs (all_slices st') = ptrs (all_slices st)" using mset_eq_setD [OF am(4)] by simp
  have h0: "heap_holds (ix_heap st) X (ptrs (all_slices st))" using ok by (simp add: index_ok_def)
  have new: "sh_refs (ix_heap st) p = None" and h: "sh_refs h = (sh_refs (ix_heap st))(p \<mapsto> 0)"
    using heap_alloc_Some [OF p(1)] fr by simp_all
  have none: "X p = 0" "p \<notin> ptrs (all_slices st)"
    using heap_holds_at(2) [OF h0, of p] new by (auto split: if_splits)
  have "heap_holds (ix_heap st') (X(p := n)) (ptrs (all_slices st'))"
    unfolding ps using none n h by (intro heap_holds_change [OF h0]) (auto simp: st')
  moreover have "distinct (map sl_ptr (all_slices st'))"
    using ok distinct_map_mset [OF am(4), of sl_ptr] by (simp add: index_ok_def)
  moreover have "ht_modify_sallocator (ix_ht st') \<Longrightarrow> books_balanced E (ix_mgr st') (\<lambda>_. {#}) (all_slices st')"
    using ok fr st' books_balanced_mset [OF am(4)] by (simp add: index_ok_def)
  ultimately show "index_ok E (X(sl_ptr slice := n)) st'" using am(1) p(2) by (simp add: index_ok_def)
  show "sl_ptr slice \<notin> ptrs (all_slices st')" "X (sl_ptr slice) = 0" using none p(2) ps by auto
qed

section \<open>Locking a block for a reclaim\<close>

lemma must_wait:
  assumes "ob_deref st p = Some ob" "0 < ob_reclaiming_count ob"
  shows "CHECK_AND_WAIT_RECLAIM_DONE False [] p st = None"
  using assms by (simp add: CHECK_AND_WAIT_RECLAIM_DONE_def wait_reclaim_done.simps)

lemma upd_entry_twice:
  assumes "same_entry f"
  shows "upd_entry p g (upd_entry p f st) = upd_entry p (\<lambda>ob. g (f ob)) st"
  using assms by (auto simp: upd_entry_def same_entry_def intro!: ob_index.equality OBHashtable.equality)

lemma upd_entry_id: "upd_entry p (\<lambda>ob. ob) st = st"
  by (simp add: upd_entry_def)

lemma reclaim_lock_waits:
  assumes ok: "table_ok E st" and k: "key_ok k" and t: "tab st (block_id k) = Some ob"
    and c: "0 \<le> ob_reclaiming_count ob" and run: "ob_index_reclaim_lock E k st = (Some p, st1)"
  shows "p = ob_ptr ob \<and> table_ok E st1 \<and> byte_map st1 = byte_map st \<and>
    (sl_ob slice = p \<longrightarrow> ob_index_add_slice_ex E [] slice want False st1 = None) \<and>
    (bs_block key = k \<longrightarrow> ob_index_delete_slices_ex E [] key want False st1 = None \<and>
       ob_index_get_slices_ex E [] key arr False st1 = None) \<and>
    ob_index_delete_block_ex E [] k want False st1 = None \<and>
    ob_index_reclaim_unlock p st1 = (0, st)"
proof -
  let ?f = "\<lambda>ob. ob\<lparr>ob_reclaiming_count := ob_reclaiming_count ob + 1\<rparr>"
  have f: "same_entry ?f" by (simp add: same_entry_def)
  have p: "p = ob_ptr ob" and st1: "st1 = upd_entry p ?f st"
    using run get_ob_entry_tab(1) [OF ok k] t by (auto simp: ob_index_reclaim_lock_def)
  have e: "ob \<in> set (entries st)" using t tab_Some [OF ok] by simp
  have ok1: "table_ok E st1"
    unfolding st1 by (rule upd_entry_ok [OF ok f]) (use table_entry(2) [OF ok] in simp)
  have "ob_deref st p = Some ob" using deref_Some [OF ok] e p by simp
  then have d1: "ob_deref st1 p = Some (?f ob)"
    using upd_entry_tab(2) [OF f, of p st p] p by (simp add: st1 at_ptr_def)
  have t1: "tab st1 (block_id k) = Some (?f ob)"
    using upd_entry_tab(1) [OF f, of p st "block_id k"] t p by (simp add: st1 at_ptr_def)
  have bm: "byte_map st1 = byte_map st"
    by (intro ext) (simp add: byte_map_def st1 upd_entry_tab(1) [OF f] at_ptr_def split: option.splits)
  have w: "CHECK_AND_WAIT_RECLAIM_DONE False [] p st1 = None" by (rule must_wait [OF d1]) (use c in simp)
  from get_ob_entry_found [OF ok1 k t1] obtain pre where
    g: "get_ob_entry_ex E k False st1 = (Some (?f ob), pprev_of pre, st1)" by blast
  have w': "CHECK_AND_WAIT_RECLAIM_DONE False [] (ob_ptr (?f ob)) st1 = None" using w p by simp
  have "ob_index_reclaim_unlock p st1 = (0, st)"
    using d1 by (simp add: ob_index_reclaim_unlock_def st1 upd_entry_twice [OF f] upd_entry_id)
  moreover have "sl_ob slice = p \<longrightarrow> ob_index_add_slice_ex E [] slice want False st1 = None"
    using d1 w by (simp add: ob_index_add_slice_ex_def)
  ultimately show ?thesis
    using p ok1 bm g w'
    by (simp add: ob_index_delete_slices_ex_def ob_index_get_slices_ex_def ob_index_delete_block_ex_def Let_def)
qed

end

end
