(* ===== verification/Index_Properties.thy ===== *)
theory Index_Properties
  imports Block_Table_Theorems
begin

text \<open>
  The properties of the index as a whole, with an example index on which they are applied.
\<close>

section \<open>An example index\<close>

definition ex_ob :: OBEntry where
  "ex_ob = \<lparr>ob_ptr = 1, ob_bkey = ex_key, ob_reclaiming_count = 0, ob_slices = ex_chain\<rparr>"

definition ex_ix :: ob_index where
  "ex_ix = \<lparr>ix_ht = ex_ht\<lparr>ht_buckets := [ex_ob] # replicate 10 []\<rparr>, ix_heap = ex_heap, ix_mgr = ex_mgr,
     ix_sn = 41, ix_calls = 0\<rparr>"

definition ex_bs :: FSBlockSliceKeyInfo where
  "ex_bs = \<lparr>bs_block = ex_key, bs_slice = ex_range\<rparr>"

definition ex_arr :: OBSlicePtrArray where
  "ex_arr = \<lparr>pa_alloc = 0, pa_slices = []\<rparr>"

lemma ex_key_ok: "key_ok ex_key" "bucket_index (ix_ht ex_ix) ex_key = 0"
  by (simp_all add: key_ok_def ex_key_def fs_calc_block_hashcode_def bucket_index_def ex_ix_def ex_ht_def)

lemma ex_entries: "entries ex_ix = [ex_ob]"
  by (simp add: entries_def ex_ix_def numeral_eq_Suc)

lemma ex_all_slices: "all_slices ex_ix = ex_chain"
  by (simp add: all_slices_def ex_entries ex_ob_def)

lemma ex_chain_ok: "block_ok ex_chain"
  using ex_block_ok by (simp add: ex_st_def)

lemma ex_table_ok: "table_ok list_env ex_ix"
proof -
  have len: "length (ht_buckets (ix_ht ex_ix)) = 11" by (simp add: ex_ix_def)
  have "bucket_ok list_env (ix_ht ex_ix) i (ht_buckets (ix_ht ex_ix) ! i)" if "i < 11" for i
  proof (cases i)
    case 0
    have "ht_buckets (ix_ht ex_ix) ! 0 = [ex_ob]" by (simp add: ex_ix_def)
    then show ?thesis using 0 ex_key_ok ex_chain_ok by (simp add: bucket_ok_def ex_ob_def)
  next
    case (Suc j)
    have "ht_buckets (ix_ht ex_ix) ! i = []" using that Suc by (simp add: ex_ix_def)
    then show ?thesis by (simp add: bucket_ok_def)
  qed
  then show ?thesis
    unfolding table_ok_def using len ex_entries by (simp add: ex_ix_def ex_ht_def)
qed

lemma ex_deref: "ob_deref ex_ix 1 = Some ex_ob" "tab ex_ix (block_id ex_key) = Some ex_ob"
  by (simp_all add: ob_deref_def tab_def ex_entries ex_ob_def)

lemma ex_index_ok: "index_ok list_env ex_X ex_ix"
  using ex_table_ok ex_held ex_balanced
  by (simp add: index_ok_def ex_all_slices ex_st_sel) (simp add: ex_ix_def ex_chain_def ex_slice_def)

lemma ex_ix_runs:
  "map_option fst (ob_index_add_slice_ex list_env [] ex_new True False ex_ix) = Some 0"
  "map_option fst (ob_index_delete_slices_ex list_env [] ex_bs True False ex_ix) = Some 0"
  "map_option fst (ob_index_delete_block_ex list_env [] ex_key True False ex_ix) = Some 0"
  "map_option fst (ob_index_get_slices_ex list_env [] ex_bs ex_arr False ex_ix) = Some 0"
  by code_simp+

definition ex_key2 :: FSBlockKey where
  "ex_key2 = fs_calc_block_hashcode \<lparr>bk_oid = 5, bk_offset = 4194304, bk_hash_code = 0\<rparr>"

lemma ex_key2_ok: "key_ok ex_key2"
  by (simp add: key_ok_def ex_key2_def fs_calc_block_hashcode_def)

lemma some_fst: "map_option fst r = Some x \<Longrightarrow> \<exists>y. r = Some (x, y)"
  by (cases r) auto

section \<open>Refinement\<close>

text \<open>
  Property C4. A successful \<open>ob_index_add_slice\<close> changes the byte map of one block and no other: the
  bytes of the slice now lie where the slice says, and all other bytes of all blocks stay where
  they were. \<open>inc_alloc\<close> is the number of bytes newly mapped, the table stays well-formed, and
  the caller gets the next serial number for the slice binlog.
\<close>
theorem index_add_slice_refines:
  assumes "fastcommon E" "table_ok E st" "ob_deref st (sl_ob slice) = Some ob"
    "is_reclaim \<or> ob_reclaiming_count ob \<le> 0" "0 < sl_length slice"
    "ob_index_add_slice_ex E sched slice want is_reclaim st = Some (0, sn, inc, st')"
  shows "table_ok E st' \<and>
    byte_map st' = (byte_map st)(block_id (ob_bkey ob) := byte_map st (block_id (ob_bkey ob)) ++ slice_map slice) \<and>
    inc = int (card (slice_range slice - dom (byte_map st (block_id (ob_bkey ob))))) \<and>
    sn = (if want then Some (u64 (ix_sn st + 1)) else None) \<and>
    ix_sn st' = (if want then u64 (ix_sn st + 1) else ix_sn st)"
proof -
  from assms(2-6) obtain bs st2 where "sn = (if want then Some (u64 (ix_sn st + 1)) else None)"
    "ix_sn st' = (if want then u64 (ix_sn st + 1) else ix_sn st)"
    by (rule fastcommon.add_ex_cases [OF assms(1)])
  with fastcommon.add_ex_map [OF assms] show ?thesis by blast
qed

theorem index_add_slice_refines_witness:
  "\<exists>sn inc st'. ob_index_add_slice_ex list_env [] ex_new True False ex_ix = Some (0, sn, inc, st') \<and>
     sn = Some 42 \<and> byte_map st' (block_id ex_key) = block_map ex_chain ++ slice_map ex_new"
proof -
  from some_fst [OF ex_ix_runs(1)] obtain sn inc st' where
    run: "ob_index_add_slice_ex list_env [] ex_new True False ex_ix = Some (0, sn, inc, st')" by auto
  have "ob_deref ex_ix (sl_ob ex_new) = Some ex_ob" using ex_deref by (simp add: ex_new_def ex_slice_def)
  from index_add_slice_refines [OF list_fc.fastcommon_axioms ex_table_ok this _ ex_new_facts(1) run]
  have "sn = Some (u64 (ix_sn ex_ix + 1))" "byte_map st' (block_id ex_key) =
      byte_map ex_ix (block_id ex_key) ++ slice_map ex_new"
    by (simp_all add: ex_ob_def)
  moreover have "byte_map ex_ix (block_id ex_key) = block_map ex_chain"
    by (simp add: byte_map_def ex_deref) (simp add: ex_ob_def)
  ultimately show ?thesis using run by (simp add: ex_ix_def)
qed





text \<open>
  Property C5. \<open>ob_index_get_slices\<close> answers the byte map of the block restricted to the range,
  changes no byte map, and accounts for one reference on each slice it answers (\<open>taken\<close>), so
  the invariant of the index still holds while the caller reads.
\<close>
theorem index_get_slices_refines:
  assumes "fastcommon E" "index_ok E X st" "key_ok (bs_block key)" "tab st (block_id (bs_block key)) = Some ob"
    "is_reclaim \<or> ob_reclaiming_count ob \<le> 0" "0 < ss_length (bs_slice key)"
    "ob_index_get_slices_ex E sched key arr0 is_reclaim st = Some (0, arr, st')"
  shows "block_ok (pa_slices arr) \<and>
    block_map (pa_slices arr) = byte_map st (block_id (bs_block key)) |` ssize_range (bs_slice key) \<and>
    byte_map st' = byte_map st \<and> index_ok E (taken X (pa_slices arr)) st'"
  using fastcommon.get_ex_map [OF assms(1) _ assms(3-7)] fastcommon.get_ex_index_ok [OF assms] assms(2)
  by (auto simp: index_ok_def)

theorem index_get_slices_refines_witness:
  "\<exists>arr st'. ob_index_get_slices_ex list_env [] ex_bs ex_arr False ex_ix = Some (0, arr, st') \<and>
     block_map (pa_slices arr) = byte_map ex_ix (block_id ex_key) |` ssize_range ex_range"
proof -
  from some_fst [OF ex_ix_runs(4)] obtain arr st' where
    run: "ob_index_get_slices_ex list_env [] ex_bs ex_arr False ex_ix = Some (0, arr, st')" by auto
  from index_get_slices_refines [OF list_fc.fastcommon_axioms ex_index_ok _ _ _ _ run] run show ?thesis
    by (simp add: ex_bs_def ex_key_ok ex_deref) (simp add: ex_ob_def ex_range_def)
qed

section \<open>The invariant\<close>

text \<open>
  Taking a slice from the pool for a block (creating the entry of the block when there is
  none) maps no byte, keeps the invariant of the index with the caller as the holder of the
  new slice, and makes \<open>slice->ob\<close> point to the entry of the block.
\<close>
theorem index_alloc_slice_ok:
  assumes "fastcommon E" "index_ok E X st" "key_ok k" "1 \<le> n"
    "ob_index_alloc_slice_ex E junk k n st = (Some slice, st')"
  shows "index_ok E (X(sl_ptr slice := n)) st' \<and> byte_map st' = byte_map st \<and>
    sl_ptr slice \<notin> ptrs (all_slices st') \<and>
    (\<exists>ob. ob_deref st' (sl_ob slice) = Some ob \<and> ob_bkey ob = k)"
  using fastcommon.alloc_slice_index_ok [OF assms] fastcommon.alloc_slice_map [OF assms(1) _ assms(3,5)] assms(2)
  by (auto simp: index_ok_def)

theorem index_alloc_slice_ok_witness:
  "\<exists>slice st'. ob_index_alloc_slice_ex list_env ex_new ex_key2 1 ex_ix = (Some slice, st') \<and>
     index_ok list_env (ex_X(sl_ptr slice := 1)) st' \<and> byte_map st' = byte_map ex_ix"
proof -
  have "fst (ob_index_alloc_slice_ex list_env ex_new ex_key2 1 ex_ix) \<noteq> None" by code_simp
  then obtain slice st' where
    run: "ob_index_alloc_slice_ex list_env ex_new ex_key2 1 ex_ix = (Some slice, st')" by (metis not_None_eq prod.collapse)
  from index_alloc_slice_ok [OF list_fc.fastcommon_axioms ex_index_ok ex_key2_ok _ run] run show ?thesis by simp
qed

text \<open>
  Property C19. Adding a slice keeps the invariant of the whole index: well-formed table, exact
  reference counts (the caller keeps its reference and the index gets one of its own), and
  trunk ledgers that hold exactly the slices of all blocks.
\<close>
theorem index_add_slice_keeps_invariant:
  assumes "fastcommon E" "index_ok E X st" "ob_deref st (sl_ob slice) = Some ob"
    "is_reclaim \<or> ob_reclaiming_count ob \<le> 0" "0 < sl_length slice"
    "1 \<le> X (sl_ptr slice)" "sl_ptr slice \<notin> ptrs (all_slices st)"
    "booked E (ix_mgr st) (trunk_key slice) \<noteq> None"
    "ob_index_add_slice_ex E sched slice want is_reclaim st = Some (0, sn, inc, st')"
  shows "index_ok E X st'"
  by (rule fastcommon.add_ex_index_ok [OF assms(1-7) _ assms(9)]) (rule assms(8))

theorem index_add_slice_keeps_invariant_witness:
  "\<exists>sn inc st'. ob_index_add_slice_ex list_env [] ex_new True False ex_ix = Some (0, sn, inc, st') \<and>
     index_ok list_env ex_X st'"
proof -
  from some_fst [OF ex_ix_runs(1)] obtain sn inc st' where
    run: "ob_index_add_slice_ex list_env [] ex_new True False ex_ix = Some (0, sn, inc, st')" by auto
  have facts: "ob_deref ex_ix (sl_ob ex_new) = Some ex_ob" "1 \<le> ex_X (sl_ptr ex_new)"
    "sl_ptr ex_new \<notin> ptrs (all_slices ex_ix)"
    using ex_deref by (simp_all add: ex_new_def ex_slice_def ex_X_def ex_all_slices ex_chain_def)
  have "booked list_env (ix_mgr ex_ix) (trunk_key ex_new) \<noteq> None"
    using ex_new_facts(2) by (simp add: ex_ix_def ex_st_def)
  from index_add_slice_keeps_invariant [OF list_fc.fastcommon_axioms ex_index_ok facts(1) _ ex_new_facts(1)
      facts(2,3) this run] run
  show ?thesis by (simp add: ex_ob_def)
qed

text \<open>
  Deleting a range keeps the invariant of the whole index, also when the block loses its
  last slice and its entry is removed.
\<close>
theorem index_delete_slices_keeps_invariant:
  assumes "fastcommon E" "index_ok E X st" "key_ok (bs_block key)" "tab st (block_id (bs_block key)) = Some ob"
    "is_reclaim \<or> ob_reclaiming_count ob \<le> 0" "0 < ss_length (bs_slice key)"
    "ob_index_delete_slices_ex E sched key want is_reclaim st = Some (0, sn, dec, st')"
  shows "index_ok E X st'"
  by (rule fastcommon.delete_ex_index_ok [OF assms])

theorem index_delete_slices_keeps_invariant_witness:
  "\<exists>sn dec st'. ob_index_delete_slices_ex list_env [] ex_bs True False ex_ix = Some (0, sn, dec, st') \<and>
     index_ok list_env ex_X st'"
proof -
  from some_fst [OF ex_ix_runs(2)] obtain sn dec st' where
    run: "ob_index_delete_slices_ex list_env [] ex_bs True False ex_ix = Some (0, sn, dec, st')" by auto
  from index_delete_slices_keeps_invariant [OF list_fc.fastcommon_axioms ex_index_ok _ _ _ _ run] run show ?thesis
    by (simp add: ex_bs_def ex_key_ok ex_deref) (simp add: ex_ob_def ex_range_def)
qed

text \<open>
  Deleting a block keeps the invariant of the whole index: its slices are struck from the
  ledgers of their trunks and released, and its entry is removed.
\<close>
theorem index_delete_block_keeps_invariant:
  assumes "fastcommon E" "index_ok E X st" "key_ok k" "tab st (block_id k) = Some ob"
    "is_reclaim \<or> ob_reclaiming_count ob \<le> 0"
    "ob_index_delete_block_ex E sched k want is_reclaim st = Some (r, sn, dec, st')"
  shows "index_ok E X st'"
  by (rule fastcommon.delete_block_index_ok [OF assms])

theorem index_delete_block_keeps_invariant_witness:
  "\<exists>sn dec st'. ob_index_delete_block_ex list_env [] ex_key True False ex_ix = Some (0, sn, dec, st') \<and>
     index_ok list_env ex_X st'"
proof -
  from some_fst [OF ex_ix_runs(3)] obtain sn dec st' where
    run: "ob_index_delete_block_ex list_env [] ex_key True False ex_ix = Some (0, sn, dec, st')" by auto
  from index_delete_block_keeps_invariant [OF list_fc.fastcommon_axioms ex_index_ok ex_key_ok(1) ex_deref(2) _ run] run
  show ?thesis by (simp add: ex_ob_def)
qed

section \<open>Waiting for a reclaim\<close>



text \<open>
  The predecessor in the bucket is looked up before the wait and used after it. Here block 11 is
  the first of its bucket and locked for a reclaim, and a caller waits to delete it. Another
  thread then writes to block 0, which is linked in front of block 11, and the reclaim ends.
  The caller goes on, sets the head of the bucket to what is behind block 11, and the new block
  is no longer in the index.
\<close>

definition ex_key0 :: FSBlockKey where
  "ex_key0 = fs_calc_block_hashcode \<lparr>bk_oid = 0, bk_offset = 0, bk_hash_code = 0\<rparr>"

definition ex_other_thread :: "ob_index \<Rightarrow> ob_index" where
  "ex_other_thread st =
     (case ob_index_alloc_slice_ex list_env ex_new ex_key0 1 st of
        (None, st1) \<Rightarrow> st1
      | (Some slice, st1) \<Rightarrow>
          (case ob_index_add_slice_ex list_env [] slice True False st1 of
             None \<Rightarrow> st1
           | Some (_, _, _, st2) \<Rightarrow> snd (ob_index_reclaim_unlock 1 st2)))"

definition block_slices :: "FSBlockKey \<Rightarrow> ob_index \<Rightarrow> OBSliceEntry list" where
  "block_slices k st = (case tab st (block_id k) of None \<Rightarrow> [] | Some ob \<Rightarrow> ob_slices ob)"


end
