(* ===== verification/Aptr_Array.thy ===== *)
theory Aptr_Array
  imports Trunk_Allocator
begin

text \<open>
  The arrays of available and of full allocators (\<open>src/server/storage/storage_allocator.c\<close>,
  \<open>storage_allocator.h\<close>): which store paths the space allocation may choose from. An allocator
  is named by the index of its store path, which is also what the arrays are ordered by. An
  array has room for \<open>aa_alloc\<close> allocators; a move works on copies and switches the pointers.
\<close>

section \<open>Operations\<close>

definition CMP_APTR_BY_PINDEX :: "nat \<Rightarrow> nat \<Rightarrow> int" where
  "CMP_APTR_BY_PINDEX a1 a2 = int a1 - int a2"

text \<open>The position of the first element that is not smaller, and whether it is equal.\<close>

fun aptr_scan :: "nat \<Rightarrow> nat list \<Rightarrow> nat \<times> bool" where
  "aptr_scan a [] = (0, False)"
| "aptr_scan a (x # xs) =
     (let r = CMP_APTR_BY_PINDEX a x
      in if r < 0 then (0, False) else if r = 0 then (0, True)
         else (case aptr_scan a xs of (pos, dup) \<Rightarrow> (Suc pos, dup)))"

definition add_to_aptr_array :: "FSTrunkAllocatorPtrArray \<Rightarrow> nat \<Rightarrow> int \<times> FSTrunkAllocatorPtrArray" where
  "add_to_aptr_array arr a =
     (case aptr_scan a (aa_items arr) of (pos, dup) \<Rightarrow>
        if dup then (EEXIST, arr)
        else if aa_alloc arr \<le> int (length (aa_items arr)) then (ENOSPC, arr)
        else (0, arr\<lparr>aa_items := take pos (aa_items arr) @ [a] @ drop pos (aa_items arr)\<rparr>))"

fun aptr_find :: "nat \<Rightarrow> nat list \<Rightarrow> nat" where
  "aptr_find a [] = 0"
| "aptr_find a (x # xs) = (if CMP_APTR_BY_PINDEX x a = 0 then 0 else Suc (aptr_find a xs))"

definition remove_from_aptr_array :: "FSTrunkAllocatorPtrArray \<Rightarrow> nat \<Rightarrow> int \<times> FSTrunkAllocatorPtrArray" where
  "remove_from_aptr_array arr a =
     (let pp = aptr_find a (aa_items arr)
      in if pp = length (aa_items arr) then (ENOENT, arr)
         else (0, arr\<lparr>aa_items := take pp (aa_items arr) @ drop (Suc pp) (aa_items arr)\<rparr>))"

definition duplicate_aptr_array :: "fc_env \<Rightarrow> FSTrunkAllocatorPtrArray \<Rightarrow> nat \<Rightarrow>
    FSTrunkAllocatorPtrArray option" where
  "duplicate_aptr_array E arr call = (if env_task_alloc E call then Some arr else None)"

text \<open>
  Moving an allocator from one array to the other. The search in the source array is
  \<open>bsearch\<close>, modelled by what it answers on an array ordered by path index. The result is the
  status and the two arrays; a failed second step leaves the first one done.
\<close>

definition fs_move_allocator_ptr_array :: "fc_env \<Rightarrow> nat \<Rightarrow> nat \<Rightarrow>
    FSTrunkAllocatorPtrArray \<Rightarrow> FSTrunkAllocatorPtrArray \<Rightarrow>
    int \<times> FSTrunkAllocatorPtrArray \<times> FSTrunkAllocatorPtrArray" where
  "fs_move_allocator_ptr_array E call a src dest =
     (if a \<notin> set (aa_items src) then (ENOENT, src, dest)
      else
        (case duplicate_aptr_array E src call of
           None \<Rightarrow> (ENOMEM, src, dest)
         | Some new_src \<Rightarrow>
             (case duplicate_aptr_array E dest (Suc call) of
                None \<Rightarrow> (ENOMEM, src, dest)
              | Some new_dest \<Rightarrow>
                  (case remove_from_aptr_array new_src a of (result, new_src) \<Rightarrow>
                     if result \<noteq> 0 then (result, src, dest)
                     else
                       (case add_to_aptr_array new_dest a of (result, new_dest) \<Rightarrow>
                          if result \<noteq> 0 then (result, new_src, dest)
                          else (0, new_src, new_dest))))))"

definition fs_add_to_avail_aptr_array :: "fc_env \<Rightarrow> nat \<Rightarrow> FSStorageAllocatorManager \<Rightarrow>
    int \<times> FSStorageAllocatorManager" where
  "fs_add_to_avail_aptr_array E a m =
     (case fs_move_allocator_ptr_array E (am_calls m) a (am_full m) (am_avail m) of (result, full, avail) \<Rightarrow>
        (result, m\<lparr>am_full := full, am_avail := avail, am_calls := am_calls m + 2\<rparr>))"

definition fs_remove_from_avail_aptr_array :: "fc_env \<Rightarrow> nat \<Rightarrow> FSStorageAllocatorManager \<Rightarrow>
    int \<times> FSStorageAllocatorManager" where
  "fs_remove_from_avail_aptr_array E a m =
     (case fs_move_allocator_ptr_array E (am_calls m) a (am_avail m) (am_full m) of (result, avail, full) \<Rightarrow>
        (let m1 = m\<lparr>am_full := full, am_avail := avail, am_calls := am_calls m + 2\<rparr>
         in (result, if result = 0
                     then upd_path_info a (\<lambda>q. q\<lparr>pi_trunk_last_used := pi_trunk_used q\<rparr>) m1 else m1)))"

definition storage_allocator_avail_count :: "FSStorageAllocatorManager \<Rightarrow> int" where
  "storage_allocator_avail_count m = int (length (aa_items (am_avail m)))"

text \<open>
  Filling the two arrays at the start: an allocator with enough free trunks is available, the
  others are full and their \<open>last_used\<close> is set so that the next check asks for a trunk.
\<close>

definition trunk_allocator_is_available :: "FSTrunkAllocator \<Rightarrow> bool" where
  "trunk_allocator_is_available a \<longleftrightarrow> fl_count (ta_freelist a) \<ge> fl_water_mark (ta_freelist a)"

fun init_aptr_loop :: "int \<Rightarrow> nat list \<Rightarrow> FSStorageAllocatorManager \<Rightarrow> FSStorageAllocatorManager" where
  "init_aptr_loop trunk_file_size [] m = m"
| "init_aptr_loop trunk_file_size (i # rest) m =
     (case am_allocators m i of
        None \<Rightarrow> init_aptr_loop trunk_file_size rest m
      | Some a \<Rightarrow>
          if trunk_allocator_is_available a then
            init_aptr_loop trunk_file_size rest (m\<lparr>am_avail := snd (add_to_aptr_array (am_avail m) i)\<rparr>)
          else
            init_aptr_loop trunk_file_size rest
              ((upd_path_info i (\<lambda>q. q\<lparr>pi_trunk_last_used := pi_trunk_used q + trunk_file_size\<rparr>) m)
                 \<lparr>am_full := snd (add_to_aptr_array (am_full m) i)\<rparr>))"

definition init_allocator_ptr_array :: "fc_env \<Rightarrow> int \<Rightarrow> int \<Rightarrow> nat list \<Rightarrow> FSStorageAllocatorManager \<Rightarrow>
    int \<times> FSStorageAllocatorManager" where
  "init_allocator_ptr_array E room trunk_file_size all m =
     (if \<not> env_task_alloc E (am_calls m) then (ENOMEM, m\<lparr>am_calls := am_calls m + 1\<rparr>)
      else if \<not> env_task_alloc E (am_calls m + 1) then (ENOMEM, m\<lparr>am_calls := am_calls m + 2\<rparr>)
      else (0, init_aptr_loop trunk_file_size all
                 (m\<lparr>am_full := \<lparr>aa_alloc = room, aa_items = []\<rparr>, am_avail := \<lparr>aa_alloc = room, aa_items = []\<rparr>,
                    am_calls := am_calls m + 2\<rparr>)))"

section \<open>Facts\<close>

text \<open>Well-formed arrays: increasing indices, at most as many as there is room for.\<close>

definition aptr_ok :: "FSTrunkAllocatorPtrArray \<Rightarrow> bool" where
  "aptr_ok arr \<longleftrightarrow> sorted_wrt (<) (aa_items arr) \<and> int (length (aa_items arr)) \<le> aa_alloc arr"

lemma aptr_scan_split:
  assumes "sorted_wrt (<) xs" "aptr_scan a xs = (pos, dup)"
  shows "dup \<longleftrightarrow> a \<in> set xs" "pos \<le> length xs"
    "\<not> dup \<Longrightarrow> \<forall>x\<in>set (take pos xs). x < a" "\<not> dup \<Longrightarrow> \<forall>x\<in>set (drop pos xs). a < x"
  using assms
proof (induction xs arbitrary: pos)
  case (Cons x xs)
  {
    case 1 with Cons.IH(1) show ?case by (auto simp: CMP_APTR_BY_PINDEX_def Let_def split: if_splits prod.splits)
  next
    case 2 with Cons.IH(2) show ?case by (auto simp: CMP_APTR_BY_PINDEX_def Let_def split: if_splits prod.splits)
  next
    case 3 with Cons.IH(3) show ?case by (auto simp: CMP_APTR_BY_PINDEX_def Let_def split: if_splits prod.splits)
  next
    case 4 with Cons.IH(4) show ?case by (auto simp: CMP_APTR_BY_PINDEX_def Let_def split: if_splits prod.splits)
  }
qed auto

lemma add_to_aptr_array_new:
  assumes "aptr_ok arr" "a \<notin> set (aa_items arr)" "int (length (aa_items arr)) < aa_alloc arr"
  shows "\<exists>arr'. add_to_aptr_array arr a = (0, arr') \<and> aptr_ok arr' \<and>
    set (aa_items arr') = insert a (set (aa_items arr)) \<and> aa_alloc arr' = aa_alloc arr"
proof -
  obtain pos dup where s: "aptr_scan a (aa_items arr) = (pos, dup)" by fastforce
  have srt: "sorted_wrt (<) (aa_items arr)" using assms(1) by (simp add: aptr_ok_def)
  note sp = aptr_scan_split [OF srt s]
  let ?new = "take pos (aa_items arr) @ [a] @ drop pos (aa_items arr)"
  have "sorted_wrt (<) (take pos (aa_items arr) @ drop pos (aa_items arr))" using srt by simp
  then have "sorted_wrt (<) ?new"
    using sp(1,3,4) assms(2) unfolding sorted_wrt_append by (auto intro: less_trans)
  moreover have "set ?new = insert a (set (aa_items arr))"
    using append_take_drop_id [of pos "aa_items arr"] by (metis (no_types) Un_insert_right append_Cons append_Nil list.simps(15) set_append)
  moreover have "int (length ?new) \<le> aa_alloc arr" using assms(3) sp(2) by simp
  ultimately show ?thesis using s sp(1) assms by (simp add: add_to_aptr_array_def aptr_ok_def)
qed

lemma aptr_find_split:
  "aptr_find a xs = length (takeWhile (\<lambda>x. x \<noteq> a) xs)"
  by (induction xs) (auto simp: CMP_APTR_BY_PINDEX_def)

lemma remove_from_aptr_array_mem:
  assumes "aptr_ok arr" "a \<in> set (aa_items arr)"
  shows "\<exists>arr'. remove_from_aptr_array arr a = (0, arr') \<and> aptr_ok arr' \<and>
    set (aa_items arr') = set (aa_items arr) - {a} \<and> aa_alloc arr' = aa_alloc arr \<and>
    length (aa_items arr) = Suc (length (aa_items arr'))"
proof -
  from assms(2) obtain ys zs where xs: "aa_items arr = ys @ a # zs" "a \<notin> set ys"
    by (metis split_list_first)
  then have "takeWhile (\<lambda>x. x \<noteq> a) (aa_items arr) = ys" by (simp add: takeWhile_append)
  then have "aptr_find a (aa_items arr) = length ys" by (simp add: aptr_find_split)
  then have r: "remove_from_aptr_array arr a = (0, arr\<lparr>aa_items := ys @ zs\<rparr>)"
    using xs(1) by (simp add: remove_from_aptr_array_def)
  have "sorted_wrt (<) (ys @ a # zs)" using assms(1) xs(1) by (simp add: aptr_ok_def)
  then have "sorted_wrt (<) (ys @ zs)" "a \<notin> set zs" by (auto simp: sorted_wrt_append)
  then show ?thesis using r xs assms(1) by (auto simp: aptr_ok_def)
qed

lemma move_aptr:
  assumes ok: "aptr_ok src" "aptr_ok dest" and disj: "set (aa_items src) \<inter> set (aa_items dest) = {}"
    and room: "int (length (aa_items src) + length (aa_items dest)) \<le> aa_alloc dest"
    and run: "fs_move_allocator_ptr_array E c a src dest = (r, src', dest')"
  shows "(r = 0 \<and> a \<in> set (aa_items src) \<and> aptr_ok src' \<and> aptr_ok dest' \<and>
      set (aa_items src') = set (aa_items src) - {a} \<and> set (aa_items dest') = insert a (set (aa_items dest)) \<and>
      aa_alloc src' = aa_alloc src \<and> aa_alloc dest' = aa_alloc dest) \<or>
    (src' = src \<and> dest' = dest \<and> (r = ENOENT \<and> a \<notin> set (aa_items src) \<or> r = ENOMEM))"
proof (cases "a \<in> set (aa_items src) \<and> env_task_alloc E c \<and> env_task_alloc E (Suc c)")
  case True
  from remove_from_aptr_array_mem [OF ok(1), of a] True obtain s1 where
    s1: "remove_from_aptr_array src a = (0, s1)" "aptr_ok s1" "set (aa_items s1) = set (aa_items src) - {a}"
    "aa_alloc s1 = aa_alloc src" "length (aa_items src) = Suc (length (aa_items s1))" by blast
  have "a \<notin> set (aa_items dest)" "int (length (aa_items dest)) < aa_alloc dest"
    using True disj room s1(5) by auto
  from add_to_aptr_array_new [OF ok(2) this] obtain d1 where
    d1: "add_to_aptr_array dest a = (0, d1)" "aptr_ok d1" "set (aa_items d1) = insert a (set (aa_items dest))"
    "aa_alloc d1 = aa_alloc dest" by blast
  from run True s1(1) d1(1) have "r = 0" "src' = s1" "dest' = d1"
    by (simp_all add: fs_move_allocator_ptr_array_def duplicate_aptr_array_def)
  then show ?thesis using True s1 d1 by simp
next
  case False
  then show ?thesis
    using run by (auto simp: fs_move_allocator_ptr_array_def duplicate_aptr_array_def split: if_splits)
qed

section \<open>Properties\<close>

text \<open>The arrays of a manager: every store path of \<open>P\<close> is in exactly one of them.\<close>

definition aptr_split :: "nat set \<Rightarrow> FSStorageAllocatorManager \<Rightarrow> bool" where
  "aptr_split P m \<longleftrightarrow> aptr_ok (am_full m) \<and> aptr_ok (am_avail m) \<and>
     set (aa_items (am_full m)) \<inter> set (aa_items (am_avail m)) = {} \<and>
     set (aa_items (am_full m)) \<union> set (aa_items (am_avail m)) = P \<and>
     int (card P) \<le> aa_alloc (am_full m) \<and> int (card P) \<le> aa_alloc (am_avail m)"

lemma aptr_split_room:
  assumes "aptr_split P m"
  shows "length (aa_items (am_full m)) + length (aa_items (am_avail m)) = card P"
proof -
  have "distinct (aa_items (am_full m))" "distinct (aa_items (am_avail m))"
    using assms by (auto simp: aptr_split_def aptr_ok_def strict_sorted_iff)
  then have "length (aa_items (am_full m)) + length (aa_items (am_avail m)) =
      card (set (aa_items (am_full m)) \<union> set (aa_items (am_avail m)))"
    using assms by (subst card_Un_disjoint) (simp_all add: distinct_card aptr_split_def)
  then show ?thesis using assms by (simp add: aptr_split_def)
qed

lemma moves_keep_split:
  assumes "aptr_split P m"
  shows "(case fs_add_to_avail_aptr_array E a m of (r, m') \<Rightarrow> aptr_split P m' \<and>
      (if r = 0 then a \<in> set (aa_items (am_avail m'))
       else am_full m' = am_full m \<and> am_avail m' = am_avail m \<and>
            (r = ENOMEM \<or> r = ENOENT \<and> a \<notin> set (aa_items (am_full m))))) \<and>
    (case fs_remove_from_avail_aptr_array E a m of (r, m') \<Rightarrow> aptr_split P m' \<and>
      (if r = 0 then a \<in> set (aa_items (am_full m'))
       else am_full m' = am_full m \<and> am_avail m' = am_avail m \<and>
            (r = ENOMEM \<or> r = ENOENT \<and> a \<notin> set (aa_items (am_avail m)))))"
proof -
  have ok: "aptr_ok (am_full m)" "aptr_ok (am_avail m)"
    and dj: "set (aa_items (am_full m)) \<inter> set (aa_items (am_avail m)) = {}"
      "set (aa_items (am_avail m)) \<inter> set (aa_items (am_full m)) = {}"
    and rm: "int (length (aa_items (am_full m)) + length (aa_items (am_avail m))) \<le> aa_alloc (am_avail m)"
      "int (length (aa_items (am_avail m)) + length (aa_items (am_full m))) \<le> aa_alloc (am_full m)"
    using assms(1) aptr_split_room [OF assms(1)] by (auto simp: aptr_split_def)
  obtain r1 f1 a1 where 1: "fs_move_allocator_ptr_array E (am_calls m) a (am_full m) (am_avail m) = (r1, f1, a1)"
    by (metis prod_cases3)
  obtain r2 a2 f2 where 2: "fs_move_allocator_ptr_array E (am_calls m) a (am_avail m) (am_full m) = (r2, a2, f2)"
    by (metis prod_cases3)
  note s = assms(1) [unfolded aptr_split_def]
  have "aptr_split P (m\<lparr>am_full := f1, am_avail := a1\<rparr>) \<and> (if r1 = 0 then a \<in> set (aa_items a1)
      else f1 = am_full m \<and> a1 = am_avail m \<and> (r1 = ENOMEM \<or> r1 = ENOENT \<and> a \<notin> set (aa_items (am_full m))))"
    using move_aptr [OF ok dj(1) rm(1) 1] s unfolding aptr_split_def by (elim disjE) auto
  moreover have "aptr_split P (m\<lparr>am_full := f2, am_avail := a2\<rparr>) \<and> (if r2 = 0 then a \<in> set (aa_items f2)
      else f2 = am_full m \<and> a2 = am_avail m \<and> (r2 = ENOMEM \<or> r2 = ENOENT \<and> a \<notin> set (aa_items (am_avail m))))"
    using move_aptr [OF ok(2,1) dj(2) rm(2) 2] s unfolding aptr_split_def by (elim disjE) auto
  ultimately show ?thesis using assms
    by (cases "r2 = 0") (simp_all add: fs_add_to_avail_aptr_array_def fs_remove_from_avail_aptr_array_def 1 2 Let_def
        aptr_split_def upd_path_info_def upd_allocator_def)
qed

text \<open>
  Marking a store path as full or as available moves it from one array to the other and
  keeps both sorted: every store path stays in exactly one of the two arrays. The move fails
  only when the path is not in the array it should leave, or for lack of memory, and then
  nothing changes.
\<close>
theorem full_avail_partition:
  assumes "aptr_split P m"
  shows "(case fs_add_to_avail_aptr_array E a m of (r, m') \<Rightarrow> aptr_split P m' \<and>
      (if r = 0 then a \<in> set (aa_items (am_avail m'))
       else am_full m' = am_full m \<and> am_avail m' = am_avail m \<and>
            (r = ENOMEM \<or> r = ENOENT \<and> a \<notin> set (aa_items (am_full m))))) \<and>
    (case fs_remove_from_avail_aptr_array E a m of (r, m') \<Rightarrow> aptr_split P m' \<and>
      (if r = 0 then a \<in> set (aa_items (am_full m'))
       else am_full m' = am_full m \<and> am_avail m' = am_avail m \<and>
            (r = ENOMEM \<or> r = ENOENT \<and> a \<notin> set (aa_items (am_avail m)))))"
  by (rule moves_keep_split [OF assms])

end
