(* ===== verification/Trunk_Freelist.thy ===== *)
theory Trunk_Freelist
  imports Aptr_Array
begin

text \<open>
  The free lists of trunks and the allocation of space in them
  (\<open>src/server/storage/trunk_freelist.c\<close>, \<open>trunk_maker_allocate_ex\<close> of \<open>trunk_maker.c\<close> and
  parts of \<open>trunk_allocator.c\<close>, \<open>.h\<close>). There is one free list for each store path and one for
  reclaiming. Space is taken from the head of a list: a request that does not fit into the
  head trunk is split over it and the next one.

  While a caller waits for a new trunk it sleeps on the condition variable of the free list; as
  in the block index, \<open>sched\<close> says what the other threads do at each wake-up, and \<open>None\<close> is the
  outcome that the caller still sleeps. Trunk maker tasks go to a thread chosen by the path
  index; the model keeps them in one list.
\<close>

section \<open>Free lists and tasks\<close>

datatype freelist_ref = FL_PATH nat | FL_RECLAIM

datatype FSTrunkFreelistType = fs_freelist_type_none | fs_freelist_type_normal | fs_freelist_type_reclaim

definition get_freelist :: "freelist_ref \<Rightarrow> FSStorageAllocatorManager \<Rightarrow> FSTrunkFreelist" where
  "get_freelist fl m =
     (case fl of
        FL_RECLAIM \<Rightarrow> am_reclaim_freelist m
      | FL_PATH i \<Rightarrow> (case am_allocators m i of
                        None \<Rightarrow> \<lparr>fl_count = 0, fl_water_mark = 0, fl_trunks = []\<rparr>
                      | Some a \<Rightarrow> ta_freelist a))"

definition upd_freelist :: "freelist_ref \<Rightarrow> (FSTrunkFreelist \<Rightarrow> FSTrunkFreelist) \<Rightarrow>
    FSStorageAllocatorManager \<Rightarrow> FSStorageAllocatorManager" where
  "upd_freelist fl f m =
     (case fl of
        FL_RECLAIM \<Rightarrow> m\<lparr>am_reclaim_freelist := f (am_reclaim_freelist m)\<rparr>
      | FL_PATH i \<Rightarrow> upd_allocator i (\<lambda>a. a\<lparr>ta_freelist := f (ta_freelist a)\<rparr>) m)"

abbreviation fl_list :: "freelist_ref \<Rightarrow> FSStorageAllocatorManager \<Rightarrow> nat list" where
  "fl_list fl m \<equiv> fl_trunks (get_freelist fl m)"

definition trunk_freelist_init :: FSTrunkFreelist where
  "trunk_freelist_init = \<lparr>fl_count = 0, fl_water_mark = 2, fl_trunks = []\<rparr>"

definition trunk_allocator_before_make_trunk :: "nat \<Rightarrow> FSStorageAllocatorManager \<Rightarrow> FSStorageAllocatorManager" where
  "trunk_allocator_before_make_trunk i =
     upd_allocator i (\<lambda>a. a\<lparr>ta_creating_trunks := ta_creating_trunks a + 1\<rparr>)"

definition trunk_allocator_after_make_trunk :: "nat \<Rightarrow> int \<Rightarrow> FSStorageAllocatorManager \<Rightarrow> FSStorageAllocatorManager" where
  "trunk_allocator_after_make_trunk i result =
     upd_allocator i (\<lambda>a. a\<lparr>ta_last_errno := result, ta_creating_trunks := ta_creating_trunks a - 1\<rparr>)"

definition trunk_maker_allocate_ex :: "fc_env \<Rightarrow> nat \<Rightarrow> bool \<Rightarrow> FSStorageAllocatorManager \<Rightarrow>
    int \<times> FSStorageAllocatorManager" where
  "trunk_maker_allocate_ex E i urgent m =
     (let m1 = m\<lparr>am_calls := Suc (am_calls m)\<rparr>
      in if \<not> env_task_alloc E (am_calls m) then (ENOMEM, m1)
         else (0, (trunk_allocator_before_make_trunk i m1)
                    \<lparr>am_maker_tasks := am_maker_tasks m @ [(i, urgent)]\<rparr>))"

definition push_trunk_util_event_force :: "fc_env \<Rightarrow> nat \<Rightarrow> nat \<Rightarrow> trunk_util_event \<Rightarrow>
    FSStorageAllocatorManager \<Rightarrow> FSStorageAllocatorManager" where
  "push_trunk_util_event_force E i p event m =
     (case am_trunks m p of
        None \<Rightarrow> m
      | Some t \<Rightarrow>
          if tf_event t = event then m
          else
            (let m1 = upd_trunk p (\<lambda>t. t\<lparr>tf_event := event\<rparr>) m
             in if tf_event t = EVENT_NONE
                then upd_allocator i (\<lambda>a. a\<lparr>ta_queue := env_queue_push E (ta_queue a) p\<rparr>) m1
                else m1))"

section \<open>Changing a free list\<close>

definition TRUNK_ALLOC_SPACE :: "nat \<Rightarrow> int \<Rightarrow> FSStorageAllocatorManager \<Rightarrow>
    (FSTrunkSpaceWithVersion \<times> FSStorageAllocatorManager) option" where
  "TRUNK_ALLOC_SPACE p alloc_size m =
     (case am_trunks m p of
        None \<Rightarrow> None
      | Some t \<Rightarrow>
          (case am_allocators m (tf_allocator t) of
             None \<Rightarrow> None
           | Some a \<Rightarrow>
               Some (\<lparr>tv_space = \<lparr>ts_store = tf_allocator t, ts_id_info = tf_id_info t,
                                  ts_offset = tf_free_start t, ts_size = alloc_size\<rparr>,
                      tv_version = ta_current_version a + 1\<rparr>,
                 upd_path_info (tf_allocator t) (\<lambda>q. q\<lparr>pi_trunk_avail := pi_trunk_avail q - alloc_size\<rparr>)
                   (upd_trunk p (\<lambda>t. t\<lparr>tf_free_start := tf_free_start t + alloc_size\<rparr>)
                     (upd_allocator (tf_allocator t)
                       (\<lambda>a. a\<lparr>ta_current_version := ta_current_version a + 1\<rparr>) m)))))"

fun keep_water_mark_loop :: "fc_env \<Rightarrow> nat \<Rightarrow> nat \<Rightarrow> FSStorageAllocatorManager \<Rightarrow> FSStorageAllocatorManager" where
  "keep_water_mark_loop E i 0 m = m"
| "keep_water_mark_loop E i (Suc n) m = keep_water_mark_loop E i n (snd (trunk_maker_allocate_ex E i False m))"

definition trunk_freelist_keep_water_mark :: "fc_env \<Rightarrow> nat \<Rightarrow> FSStorageAllocatorManager \<Rightarrow> FSStorageAllocatorManager" where
  "trunk_freelist_keep_water_mark E i m =
     (let fl = get_freelist (FL_PATH i) m; cnt = fl_water_mark fl - fl_count fl
      in if cnt \<le> 0 then m else keep_water_mark_loop E i (nat cnt) m)"

definition trunk_freelist_add :: "freelist_ref \<Rightarrow> nat \<Rightarrow> FSStorageAllocatorManager \<Rightarrow> int \<times> FSStorageAllocatorManager" where
  "trunk_freelist_add fl p m =
     (case am_trunks m p of
        None \<Rightarrow> (FAULT, m)
      | Some t \<Rightarrow>
          (0, upd_path_info (tf_allocator t) (\<lambda>q. q\<lparr>pi_trunk_avail := pi_trunk_avail q + FS_TRUNK_AVAIL_SPACE t\<rparr>)
                (fs_set_trunk_status p FS_TRUNK_STATUS_ALLOCING
                  (upd_freelist fl (\<lambda>l. l\<lparr>fl_trunks := fl_trunks l @ [p], fl_count := fl_count l + 1\<rparr>) m))))"

definition trunk_allocator_add_to_freelist :: "nat \<Rightarrow> nat \<Rightarrow> FSStorageAllocatorManager \<Rightarrow>
    FSTrunkFreelistType \<times> FSStorageAllocatorManager" where
  "trunk_allocator_add_to_freelist i p m =
     (if fl_count (am_reclaim_freelist m) < fl_water_mark (am_reclaim_freelist m)
      then (fs_freelist_type_reclaim, snd (trunk_freelist_add FL_RECLAIM p m))
      else (fs_freelist_type_normal, snd (trunk_freelist_add (FL_PATH i) p m)))"

definition trunk_freelist_remove :: "fc_env \<Rightarrow> freelist_ref \<Rightarrow> FSStorageAllocatorManager \<Rightarrow> FSStorageAllocatorManager" where
  "trunk_freelist_remove E fl m =
     (case fl_list fl m of
        [] \<Rightarrow> m
      | p # rest \<Rightarrow>
          (case am_trunks m p of
             None \<Rightarrow> m
           | Some t \<Rightarrow>
               (let m1 = upd_freelist fl (\<lambda>l. l\<lparr>fl_trunks := rest, fl_count := fl_count l - 1\<rparr>) m;
                    m2 = fs_set_trunk_status p FS_TRUNK_STATUS_REPUSH m1;
                    m3 = push_trunk_util_event_force E (tf_allocator t) p EVENT_CREATE m2;
                    m4 = fs_set_trunk_status p FS_TRUNK_STATUS_NONE m3
                in if fl_count (get_freelist fl m4) < fl_water_mark (get_freelist fl m4)
                   then snd (trunk_maker_allocate_ex E (tf_allocator t) True m4) else m4)))"

section \<open>Waiting for a trunk\<close>

fun wait_trunk_cond :: "(FSStorageAllocatorManager \<Rightarrow> FSStorageAllocatorManager) list \<Rightarrow> nat \<Rightarrow> freelist_ref \<Rightarrow>
    FSStorageAllocatorManager \<Rightarrow>
    (FSStorageAllocatorManager \<times> (FSStorageAllocatorManager \<Rightarrow> FSStorageAllocatorManager) list) option" where
  "wait_trunk_cond sched i fl m =
     (case am_allocators m i of
        None \<Rightarrow> Some (m, sched)
      | Some a \<Rightarrow>
          if ta_creating_trunks a > 0 \<and> fl_list fl m = [] \<and> am_continue m then
            (case sched of [] \<Rightarrow> None | f # fs \<Rightarrow> wait_trunk_cond fs i fl (f m))
          else Some (m, sched))"

declare wait_trunk_cond.simps [simp del]

text \<open>The loop runs at most ten times: \<open>n\<close> is what is left of it, \<open>first\<close> says that \<open>i\<close> is 0.\<close>

fun waiting_avail_trunk :: "fc_env \<Rightarrow> nat \<Rightarrow> bool \<Rightarrow> (FSStorageAllocatorManager \<Rightarrow> FSStorageAllocatorManager) list \<Rightarrow>
    nat \<Rightarrow> freelist_ref \<Rightarrow> FSStorageAllocatorManager \<Rightarrow> (int \<times> FSStorageAllocatorManager) option" where
  "waiting_avail_trunk E 0 first sched i fl m = Some (0, m)"
| "waiting_avail_trunk E (Suc n) first sched i fl m =
     (case am_allocators m i of
        None \<Rightarrow> Some (FAULT, m)
      | Some a \<Rightarrow>
          (case (if ta_creating_trunks a = 0 \<and> (am_now m - ta_last_trigger_time a > 0 \<or> \<not> first)
                 then trunk_maker_allocate_ex E i True
                        (upd_allocator i (\<lambda>a. a\<lparr>ta_last_trigger_time := am_now m\<rparr>) m)
                 else (0, m)) of (result, m1) \<Rightarrow>
             if result \<noteq> 0 then Some (result, m1)
             else
               (case wait_trunk_cond sched i fl
                       (upd_allocator i (\<lambda>a. a\<lparr>ta_waiting_callers := ta_waiting_callers a + 1\<rparr>) m1) of
                  None \<Rightarrow> None
                | Some (m2, sched2) \<Rightarrow>
                    (let m3 = upd_allocator i (\<lambda>a. a\<lparr>ta_waiting_callers := ta_waiting_callers a - 1\<rparr>) m2
                     in if fl_list fl m3 \<noteq> [] \<or> map_option ta_last_errno (am_allocators m3 i) \<noteq> Some 0
                        then Some (0, m3)
                        else waiting_avail_trunk E n False sched2 i fl m3))))"

section \<open>Allocating space\<close>

text \<open>
  \<open>remain_bytes\<close> is an \<open>int\<close>: the free space of a trunk is cut to 32 bits. Where that gives 0 or
  less the program calls \<open>abort()\<close>; the model answers \<open>ABORT\<close>, which is no \<open>errno\<close>.
\<close>

abbreviation ABORT :: int where "ABORT \<equiv> -6"

type_synonym alloc_step = "int \<times> FSTrunkSpaceWithVersion list \<times> int \<times> FSStorageAllocatorManager"

definition alloc_first :: "fc_env \<Rightarrow> freelist_ref \<Rightarrow> bool \<Rightarrow> int \<Rightarrow> FSStorageAllocatorManager \<Rightarrow> alloc_step" where
  "alloc_first E fl is_normal aligned_size m =
     (case fl_list fl m of
        [] \<Rightarrow> (0, [], aligned_size, m)
      | p # _ \<Rightarrow>
          (case am_trunks m p of
             None \<Rightarrow> (FAULT, [], aligned_size, m)
           | Some t \<Rightarrow>
               (let remain_bytes = s32 (FS_TRUNK_AVAIL_SPACE t)
                in if remain_bytes < aligned_size then
                     if \<not> is_normal \<and> fl_count (get_freelist fl m) \<le> 1 then (EAGAIN, [], aligned_size, m)
                     else if remain_bytes \<le> 0 then (ABORT, [], aligned_size, m)
                     else
                       (case TRUNK_ALLOC_SPACE p remain_bytes m of
                          None \<Rightarrow> (FAULT, [], aligned_size, m)
                        | Some (space, m1) \<Rightarrow>
                            (0, [space], aligned_size - remain_bytes, trunk_freelist_remove E fl m1))
                   else (0, [], aligned_size, m))))"

definition alloc_last :: "fc_env \<Rightarrow> int \<Rightarrow> freelist_ref \<Rightarrow> int \<Rightarrow> FSTrunkSpaceWithVersion list \<Rightarrow>
    FSStorageAllocatorManager \<Rightarrow> int \<times> FSTrunkSpaceWithVersion list \<times> FSStorageAllocatorManager" where
  "alloc_last E discard_remain_space_size fl aligned_size spaces m =
     (case fl_list fl m of
        [] \<Rightarrow> (if am_continue m then ENOSPC else EINTR, spaces, m)
      | p # _ \<Rightarrow>
          (case am_trunks m p of
             None \<Rightarrow> (FAULT, spaces, m)
           | Some t \<Rightarrow>
               if aligned_size > FS_TRUNK_AVAIL_SPACE t then (EAGAIN, spaces, m)
               else
                 (case TRUNK_ALLOC_SPACE p aligned_size m of
                    None \<Rightarrow> (FAULT, spaces, m)
                  | Some (space, m1) \<Rightarrow>
                      (let left = FS_TRUNK_AVAIL_SPACE t - aligned_size
                       in if left < discard_remain_space_size
                          then (0, spaces @ [space],
                                upd_path_info (tf_allocator t) (\<lambda>q. q\<lparr>pi_trunk_avail := pi_trunk_avail q - left\<rparr>)
                                  (trunk_freelist_remove E fl m1))
                          else (0, spaces @ [space], m1)))))"

definition alloc_body :: "fc_env \<Rightarrow> int \<Rightarrow> (FSStorageAllocatorManager \<Rightarrow> FSStorageAllocatorManager) list \<Rightarrow>
    nat \<Rightarrow> freelist_ref \<Rightarrow> int \<Rightarrow> bool \<Rightarrow> FSStorageAllocatorManager \<Rightarrow>
    (int \<times> FSTrunkSpaceWithVersion list \<times> FSStorageAllocatorManager) option" where
  "alloc_body E discard sched i fl sz is_normal m =
     (case alloc_first E fl is_normal (env_align_ceil E sz FS_SPACE_ALIGN_SIZE) m of
        (result, spaces, aligned_size, m1) \<Rightarrow>
          if result \<noteq> 0 then Some (result, spaces, m1)
          else if fl_list fl m1 = [] then
            if \<not> is_normal then Some (EAGAIN, spaces, m1)
            else
              (case waiting_avail_trunk E 10 True sched i fl m1 of
                 None \<Rightarrow> None
               | Some (result, m2) \<Rightarrow>
                   if result \<noteq> 0 then Some (result, spaces, m2)
                   else Some (alloc_last E discard fl aligned_size spaces m2))
          else Some (alloc_last E discard fl aligned_size spaces m1))"

definition trunk_freelist_alloc_space :: "fc_env \<Rightarrow> int \<Rightarrow>
    (FSStorageAllocatorManager \<Rightarrow> FSStorageAllocatorManager) list \<Rightarrow> nat \<Rightarrow> freelist_ref \<Rightarrow> int \<Rightarrow> bool \<Rightarrow>
    FSStorageAllocatorManager \<Rightarrow> (int \<times> FSTrunkSpaceWithVersion list \<times> FSStorageAllocatorManager) option" where
  "trunk_freelist_alloc_space E discard sched i fl sz is_normal m =
     (case alloc_body E discard sched i fl sz is_normal m of
        None \<Rightarrow> None
      | Some (result, spaces, m1) \<Rightarrow>
          Some (result, spaces,
            if result = ENOSPC \<and> is_normal then snd (fs_remove_from_avail_aptr_array E i m1) else m1))"

end
