(* ===== verification/Freelist_Facts.thy ===== *)
theory Freelist_Facts
  imports Trunk_Freelist
begin

text \<open>
  The free space of the trunks as the allocation sees it: an abstract state that keeps the free
  lists, the extents of the trunks, the available bytes of the store paths and their allocation
  counters, with three abstract operations on it. The operations of \<open>Trunk_Freelist\<close> refine
  them, and the invariant of the free lists is proved on the abstract state.
\<close>

section \<open>The abstract state\<close>

record extent =
  ex_path :: nat
  ex_id :: FSTrunkIdInfo
  ex_size :: int
  ex_start :: int

record free_space =
  sp_list :: "freelist_ref \<Rightarrow> nat list"
  sp_cnt :: "freelist_ref \<Rightarrow> int"
  sp_trunk :: "nat \<rightharpoonup> extent"
  sp_avail :: "nat \<rightharpoonup> int"
  sp_version :: "nat \<rightharpoonup> int"

definition extent_of :: "FSTrunkFileInfo \<Rightarrow> extent" where
  "extent_of t = \<lparr>ex_path = tf_allocator t, ex_id = tf_id_info t, ex_size = tf_size t, ex_start = tf_free_start t\<rparr>"

definition free_space_of :: "FSStorageAllocatorManager \<Rightarrow> free_space" where
  "free_space_of m = \<lparr>sp_list = (\<lambda>fl. fl_list fl m), sp_cnt = (\<lambda>fl. fl_count (get_freelist fl m)),
     sp_trunk = (\<lambda>p. map_option extent_of (am_trunks m p)),
     sp_avail = (\<lambda>i. map_option (\<lambda>a. pi_trunk_avail (ta_path_info a)) (am_allocators m i)),
     sp_version = (\<lambda>i. map_option ta_current_version (am_allocators m i))\<rparr>"

abbreviation ex_left :: "extent \<Rightarrow> int" where
  "ex_left e \<equiv> ex_size e - ex_start e"

definition bump :: "nat \<Rightarrow> int \<Rightarrow> (nat \<rightharpoonup> int) \<Rightarrow> (nat \<rightharpoonup> int)" where
  "bump i d f = f(i := map_option (\<lambda>x. x + d) (f i))"

text \<open>Take \<open>n\<close> bytes of trunk \<open>p\<close>; put a trunk at the end of a list; take the head off a list.\<close>

definition take_space :: "nat \<Rightarrow> extent \<Rightarrow> int \<Rightarrow> free_space \<Rightarrow> free_space" where
  "take_space p e n S = S\<lparr>sp_trunk := (sp_trunk S)(p \<mapsto> e\<lparr>ex_start := ex_start e + n\<rparr>),
     sp_avail := bump (ex_path e) (- n) (sp_avail S), sp_version := bump (ex_path e) 1 (sp_version S)\<rparr>"

definition put_trunk :: "freelist_ref \<Rightarrow> nat \<Rightarrow> extent \<Rightarrow> free_space \<Rightarrow> free_space" where
  "put_trunk fl p e S = S\<lparr>sp_list := (sp_list S)(fl := sp_list S fl @ [p]), sp_cnt := (sp_cnt S)(fl := sp_cnt S fl + 1),
     sp_avail := bump (ex_path e) (ex_left e) (sp_avail S)\<rparr>"

definition retire_head :: "freelist_ref \<Rightarrow> extent \<Rightarrow> free_space \<Rightarrow> free_space" where
  "retire_head fl e S = S\<lparr>sp_list := (sp_list S)(fl := tl (sp_list S fl)), sp_cnt := (sp_cnt S)(fl := sp_cnt S fl - 1),
     sp_avail := bump (ex_path e) (- ex_left e) (sp_avail S)\<rparr>"

section \<open>Refinement\<close>

lemma bump_0 [simp]: "bump i 0 f = f"
  by (auto simp: bump_def option.map_ident)

lemma get_freelist_upd_trunk [simp]: "get_freelist fl (upd_trunk p f m) = get_freelist fl m"
  by (auto simp: get_freelist_def upd_trunk_def split: freelist_ref.splits)

lemma get_freelist_upd_allocator:
  "(\<And>a. ta_freelist (f a) = ta_freelist a) \<Longrightarrow> get_freelist fl (upd_allocator i f m) = get_freelist fl m"
  by (auto simp: get_freelist_def upd_allocator_def split: freelist_ref.splits option.splits)

lemma am_trunks_upd_freelist [simp]: "am_trunks (upd_freelist fl f m) = am_trunks m"
  by (simp add: upd_freelist_def split: freelist_ref.splits)

lemma get_freelist_upd_freelist:
  "(case fl of FL_RECLAIM \<Rightarrow> True | FL_PATH i \<Rightarrow> am_allocators m i \<noteq> None) \<Longrightarrow>
   get_freelist g (upd_freelist fl f m) = (if g = fl then f (get_freelist fl m) else get_freelist g m)"
  by (auto simp: get_freelist_def upd_freelist_def upd_allocator_def split: freelist_ref.splits option.splits)

lemma free_space_upd_trunk_same:
  "(\<And>t. extent_of (f t) = extent_of t) \<Longrightarrow> free_space_of (upd_trunk p f m) = free_space_of m"
  by (auto simp: free_space_of_def option.map_comp comp_def)

lemma free_space_upd_allocator_same:
  "(\<And>a. ta_freelist (f a) = ta_freelist a \<and> pi_trunk_avail (ta_path_info (f a)) = pi_trunk_avail (ta_path_info a)
      \<and> ta_current_version (f a) = ta_current_version a) \<Longrightarrow>
   free_space_of (upd_allocator i f m) = free_space_of m"
  by (auto simp: free_space_of_def get_freelist_upd_allocator option.map_comp comp_def fun_eq_iff)

lemma free_space_frame [simp]:
  "free_space_of (m\<lparr>am_calls := c\<rparr>) = free_space_of m"
  "free_space_of (m\<lparr>am_maker_tasks := k\<rparr>) = free_space_of m"
  "free_space_of (m\<lparr>am_full := fu\<rparr>) = free_space_of m"
  "free_space_of (m\<lparr>am_avail := av\<rparr>) = free_space_of m"
  by (simp_all add: free_space_of_def get_freelist_def cong: freelist_ref.case_cong)

lemma free_space_upd_path_info:
  "free_space_of (upd_path_info i (\<lambda>q. q\<lparr>pi_trunk_avail := pi_trunk_avail q + d\<rparr>) m) =
   (free_space_of m)\<lparr>sp_avail := bump i d (sp_avail (free_space_of m))\<rparr>"
  by (auto simp: free_space_of_def upd_path_info_def get_freelist_upd_allocator bump_def option.map_comp comp_def fun_eq_iff)

lemma free_space_sub_path_info:
  "free_space_of (upd_path_info i (\<lambda>q. q\<lparr>pi_trunk_avail := pi_trunk_avail q - d\<rparr>) m) =
   (free_space_of m)\<lparr>sp_avail := bump i (- d) (sp_avail (free_space_of m))\<rparr>"
  using free_space_upd_path_info [of i "- d" m] by simp

lemma free_space_set_status [simp]: "free_space_of (fs_set_trunk_status p s m) = free_space_of m"
  unfolding fs_set_trunk_status_def by (rule free_space_upd_trunk_same) (simp add: extent_of_def)

lemma free_space_push_event [simp]: "free_space_of (push_trunk_util_event_force E i p ev m) = free_space_of m"
  by (simp add: push_trunk_util_event_force_def Let_def free_space_upd_allocator_same
      free_space_upd_trunk_same extent_of_def split: option.splits)

lemma free_space_maker [simp]: "free_space_of (snd (trunk_maker_allocate_ex E i u m)) = free_space_of m"
  by (simp add: trunk_maker_allocate_ex_def trunk_allocator_before_make_trunk_def Let_def
      free_space_upd_allocator_same)

lemma free_space_remove_avail [simp]: "free_space_of (snd (fs_remove_from_avail_aptr_array E i m)) = free_space_of m"
  by (simp add: fs_remove_from_avail_aptr_array_def Let_def upd_path_info_def free_space_upd_allocator_same split: prod.splits)

lemma sp_simps:
  "sp_list (free_space_of m) fl = fl_list fl m" "sp_cnt (free_space_of m) fl = fl_count (get_freelist fl m)"
  "sp_trunk (free_space_of m) p = map_option extent_of (am_trunks m p)"
  "sp_avail (free_space_of m) i = map_option (\<lambda>a. pi_trunk_avail (ta_path_info a)) (am_allocators m i)"
  "sp_version (free_space_of m) i = map_option ta_current_version (am_allocators m i)"
  by (simp_all add: free_space_of_def)

text \<open>A list that is not empty belongs to a store path that exists.\<close>

lemma list_path_exists:
  "fl_list fl m \<noteq> [] \<Longrightarrow> (case fl of FL_RECLAIM \<Rightarrow> True | FL_PATH i \<Rightarrow> am_allocators m i \<noteq> None)"
  by (auto simp: get_freelist_def split: freelist_ref.splits option.splits)

lemma free_space_upd_freelist:
  assumes "case fl of FL_RECLAIM \<Rightarrow> True | FL_PATH i \<Rightarrow> am_allocators m i \<noteq> None"
  shows "free_space_of (upd_freelist fl f m) = (free_space_of m)
    \<lparr>sp_list := (sp_list (free_space_of m))(fl := fl_trunks (f (get_freelist fl m))),
     sp_cnt := (sp_cnt (free_space_of m))(fl := fl_count (f (get_freelist fl m)))\<rparr>"
proof -
  have "map_option (\<lambda>a. pi_trunk_avail (ta_path_info a)) (am_allocators (upd_freelist fl f m) i) =
      map_option (\<lambda>a. pi_trunk_avail (ta_path_info a)) (am_allocators m i)"
    "map_option ta_current_version (am_allocators (upd_freelist fl f m) i) =
      map_option ta_current_version (am_allocators m i)" for i
    by (auto simp: upd_freelist_def upd_allocator_def option.map_comp comp_def split: freelist_ref.splits)
  then show ?thesis
    by (simp add: free_space_of_def get_freelist_upd_freelist [OF assms] fun_eq_iff)
qed

lemma take_space_refines:
  assumes "TRUNK_ALLOC_SPACE p n m = Some (s, m')"
  shows "\<exists>t. am_trunks m p = Some t \<and> free_space_of m' = take_space p (extent_of t) n (free_space_of m) \<and>
    s = \<lparr>tv_space = \<lparr>ts_store = tf_allocator t, ts_id_info = tf_id_info t, ts_offset = tf_free_start t, ts_size = n\<rparr>,
         tv_version = the (sp_version (free_space_of m) (tf_allocator t)) + 1\<rparr>"
  using assms
  by (auto simp: TRUNK_ALLOC_SPACE_def free_space_sub_path_info take_space_def extent_of_def sp_simps bump_def
      split: option.splits)
     (auto simp: free_space_of_def get_freelist_upd_allocator fun_eq_iff extent_of_def)

lemma retire_head_refines:
  assumes "fl_list fl m = p # rest" "am_trunks m p = Some t"
  shows "free_space_of (upd_path_info (tf_allocator t)
      (\<lambda>q. q\<lparr>pi_trunk_avail := pi_trunk_avail q - FS_TRUNK_AVAIL_SPACE t\<rparr>) (trunk_freelist_remove E fl m)) =
    retire_head fl (extent_of t) (free_space_of m)"
proof -
  have "free_space_of (trunk_freelist_remove E fl m) =
     (free_space_of m)\<lparr>sp_list := (sp_list (free_space_of m))(fl := rest),
        sp_cnt := (sp_cnt (free_space_of m))(fl := sp_cnt (free_space_of m) fl - 1)\<rparr>"
    using assms list_path_exists [of fl m]
    by (simp add: trunk_freelist_remove_def Let_def free_space_upd_freelist sp_simps)
  then show ?thesis
    using assms by (simp add: free_space_sub_path_info retire_head_def extent_of_def sp_simps)
qed

lemma put_trunk_refines:
  assumes "case fl of FL_RECLAIM \<Rightarrow> True | FL_PATH i \<Rightarrow> am_allocators m i \<noteq> None" "am_trunks m p = Some t"
  shows "free_space_of (snd (trunk_freelist_add fl p m)) = put_trunk fl p (extent_of t) (free_space_of m)"
  using assms
  by (simp add: trunk_freelist_add_def free_space_upd_path_info free_space_upd_freelist put_trunk_def extent_of_def sp_simps)

section \<open>The invariant\<close>

text \<open>
  Free lists have no duplicates and the counter is the length; a listed trunk exists, has some
  space left, is smaller than 2 GB and, on the list of a store path, belongs to that path; the
  available bytes of a store path are what is left in its listed trunks.
\<close>

definition free_on :: "free_space \<Rightarrow> nat \<Rightarrow> nat set" where
  "free_on S i = {p \<in> set (sp_list S (FL_PATH i)) \<union> set (sp_list S FL_RECLAIM). map_option ex_path (sp_trunk S p) = Some i}"

definition left_of :: "free_space \<Rightarrow> nat \<Rightarrow> int" where
  "left_of S p = (case sp_trunk S p of None \<Rightarrow> 0 | Some e \<Rightarrow> ex_left e)"

definition listed :: "free_space \<Rightarrow> freelist_ref \<Rightarrow> nat \<Rightarrow> bool" where
  "listed S fl p \<longleftrightarrow> (\<exists>e. sp_trunk S p = Some e \<and> sp_avail S (ex_path e) \<noteq> None \<and>
     (fl = FL_PATH (ex_path e) \<or> fl = FL_RECLAIM))"

definition space_books :: "free_space \<Rightarrow> bool" where
  "space_books S \<longleftrightarrow>
     (\<forall>fl. sp_cnt S fl = int (length (sp_list S fl)) \<and> distinct (sp_list S fl)) \<and>
     (\<forall>fl. \<forall>p\<in>set (sp_list S fl). listed S fl p) \<and>
     (\<forall>i. set (sp_list S (FL_PATH i)) \<inter> set (sp_list S FL_RECLAIM) = {}) \<and>
     (\<forall>i x. sp_avail S i = Some x \<longrightarrow> x = sum (left_of S) (free_on S i))"

definition in_bounds :: "extent \<Rightarrow> bool" where
  "in_bounds e \<longleftrightarrow> 0 \<le> ex_start e \<and> ex_start e < ex_size e \<and> ex_size e < 2 ^ 31"

definition space_ok :: "free_space \<Rightarrow> bool" where
  "space_ok S \<longleftrightarrow> space_books S \<and> (\<forall>fl. \<forall>p\<in>set (sp_list S fl). \<forall>e. sp_trunk S p = Some e \<longrightarrow> in_bounds e)"

text \<open>What other threads may do meanwhile: space is taken from trunks, never given back.\<close>

definition grown :: "extent \<Rightarrow> extent \<Rightarrow> bool" where
  "grown e f \<longleftrightarrow> ex_path f = ex_path e \<and> ex_id f = ex_id e \<and> ex_size f = ex_size e \<and> ex_start e \<le> ex_start f"

definition later :: "free_space \<Rightarrow> free_space \<Rightarrow> bool" where
  "later S S' \<longleftrightarrow>
     (\<forall>p e. sp_trunk S p = Some e \<longrightarrow> (\<exists>f. sp_trunk S' p = Some f \<and> grown e f)) \<and>
     (\<forall>i v. sp_version S i = Some v \<longrightarrow> (\<exists>w. sp_version S' i = Some w \<and> v \<le> w))"

lemma later_refl [simp]: "later S S"
  by (simp add: later_def grown_def)

lemma laterD:
  assumes "later S T"
  shows "sp_trunk S p = Some e \<Longrightarrow> \<exists>f. sp_trunk T p = Some f \<and> grown e f"
    "sp_version S i = Some v \<Longrightarrow> \<exists>w. sp_version T i = Some w \<and> v \<le> w"
  using assms by (simp_all add: later_def)

lemma later_trans:
  assumes "later S T" "later T U"
  shows "later S U"
  unfolding later_def
proof (intro conjI allI impI)
  fix p e assume "sp_trunk S p = Some e"
  from laterD(1) [OF assms(1) this] obtain f where f: "sp_trunk T p = Some f" "grown e f" by blast
  from laterD(1) [OF assms(2) f(1)] f(2) show "\<exists>f. sp_trunk U p = Some f \<and> grown e f"
    by (auto simp: grown_def)
next
  fix i v assume "sp_version S i = Some v"
  from laterD(2) [OF assms(1) this] obtain w where w: "sp_version T i = Some w" "v \<le> w" by blast
  from laterD(2) [OF assms(2) w(1)] w(2) show "\<exists>w. sp_version U i = Some w \<and> v \<le> w" by auto
qed

lemma finite_free_on [simp]: "finite (free_on S i)"
  by (simp add: free_on_def)

lemma listed_one:
  assumes "space_books S" "p \<in> set (sp_list S fl)" "p \<in> set (sp_list S g)"
  shows "fl = g"
proof -
  have l: "listed S fl p" "listed S g p" using assms by (auto simp: space_books_def)
  have "\<not> (p \<in> set (sp_list S (FL_PATH i)) \<and> p \<in> set (sp_list S FL_RECLAIM))" for i
    using assms(1) by (fastforce simp: space_books_def)
  with l assms(2,3) show ?thesis by (auto simp: listed_def)
qed

lemma listed_path:
  assumes "space_books S" "p \<in> set (sp_list S fl)" "sp_trunk S p = Some e"
  shows "p \<in> free_on S i \<longleftrightarrow> i = ex_path e" "sp_avail S (ex_path e) \<noteq> None"
proof -
  have "listed S fl p" using assms by (auto simp: space_books_def)
  then show "p \<in> free_on S i \<longleftrightarrow> i = ex_path e" "sp_avail S (ex_path e) \<noteq> None"
    using assms(2,3) by (auto simp: listed_def free_on_def)
qed

lemma later_take: "sp_trunk S p = Some e \<Longrightarrow> 0 \<le> n \<Longrightarrow> later S (take_space p e n S)"
  by (auto simp: later_def grown_def take_space_def bump_def)

lemma later_retire: "later S T \<Longrightarrow> later S (retire_head fl e T)"
  by (auto simp: later_def retire_head_def)

lemma sum_left_upd:
  assumes "finite A" "\<forall>q. q \<noteq> p \<longrightarrow> left_of T q = left_of S q" "left_of T p = left_of S p - n"
  shows "sum (left_of T) A = sum (left_of S) A - (if p \<in> A then n else 0)"
proof (cases "p \<in> A")
  case True
  then have "sum (left_of T) A = left_of T p + sum (left_of T) (A - {p})"
    "sum (left_of S) A = left_of S p + sum (left_of S) (A - {p})"
    using assms(1) by (simp_all add: sum.remove)
  moreover have "sum (left_of T) (A - {p}) = sum (left_of S) (A - {p})"
    using assms(2) by (intro sum.cong) auto
  ultimately show ?thesis using True assms(3) by simp
next
  case False
  then have "sum (left_of T) A = sum (left_of S) A"
    using assms(2) by (intro sum.cong) auto
  then show ?thesis using False by simp
qed

lemma space_books_take:
  assumes "space_books S" "p \<in> set (sp_list S fl)" "sp_trunk S p = Some e"
  shows "space_books (take_space p e n S)"
proof -
  let ?T = "take_space p e n S"
  have trunk: "map_option ex_path (sp_trunk ?T q) = map_option ex_path (sp_trunk S q)" for q
    using assms(3) by (simp add: take_space_def)
  have on: "free_on ?T i = free_on S i" for i
    unfolding free_on_def trunk by (simp add: take_space_def)
  have lst: "listed S g q \<Longrightarrow> listed ?T g q" for g q
    using assms(3) by (auto simp: listed_def take_space_def bump_def)
  have sum: "sum (left_of ?T) (free_on S i) = sum (left_of S) (free_on S i) - (if p \<in> free_on S i then n else 0)" for i
    using assms(3) by (intro sum_left_upd) (auto simp: left_of_def take_space_def)
  have "x = sum (left_of ?T) (free_on ?T i)" if "sp_avail ?T i = Some x" for i x
    using that assms(1) unfolding on sum listed_path(1) [OF assms]
    by (auto simp: take_space_def bump_def space_books_def split: if_splits)
  with assms(1) lst show ?thesis
    unfolding space_books_def by (simp add: take_space_def)
qed

lemma space_books_retire:
  assumes "space_books S" "sp_list S fl = p # rest" "sp_trunk S p = Some e"
  shows "space_books (retire_head fl e S)"
proof -
  let ?T = "retire_head fl e S"
  have "distinct (p # rest)" using assms(1,2) unfolding space_books_def by metis
  then have p: "p \<in> set (sp_list S fl)" "p \<notin> set rest" using assms(2) by simp_all
  have lists: "set (sp_list ?T g) = set (sp_list S g) - {p}" for g
    using p(2) listed_one [OF assms(1) p(1), of g] assms(2) by (cases "g = fl") (simp_all add: retire_head_def, blast)
  have on: "free_on ?T i = free_on S i - {p}" for i
    unfolding free_on_def lists by (auto simp: retire_head_def)
  have left: "left_of ?T = left_of S" by (auto simp: left_of_def retire_head_def)
  have lst: "listed S g q \<Longrightarrow> listed ?T g q" for g q
    by (auto simp: listed_def retire_head_def bump_def)
  have sum: "sum (left_of S) (free_on S i - {p}) = sum (left_of S) (free_on S i) - (if i = ex_path e then ex_left e else 0)" for i
    using listed_path(1) [OF assms(1) p(1) assms(3), of i] assms(3) by (simp add: sum_diff1 left_of_def)
  have "x = sum (left_of ?T) (free_on ?T i)" if "sp_avail ?T i = Some x" for i x
    using that assms(1) unfolding on left sum
    by (auto simp: retire_head_def bump_def space_books_def split: if_splits)
  moreover have "sp_cnt ?T g = int (length (sp_list ?T g)) \<and> distinct (sp_list ?T g)" for g
    using assms(1,2) \<open>distinct (p # rest)\<close> by (simp add: retire_head_def space_books_def)
  moreover have "set (sp_list ?T (FL_PATH i)) \<inter> set (sp_list ?T FL_RECLAIM) = {}" for i
    using assms(1) unfolding lists by (auto simp: space_books_def)
  moreover have "listed ?T g q" if "q \<in> set (sp_list ?T g)" for g q
    using that assms(1) lst unfolding lists by (simp add: space_books_def)
  ultimately show ?thesis unfolding space_books_def by metis
qed

lemma space_ok_take:
  assumes "space_ok S" "p \<in> set (sp_list S fl)" "sp_trunk S p = Some e" "0 \<le> n" "n < ex_left e"
  shows "space_ok (take_space p e n S)"
  using assms space_books_take [of S p fl e n] unfolding space_ok_def
  by (simp add: take_space_def) (simp add: in_bounds_def)

lemma space_ok_take_retire:
  assumes "space_ok S" "sp_list S fl = p # rest" "sp_trunk S p = Some e"
  shows "space_ok (retire_head fl (e\<lparr>ex_start := ex_start e + n\<rparr>) (take_space p e n S))"
    (is "space_ok ?R")
proof -
  have b: "space_books S" and p: "p \<in> set (sp_list S fl)" using assms by (auto simp: space_ok_def)
  have "sp_list (take_space p e n S) fl = p # rest" using assms(2) by (simp add: take_space_def)
  from space_books_retire [OF space_books_take [OF b p assms(3)] this, of "e\<lparr>ex_start := ex_start e + n\<rparr>"]
  have "space_books ?R" by (simp add: take_space_def)
  moreover have "q \<in> set (sp_list S g) \<and> q \<noteq> p" if q: "q \<in> set (sp_list ?R g)" for q g
  proof (cases "g = fl")
    case True
    have "distinct (p # rest)" using b assms(2) unfolding space_books_def by metis
    moreover have "q \<in> set rest" using q True assms(2) by (simp add: retire_head_def take_space_def)
    ultimately show ?thesis using True assms(2) by auto
  next
    case False
    then have "q \<in> set (sp_list S g)" using q by (simp add: retire_head_def take_space_def)
    moreover have "p \<notin> set (sp_list S g)" using False listed_one [OF b p] by blast
    ultimately show ?thesis by blast
  qed
  moreover have "sp_trunk ?R q = sp_trunk S q" if "q \<noteq> p" for q
    using that by (simp add: retire_head_def take_space_def)
  ultimately show ?thesis using assms(1) unfolding space_ok_def by metis
qed

lemma space_ok_put:
  assumes "space_ok S" "sp_trunk S p = Some e" "in_bounds e" "\<forall>g. p \<notin> set (sp_list S g)"
    "fl = FL_PATH (ex_path e) \<or> fl = FL_RECLAIM" "sp_avail S (ex_path e) \<noteq> None"
  shows "space_ok (put_trunk fl p e S)"
proof -
  let ?T = "put_trunk fl p e S"
  have b: "space_books S" using assms(1) by (simp add: space_ok_def)
  have lists: "set (sp_list ?T g) = set (sp_list S g) \<union> (if g = fl then {p} else {})" for g
    by (auto simp: put_trunk_def)
  have on: "free_on ?T i = free_on S i \<union> (if i = ex_path e then {p} else {})" for i
    using assms(2,5) unfolding free_on_def lists by (auto simp: put_trunk_def)
  have p: "p \<notin> free_on S i" for i using assms(4) by (auto simp: free_on_def)
  have left: "left_of ?T = left_of S" by (auto simp: left_of_def put_trunk_def)
  have lst: "listed S g q \<Longrightarrow> listed ?T g q" for g q
    by (auto simp: listed_def put_trunk_def bump_def)
  have new: "listed ?T fl p" using assms(2,5,6) by (auto simp: listed_def put_trunk_def bump_def)
  have "x = sum (left_of ?T) (free_on ?T i)" if "sp_avail ?T i = Some x" for i x
    using that b p [of i] assms(2) unfolding on left
    by (auto simp: put_trunk_def bump_def space_books_def left_of_def split: if_splits)
  moreover have "sp_cnt ?T g = int (length (sp_list ?T g)) \<and> distinct (sp_list ?T g)" for g
    using b assms(4) by (auto simp: put_trunk_def space_books_def)
  moreover have "set (sp_list ?T (FL_PATH i)) \<inter> set (sp_list ?T FL_RECLAIM) = {}" for i
    using b assms(4,5) unfolding lists by (auto simp: space_books_def)
  moreover have "listed ?T g q" if "q \<in> set (sp_list ?T g)" for g q
    using that b lst new unfolding lists by (auto simp: space_books_def split: if_splits)
  ultimately have "space_books ?T" unfolding space_books_def by blast
  moreover have "in_bounds e'" if "q \<in> set (sp_list ?T g)" "sp_trunk ?T q = Some e'" for g q e'
    using that assms(1,2,3) unfolding lists by (auto simp: space_ok_def put_trunk_def split: if_splits)
  ultimately show ?thesis unfolding space_ok_def by blast
qed

end
