(* ===== verification/Freelist_Properties.thy ===== *)
theory Freelist_Properties
  imports Freelist_Facts
begin

text \<open>
  What an allocation of space gives: pieces of trunks that nobody has got before, and nobody
  gets later, of the size that was asked for; and that the free lists stay in order.
\<close>

section \<open>Pieces of trunks\<close>

abbreviation tv_offset :: "FSTrunkSpaceWithVersion \<Rightarrow> int" where
  "tv_offset s \<equiv> ts_offset (tv_space s)"

abbreviation tv_size :: "FSTrunkSpaceWithVersion \<Rightarrow> int" where
  "tv_size s \<equiv> ts_size (tv_space s)"

text \<open>
  \<open>s\<close> is a piece of trunk \<open>p\<close>, inside the file, free in the first state (its offset is not
  below \<open>free_start\<close>) and taken in the second one; its version is new.
\<close>

definition carved :: "free_space \<Rightarrow> free_space \<Rightarrow> nat \<Rightarrow> FSTrunkSpaceWithVersion \<Rightarrow> bool" where
  "carved S S' p s \<longleftrightarrow> 0 \<le> tv_offset s \<and> 0 < tv_size s \<and>
     (\<exists>e. sp_trunk S' p = Some e \<and> ts_store (tv_space s) = ex_path e \<and> ts_id_info (tv_space s) = ex_id e \<and>
          tv_offset s + tv_size s \<le> ex_start e \<and> tv_offset s + tv_size s \<le> ex_size e) \<and>
     (\<forall>e. sp_trunk S p = Some e \<longrightarrow> ex_start e \<le> tv_offset s) \<and>
     (\<forall>v. sp_version S (ts_store (tv_space s)) = Some v \<longrightarrow> v < tv_version s) \<and>
     (\<exists>v. sp_version S' (ts_store (tv_space s)) = Some v \<and> tv_version s \<le> v)"

lemma carved_before:
  assumes "later S T" "carved T U p s"
  shows "carved S U p s"
proof -
  have "ex_start e \<le> tv_offset s" if "sp_trunk S p = Some e" for e
    using laterD(1) [OF assms(1) that] assms(2) by (auto simp: carved_def grown_def)
  moreover have "v < tv_version s" if "sp_version S (ts_store (tv_space s)) = Some v" for v
    using laterD(2) [OF assms(1) that] assms(2) by (auto simp: carved_def)
  ultimately show ?thesis using assms(2) unfolding carved_def by blast
qed

lemma carved_after:
  assumes "carved S T p s" "later T U"
  shows "carved S U p s"
proof -
  obtain e v where e: "sp_trunk T p = Some e" "ts_store (tv_space s) = ex_path e" "ts_id_info (tv_space s) = ex_id e"
      "tv_offset s + tv_size s \<le> ex_start e" "tv_offset s + tv_size s \<le> ex_size e"
    and v: "sp_version T (ts_store (tv_space s)) = Some v" "tv_version s \<le> v"
    using assms(1) by (auto simp: carved_def)
  from laterD(1) [OF assms(2) e(1)] obtain f where f: "sp_trunk U p = Some f" "grown e f" by blast
  from laterD(2) [OF assms(2) v(1)] obtain w where "sp_version U (ts_store (tv_space s)) = Some w" "v \<le> w" by blast
  then have "\<exists>w. sp_version U (ts_store (tv_space s)) = Some w \<and> tv_version s \<le> w" using v(2) by auto
  moreover have "\<exists>f. sp_trunk U p = Some f \<and> ts_store (tv_space s) = ex_path f \<and> ts_id_info (tv_space s) = ex_id f \<and>
      tv_offset s + tv_size s \<le> ex_start f \<and> tv_offset s + tv_size s \<le> ex_size f"
    using f e by (auto simp: grown_def)
  ultimately show ?thesis using assms(1) unfolding carved_def by blast
qed

text \<open>Pieces cut one after the other do not overlap.\<close>

lemma carved_apart:
  assumes "carved S T p s" "later T U" "carved U V p s'"
  shows "tv_offset s + tv_size s \<le> tv_offset s'"
proof -
  obtain e where e: "sp_trunk T p = Some e" "tv_offset s + tv_size s \<le> ex_start e"
    using assms(1) by (auto simp: carved_def)
  from laterD(1) [OF assms(2) e(1)] assms(3) e(2) show ?thesis by (auto simp: carved_def grown_def)
qed

definition evolves :: "free_space \<Rightarrow> free_space \<Rightarrow> bool" where
  "evolves S S' \<longleftrightarrow> space_ok S' \<and> later S S'"

text \<open>The allocated spaces: together as long as asked for, one or two, apart from each other.\<close>

definition spaces_for :: "free_space \<Rightarrow> free_space \<Rightarrow> int \<Rightarrow> FSTrunkSpaceWithVersion list \<Rightarrow> bool" where
  "spaces_for S S' n spaces \<longleftrightarrow> (\<Sum>s\<leftarrow>spaces. tv_size s) = n \<and>
     (case spaces of
        [s] \<Rightarrow> \<exists>p. carved S S' p s
      | [s, s'] \<Rightarrow> \<exists>p p'. carved S S' p s \<and> carved S S' p' s' \<and>
                    (p = p' \<longrightarrow> tv_offset s + tv_size s \<le> tv_offset s')
      | _ \<Rightarrow> False)"

section \<open>The steps\<close>

lemma TRUNK_ALLOC_SPACE_runs:
  assumes "space_ok (free_space_of m)" "p \<in> set (fl_list fl m)" "am_trunks m p = Some t"
  shows "\<exists>s m'. TRUNK_ALLOC_SPACE p n m = Some (s, m')"
proof -
  have "sp_avail (free_space_of m) (tf_allocator t) \<noteq> None"
    using assms listed_path(2) [of "free_space_of m" p fl "extent_of t"]
    by (simp add: space_ok_def sp_simps extent_of_def)
  then show ?thesis using assms(3) by (auto simp: TRUNK_ALLOC_SPACE_def sp_simps split: option.splits)
qed

lemma listed_trunk:
  assumes "space_ok (free_space_of m)" "p \<in> set (fl_list fl m)"
  obtains t where "am_trunks m p = Some t" "in_bounds (extent_of t)"
    "sp_avail (free_space_of m) (tf_allocator t) \<noteq> None"
proof -
  have b: "space_books (free_space_of m)" and p: "p \<in> set (sp_list (free_space_of m) fl)"
    using assms by (simp_all add: space_ok_def sp_simps)
  then have "listed (free_space_of m) fl p" by (simp add: space_books_def)
  then obtain t where t: "am_trunks m p = Some t" "sp_avail (free_space_of m) (tf_allocator t) \<noteq> None"
    by (auto simp: listed_def sp_simps extent_of_def)
  moreover have "in_bounds (extent_of t)"
    using assms p t(1) by (auto simp: space_ok_def sp_simps)
  ultimately show ?thesis using that by blast
qed

lemma take_carves:
  assumes "am_trunks m p = Some t" "in_bounds (extent_of t)" "0 < n" "n \<le> FS_TRUNK_AVAIL_SPACE t"
    "sp_avail (free_space_of m) (tf_allocator t) \<noteq> None"
    "TRUNK_ALLOC_SPACE p n m = Some (s, m')"
  shows "carved (free_space_of m) (free_space_of m') p s" "tv_size s = n"
proof -
  from take_space_refines [OF assms(6)] assms(1)
  have m': "free_space_of m' = take_space p (extent_of t) n (free_space_of m)"
    and s: "s = \<lparr>tv_space = \<lparr>ts_store = tf_allocator t, ts_id_info = tf_id_info t, ts_offset = tf_free_start t, ts_size = n\<rparr>,
         tv_version = the (sp_version (free_space_of m) (tf_allocator t)) + 1\<rparr>" by auto
  obtain a where a: "am_allocators m (tf_allocator t) = Some a" using assms(5) by (auto simp: sp_simps)
  show "carved (free_space_of m) (free_space_of m') p s"
    using assms(1-4) a unfolding carved_def m' s
    by (simp add: take_space_def bump_def sp_simps extent_of_def in_bounds_def)
  show "tv_size s = n" by (simp add: s)
qed

text \<open>The two ways space leaves a list: a piece of the head, or a piece and then the whole head.\<close>

lemma take_step:
  assumes "space_ok (free_space_of m)" "fl_list fl m = p # rest" "am_trunks m p = Some t"
    "0 < n" "n < FS_TRUNK_AVAIL_SPACE t" "TRUNK_ALLOC_SPACE p n m = Some (s, m')"
  shows "evolves (free_space_of m) (free_space_of m')"
proof -
  from take_space_refines [OF assms(6)] assms(3)
  have m': "free_space_of m' = take_space p (extent_of t) n (free_space_of m)" by auto
  have "p \<in> set (sp_list (free_space_of m) fl)" "sp_trunk (free_space_of m) p = Some (extent_of t)"
    using assms(2,3) by (simp_all add: sp_simps)
  from space_ok_take [OF assms(1) this] later_take [OF this(2)] assms(4,5) show ?thesis
    by (simp add: evolves_def m' extent_of_def)
qed

lemma take_retire_step:
  assumes "space_ok (free_space_of m)" "fl_list fl m = p # rest" "am_trunks m p = Some t"
    "0 < n" "TRUNK_ALLOC_SPACE p n m = Some (s, m')"
  shows "evolves (free_space_of m) (free_space_of (upd_path_info (tf_allocator t)
      (\<lambda>q. q\<lparr>pi_trunk_avail := pi_trunk_avail q - (FS_TRUNK_AVAIL_SPACE t - n)\<rparr>) (trunk_freelist_remove E fl m')))"
    and "later (free_space_of m') (free_space_of (upd_path_info (tf_allocator t)
      (\<lambda>q. q\<lparr>pi_trunk_avail := pi_trunk_avail q - (FS_TRUNK_AVAIL_SPACE t - n)\<rparr>) (trunk_freelist_remove E fl m')))"
proof -
  from take_space_refines [OF assms(5)] assms(3)
  have m': "free_space_of m' = take_space p (extent_of t) n (free_space_of m)" by auto
  have l: "fl_list fl m' = p # rest"
    using arg_cong [OF m', of "\<lambda>S. sp_list S fl"] assms(2) by (simp add: sp_simps take_space_def)
  obtain t' where t': "am_trunks m' p = Some t'" "extent_of t' = (extent_of t)\<lparr>ex_start := ex_start (extent_of t) + n\<rparr>"
    using arg_cong [OF m', of "\<lambda>S. sp_trunk S p"] by (auto simp: sp_simps take_space_def)
  then have same: "tf_allocator t' = tf_allocator t" "FS_TRUNK_AVAIL_SPACE t' = FS_TRUNK_AVAIL_SPACE t - n"
    by (simp_all add: extent_of_def)
  note r = retire_head_refines [OF l t'(1), of E, unfolded same t'(2) m']
  have "sp_list (free_space_of m) fl = p # rest" "sp_trunk (free_space_of m) p = Some (extent_of t)"
    using assms(2,3) by (simp_all add: sp_simps)
  from space_ok_take_retire [OF assms(1) this, of n] later_retire [OF later_take [OF this(2)], of n] assms(4)
  show "evolves (free_space_of m) (free_space_of (upd_path_info (tf_allocator t)
      (\<lambda>q. q\<lparr>pi_trunk_avail := pi_trunk_avail q - (FS_TRUNK_AVAIL_SPACE t - n)\<rparr>) (trunk_freelist_remove E fl m')))"
    unfolding r evolves_def by simp
  show "later (free_space_of m') (free_space_of (upd_path_info (tf_allocator t)
      (\<lambda>q. q\<lparr>pi_trunk_avail := pi_trunk_avail q - (FS_TRUNK_AVAIL_SPACE t - n)\<rparr>) (trunk_freelist_remove E fl m')))"
    unfolding r m' by (rule later_retire) simp
qed

lemma upd_path_info_0: "upd_path_info i (\<lambda>q. q\<lparr>pi_trunk_avail := pi_trunk_avail q - 0\<rparr>) m = m"
  by (simp add: upd_path_info_def upd_allocator_def option.map_ident)

lemma alloc_first_cases:
  assumes "space_ok (free_space_of m)" "0 < n" "alloc_first E fl is_normal n m = (r, spaces, n', m')"
  shows "r = EAGAIN \<and> m' = m \<or> r = 0 \<and> spaces = [] \<and> n' = n \<and> m' = m \<or>
    r = 0 \<and> evolves (free_space_of m) (free_space_of m') \<and> 0 < n' \<and>
      (\<exists>p s. spaces = [s] \<and> carved (free_space_of m) (free_space_of m') p s \<and> tv_size s + n' = n)"
proof (cases "fl_list fl m")
  case Nil
  then show ?thesis using assms(3) by (simp add: alloc_first_def)
next
  case (Cons p rest)
  then obtain t where t: "am_trunks m p = Some t" "in_bounds (extent_of t)" "sp_avail (free_space_of m) (tf_allocator t) \<noteq> None"
    using listed_trunk [OF assms(1), of p fl] by auto
  let ?left = "FS_TRUNK_AVAIL_SPACE t"
  have left: "0 < ?left" "s32 ?left = ?left"
    using t(2) by (auto simp: in_bounds_def extent_of_def intro: s32_id)
  have "p \<in> set (fl_list fl m)" using Cons by simp
  from TRUNK_ALLOC_SPACE_runs [OF assms(1) this t(1), of ?left] obtain s m1 where
    s: "TRUNK_ALLOC_SPACE p ?left m = Some (s, m1)" by blast
  note c = take_carves [OF t(1,2) left(1) order_refl t(3) s]
  note e = take_retire_step [OF assms(1) Cons t(1) left(1) s, of E, unfolded diff_self upd_path_info_0]
  show ?thesis
    using assms(3) Cons t(1) s left e c carved_after [OF c(1) e(2)]
    by (auto simp: alloc_first_def Let_def split: if_splits)
qed

lemma alloc_last_cases:
  assumes "space_ok (free_space_of m)" "0 < n" "0 < discard"
    "alloc_last E discard fl n spaces m = (r, spaces', m')"
  shows "r \<in> {ENOSPC, EINTR, EAGAIN} \<and> m' = m \<or>
    r = 0 \<and> evolves (free_space_of m) (free_space_of m') \<and>
      (\<exists>p s. spaces' = spaces @ [s] \<and> carved (free_space_of m) (free_space_of m') p s \<and> tv_size s = n)"
proof (cases "fl_list fl m")
  case Nil
  then show ?thesis using assms(4) by (auto simp: alloc_last_def split: if_splits)
next
  case (Cons p rest)
  then obtain t where t: "am_trunks m p = Some t" "in_bounds (extent_of t)" "sp_avail (free_space_of m) (tf_allocator t) \<noteq> None"
    using listed_trunk [OF assms(1), of p fl] by auto
  show ?thesis
  proof (cases "n \<le> FS_TRUNK_AVAIL_SPACE t")
    case True
    have "p \<in> set (fl_list fl m)" using Cons by simp
    from TRUNK_ALLOC_SPACE_runs [OF assms(1) this t(1), of n] obtain s m1 where
      s: "TRUNK_ALLOC_SPACE p n m = Some (s, m1)" by blast
    note c = take_carves [OF t(1,2) assms(2) True t(3) s]
    show ?thesis
    proof (cases "FS_TRUNK_AVAIL_SPACE t - n < discard")
      case d: True
      note e = take_retire_step [OF assms(1) Cons t(1) assms(2) s, of E]
      show ?thesis using assms(4) Cons t(1) s True d e(1) c carved_after [OF c(1) e(2)]
        by (auto simp: alloc_last_def Let_def)
    next
      case False
      then show ?thesis using assms(3,4) Cons t(1) s True c take_step [OF assms(1) Cons t(1) assms(2) _ s]
        by (auto simp: alloc_last_def Let_def)
    qed
  next
    case False
    then show ?thesis using assms(4) Cons t(1) by (auto simp: alloc_last_def)
  qed
qed

section \<open>Waiting\<close>

text \<open>What is relied on of the threads that run while a caller sleeps.\<close>

definition rely :: "(FSStorageAllocatorManager \<Rightarrow> FSStorageAllocatorManager) list \<Rightarrow> bool" where
  "rely sched \<longleftrightarrow> (\<forall>f\<in>set sched. \<forall>m. space_ok (free_space_of m) \<longrightarrow> evolves (free_space_of m) (free_space_of (f m)))"

lemma evolves_refl: "space_ok S \<Longrightarrow> evolves S S"
  by (simp add: evolves_def)

lemma evolves_trans: "evolves S T \<Longrightarrow> evolves T U \<Longrightarrow> evolves S U"
  unfolding evolves_def using later_trans by blast

lemma wait_trunk_cond_evolves:
  assumes "wait_trunk_cond sched i fl m = Some (m', sched')" "rely sched" "space_ok (free_space_of m)"
  shows "evolves (free_space_of m) (free_space_of m') \<and> rely sched'"
  using assms
proof (induction sched i fl m rule: wait_trunk_cond.induct)
  case (1 sched i fl m)
  show ?case
  proof (cases "\<exists>a f fs. am_allocators m i = Some a \<and> ta_creating_trunks a > 0 \<and> fl_list fl m = [] \<and> am_continue m \<and> sched = f # fs")
    case True
    then obtain a f fs where c: "am_allocators m i = Some a" "ta_creating_trunks a > 0" "fl_list fl m = []" "am_continue m" "sched = f # fs"
      by blast
    have e: "evolves (free_space_of m) (free_space_of (f m))" and r: "rely fs"
      using "1.prems"(2,3) c(5) by (simp_all add: rely_def)
    have "wait_trunk_cond fs i fl (f m) = Some (m', sched')"
      using "1.prems"(1) c by (subst (asm) wait_trunk_cond.simps) simp
    from "1.IH" [OF c(1) _ c(5) this r] c e evolves_trans [OF e] show ?thesis by (simp add: evolves_def)
  next
    case False
    then have "m' = m \<and> sched' = sched"
      using "1.prems"(1) by (subst (asm) wait_trunk_cond.simps) (auto split: option.splits if_splits list.splits)
    then show ?thesis using "1.prems" evolves_refl by simp
  qed
qed

lemma free_space_waiting:
  "free_space_of (upd_allocator i (\<lambda>a. a\<lparr>ta_waiting_callers := f a\<rparr>) m) = free_space_of m"
  "free_space_of (upd_allocator i (\<lambda>a. a\<lparr>ta_last_trigger_time := x\<rparr>) m) = free_space_of m"
  by (rule free_space_upd_allocator_same; simp)+

lemma waiting_avail_trunk_evolves:
  assumes "waiting_avail_trunk E n first sched i fl m = Some (r, m')" "rely sched" "space_ok (free_space_of m)"
    "sp_version (free_space_of m) i \<noteq> None"
  shows "evolves (free_space_of m) (free_space_of m') \<and> (r = 0 \<or> r = ENOMEM)"
  using assms
proof (induction n arbitrary: first sched m)
  case 0
  then show ?case by (simp add: evolves_refl)
next
  case (Suc n)
  from Suc.prems(4) obtain a where a: "am_allocators m i = Some a" by (auto simp: sp_simps)
  let ?made = "if ta_creating_trunks a = 0 \<and> (am_now m - ta_last_trigger_time a > 0 \<or> \<not> first)
     then trunk_maker_allocate_ex E i True (upd_allocator i (\<lambda>a. a\<lparr>ta_last_trigger_time := am_now m\<rparr>) m) else (0, m)"
  obtain r1 m1 where t: "?made = (r1, m1)" by (metis surj_pair)
  have same: "free_space_of m1 = free_space_of m"
    using arg_cong [OF t, of "\<lambda>x. free_space_of (snd x)"] by (simp add: free_space_waiting split: if_splits)
  have r1: "r1 = 0 \<or> r1 = ENOMEM"
    using t by (auto simp: trunk_maker_allocate_ex_def Let_def split: if_splits)
  show ?case
  proof (cases "r1 = 0")
    case False
    then have "m' = m1 \<and> r = r1" using Suc.prems(1) a t by simp
    then show ?thesis using same r1 Suc.prems(3) evolves_refl by simp
  next
    case True
    let ?m1 = "upd_allocator i (\<lambda>a. a\<lparr>ta_waiting_callers := ta_waiting_callers a + 1\<rparr>) m1"
    obtain m2 sched2 where w: "wait_trunk_cond sched i fl ?m1 = Some (m2, sched2)"
      using Suc.prems(1) a t True by (auto split: option.splits)
    from wait_trunk_cond_evolves [OF w Suc.prems(2)] Suc.prems(3)
    have e: "evolves (free_space_of m) (free_space_of m2)" and r2: "rely sched2" by (simp_all add: free_space_waiting same)
    let ?m3 = "upd_allocator i (\<lambda>a. a\<lparr>ta_waiting_callers := ta_waiting_callers a - 1\<rparr>) m2"
    have e3: "evolves (free_space_of m) (free_space_of ?m3)" using e by (simp add: free_space_waiting)
    have v3: "sp_version (free_space_of ?m3) i \<noteq> None"
      using Suc.prems(4) laterD(2) [of "free_space_of m" "free_space_of ?m3" i] e3 by (auto simp: evolves_def)
    let ?C = "fl_list fl ?m3 \<noteq> [] \<or> map_option ta_last_errno (am_allocators ?m3 i) \<noteq> Some 0"
    have st: "(if ?C then Some (0, ?m3) else waiting_avail_trunk E n False sched2 i fl ?m3) = Some (r, m')"
      using Suc.prems(1) unfolding waiting_avail_trunk.simps a option.case t prod.case True w Let_def
      by (simp only: simp_thms if_False)
    show ?thesis
    proof (cases ?C)
      case True
      from st [unfolded if_P [OF True]] show ?thesis using e3 by auto
    next
      case False
      from Suc.IH [OF st [unfolded if_not_P [OF False]] r2 _ v3] e3 evolves_trans [OF e3] show ?thesis
        by (simp add: evolves_def)
    qed
  qed
qed

lemma alloc_rest:
  assumes ok: "space_ok (free_space_of m)" and n: "0 < n" "0 < discard"
    and run: "alloc_last E discard fl n spaces m = (r, spaces', m')"
    and e: "evolves S (free_space_of m)" and sp: "spaces = [] \<and> n = asked \<or>
      (\<exists>p s T. spaces = [s] \<and> carved S T p s \<and> later T (free_space_of m) \<and> tv_size s + n = asked)"
  shows "evolves S (free_space_of m') \<and> (r = 0 \<and> spaces_for S (free_space_of m') asked spaces' \<or>
     r \<in> {ENOSPC, EINTR, EAGAIN})"
  using alloc_last_cases [OF ok n run]
proof (elim disjE conjE exE)
  assume r: "r = 0" and e2: "evolves (free_space_of m) (free_space_of m')"
  fix p' s' assume s': "spaces' = spaces @ [s']" "carved (free_space_of m) (free_space_of m') p' s'" "tv_size s' = n"
  have c: "carved S (free_space_of m') p' s'"
    using carved_before s'(2) e by (auto simp: evolves_def)
  have l2: "later (free_space_of m) (free_space_of m')" using e2 by (simp add: evolves_def)
  from sp have "spaces_for S (free_space_of m') asked spaces'"
  proof (elim disjE conjE exE)
    assume "spaces = []" "n = asked"
    then show ?thesis using s' c by (auto simp: spaces_for_def)
  next
    fix p s T assume s: "spaces = [s]" "carved S T p s" "later T (free_space_of m)" "tv_size s + n = asked"
    have "carved S (free_space_of m') p s" by (rule carved_after [OF s(2) later_trans [OF s(3) l2]])
    moreover have "p = p' \<longrightarrow> tv_offset s + tv_size s \<le> tv_offset s'"
      using carved_apart [OF s(2,3)] s'(2) by blast
    ultimately show ?thesis using s s' c by (auto simp: spaces_for_def)
  qed
  then show ?thesis using r evolves_trans [OF e e2] by simp
qed (use e in auto)

lemma alloc_body_ok:
  assumes ok: "space_ok (free_space_of m)" and n: "0 < env_align_ceil E sz FS_SPACE_ALIGN_SIZE" "0 < discard"
    and rel: "rely sched" and v: "is_normal \<longrightarrow> sp_version (free_space_of m) i \<noteq> None"
    and run: "alloc_body E discard sched i fl sz is_normal m = Some (r, spaces, m')"
  shows "evolves (free_space_of m) (free_space_of m') \<and>
    (r = 0 \<and> spaces_for (free_space_of m) (free_space_of m') (env_align_ceil E sz FS_SPACE_ALIGN_SIZE) spaces \<or>
     r \<in> {ENOSPC, EINTR, EAGAIN, ENOMEM})"
proof -
  let ?n = "env_align_ceil E sz FS_SPACE_ALIGN_SIZE" and ?S = "free_space_of m"
  obtain r1 sp1 n1 m1 where f: "alloc_first E fl is_normal ?n m = (r1, sp1, n1, m1)" by (metis prod_cases4)
  from alloc_first_cases [OF ok n(1) f] have
    "r1 = EAGAIN \<and> m1 = m \<or> r1 = 0 \<and> evolves ?S (free_space_of m1) \<and> 0 < n1 \<and> (sp1 = [] \<and> n1 = ?n \<or>
      (\<exists>p s T. sp1 = [s] \<and> carved ?S T p s \<and> later T (free_space_of m1) \<and> tv_size s + n1 = ?n))"
    using evolves_refl [OF ok] n(1) later_refl by metis
  then consider "r1 = EAGAIN" "m1 = m" | (go) "r1 = 0" "evolves ?S (free_space_of m1)" "0 < n1" "sp1 = [] \<and> n1 = ?n \<or>
      (\<exists>p s T. sp1 = [s] \<and> carved ?S T p s \<and> later T (free_space_of m1) \<and> tv_size s + n1 = ?n)" by blast
  then show ?thesis
  proof cases
    case 1
    then show ?thesis using run f evolves_refl [OF ok] by (simp add: alloc_body_def)
  next
    case go
    have ok1: "space_ok (free_space_of m1)" using go(2) by (simp add: evolves_def)
    consider "fl_list fl m1 = []" "\<not> is_normal" | "fl_list fl m1 = []" "is_normal" | "fl_list fl m1 \<noteq> []" by blast
    then show ?thesis
    proof cases
      case 1
      then show ?thesis using run f go by (simp add: alloc_body_def)
    next
      case 2
      obtain r2 m2 where w: "waiting_avail_trunk E 10 True sched i fl m1 = Some (r2, m2)"
        using run f go(1) 2 by (auto simp: alloc_body_def split: option.splits)
      have "sp_version (free_space_of m1) i \<noteq> None"
        using v 2(2) go(2) laterD(2) [of ?S "free_space_of m1" i] by (auto simp: evolves_def)
      from waiting_avail_trunk_evolves [OF w rel ok1 this]
      have e2: "evolves (free_space_of m1) (free_space_of m2)" and r2: "r2 = 0 \<or> r2 = ENOMEM" by simp_all
      note e02 = evolves_trans [OF go(2) e2]
      show ?thesis
      proof (cases "r2 = 0")
        case True
        then have "alloc_last E discard fl n1 sp1 m2 = (r, spaces, m')"
          using run f go(1) 2 w by (simp add: alloc_body_def)
        moreover have "sp1 = [] \<and> n1 = ?n \<or>
            (\<exists>p s T. sp1 = [s] \<and> carved ?S T p s \<and> later T (free_space_of m2) \<and> tv_size s + n1 = ?n)"
          using go(4) e2 later_trans unfolding evolves_def by blast
        ultimately show ?thesis
          using alloc_rest [OF _ go(3) n(2) _ e02] e02 unfolding evolves_def by blast
      next
        case False
        then have "r = r2 \<and> m' = m2" using run f go(1) 2 w by (simp add: alloc_body_def)
        then show ?thesis using e02 r2 False by simp
      qed
    next
      case 3
      then have "alloc_last E discard fl n1 sp1 m1 = (r, spaces, m')"
        using run f go(1) by (simp add: alloc_body_def)
      from alloc_rest [OF ok1 go(3) n(2) this go(2,4)] show ?thesis by blast
    qed
  qed
qed

section \<open>Properties\<close>

lemma alloc_space_ok:
  assumes "fastcommon E" "space_ok (free_space_of m)" "0 < sz" "0 < discard" "rely sched"
    and "is_normal \<longrightarrow> sp_version (free_space_of m) i \<noteq> None"
    and "trunk_freelist_alloc_space E discard sched i fl sz is_normal m = Some (r, spaces, m')"
  shows "evolves (free_space_of m) (free_space_of m') \<and>
    (r = 0 \<and> spaces_for (free_space_of m) (free_space_of m') (env_align_ceil E sz FS_SPACE_ALIGN_SIZE) spaces \<or>
     r \<in> {ENOSPC, EINTR, EAGAIN, ENOMEM})"
proof -
  obtain m1 where b: "alloc_body E discard sched i fl sz is_normal m = Some (r, spaces, m1)"
    and m': "free_space_of m' = free_space_of m1"
    using assms(7) by (auto simp: trunk_freelist_alloc_space_def split: option.splits if_splits)
  have "0 < env_align_ceil E sz FS_SPACE_ALIGN_SIZE"
    using fastcommon.align_ceil [OF assms(1), of FS_SPACE_ALIGN_SIZE sz] assms(3) by simp
  from alloc_body_ok [OF assms(2) this assms(4,5,6) b] show ?thesis unfolding m' .
qed

text \<open>
  An allocation of space that succeeds gives one or two pieces of trunks whose sizes add up to
  the request rounded up to 8 bytes. Each piece lies inside its trunk file, was free before
  (it starts at or behind the old \<open>free_start\<close>) and is taken after; two pieces do not overlap,
  and every piece has a version that was not given before. In every case, also when the
  allocation fails or had to wait for other threads, the free lists stay well formed: the
  counters are right and the available bytes of every store path are what is left in its
  listed trunks. The errors are \<open>ENOSPC\<close>, \<open>EINTR\<close>, \<open>EAGAIN\<close> and \<open>ENOMEM\<close>: for trunks below 2 GB the
  program does not abort.
\<close>
theorem alloc_space_carves:
  assumes "fastcommon E" "space_ok (free_space_of m)" "0 < sz" "0 < discard" "rely sched"
    and "is_normal \<longrightarrow> sp_version (free_space_of m) i \<noteq> None"
    and "trunk_freelist_alloc_space E discard sched i fl sz is_normal m = Some (r, spaces, m')"
  shows "evolves (free_space_of m) (free_space_of m') \<and>
    (r = 0 \<and> spaces_for (free_space_of m) (free_space_of m') (env_align_ceil E sz FS_SPACE_ALIGN_SIZE) spaces \<or>
     r \<in> {ENOSPC, EINTR, EAGAIN, ENOMEM})"
  by (rule alloc_space_ok [OF assms])

text \<open>
  Property C21. A trunk that is put on a free list (after its creation or its reclaiming) leaves the lists
  well formed; it goes to the list for reclaiming while that one is below its water mark, and
  to the list of its store path otherwise.
\<close>
theorem add_to_freelist_ok:
  assumes "space_ok (free_space_of m)" "am_trunks m p = Some t" "in_bounds (extent_of t)"
    "\<forall>fl. p \<notin> set (fl_list fl m)" "tf_allocator t = i" "am_allocators m i \<noteq> None"
    and "trunk_allocator_add_to_freelist i p m = (ty, m')"
  shows "space_ok (free_space_of m') \<and>
    (if fl_count (am_reclaim_freelist m) < fl_water_mark (am_reclaim_freelist m)
     then ty = fs_freelist_type_reclaim \<and> fl_list FL_RECLAIM m' = fl_list FL_RECLAIM m @ [p]
     else ty = fs_freelist_type_normal \<and> fl_list (FL_PATH i) m' = fl_list (FL_PATH i) m @ [p])"
proof -
  have put: "space_ok (put_trunk fl p (extent_of t) (free_space_of m))" if "fl = FL_PATH i \<or> fl = FL_RECLAIM" for fl
    by (rule space_ok_put) (use assms that in \<open>auto simp: sp_simps extent_of_def\<close>)
  have ref: "free_space_of (snd (trunk_freelist_add fl p m)) = put_trunk fl p (extent_of t) (free_space_of m)"
    if "fl = FL_PATH i \<or> fl = FL_RECLAIM" for fl
    by (rule put_trunk_refines) (use assms that in auto)
  have lst: "fl_list fl (snd (trunk_freelist_add fl p m)) = fl_list fl m @ [p]" if "fl = FL_PATH i \<or> fl = FL_RECLAIM" for fl
    using arg_cong [OF ref [OF that], of "\<lambda>S. sp_list S fl"] by (simp add: sp_simps put_trunk_def)
  show ?thesis
    using assms(7) put ref lst by (auto simp: trunk_allocator_add_to_freelist_def split: if_splits)
qed

text \<open>
  The free space of a trunk is stored in an \<open>int\<close>. Allocating from a free list whose first trunk
  has between 2 GB and 4 GB left makes the program abort, although the whole request would fit.
\<close>
theorem big_trunk_aborts:
  assumes "fastcommon E" "fl_list fl m = p # rest" "am_trunks m p = Some t" "0 < sz"
    and "2 ^ 31 \<le> FS_TRUNK_AVAIL_SPACE t" "FS_TRUNK_AVAIL_SPACE t \<le> 2 ^ 32"
  shows "trunk_freelist_alloc_space E discard sched i fl sz True m = Some (ABORT, [], m)"
proof -
  have "s32 (FS_TRUNK_AVAIL_SPACE t) \<le> 0"
  proof (cases "FS_TRUNK_AVAIL_SPACE t = 2 ^ 32")
    case True
    then show ?thesis by (simp add: s32_def)
  next
    case False
    define x where "x = FS_TRUNK_AVAIL_SPACE t - 2 ^ 31"
    have "0 \<le> x" "x < 2 ^ 31" using assms(5,6) False by (auto simp: x_def)
    then have "(x + 2 ^ 32) mod 2 ^ 32 = x" by simp
    then show ?thesis using \<open>x < 2 ^ 31\<close> by (simp add: s32_def x_def algebra_simps)
  qed
  moreover have "0 < env_align_ceil E sz FS_SPACE_ALIGN_SIZE"
    using fastcommon.align_ceil [OF assms(1), of FS_SPACE_ALIGN_SIZE sz] assms(4) by simp
  ultimately have "alloc_first E fl True (env_align_ceil E sz FS_SPACE_ALIGN_SIZE) m =
      (ABORT, [], env_align_ceil E sz FS_SPACE_ALIGN_SIZE, m)"
    using assms(2,3) by (simp add: alloc_first_def Let_def)
  then show ?thesis by (simp add: trunk_freelist_alloc_space_def alloc_body_def)
qed

section \<open>Witnesses\<close>

text \<open>One store path with two trunks on its free list, of which the first has 12 bytes left.\<close>

definition ex_trunk :: "int \<Rightarrow> int \<Rightarrow> int \<Rightarrow> FSTrunkFileInfo" where
  "ex_trunk tid sz start = (new_trunk 0 \<lparr>ti_id = tid, ti_subdir = 1\<rparr> sz)\<lparr>tf_free_start := start\<rparr>"

definition ex_path_allocator :: "nat list \<Rightarrow> int \<Rightarrow> FSTrunkAllocator" where
  "ex_path_allocator ps avail = \<lparr>ta_path_info = \<lparr>pi_trunk_total = avail, pi_trunk_avail = avail, pi_trunk_used = 0,
       pi_trunk_last_used = 0, pi_space_avail = 0, pi_reserved = 0, pi_last_stat_time = 0,
       pi_used_ratio = 0, pi_reserved_ratio = 0\<rparr>,
     ta_by_id = [], ta_by_size = [], ta_freelist = \<lparr>fl_count = int (length ps), fl_water_mark = 2, fl_trunks = ps\<rparr>,
     ta_last_trigger_time = 0, ta_creating_trunks = 0, ta_waiting_callers = 0, ta_current_version = 7,
     ta_last_errno = 0, ta_queue = []\<rparr>"

definition ex_mgr :: "(nat \<rightharpoonup> FSTrunkFileInfo) \<Rightarrow> nat list \<Rightarrow> int \<Rightarrow> FSStorageAllocatorManager" where
  "ex_mgr trunks ps avail = \<lparr>am_trunks = trunks, am_allocators = [0 \<mapsto> ex_path_allocator ps avail],
     am_full = \<lparr>aa_alloc = 2, aa_items = []\<rparr>, am_avail = \<lparr>aa_alloc = 2, aa_items = [0]\<rparr>,
     am_reclaim_freelist = \<lparr>fl_count = 0, fl_water_mark = 2, fl_trunks = []\<rparr>,
     am_maker_tasks = [], am_delay_free = [], am_now = 5, am_continue = True, am_calls = 0\<rparr>"

definition ex_two :: FSStorageAllocatorManager where
  "ex_two = ex_mgr [1 \<mapsto> ex_trunk 1 100 88, 2 \<mapsto> ex_trunk 2 100 0, 3 \<mapsto> ex_trunk 3 100 0] [1, 2] 112"

lemma ex_two_ok: "space_ok (free_space_of ex_two)"
proof -
  let ?S = "free_space_of ex_two"
  have lists: "sp_list ?S fl = (if fl = FL_PATH 0 then [1, 2] else [])" for fl
    by (simp add: sp_simps get_freelist_def ex_two_def ex_mgr_def ex_path_allocator_def split: freelist_ref.splits)
  have cnt: "sp_cnt ?S fl = (if fl = FL_PATH 0 then 2 else 0)" for fl
    by (simp add: sp_simps get_freelist_def ex_two_def ex_mgr_def ex_path_allocator_def split: freelist_ref.splits)
  have t: "sp_trunk ?S (Suc 0) = Some (extent_of (ex_trunk 1 100 88))" "sp_trunk ?S 2 = Some (extent_of (ex_trunk 2 100 0))"
    by (simp_all add: sp_simps ex_two_def ex_mgr_def)
  have av: "sp_avail ?S i = (if i = 0 then Some 112 else None)" for i
    by (simp add: sp_simps ex_two_def ex_mgr_def ex_path_allocator_def)
  have on: "free_on ?S 0 = {1, 2}"
    by (auto simp: free_on_def lists t extent_of_def ex_trunk_def new_trunk_def)
  show ?thesis
    by (auto simp: space_ok_def space_books_def lists cnt av on t listed_def left_of_def in_bounds_def extent_of_def
        ex_trunk_def new_trunk_def split: if_splits)
qed

lemma ex_two_run: "map_option (\<lambda>(r, spaces, m'). (r, map tv_size spaces))
   (trunk_freelist_alloc_space list_env 16 [] 0 (FL_PATH 0) 30 True ex_two) = Some (0, [12, 20])"
  by code_simp

theorem alloc_space_carves_witness:
  "space_ok (free_space_of ex_two) \<and> (\<exists>spaces m'.
     trunk_freelist_alloc_space list_env 16 [] 0 (FL_PATH 0) 30 True ex_two = Some (0, spaces, m') \<and>
     evolves (free_space_of ex_two) (free_space_of m') \<and>
     spaces_for (free_space_of ex_two) (free_space_of m') 32 spaces)"
proof -
  obtain spaces m' where run: "trunk_freelist_alloc_space list_env 16 [] 0 (FL_PATH 0) 30 True ex_two = Some (0, spaces, m')"
    using ex_two_run by fastforce
  have v: "True \<longrightarrow> sp_version (free_space_of ex_two) 0 \<noteq> None"
    by (simp add: sp_simps ex_two_def ex_mgr_def)
  have "env_align_ceil list_env 30 FS_SPACE_ALIGN_SIZE = 32" by (simp add: list_env_def)
  then show ?thesis
    using alloc_space_carves [OF list_fc.fastcommon_axioms ex_two_ok _ _ _ v run] run ex_two_ok by (simp add: rely_def)
qed

theorem add_to_freelist_ok_witness:
  "space_ok (free_space_of (snd (trunk_allocator_add_to_freelist 0 3 ex_two))) \<and>
   fst (trunk_allocator_add_to_freelist 0 3 ex_two) = fs_freelist_type_reclaim"
proof -
  obtain ty m' where run: "trunk_allocator_add_to_freelist 0 3 ex_two = (ty, m')" by (metis surj_pair)
  have "\<forall>fl. (3::nat) \<notin> set (fl_list fl ex_two)"
    by (simp add: get_freelist_def ex_two_def ex_mgr_def ex_path_allocator_def split: freelist_ref.splits)
  then show ?thesis
    using add_to_freelist_ok [OF ex_two_ok _ _ _ _ _ run, of "ex_trunk 3 100 0"] run
    by (simp add: ex_two_def ex_mgr_def ex_trunk_def new_trunk_def in_bounds_def extent_of_def)
qed

theorem big_trunk_aborts_witness:
  "trunk_freelist_alloc_space list_env 4096 [] 0 (FL_PATH 0) 4096 True
     (ex_mgr [1 \<mapsto> ex_trunk 1 4294967296 0] [1] 4294967296) =
   Some (ABORT, [], ex_mgr [1 \<mapsto> ex_trunk 1 4294967296 0] [1] 4294967296)"
  by (rule big_trunk_aborts [OF list_fc.fastcommon_axioms, of _ _ 1 "[]" "ex_trunk 1 4294967296 0"])
     (simp_all add: ex_mgr_def ex_trunk_def new_trunk_def get_freelist_def ex_path_allocator_def)

text \<open>The path of the example moves to the array of full ones.\<close>

theorem full_avail_partition_witness:
  "aptr_split {0} (snd (fs_remove_from_avail_aptr_array list_env 0 ex_two)) \<and>
   aa_items (am_full (snd (fs_remove_from_avail_aptr_array list_env 0 ex_two))) = [0]"
proof -
  have "aptr_split {0} ex_two" by (simp add: aptr_split_def aptr_ok_def ex_two_def ex_mgr_def)
  from full_avail_partition [OF this, where E = list_env and a = 0]
  have "aptr_split {0} (snd (fs_remove_from_avail_aptr_array list_env 0 ex_two))" by (auto split: prod.splits)
  moreover have "aa_items (am_full (snd (fs_remove_from_avail_aptr_array list_env 0 ex_two))) = [0]" by code_simp
  ultimately show ?thesis by simp
qed

end
