(* ===== verification/RPC_Ring.thy ===== *)
theory RPC_Ring
  imports FC_Contracts
begin

text \<open>
  Pending replication calls (\<open>src/server/replication/rpc_result_ring.c\<close>, types in
  \<open>src/server/server_types.h\<close>): a master that has sent an update to a replica remembers the
  data version and the waiting task until the replica answers. Consecutive versions go to a
  ring in which a version has the slot \<open>version % size\<close>; what does not fit goes to a queue
  chained in the order of versions.

  A pointer into the ring is an index of \<open>ri_entries\<close>. The queue is the list of the entries
  reachable from \<open>queue.head\<close>, each with its address; \<open>queue.tail\<close> is an address, so the
  model can tell a tail that is not the last entry. A waiting task is named by a number; the
  counter \<open>waiting_rpc_count\<close> of the tasks and the notifications of their data threads are the
  world of this component. A time is a number of seconds.
\<close>

section \<open>Data\<close>

record FSReplicaRPCResultEntry =
  re_version :: int
  re_expires :: int
  re_task :: "nat option"

record FSReplicaRPCResultInstance =
  ri_data_group_id :: int
  ri_entries :: "FSReplicaRPCResultEntry list"
  ri_start :: nat
  ri_end :: nat
  ri_size :: nat
  ri_queue :: "(nat \<times> FSReplicaRPCResultEntry) list"
  ri_tail :: "nat option"

record rpc_world =
  rw_now :: int
  rw_network_timeout :: int
  rw_calls :: nat
  rw_waiting :: "nat \<Rightarrow> int"
  rw_notified :: "nat list"

record FSReplicaRPCResultContext =
  rc_last_check_timeout_time :: int
  rc_dg_base_id :: int
  rc_instances :: "FSReplicaRPCResultInstance list option"

definition zero_entry :: FSReplicaRPCResultEntry where
  "zero_entry = \<lparr>re_version = 0, re_expires = 0, re_task = None\<rparr>"

section \<open>Creation\<close>

definition init_rpc_result_instance :: "fc_env \<Rightarrow> FSReplicaRPCResultInstance \<Rightarrow> nat \<Rightarrow> rpc_world \<Rightarrow>
    int \<times> FSReplicaRPCResultInstance \<times> rpc_world" where
  "init_rpc_result_instance E inst alloc_size w =
     (let w1 = w\<lparr>rw_calls := Suc (rw_calls w)\<rparr>
      in if \<not> env_task_alloc E (rw_calls w) then (ENOMEM, inst, w1)
         else (0, inst\<lparr>ri_entries := replicate alloc_size zero_entry, ri_start := 0, ri_end := 0,
                       ri_size := alloc_size, ri_queue := [], ri_tail := None\<rparr>, w1))"

definition zero_instance :: FSReplicaRPCResultInstance where
  "zero_instance = \<lparr>ri_data_group_id = 0, ri_entries = [], ri_start = 0, ri_end = 0, ri_size = 0,
     ri_queue = [], ri_tail = None\<rparr>"

fun init_instances :: "fc_env \<Rightarrow> int \<Rightarrow> nat \<Rightarrow> FSReplicaRPCResultInstance list \<Rightarrow> rpc_world \<Rightarrow>
    int \<times> FSReplicaRPCResultInstance list \<times> rpc_world" where
  "init_instances E dg_id alloc_size [] w = (0, [], w)"
| "init_instances E dg_id alloc_size (inst # rest) w =
     (case init_rpc_result_instance E (inst\<lparr>ri_data_group_id := dg_id\<rparr>) alloc_size w of (result, inst, w) \<Rightarrow>
        if result \<noteq> 0 then (result, inst # rest, w)
        else (case init_instances E (dg_id + 1) alloc_size rest w of (result, rest, w) \<Rightarrow>
                (result, inst # rest, w)))"

definition fs_cluster_cfg_get_min_data_group_id :: "int list \<Rightarrow> int" where
  "fs_cluster_cfg_get_min_data_group_id ids = (case ids of [] \<Rightarrow> -1 | x # _ \<Rightarrow> x)"

text \<open>\<open>ids\<close> are the data groups of this server; the last step sets up the pool of queue entries.\<close>

definition rpc_result_ring_check_init :: "fc_env \<Rightarrow> int list \<Rightarrow> nat \<Rightarrow> FSReplicaRPCResultContext \<Rightarrow>
    rpc_world \<Rightarrow> int \<times> FSReplicaRPCResultContext \<times> rpc_world" where
  "rpc_result_ring_check_init E ids alloc_size ctx w =
     (if rc_instances ctx \<noteq> None then (0, ctx, w)
      else
        (let ctx1 = ctx\<lparr>rc_dg_base_id := fs_cluster_cfg_get_min_data_group_id ids\<rparr>;
             w1 = w\<lparr>rw_calls := Suc (rw_calls w)\<rparr>
         in if \<not> env_task_alloc E (rw_calls w) then (ENOMEM, ctx1, w1)
            else (case init_instances E (rc_dg_base_id ctx1) alloc_size (replicate (length ids) zero_instance) w1 of
                    (result, insts, w2) \<Rightarrow>
                      if result \<noteq> 0 then (result, ctx1\<lparr>rc_instances := Some insts\<rparr>, w2)
                      else (if env_task_alloc E (rw_calls w2) then 0 else ENOMEM,
                            ctx1\<lparr>rc_instances := Some insts\<rparr>, w2\<lparr>rw_calls := Suc (rw_calls w2)\<rparr>))))"

section \<open>Releasing entries\<close>

definition desc_task_waiting_rpc_count :: "FSReplicaRPCResultEntry \<Rightarrow> rpc_world \<Rightarrow> rpc_world" where
  "desc_task_waiting_rpc_count entry w =
     (case re_task entry of
        None \<Rightarrow> w
      | Some t \<Rightarrow>
          (let w1 = w\<lparr>rw_waiting := (rw_waiting w)(t := rw_waiting w t - 1)\<rparr>
           in if rw_waiting w t - 1 = 0 then w1\<lparr>rw_notified := rw_notified w @ [t]\<rparr> else w1))"

abbreviation empty_slot :: "FSReplicaRPCResultEntry \<Rightarrow> FSReplicaRPCResultEntry" where
  "empty_slot e \<equiv> e\<lparr>re_version := 0, re_task := None\<rparr>"

definition rpc_result_instance_clear_queue_all :: "FSReplicaRPCResultInstance \<Rightarrow> rpc_world \<Rightarrow>
    FSReplicaRPCResultInstance \<times> rpc_world" where
  "rpc_result_instance_clear_queue_all inst w =
     (if ri_queue inst = [] then (inst, w)
      else (inst\<lparr>ri_queue := [], ri_tail := None\<rparr>,
            fold desc_task_waiting_rpc_count (map snd (ri_queue inst)) w))"

text \<open>
  The loops over the ring go from \<open>start\<close> to \<open>end\<close>; \<open>n\<close> bounds the number of steps and is the
  size of the ring, which is enough because the two indices meet within one turn.
\<close>

fun clear_ring :: "nat \<Rightarrow> nat \<Rightarrow> FSReplicaRPCResultInstance \<Rightarrow> rpc_world \<Rightarrow>
    FSReplicaRPCResultInstance \<times> rpc_world" where
  "clear_ring 0 index inst w = (inst, w)"
| "clear_ring (Suc n) index inst w =
     (if ri_start inst = ri_end inst then (inst, w)
      else
        (let e = ri_entries inst ! ri_start inst
         in clear_ring n (index + 1)
              (inst\<lparr>ri_entries := (ri_entries inst)[ri_start inst := empty_slot e],
                    ri_start := (index + 1) mod ri_size inst\<rparr>)
              (desc_task_waiting_rpc_count e w)))"

definition rpc_result_instance_clear_all :: "FSReplicaRPCResultInstance \<Rightarrow> rpc_world \<Rightarrow>
    FSReplicaRPCResultInstance \<times> rpc_world" where
  "rpc_result_instance_clear_all inst w =
     (if ri_start inst = ri_end inst then rpc_result_instance_clear_queue_all inst w
      else (case clear_ring (ri_size inst) (ri_start inst) inst w of (inst, w) \<Rightarrow>
              rpc_result_instance_clear_queue_all inst w))"

fun clear_all_loop :: "FSReplicaRPCResultInstance list \<Rightarrow> rpc_world \<Rightarrow>
    FSReplicaRPCResultInstance list \<times> rpc_world" where
  "clear_all_loop [] w = ([], w)"
| "clear_all_loop (inst # rest) w =
     (case rpc_result_instance_clear_all inst w of (inst, w) \<Rightarrow>
        (case clear_all_loop rest w of (rest, w) \<Rightarrow> (inst # rest, w)))"

definition rpc_result_ring_clear_all :: "FSReplicaRPCResultContext \<Rightarrow> rpc_world \<Rightarrow>
    FSReplicaRPCResultContext \<times> rpc_world" where
  "rpc_result_ring_clear_all ctx w =
     (case rc_instances ctx of
        None \<Rightarrow> (ctx, w)
      | Some insts \<Rightarrow> (case clear_all_loop insts w of (insts, w) \<Rightarrow> (ctx\<lparr>rc_instances := Some insts\<rparr>, w)))"

section \<open>Timeouts\<close>

text \<open>Answers the entries that stay, the number of entries removed and the world.\<close>

fun queue_timeouts :: "(nat \<times> FSReplicaRPCResultEntry) list \<Rightarrow> rpc_world \<Rightarrow>
    (nat \<times> FSReplicaRPCResultEntry) list \<times> int \<times> rpc_world" where
  "queue_timeouts [] w = ([], 0, w)"
| "queue_timeouts (x # xs) w =
     (if re_expires (snd x) < rw_now w then
        (case queue_timeouts xs (desc_task_waiting_rpc_count (snd x) w) of (q, c, w) \<Rightarrow> (q, c + 1, w))
      else (x # xs, 0, w))"

definition rpc_result_instance_clear_queue_timeouts :: "FSReplicaRPCResultInstance \<Rightarrow> rpc_world \<Rightarrow>
    int \<times> FSReplicaRPCResultInstance \<times> rpc_world" where
  "rpc_result_instance_clear_queue_timeouts inst w =
     (case ri_queue inst of
        [] \<Rightarrow> (0, inst, w)
      | x # _ \<Rightarrow>
          if re_expires (snd x) \<ge> rw_now w then (0, inst, w)
          else (case queue_timeouts (ri_queue inst) w of (q, c, w) \<Rightarrow>
                  (c, inst\<lparr>ri_queue := q, ri_tail := (if q = [] then None else ri_tail inst)\<rparr>, w)))"

fun ring_timeouts :: "nat \<Rightarrow> nat \<Rightarrow> FSReplicaRPCResultInstance \<Rightarrow> rpc_world \<Rightarrow>
    int \<times> FSReplicaRPCResultInstance \<times> rpc_world" where
  "ring_timeouts 0 index inst w = (0, inst, w)"
| "ring_timeouts (Suc n) index inst w =
     (let e = ri_entries inst ! ri_start inst
      in if ri_start inst \<noteq> ri_end inst \<and> re_expires e < rw_now w then
           (case ring_timeouts n (index + 1)
                   (inst\<lparr>ri_entries := (ri_entries inst)[ri_start inst := empty_slot e],
                         ri_start := (index + 1) mod ri_size inst\<rparr>)
                   (desc_task_waiting_rpc_count e w) of (c, inst, w) \<Rightarrow> (c + 1, inst, w))
         else (0, inst, w))"

definition rpc_result_instance_clear_timeouts :: "FSReplicaRPCResultInstance \<Rightarrow> rpc_world \<Rightarrow>
    int \<times> FSReplicaRPCResultInstance \<times> rpc_world" where
  "rpc_result_instance_clear_timeouts inst w =
     (case (if ri_start inst \<noteq> ri_end inst then ring_timeouts (ri_size inst) (ri_start inst) inst w else (0, inst, w)) of
        (c1, inst, w) \<Rightarrow>
          (case rpc_result_instance_clear_queue_timeouts inst w of (c2, inst, w) \<Rightarrow> (c1 + c2, inst, w)))"

fun clear_timeouts_loop :: "FSReplicaRPCResultInstance list \<Rightarrow> rpc_world \<Rightarrow>
    int \<times> FSReplicaRPCResultInstance list \<times> rpc_world" where
  "clear_timeouts_loop [] w = (0, [], w)"
| "clear_timeouts_loop (inst # rest) w =
     (case rpc_result_instance_clear_timeouts inst w of (c, inst, w) \<Rightarrow>
        (case clear_timeouts_loop rest w of (c', rest, w) \<Rightarrow> (c + c', inst # rest, w)))"

definition rpc_result_ring_clear_timeouts :: "FSReplicaRPCResultContext \<Rightarrow> rpc_world \<Rightarrow>
    int \<times> FSReplicaRPCResultContext \<times> rpc_world" where
  "rpc_result_ring_clear_timeouts ctx w =
     (if rc_last_check_timeout_time ctx = rw_now w then (0, ctx, w)
      else
        (let ctx1 = ctx\<lparr>rc_last_check_timeout_time := rw_now w\<rparr>
         in case rc_instances ctx of
              None \<Rightarrow> (0, ctx1, w)
            | Some insts \<Rightarrow>
                (case clear_timeouts_loop insts w of (c, insts, w) \<Rightarrow> (c, ctx1\<lparr>rc_instances := Some insts\<rparr>, w))))"

definition rpc_result_ring_destroy :: "FSReplicaRPCResultContext \<Rightarrow> FSReplicaRPCResultContext" where
  "rpc_result_ring_destroy ctx = ctx\<lparr>rc_instances := None\<rparr>"

section \<open>Adding and removing\<close>

fun queue_insert :: "nat \<times> FSReplicaRPCResultEntry \<Rightarrow> (nat \<times> FSReplicaRPCResultEntry) list \<Rightarrow>
    (nat \<times> FSReplicaRPCResultEntry) list" where
  "queue_insert x [] = [x]"
| "queue_insert x (y # ys) =
     (if re_version (snd x) > re_version (snd y) then y # queue_insert x ys else x # y # ys)"

text \<open>\<open>link_after p x q\<close> is the queue after \<open>p->next = x\<close> with \<open>x->next\<close> null.\<close>

fun link_after :: "nat \<Rightarrow> nat \<times> FSReplicaRPCResultEntry \<Rightarrow> (nat \<times> FSReplicaRPCResultEntry) list \<Rightarrow>
    (nat \<times> FSReplicaRPCResultEntry) list" where
  "link_after p x [] = []"
| "link_after p x (y # ys) = (if fst y = p then [y, x] else y # link_after p x ys)"

definition add_to_queue :: "fc_env \<Rightarrow> FSReplicaRPCResultInstance \<Rightarrow> int \<Rightarrow> nat \<Rightarrow> rpc_world \<Rightarrow>
    int \<times> FSReplicaRPCResultInstance \<times> rpc_world" where
  "add_to_queue E inst data_version waiting_task w =
     (let w1 = w\<lparr>rw_calls := Suc (rw_calls w)\<rparr>
      in case env_entry_alloc E (rw_calls w) (\<lambda>p. p \<in> fst ` set (ri_queue inst)) of
           None \<Rightarrow> (ENOMEM, inst, w1)
         | Some p \<Rightarrow>
             (let entry = (p, \<lparr>re_version = data_version, re_expires = rw_now w + rw_network_timeout w,
                              re_task = Some waiting_task\<rparr>)
              in case ri_tail inst of
                   None \<Rightarrow> (0, inst\<lparr>ri_queue := [entry], ri_tail := Some p\<rparr>, w1)
                 | Some tail \<Rightarrow>
                     (case map_of (ri_queue inst) tail of
                        None \<Rightarrow> (FAULT, inst, w1)
                      | Some te \<Rightarrow>
                          if data_version > re_version te then
                            (0, inst\<lparr>ri_queue := link_after tail entry (ri_queue inst), ri_tail := Some p\<rparr>, w1)
                          else if data_version < re_version (snd (hd (ri_queue inst))) then
                            (0, inst\<lparr>ri_queue := entry # ri_queue inst\<rparr>, w1)
                          else (0, inst\<lparr>ri_queue := hd (ri_queue inst) # queue_insert entry (tl (ri_queue inst))\<rparr>, w1))))"

definition ring_add :: "fc_env \<Rightarrow> FSReplicaRPCResultInstance \<Rightarrow> int \<Rightarrow> nat \<Rightarrow> rpc_world \<Rightarrow>
    int \<times> FSReplicaRPCResultInstance \<times> rpc_world" where
  "ring_add E inst data_version waiting_task w =
     (let index = nat (data_version mod int (ri_size inst));
          entry = \<lparr>re_version = data_version, re_expires = rw_now w + rw_network_timeout w, re_task = Some waiting_task\<rparr>;
          next_index = (index + 1) mod ri_size inst;
          previous = ri_entries inst ! ((index + ri_size inst - 1) mod ri_size inst)
      in if ri_end inst = ri_start inst then
           (0, inst\<lparr>ri_start := index, ri_end := next_index, ri_entries := (ri_entries inst)[index := entry]\<rparr>, w)
         else if index = ri_end inst \<and> next_index \<noteq> ri_start inst \<and> data_version = u64 (re_version previous + 1) then
           (0, inst\<lparr>ri_end := next_index, ri_entries := (ri_entries inst)[index := entry]\<rparr>, w)
         else add_to_queue E inst data_version waiting_task w)"

text \<open>Indexing of the instance by the data group; an id that is not served is a wild access.\<close>

definition instance_index :: "FSReplicaRPCResultContext \<Rightarrow> int \<Rightarrow> FSReplicaRPCResultInstance list \<Rightarrow> nat option" where
  "instance_index ctx data_group_id insts =
     (if rc_dg_base_id ctx \<le> data_group_id \<and> data_group_id - rc_dg_base_id ctx < int (length insts)
      then Some (nat (data_group_id - rc_dg_base_id ctx)) else None)"

definition on_instance :: "FSReplicaRPCResultContext \<Rightarrow> int \<Rightarrow>
    (FSReplicaRPCResultInstance \<Rightarrow> rpc_world \<Rightarrow> int \<times> FSReplicaRPCResultInstance \<times> rpc_world) \<Rightarrow> rpc_world \<Rightarrow>
    int \<times> FSReplicaRPCResultContext \<times> rpc_world" where
  "on_instance ctx data_group_id f w =
     (case rc_instances ctx of
        None \<Rightarrow> (FAULT, ctx, w)
      | Some insts \<Rightarrow>
          (case instance_index ctx data_group_id insts of
             None \<Rightarrow> (FAULT, ctx, w)
           | Some k \<Rightarrow> (case f (insts ! k) w of (result, inst, w) \<Rightarrow>
                          (result, ctx\<lparr>rc_instances := Some (insts[k := inst])\<rparr>, w))))"

definition rpc_result_ring_add :: "fc_env \<Rightarrow> FSReplicaRPCResultContext \<Rightarrow> int \<Rightarrow> int \<Rightarrow> nat \<Rightarrow> rpc_world \<Rightarrow>
    int \<times> FSReplicaRPCResultContext \<times> rpc_world" where
  "rpc_result_ring_add E ctx data_group_id data_version waiting_task =
     on_instance ctx data_group_id (\<lambda>inst. ring_add E inst data_version waiting_task)"

text \<open>The search of the queue behind its head: the entry before the hit, the hit, and the list without it.\<close>

fun queue_seek :: "int \<Rightarrow> nat \<times> FSReplicaRPCResultEntry \<Rightarrow> (nat \<times> FSReplicaRPCResultEntry) list \<Rightarrow>
    ((nat \<times> FSReplicaRPCResultEntry) \<times> (nat \<times> FSReplicaRPCResultEntry) \<times>
     (nat \<times> FSReplicaRPCResultEntry) list) option" where
  "queue_seek v previous [] = None"
| "queue_seek v previous (x # xs) =
     (if v > re_version (snd x) then map_option (\<lambda>(p, e, r). (p, e, x # r)) (queue_seek v x xs)
      else if v \<noteq> re_version (snd x) then None
      else Some (previous, x, xs))"

definition remove_from_queue :: "FSReplicaRPCResultInstance \<Rightarrow> int \<Rightarrow> rpc_world \<Rightarrow>
    int \<times> FSReplicaRPCResultInstance \<times> rpc_world" where
  "remove_from_queue inst data_version w =
     (case ri_queue inst of
        [] \<Rightarrow> (ENOENT, inst, w)
      | x # rest \<Rightarrow>
          if data_version = re_version (snd x) then
            (0, inst\<lparr>ri_queue := rest, ri_tail := (if rest = [] then None else ri_tail inst)\<rparr>,
             desc_task_waiting_rpc_count (snd x) w)
          else
            (case queue_seek data_version x rest of
               None \<Rightarrow> (ENOENT, inst, w)
             | Some (previous, entry, others) \<Rightarrow>
                 (0, inst\<lparr>ri_queue := x # others,
                          ri_tail := (if ri_tail inst = Some (fst entry) then Some (fst previous) else ri_tail inst)\<rparr>,
                  desc_task_waiting_rpc_count (snd entry) w)))"

text \<open>Advancing \<open>start\<close> over the slots whose calls have been answered already.\<close>

fun skip_empty :: "nat \<Rightarrow> nat \<Rightarrow> FSReplicaRPCResultInstance \<Rightarrow> FSReplicaRPCResultInstance" where
  "skip_empty 0 index inst = inst"
| "skip_empty (Suc n) index inst =
     (if ri_start inst \<noteq> ri_end inst \<and> re_version (ri_entries inst ! ri_start inst) = 0
      then skip_empty n (index + 1) (inst\<lparr>ri_start := (index + 1) mod ri_size inst\<rparr>)
      else inst)"

definition ring_remove :: "FSReplicaRPCResultInstance \<Rightarrow> int \<Rightarrow> rpc_world \<Rightarrow>
    int \<times> FSReplicaRPCResultInstance \<times> rpc_world" where
  "ring_remove inst data_version w =
     (let index = nat (data_version mod int (ri_size inst)); entry = ri_entries inst ! index
      in if ri_end inst \<noteq> ri_start inst \<and> re_version entry = data_version then
           (let inst1 = (if ri_start inst = index
                         then skip_empty (ri_size inst) (index + 1) (inst\<lparr>ri_start := (index + 1) mod ri_size inst\<rparr>)
                         else inst)
            in (0, inst1\<lparr>ri_entries := (ri_entries inst1)[index := empty_slot entry]\<rparr>,
                desc_task_waiting_rpc_count entry w))
         else remove_from_queue inst data_version w)"

definition rpc_result_ring_remove :: "FSReplicaRPCResultContext \<Rightarrow> int \<Rightarrow> int \<Rightarrow> rpc_world \<Rightarrow>
    int \<times> FSReplicaRPCResultContext \<times> rpc_world" where
  "rpc_result_ring_remove ctx data_group_id data_version =
     on_instance ctx data_group_id (\<lambda>inst. ring_remove inst data_version)"

end
