(* ===== verification/RPC_Ring_Facts.thy ===== *)
theory RPC_Ring_Facts
  imports RPC_Ring
begin

text \<open>
  The abstract view of an instance of pending calls is the multiset of its pairs of data
  version and waiting task. The facts here show what the loops over the ring and the queue do
  to it, and which invariant they keep.
\<close>

section \<open>Positions in the ring\<close>

definition ring_dist :: "nat \<Rightarrow> nat \<Rightarrow> nat \<Rightarrow> nat" where
  "ring_dist z s t = (if s \<le> t then t - s else t + z - s)"

lemma ring_dist_0: "s < z \<Longrightarrow> t < z \<Longrightarrow> ring_dist z s t = 0 \<longleftrightarrow> s = t"
  by (auto simp: ring_dist_def)

lemma Suc_mod: "s < z \<Longrightarrow> Suc s mod z = (if Suc s = z then 0 else Suc s)"
  by auto

lemma ring_dist_step: "s < z \<Longrightarrow> t < z \<Longrightarrow> s \<noteq> t \<Longrightarrow> ring_dist z s t = Suc (ring_dist z (Suc s mod z) t)"
  by (auto simp: ring_dist_def Suc_mod)

lemma ring_dist_less: "s < z \<Longrightarrow> t < z \<Longrightarrow> ring_dist z s t < z"
  by (auto simp: ring_dist_def)

lemma ring_dist_end: "s < z \<Longrightarrow> t < z \<Longrightarrow> Suc t mod z \<noteq> s \<Longrightarrow> ring_dist z s (Suc t mod z) = Suc (ring_dist z s t)"
  by (auto simp: ring_dist_def Suc_mod)

section \<open>The abstract view\<close>

definition pend :: "FSReplicaRPCResultEntry \<Rightarrow> (int \<times> nat) multiset" where
  "pend e = (if re_version e = 0 then {#} else {#(re_version e, the (re_task e))#})"

definition pend_list :: "FSReplicaRPCResultEntry list \<Rightarrow> (int \<times> nat) multiset" where
  "pend_list es = (\<Sum>e\<leftarrow>es. pend e)"

definition pending :: "FSReplicaRPCResultInstance \<Rightarrow> (int \<times> nat) multiset" where
  "pending inst = pend_list (ri_entries inst) + pend_list (map snd (ri_queue inst))"

lemma pend_list_simps [simp]:
  "pend_list [] = {#}" "pend_list (e # es) = pend e + pend_list es" "pend_list (xs @ ys) = pend_list xs + pend_list ys"
  by (simp_all add: pend_list_def)

lemma pend_list_update: "i < length es \<Longrightarrow> pend_list (es[i := e]) + pend (es ! i) = pend_list es + pend e"
proof (induction es arbitrary: i)
  case (Cons x xs)
  show ?case
  proof (cases i)
    case 0
    then show ?thesis by (simp add: union_ac)
  next
    case (Suc j)
    have "pend_list (xs[j := e]) + pend (xs ! j) = pend_list xs + pend e"
      using Cons Suc by simp
    then show ?thesis using Suc by (simp add: add.assoc)
  qed
qed simp

lemma in_pend_list: "(v, t) \<in># pend_list es \<longleftrightarrow> (\<exists>e\<in>set es. re_version e = v \<and> v \<noteq> 0 \<and> the (re_task e) = t)"
  by (induction es) (auto simp: pend_def)

section \<open>The invariant\<close>

definition entry_ok :: "FSReplicaRPCResultEntry \<Rightarrow> bool" where
  "entry_ok e \<longleftrightarrow> (re_version e = 0 \<longleftrightarrow> re_task e = None)"

definition ring_ok :: "FSReplicaRPCResultInstance \<Rightarrow> bool" where
  "ring_ok inst \<longleftrightarrow> 2 \<le> ri_size inst \<and> length (ri_entries inst) = ri_size inst \<and>
     ri_start inst < ri_size inst \<and> ri_end inst < ri_size inst \<and>
     (\<forall>i<ri_size inst. entry_ok (ri_entries inst ! i) \<and>
        (re_version (ri_entries inst ! i) \<noteq> 0 \<longrightarrow>
           nat (re_version (ri_entries inst ! i) mod int (ri_size inst)) = i \<and>
           ring_dist (ri_size inst) (ri_start inst) i < ring_dist (ri_size inst) (ri_start inst) (ri_end inst)))"

definition queue_ok :: "FSReplicaRPCResultInstance \<Rightarrow> bool" where
  "queue_ok inst \<longleftrightarrow> sorted_wrt (\<lambda>x y. re_version (snd x) < re_version (snd y)) (ri_queue inst) \<and>
     distinct (map fst (ri_queue inst)) \<and>
     (\<forall>x\<in>set (ri_queue inst). re_version (snd x) \<noteq> 0 \<and> re_task (snd x) \<noteq> None) \<and>
     ri_tail inst = (if ri_queue inst = [] then None else Some (fst (last (ri_queue inst))))"

text \<open>No version is pending twice: the ring and the queue have none in common.\<close>

definition inst_ok :: "FSReplicaRPCResultInstance \<Rightarrow> bool" where
  "inst_ok inst \<longleftrightarrow> ring_ok inst \<and> queue_ok inst \<and>
     (\<forall>e\<in>set (ri_entries inst). \<forall>x\<in>set (ri_queue inst). re_version e \<noteq> re_version (snd x))"

lemma ring_ok_queue [simp]: "ring_ok (inst\<lparr>ri_queue := q, ri_tail := t\<rparr>) = ring_ok inst"
  "ring_ok (inst\<lparr>ri_queue := q\<rparr>) = ring_ok inst"
  by (simp_all add: ring_ok_def)

section \<open>Releasing calls\<close>

text \<open>
  The tasks of \<open>R\<close> lose one waiting call for each occurrence, and exactly those whose counter
  reaches 0 are notified, once.
\<close>

definition released :: "nat multiset \<Rightarrow> rpc_world \<Rightarrow> rpc_world \<Rightarrow> bool" where
  "released R w w' \<longleftrightarrow> rw_now w' = rw_now w \<and> rw_network_timeout w' = rw_network_timeout w \<and>
     (\<forall>t. rw_waiting w' t = rw_waiting w t - int (count R t)) \<and>
     (\<exists>ts. rw_notified w' = rw_notified w @ ts \<and>
        (\<forall>t. count (mset ts) t = (if 0 < rw_waiting w t \<and> rw_waiting w t \<le> int (count R t) then 1 else 0)))"

lemma released_none [simp]: "released {#} w w"
  by (simp add: released_def)

lemma released_trans:
  assumes "released R w w1" "released R' w1 w2"
  shows "released (R + R') w w2"
proof -
  from assms(1) obtain ts where ts: "rw_notified w1 = rw_notified w @ ts"
    "\<forall>t. count (mset ts) t = (if 0 < rw_waiting w t \<and> rw_waiting w t \<le> int (count R t) then 1 else 0)"
    by (auto simp: released_def)
  from assms(2) obtain us where us: "rw_notified w2 = rw_notified w1 @ us"
    "\<forall>t. count (mset us) t = (if 0 < rw_waiting w1 t \<and> rw_waiting w1 t \<le> int (count R' t) then 1 else 0)"
    by (auto simp: released_def)
  have "rw_notified w2 = rw_notified w @ (ts @ us)" using ts(1) us(1) by simp
  moreover have "count (mset (ts @ us)) t =
      (if 0 < rw_waiting w t \<and> rw_waiting w t \<le> int (count (R + R') t) then 1 else 0)" for t
    using ts(2) us(2) assms(1) by (auto simp: released_def)
  ultimately show ?thesis using assms by (auto simp: released_def)
qed

lemma desc_released:
  assumes "entry_ok e"
  shows "released (image_mset snd (pend e)) w (desc_task_waiting_rpc_count e w)"
proof (cases "re_task e")
  case None
  then show ?thesis using assms by (simp add: desc_task_waiting_rpc_count_def entry_ok_def pend_def)
next
  case (Some t)
  then have "image_mset snd (pend e) = {#t#}" using assms by (auto simp: entry_ok_def pend_def)
  then show ?thesis using Some by (auto simp: desc_task_waiting_rpc_count_def Let_def released_def)
qed

lemma fold_desc_released:
  "\<forall>e\<in>set es. entry_ok e \<Longrightarrow> released (image_mset snd (pend_list es)) w (fold desc_task_waiting_rpc_count es w)"
proof (induction es arbitrary: w)
  case (Cons e es)
  have "entry_ok e" using Cons.prems by simp
  from released_trans [OF desc_released [OF this, of w] Cons.IH] Cons.prems show ?case by simp
qed simp

section \<open>Steps of the ring\<close>

definition pop_start :: "FSReplicaRPCResultInstance \<Rightarrow> FSReplicaRPCResultInstance" where
  "pop_start inst = inst\<lparr>ri_entries := (ri_entries inst)[ri_start inst := empty_slot (ri_entries inst ! ri_start inst)],
     ri_start := Suc (ri_start inst) mod ri_size inst\<rparr>"

lemma pop_start_fields [simp]:
  "ri_size (pop_start inst) = ri_size inst" "ri_end (pop_start inst) = ri_end inst"
  "ri_queue (pop_start inst) = ri_queue inst" "ri_tail (pop_start inst) = ri_tail inst"
  "ri_start (pop_start inst) = Suc (ri_start inst) mod ri_size inst" "ri_data_group_id (pop_start inst) = ri_data_group_id inst"
  by (simp_all add: pop_start_def)

lemma pop_start_ok:
  assumes "ring_ok inst" "ri_start inst \<noteq> ri_end inst"
  shows "ring_ok (pop_start inst)"
    "pending inst = pending (pop_start inst) + pend (ri_entries inst ! ri_start inst)"
    "ring_dist (ri_size inst) (ri_start inst) (ri_end inst) =
       Suc (ring_dist (ri_size inst) (ri_start (pop_start inst)) (ri_end inst))"
    "entry_ok (ri_entries inst ! ri_start inst)"
proof -
  let ?z = "ri_size inst" and ?s = "ri_start inst" and ?t = "ri_end inst"
  have b: "?s < ?z" "?t < ?z" "length (ri_entries inst) = ?z" using assms(1) by (auto simp: ring_ok_def)
  show d: "ring_dist ?z ?s ?t = Suc (ring_dist ?z (ri_start (pop_start inst)) ?t)"
    using ring_dist_step [OF b(1,2) assms(2)] by simp
  show "entry_ok (ri_entries inst ! ?s)" using assms(1) b by (auto simp: ring_ok_def)
  show "pending inst = pending (pop_start inst) + pend (ri_entries inst ! ?s)"
    using pend_list_update [of ?s "ri_entries inst" "empty_slot (ri_entries inst ! ?s)"] b
    by (simp add: pending_def pop_start_def pend_def union_ac split: if_splits)
  have "entry_ok (ri_entries (pop_start inst) ! i) \<and> (re_version (ri_entries (pop_start inst) ! i) \<noteq> 0 \<longrightarrow>
      nat (re_version (ri_entries (pop_start inst) ! i) mod int ?z) = i \<and>
      ring_dist ?z (Suc ?s mod ?z) i < ring_dist ?z (Suc ?s mod ?z) ?t)" if "i < ?z" for i
  proof (cases "i = ?s")
    case True
    then show ?thesis using b by (simp add: pop_start_def entry_ok_def)
  next
    case False
    then have "ring_dist ?z ?s i = Suc (ring_dist ?z (Suc ?s mod ?z) i)"
      using ring_dist_step [OF b(1) that] by simp
    then show ?thesis using assms(1) that False d by (auto simp: ring_ok_def pop_start_def)
  qed
  moreover have "Suc ?s mod ?z < ?z" using b(1) by simp
  ultimately show "ring_ok (pop_start inst)" using assms(1) by (simp add: ring_ok_def pop_start_def)
qed

lemma pop_start_apart:
  assumes "inst_ok inst" "ri_start inst \<noteq> ri_end inst"
  shows "inst_ok (pop_start inst)"
proof -
  have "e = empty_slot (ri_entries inst ! ri_start inst) \<or> e \<in> set (ri_entries inst)"
    if "e \<in> set (ri_entries (pop_start inst))" for e
    using that set_update_subset_insert [of "ri_entries inst"] by (auto simp: pop_start_def)
  then show ?thesis
    using assms pop_start_ok(1) [of inst] by (fastforce simp: inst_ok_def queue_ok_def)
qed

lemma skip_is_pop:
  assumes "ring_ok inst" "re_version (ri_entries inst ! ri_start inst) = 0"
  shows "inst\<lparr>ri_start := Suc (ri_start inst) mod ri_size inst\<rparr> = pop_start inst"
proof -
  let ?e = "ri_entries inst ! ri_start inst"
  have "entry_ok ?e" using assms(1) by (auto simp: ring_ok_def)
  then have "empty_slot ?e = ?e" using assms(2) by (simp add: entry_ok_def)
  then have "(ri_entries inst)[ri_start inst := empty_slot ?e] = ri_entries inst" by simp
  then show ?thesis unfolding pop_start_def by simp
qed

lemma empty_ring:
  assumes "ring_ok inst" "ri_start inst = ri_end inst"
  shows "\<forall>e\<in>set (ri_entries inst). re_version e = 0" "pend_list (ri_entries inst) = {#}"
proof -
  show v: "\<forall>e\<in>set (ri_entries inst). re_version e = 0"
  proof
    fix e assume "e \<in> set (ri_entries inst)"
    then obtain i where "i < ri_size inst" "e = ri_entries inst ! i"
      using assms(1) by (auto simp: in_set_conv_nth ring_ok_def)
    then show "re_version e = 0" using assms by (auto simp: ring_ok_def ring_dist_def)
  qed
  have "\<forall>e\<in>set es. re_version e = 0 \<Longrightarrow> pend_list es = {#}" for es
    by (induction es) (auto simp: pend_def)
  then show "pend_list (ri_entries inst) = {#}" using v by blast
qed

lemma clear_ring_ok:
  assumes "ring_ok inst" "ring_dist (ri_size inst) (ri_start inst) (ri_end inst) \<le> n" "index = ri_start inst + k * ri_size inst"
    "clear_ring n index inst w = (inst', w')"
  shows "ring_ok inst' \<and> ri_start inst' = ri_end inst' \<and> ri_queue inst' = ri_queue inst \<and> ri_tail inst' = ri_tail inst \<and>
    ri_size inst' = ri_size inst \<and> released (image_mset snd (pend_list (ri_entries inst))) w w'"
  using assms
proof (induction n arbitrary: index inst w k)
  case 0
  then have "ri_start inst = ri_end inst" using ring_dist_0 by (simp add: ring_ok_def)
  then show ?case using 0 empty_ring(2) [of inst] by auto
next
  case (Suc n)
  show ?case
  proof (cases "ri_start inst = ri_end inst")
    case True
    then show ?thesis using Suc.prems empty_ring(2) [of inst] by auto
  next
    case False
    let ?e = "ri_entries inst ! ri_start inst"
    note p = pop_start_ok [OF Suc.prems(1) False]
    have i: "Suc index mod ri_size inst = Suc (ri_start inst) mod ri_size inst"
      unfolding Suc.prems(3) by (metis add_Suc mod_mult_self1)
    have k: "Suc index = ri_start (pop_start inst) + (Suc index div ri_size inst) * ri_size (pop_start inst)"
      by (simp only: pop_start_fields i [symmetric] mod_div_mult_eq)
    have run: "clear_ring n (Suc index) (pop_start inst) (desc_task_waiting_rpc_count ?e w) = (inst', w')"
      using Suc.prems(4) False i by (simp add: pop_start_def Let_def)
    have "released (image_mset snd (pend_list (ri_entries (pop_start inst)))) (desc_task_waiting_rpc_count ?e w) w'"
      and rest: "ring_ok inst' \<and> ri_start inst' = ri_end inst' \<and> ri_queue inst' = ri_queue inst \<and> ri_tail inst' = ri_tail inst \<and>
         ri_size inst' = ri_size inst"
      using Suc.IH [OF p(1) _ k run] p(3) Suc.prems(2) by auto
    from released_trans [OF desc_released [OF p(4)] this(1)]
    have "released (image_mset snd (pend ?e + pend_list (ri_entries (pop_start inst)))) w w'" by simp
    moreover have "pend ?e + pend_list (ri_entries (pop_start inst)) = pend_list (ri_entries inst)"
      using p(2) by (simp add: pending_def union_ac)
    ultimately show ?thesis using rest by simp
  qed
qed

lemma inst_ok_queue_entry: "inst_ok inst \<Longrightarrow> \<forall>e\<in>set (map snd (ri_queue inst)). entry_ok e"
  by (auto simp: inst_ok_def queue_ok_def entry_ok_def)

lemma clear_all_ok:
  assumes "inst_ok inst" "rpc_result_instance_clear_all inst w = (inst', w')"
  shows "inst_ok inst' \<and> pending inst' = {#} \<and> released (image_mset snd (pending inst)) w w'"
proof -
  have r: "ring_ok inst" and q: "queue_ok inst" using assms(1) by (auto simp: inst_ok_def)
  obtain inst1 w1 where 1: "(if ri_start inst = ri_end inst then (inst, w)
      else clear_ring (ri_size inst) (ri_start inst) inst w) = (inst1, w1)" by (metis surj_pair)
  have "ring_ok inst1 \<and> ri_start inst1 = ri_end inst1 \<and> ri_queue inst1 = ri_queue inst \<and> ri_tail inst1 = ri_tail inst \<and>
      released (image_mset snd (pend_list (ri_entries inst))) w w1"
  proof (cases "ri_start inst = ri_end inst")
    case True
    then show ?thesis using 1 r empty_ring(2) [OF r] by auto
  next
    case False
    have b: "ri_start inst < ri_size inst" "ri_end inst < ri_size inst" using r by (simp_all add: ring_ok_def)
    have "clear_ring (ri_size inst) (ri_start inst) inst w = (inst1, w1)" using 1 False by simp
    from clear_ring_ok [OF r ring_dist_less [OF b, THEN less_imp_le] _ this, of 0] show ?thesis by simp
  qed
  note c = this
  have run: "rpc_result_instance_clear_queue_all inst1 w1 = (inst', w')"
    using assms(2) 1 by (auto simp: rpc_result_instance_clear_all_def split: if_splits)
  have "\<forall>e\<in>set (map snd (ri_queue inst1)). entry_ok e" using inst_ok_queue_entry [OF assms(1)] c by simp
  note f = fold_desc_released [OF this, of w1]
  have "released (image_mset snd (pend_list (map snd (ri_queue inst)))) w1 w' \<and> inst' = inst1\<lparr>ri_queue := [], ri_tail := None\<rparr>"
  proof (cases "ri_queue inst = []")
    case True
    then have "ri_tail inst1 = None" "ri_queue inst1 = []" using c q by (simp_all add: queue_ok_def)
    then show ?thesis using True run by (simp add: rpc_result_instance_clear_queue_all_def)
  next
    case False
    then show ?thesis using f run c by (auto simp: rpc_result_instance_clear_queue_all_def)
  qed
  then have "released (image_mset snd (pend_list (map snd (ri_queue inst)))) w1 w'" "ri_queue inst' = []" "ri_tail inst' = None"
    "ring_ok inst'" "ri_start inst' = ri_end inst'"
    using c by simp_all
  moreover from this(4,5) have "pend_list (ri_entries inst') = {#}" by (rule empty_ring)
  moreover have "released (image_mset snd (pending inst)) w w'"
    using released_trans [of _ w w1 _ w'] c calculation(1) by (simp add: pending_def)
  ultimately show ?thesis by (simp add: inst_ok_def queue_ok_def pending_def)
qed

section \<open>Timeouts\<close>

definition expired_in :: "int \<Rightarrow> FSReplicaRPCResultInstance \<Rightarrow> int \<Rightarrow> bool" where
  "expired_in now inst v \<longleftrightarrow> v \<noteq> 0 \<and> (\<exists>e\<in>set (ri_entries inst) \<union> snd ` set (ri_queue inst). re_version e = v \<and> re_expires e < now)"

definition timed_out :: "FSReplicaRPCResultInstance \<Rightarrow> rpc_world \<Rightarrow> int \<Rightarrow> FSReplicaRPCResultInstance \<Rightarrow> rpc_world \<Rightarrow> bool" where
  "timed_out inst w c inst' w' \<longleftrightarrow> inst_ok inst' \<and>
     (\<exists>R. pending inst = pending inst' + R \<and> released (image_mset snd R) w w' \<and> int (size R) \<le> c \<and>
          (\<forall>x\<in>#R. expired_in (rw_now w) inst (fst x)))"

lemma timed_out_none: "inst_ok inst \<Longrightarrow> timed_out inst w 0 inst w"
  by (auto simp: timed_out_def intro!: exI [of _ "{#}"])

lemma released_now: "released R w w' \<Longrightarrow> rw_now w' = rw_now w"
  by (simp add: released_def)

lemma size_pend: "size (pend e) \<le> 1"
  by (simp add: pend_def)

lemma expired_pop: "expired_in now (pop_start inst) v \<Longrightarrow> expired_in now inst v"
  unfolding expired_in_def
  using set_update_subset_insert [of "ri_entries inst"] by (fastforce simp: pop_start_def)

lemma timed_out_trans:
  assumes "timed_out inst w c inst1 w1" "timed_out inst1 w1 c' inst2 w2"
    "\<And>v. expired_in (rw_now w) inst1 v \<Longrightarrow> expired_in (rw_now w) inst v"
  shows "timed_out inst w (c + c') inst2 w2"
proof -
  from assms(1) obtain R where R: "pending inst = pending inst1 + R" "released (image_mset snd R) w w1" "int (size R) \<le> c"
    "\<forall>x\<in>#R. expired_in (rw_now w) inst (fst x)" by (auto simp: timed_out_def)
  from assms(2) obtain R' where R': "pending inst1 = pending inst2 + R'" "released (image_mset snd R') w1 w2" "int (size R') \<le> c'"
    "\<forall>x\<in>#R'. expired_in (rw_now w1) inst1 (fst x)" by (auto simp: timed_out_def)
  have "released (image_mset snd (R + R')) w w2" using released_trans [OF R(2) R'(2)] by simp
  moreover have "\<forall>x\<in>#R + R'. expired_in (rw_now w) inst (fst x)"
    using R(4) R'(4) assms(3) released_now [OF R(2)] by auto
  ultimately show ?thesis
    using assms(2) R(1,3) R'(1,3) unfolding timed_out_def by (intro conjI exI [of _ "R + R'"]) (auto simp: union_ac)
qed

lemma timed_out_pop:
  assumes "inst_ok inst" "ri_start inst \<noteq> ri_end inst" "re_expires (ri_entries inst ! ri_start inst) < rw_now w"
  shows "timed_out inst w 1 (pop_start inst) (desc_task_waiting_rpc_count (ri_entries inst ! ri_start inst) w)"
proof -
  have r: "ring_ok inst" using assms(1) by (simp add: inst_ok_def)
  note p = pop_start_ok [OF r assms(2)]
  have "ri_entries inst ! ri_start inst \<in> set (ri_entries inst)" using r by (auto simp: ring_ok_def)
  then have "\<forall>x\<in>#pend (ri_entries inst ! ri_start inst). expired_in (rw_now w) inst (fst x)"
    using assms(3) by (auto simp: pend_def expired_in_def)
  then show ?thesis
    using pop_start_apart [OF assms(1,2)] p(2) desc_released [OF p(4)] size_pend
    unfolding timed_out_def by (intro conjI exI [of _ "pend (ri_entries inst ! ri_start inst)"]) auto
qed

lemma ring_timeouts_ok:
  assumes "inst_ok inst" "index = ri_start inst + k * ri_size inst" "ring_timeouts n index inst w = (c, inst', w')"
  shows "timed_out inst w c inst' w' \<and> ri_queue inst' = ri_queue inst \<and> 0 \<le> c \<and>
    (\<forall>v. expired_in (rw_now w) inst' v \<longrightarrow> expired_in (rw_now w) inst v)"
  using assms
proof (induction n arbitrary: index inst w k c)
  case 0
  then show ?case using timed_out_none by auto
next
  case (Suc n)
  let ?e = "ri_entries inst ! ri_start inst"
  show ?case
  proof (cases "ri_start inst \<noteq> ri_end inst \<and> re_expires ?e < rw_now w")
    case False
    then show ?thesis using Suc.prems timed_out_none by (auto simp: Let_def)
  next
    case True
    have i: "Suc index mod ri_size inst = Suc (ri_start inst) mod ri_size inst"
      unfolding Suc.prems(2) by (metis add_Suc mod_mult_self1)
    have k: "Suc index = ri_start (pop_start inst) + (Suc index div ri_size inst) * ri_size (pop_start inst)"
      by (simp only: pop_start_fields i [symmetric] mod_div_mult_eq)
    obtain c1 where run: "ring_timeouts n (Suc index) (pop_start inst) (desc_task_waiting_rpc_count ?e w) = (c1, inst', w')"
      and c: "c = c1 + 1"
      using Suc.prems(3) True i by (auto simp: pop_start_def Let_def split: prod.splits)
    note t = timed_out_pop [OF Suc.prems(1), of w]
    have now: "rw_now (desc_task_waiting_rpc_count ?e w) = rw_now w"
      using desc_released [of ?e w] released_now pop_start_ok(4) [of inst] True Suc.prems(1) by (auto simp: inst_ok_def)
    from Suc.IH [OF pop_start_apart [OF Suc.prems(1)] k run] True
    have ih: "timed_out (pop_start inst) (desc_task_waiting_rpc_count ?e w) c1 inst' w'" "ri_queue inst' = ri_queue inst" "0 \<le> c1"
      "\<forall>v. expired_in (rw_now w) inst' v \<longrightarrow> expired_in (rw_now w) (pop_start inst) v"
      unfolding now by simp_all
    have "timed_out inst w (1 + c1) inst' w'"
      by (rule timed_out_trans [OF t ih(1)]) (use True expired_pop in auto)
    then show ?thesis using ih c expired_pop by (simp add: add.commute)
  qed
qed

lemma queue_timeouts_split:
  "queue_timeouts q w = (q', c, w') \<Longrightarrow>
     \<exists>ys. q = ys @ q' \<and> c = int (length ys) \<and> w' = fold desc_task_waiting_rpc_count (map snd ys) w \<and>
       (\<forall>y\<in>set ys. re_expires (snd y) < rw_now w)"
proof (induction q arbitrary: w q' c)
  case (Cons x xs)
  show ?case
  proof (cases "re_expires (snd x) < rw_now w")
    case True
    have now: "rw_now (desc_task_waiting_rpc_count e w) = rw_now w" for e
      by (simp add: desc_task_waiting_rpc_count_def Let_def split: option.splits)
    obtain c1 where "queue_timeouts xs (desc_task_waiting_rpc_count (snd x) w) = (q', c1, w')" "c = c1 + 1"
      using Cons.prems True by (auto split: prod.splits)
    with Cons.IH obtain ys where "xs = ys @ q' \<and> c1 = int (length ys) \<and>
        w' = fold desc_task_waiting_rpc_count (map snd ys) (desc_task_waiting_rpc_count (snd x) w) \<and>
        (\<forall>y\<in>set ys. re_expires (snd y) < rw_now (desc_task_waiting_rpc_count (snd x) w))" by blast
    then show ?thesis using True \<open>c = c1 + 1\<close> unfolding now by (intro exI [of _ "x # ys"]) simp
  next
    case False
    then show ?thesis using Cons.prems by (intro exI [of _ "[]"]) auto
  qed
qed simp

lemma queue_timeouts_ok:
  assumes "inst_ok inst" "rpc_result_instance_clear_queue_timeouts inst w = (c, inst', w')"
  shows "timed_out inst w c inst' w' \<and> 0 \<le> c"
proof (cases "\<exists>x xs. ri_queue inst = x # xs \<and> re_expires (snd x) < rw_now w")
  case False
  then have "c = 0" "inst' = inst" "w' = w"
    using assms(2) by (auto simp: rpc_result_instance_clear_queue_timeouts_def split: list.splits if_splits)
  then show ?thesis using timed_out_none [OF assms(1)] by simp
next
  case True
  then obtain q where run: "queue_timeouts (ri_queue inst) w = (q, c, w')"
    and inst': "inst' = inst\<lparr>ri_queue := q, ri_tail := (if q = [] then None else ri_tail inst)\<rparr>"
    using assms(2) by (auto simp: rpc_result_instance_clear_queue_timeouts_def simp del: queue_timeouts.simps split: prod.splits)
  from queue_timeouts_split [OF run] obtain ys where ys: "ri_queue inst = ys @ q" "c = int (length ys)"
    "w' = fold desc_task_waiting_rpc_count (map snd ys) w" "\<forall>y\<in>set ys. re_expires (snd y) < rw_now w" by blast
  have "inst_ok inst'"
    using assms(1) unfolding inst' inst_ok_def queue_ok_def ys(1) by (auto simp: sorted_wrt_append)
  moreover have "pending inst = pending inst' + pend_list (map snd ys)"
    by (simp add: pending_def inst' ys(1) union_ac)
  moreover have "released (image_mset snd (pend_list (map snd ys))) w w'"
    unfolding ys(3) by (rule fold_desc_released) (use inst_ok_queue_entry [OF assms(1)] ys(1) in auto)
  moreover have "size (pend_list es) \<le> length es" for es
    by (induction es) (auto simp: pend_def)
  from this [of "map snd ys"] have "int (size (pend_list (map snd ys))) \<le> c" using ys(2) by simp
  moreover have "\<forall>x\<in>#pend_list (map snd ys). expired_in (rw_now w) inst (fst x)"
    using ys(1,4) by (fastforce simp: in_pend_list expired_in_def)
  moreover have "0 \<le> c" using ys(2) by simp
  ultimately show ?thesis unfolding timed_out_def by blast
qed

lemma clear_timeouts_ok:
  assumes "inst_ok inst" "rpc_result_instance_clear_timeouts inst w = (c, inst', w')"
  shows "timed_out inst w c inst' w' \<and> 0 \<le> c"
proof -
  obtain c1 inst1 w1 where 1: "(if ri_start inst \<noteq> ri_end inst then ring_timeouts (ri_size inst) (ri_start inst) inst w
      else (0, inst, w)) = (c1, inst1, w1)" by (metis prod_cases3)
  obtain c2 where 2: "rpc_result_instance_clear_queue_timeouts inst1 w1 = (c2, inst', w')" "c = c1 + c2"
    using assms(2) 1 by (auto simp: rpc_result_instance_clear_timeouts_def split: prod.splits)
  have t: "timed_out inst w c1 inst1 w1 \<and> 0 \<le> c1 \<and> (\<forall>v. expired_in (rw_now w) inst1 v \<longrightarrow> expired_in (rw_now w) inst v)"
  proof (cases "ri_start inst \<noteq> ri_end inst")
    case True
    then have "ring_timeouts (ri_size inst) (ri_start inst) inst w = (c1, inst1, w1)" using 1 by simp
    from ring_timeouts_ok [OF assms(1) _ this, of 0] show ?thesis by simp
  next
    case False
    then show ?thesis using 1 timed_out_none [OF assms(1)] by auto
  qed
  then have "inst_ok inst1" by (simp add: timed_out_def)
  from queue_timeouts_ok [OF this 2(1)] timed_out_trans [of inst w c1 inst1 w1 c2 inst' w'] t 2(2) show ?thesis by simp
qed

section \<open>Adding a call\<close>

lemma queue_insert_mset: "mset (queue_insert x ys) = add_mset x (mset ys)"
  by (induction ys) auto

lemma queue_insert_set: "set (queue_insert x ys) = insert x (set ys)"
  using queue_insert_mset by (metis set_mset_add_mset_insert set_mset_mset)

lemma queue_insert_sorted:
  assumes "sorted_wrt (\<lambda>a b. re_version (snd a) < re_version (snd b)) ys" "\<forall>y\<in>set ys. re_version (snd y) \<noteq> re_version (snd x)"
  shows "sorted_wrt (\<lambda>a b. re_version (snd a) < re_version (snd b)) (queue_insert x ys)"
  using assms by (induction ys) (auto simp: queue_insert_set)

lemma queue_insert_last:
  "ys \<noteq> [] \<Longrightarrow> re_version (snd x) \<le> re_version (snd (last ys)) \<Longrightarrow> last (queue_insert x ys) = last ys"
proof (induction ys)
  case (Cons y ys)
  then show ?case by (cases ys) auto
qed simp

lemma pend_list_mset: "mset xs = mset ys \<Longrightarrow> pend_list xs = pend_list ys"
  unfolding pend_list_def by (metis mset_map sum_mset_sum_list)

lemma link_after_last:
  assumes "ys \<noteq> []" "distinct (map fst ys)"
  shows "link_after (fst (last ys)) x ys = ys @ [x]"
  using assms
proof (induction ys)
  case (Cons y ys)
  show ?case
  proof (cases "ys = []")
    case False
    then have "fst (last ys) \<in> fst ` set ys" by (intro imageI) simp
    then have "fst y \<noteq> fst (last ys)" using Cons.prems(2) by (metis distinct.simps(2) list.map(2) set_map)
    then show ?thesis using Cons False by simp
  qed simp
qed simp

definition holds_version :: "FSReplicaRPCResultInstance \<Rightarrow> int \<Rightarrow> bool" where
  "holds_version inst v \<longleftrightarrow> (\<exists>t. (v, t) \<in># pending inst)"

lemma holds_version_iff:
  "holds_version inst v \<longleftrightarrow> v \<noteq> 0 \<and> (\<exists>e\<in>set (ri_entries inst) \<union> snd ` set (ri_queue inst). re_version e = v)"
  by (auto simp: holds_version_def pending_def in_pend_list)

text \<open>A call with a new version goes into the queue at its place.\<close>

lemma add_to_queue_ok:
  assumes "fastcommon E" "inst_ok inst" "v \<noteq> 0" "\<not> holds_version inst v"
    "add_to_queue E inst v t w = (r, inst', w')"
  shows "(r = 0 \<and> inst_ok inst' \<and> pending inst' = add_mset (v, t) (pending inst) \<or> r = ENOMEM \<and> inst' = inst) \<and>
    released {#} w w'"
proof (cases "env_entry_alloc E (rw_calls w) (\<lambda>p. p \<in> fst ` set (ri_queue inst))")
  case None
  then show ?thesis using assms(5) by (auto simp: add_to_queue_def Let_def released_def)
next
  case (Some p)
  let ?q = "ri_queue inst"
  let ?x = "(p, \<lparr>re_version = v, re_expires = rw_now w + rw_network_timeout w, re_task = Some t\<rparr>)"
  let ?lt = "\<lambda>a b. re_version (snd a) < re_version (snd b)"
  have fresh: "p \<notin> fst ` set ?q" using fastcommon.entry_alloc_fresh [OF assms(1) Some] .
  have q: "sorted_wrt ?lt ?q" "distinct (map fst ?q)" "ri_tail inst = (if ?q = [] then None else Some (fst (last ?q)))"
    using assms(2) by (auto simp: inst_ok_def queue_ok_def)
  have v: "\<forall>y\<in>set ?q. re_version (snd y) \<noteq> v" "\<forall>e\<in>set (ri_entries inst). re_version e \<noteq> v"
    using assms(3,4) by (auto simp: holds_version_iff)
  have goal: "inst_ok i' \<and> pending i' = add_mset (v, t) (pending inst)"
    if i': "ri_queue i' = q' \<and> ri_tail i' = Some (fst (last q')) \<and> ri_entries i' = ri_entries inst \<and> ring_ok i' = ring_ok inst" "mset q' = add_mset ?x (mset ?q)" "sorted_wrt ?lt q'" for i' q'
  proof -
    have s: "set q' = insert ?x (set ?q)" using that(2) by (metis set_mset_add_mset_insert set_mset_mset)
    have "mset (map fst q') = mset (map fst (?x # ?q))" using that(2) by simp
    then have "distinct (map fst q')" using q(2) fresh by (metis (mono_tags) distinct.simps(2) fst_conv list.set_map list.simps(9) mset_eq_imp_distinct_iff)
    then have "inst_ok i'"
      using assms(2,3) s v that(3) i'(1) unfolding inst_ok_def queue_ok_def by auto
    moreover have "pend_list (map snd q') = pend_list (map snd (?x # ?q))"
      by (rule pend_list_mset) (simp add: that(2))
    ultimately show ?thesis using assms(3) by (simp add: pending_def i' pend_def)
  qed
  have rel: "released {#} w (w\<lparr>rw_calls := Suc (rw_calls w)\<rparr>)" by (simp add: released_def)
  show ?thesis
  proof (cases ?q)
    case Nil
    then have "r = 0 \<and> inst' = inst\<lparr>ri_queue := [?x], ri_tail := Some (fst (last [?x]))\<rparr> \<and> w' = w\<lparr>rw_calls := Suc (rw_calls w)\<rparr>"
      using assms(5) Some q(3) by (simp add: add_to_queue_def Let_def)
    then show ?thesis using goal [of inst' "[?x]"] rel Nil by simp
  next
    case (Cons y ys)
    have ne: "?q \<noteq> []" using Cons by simp
    have m: "map_of ?q (fst (last ?q)) = Some (snd (last ?q))"
      using map_of_is_SomeI [OF q(2)] last_in_set [OF ne] by (metis surjective_pairing)
    have le: "re_version (snd z) \<le> re_version (snd (last ?q))" if "z \<in> set ?q" for z
      using sorted_wrt_last [OF q(1) that] by auto
    consider (rear) "v > re_version (snd (last ?q))" | (front) "v < re_version (snd y)" "\<not> v > re_version (snd (last ?q))"
      | (mid) "\<not> v < re_version (snd y)" "\<not> v > re_version (snd (last ?q))" by blast
    then show ?thesis
    proof cases
      case rear
      then have "r = 0 \<and> inst' = inst\<lparr>ri_queue := ?q @ [?x], ri_tail := Some (fst (last (?q @ [?x])))\<rparr> \<and> w' = w\<lparr>rw_calls := Suc (rw_calls w)\<rparr>"
        using assms(5) Some q(3) ne m link_after_last [OF ne q(2)] by (simp add: add_to_queue_def Let_def)
      moreover have "sorted_wrt ?lt (?q @ [?x])" using q(1) rear le by (auto simp: sorted_wrt_append intro: le_less_trans)
      ultimately show ?thesis using goal [of inst' "?q @ [?x]"] rel by simp
    next
      case front
      then have "r = 0 \<and> inst' = inst\<lparr>ri_queue := ?x # ?q\<rparr> \<and> w' = w\<lparr>rw_calls := Suc (rw_calls w)\<rparr>"
        using assms(5) Some q(3) ne m Cons by (simp add: add_to_queue_def Let_def)
      moreover have "sorted_wrt ?lt (?x # ?q)" using q(1) front(1) Cons by (auto intro: less_trans)
      ultimately show ?thesis using goal [of inst' "?x # ?q"] rel q(3) ne by simp
    next
      case mid
      have "v \<noteq> re_version (snd y)" "v \<noteq> re_version (snd (last ?q))" using v(1) Cons last_in_set [OF ne] by auto
      then have lt: "re_version (snd y) < v" "v < re_version (snd (last ?q))" using mid by auto
      then have ys: "ys \<noteq> []" using Cons by auto
      have l: "last (queue_insert ?x ys) = last ys"
        by (rule queue_insert_last [OF ys]) (use lt(2) ys Cons in simp)
      let ?n = "y # queue_insert ?x ys"
      have nl: "fst (last ?n) = fst (last ?q)" using l ys Cons by (metis last_ConsR neq_Nil_conv queue_insert_set insert_not_empty set_empty)
      have "r = 0 \<and> inst' = inst\<lparr>ri_queue := ?n\<rparr> \<and> w' = w\<lparr>rw_calls := Suc (rw_calls w)\<rparr>"
        using assms(5) Some q(3) ne m Cons mid by (simp add: add_to_queue_def Let_def)
      moreover have "sorted_wrt ?lt ?n"
        using q(1) Cons lt(1) v(1) queue_insert_sorted [of ys ?x] by (auto simp: queue_insert_set)
      moreover have "mset ?n = add_mset ?x (mset ?q)" using Cons by (simp add: queue_insert_mset)
      ultimately show ?thesis using goal [of inst' ?n] rel q(3) ne nl by simp
    qed
  qed
qed

text \<open>A slot of the ring is filled: at the end of the used part, or anywhere in an empty ring.\<close>

lemma fill_slot_ok:
  assumes "inst_ok inst" "v \<noteq> 0" "\<not> holds_version inst v" "re_version e = v" "re_task e = Some t"
    and k: "k = nat (v mod int (ri_size inst))" "re_version (ri_entries inst ! k) = 0"
    and ring: "s < ri_size inst" "z < ri_size inst" "ring_dist (ri_size inst) s k < ring_dist (ri_size inst) s z"
      "\<forall>i<ri_size inst. re_version (ri_entries inst ! i) \<noteq> 0 \<longrightarrow> ring_dist (ri_size inst) s i < ring_dist (ri_size inst) s z"
    and i': "inst' = inst\<lparr>ri_start := s, ri_end := z, ri_entries := (ri_entries inst)[k := e]\<rparr>"
  shows "inst_ok inst' \<and> pending inst' = add_mset (v, t) (pending inst)"
proof -
  have r: "ring_ok inst" using assms(1) by (simp add: inst_ok_def)
  have "0 < ri_size inst" using r by (simp add: ring_ok_def)
  then have "v mod int (ri_size inst) < int (ri_size inst)" by simp
  then have kz: "k < ri_size inst" using k(1) \<open>0 < ri_size inst\<close> by linarith
  then have kl: "k < length (ri_entries inst)" using r by (simp add: ring_ok_def)
  have "ring_ok inst'"
    using r ring k(1) kz assms(2,4,5) unfolding i' ring_ok_def
    by (auto simp: nth_list_update entry_ok_def)
  moreover have "queue_ok inst'" using assms(1) unfolding i' inst_ok_def queue_ok_def by simp
  moreover have "re_version f \<noteq> re_version (snd x)" if "f \<in> set (ri_entries inst')" "x \<in> set (ri_queue inst')" for f x
  proof -
    have "f = e \<or> f \<in> set (ri_entries inst)"
      using that(1) set_update_subset_insert [of "ri_entries inst"] by (auto simp: i')
    then show ?thesis
      using that(2) assms(1,2,3,4) by (auto simp: i' inst_ok_def holds_version_iff)
  qed
  ultimately have "inst_ok inst'" by (simp add: inst_ok_def)
  moreover have "pending inst' = add_mset (v, t) (pending inst)"
    using pend_list_update [OF kl, of e] k(2) assms(2,4,5) by (simp add: pending_def i' pend_def)
  ultimately show ?thesis by simp
qed

lemma ring_add_ok:
  assumes "fastcommon E" "inst_ok inst" "v \<noteq> 0" "\<not> holds_version inst v" "ring_add E inst v t w = (r, inst', w')"
  shows "(r = 0 \<and> inst_ok inst' \<and> pending inst' = add_mset (v, t) (pending inst) \<or> r = ENOMEM \<and> inst' = inst) \<and>
    released {#} w w'"
proof -
  let ?z = "ri_size inst" let ?k = "nat (v mod int ?z)"
  let ?e = "\<lparr>re_version = v, re_expires = rw_now w + rw_network_timeout w, re_task = Some t\<rparr>"
  let ?prev = "ri_entries inst ! ((?k + ?z - 1) mod ?z)"
  have r: "ring_ok inst" and z: "2 \<le> ?z" "length (ri_entries inst) = ?z" "ri_start inst < ?z" "ri_end inst < ?z"
    using assms(2) by (auto simp: inst_ok_def ring_ok_def)
  have "v mod int ?z < int ?z" using z(1) by simp
  then have k: "?k < ?z" using z(1) by linarith
  note fill = fill_slot_ok [OF assms(2,3,4), of ?e t ?k, simplified]
  consider (empty) "ri_end inst = ri_start inst"
    | (extend) "ri_end inst \<noteq> ri_start inst" "?k = ri_end inst" "(?k + 1) mod ?z \<noteq> ri_start inst" "v = u64 (re_version ?prev + 1)"
    | (other) "ri_end inst \<noteq> ri_start inst" "\<not> (?k = ri_end inst \<and> (?k + 1) mod ?z \<noteq> ri_start inst \<and> v = u64 (re_version ?prev + 1))"
    by blast
  then show ?thesis
  proof cases
    case empty
    then have run: "r = 0" "inst' = inst\<lparr>ri_start := ?k, ri_end := Suc ?k mod ?z, ri_entries := (ri_entries inst)[?k := ?e]\<rparr>" "w' = w"
      using assms(5) by (auto simp: ring_add_def Let_def)
    have e: "\<forall>f\<in>set (ri_entries inst). re_version f = 0" using empty_ring(1) [OF r] empty by simp
    have "ring_dist ?z ?k ?k < ring_dist ?z ?k (Suc ?k mod ?z)"
      using k z(1) by (auto simp: ring_dist_def Suc_mod)
    with fill [of ?k "Suc ?k mod ?z" inst'] run e k z show ?thesis by simp
  next
    case extend
    then have run: "r = 0" "inst' = inst\<lparr>ri_start := ri_start inst, ri_end := Suc ?k mod ?z, ri_entries := (ri_entries inst)[?k := ?e]\<rparr>" "w' = w"
      using assms(5) by (auto simp: ring_add_def Let_def)
    have d: "ring_dist ?z (ri_start inst) (Suc ?k mod ?z) = Suc (ring_dist ?z (ri_start inst) ?k)"
      using ring_dist_end [OF z(3) k] extend(3) by simp
    have "re_version (ri_entries inst ! ?k) = 0" using r k extend(2) by (auto simp: ring_ok_def)
    moreover have "\<forall>i<?z. re_version (ri_entries inst ! i) \<noteq> 0 \<longrightarrow>
        ring_dist ?z (ri_start inst) i < ring_dist ?z (ri_start inst) (Suc ?k mod ?z)"
      unfolding d using r extend(2) by (auto simp: ring_ok_def less_Suc_eq)
    ultimately show ?thesis using fill [of "ri_start inst" "Suc ?k mod ?z" inst'] run d z k by simp
  next
    case other
    from assms(5) [unfolded ring_add_def Let_def if_not_P [OF other(1)] if_not_P [OF other(2)]]
    show ?thesis by (rule add_to_queue_ok [OF assms(1-4)])
  qed
qed

section \<open>Removing a call\<close>

lemma queue_seek_hit:
  "queue_seek v p xs = Some (p', x, r) \<Longrightarrow> \<exists>ys zs. xs = ys @ x # zs \<and> r = ys @ zs \<and> re_version (snd x) = v \<and> p' = last (p # ys)"
proof (induction xs arbitrary: p r)
  case (Cons y xs)
  show ?case
  proof (cases "v > re_version (snd y)")
    case True
    then obtain r1 where r1: "queue_seek v y xs = Some (p', x, r1)" "r = y # r1" using Cons.prems by auto
    from Cons.IH [OF r1(1)] obtain ys zs where "xs = ys @ x # zs \<and> r1 = ys @ zs \<and> re_version (snd x) = v \<and> p' = last (y # ys)" by blast
    then show ?thesis using r1(2) by (intro exI [of _ "y # ys"] exI [of _ zs]) simp
  next
    case False
    then show ?thesis using Cons.prems by (intro exI [of _ "[]"] exI [of _ xs]) (auto split: if_splits)
  qed
qed simp

lemma queue_seek_miss:
  "sorted_wrt (\<lambda>a b. re_version (snd a) < re_version (snd b)) xs \<Longrightarrow> queue_seek v p xs = None \<Longrightarrow>
   \<forall>x\<in>set xs. re_version (snd x) \<noteq> v"
  by (induction xs arbitrary: p) (auto split: if_splits)

text \<open>Taking one entry out of the queue, with the tail moved when it was the last one.\<close>

lemma drop_entry_ok:
  assumes "inst_ok inst" "ri_queue inst = ys @ x # zs" "inst' = inst\<lparr>ri_queue := ys @ zs, ri_tail := tl'\<rparr>"
    "tl' = (if ys @ zs = [] then None else Some (fst (last (ys @ zs))))"
  shows "inst_ok inst' \<and> pending inst = pending inst' + pend (snd x)"
  using assms unfolding inst_ok_def queue_ok_def
  by (auto simp: sorted_wrt_append pending_def union_ac)

lemma remove_from_queue_ok:
  assumes "inst_ok inst" "\<forall>e\<in>set (ri_entries inst). re_version e \<noteq> v" "remove_from_queue inst v w = (r, inst', w')"
  shows "(r = 0 \<and> inst_ok inst' \<and> (\<exists>t. pending inst = add_mset (v, t) (pending inst') \<and> released {#t#} w w')) \<or>
    (r = ENOENT \<and> inst' = inst \<and> w' = w \<and> \<not> holds_version inst v)"
proof (cases "ri_queue inst")
  case Nil
  then show ?thesis using assms by (auto simp: remove_from_queue_def holds_version_iff)
next
  case (Cons x rest)
  have q: "sorted_wrt (\<lambda>a b. re_version (snd a) < re_version (snd b)) (x # rest)" "distinct (map fst (x # rest))"
    "ri_tail inst = Some (fst (last (x # rest)))"
    and ent: "\<forall>y\<in>set (x # rest). re_version (snd y) \<noteq> 0 \<and> re_task (snd y) \<noteq> None"
    using assms(1) Cons by (auto simp: inst_ok_def queue_ok_def)
  have fin: "\<exists>t. pending inst = add_mset (v, t) (pending inst') \<and> released {#t#} w (desc_task_waiting_rpc_count (snd y) w)"
    if "pending inst = pending inst' + pend (snd y)" "y \<in> set (x # rest)" "re_version (snd y) = v" for y
    using that ent desc_released [of "snd y" w] by (auto simp: pend_def entry_ok_def)
  show ?thesis
  proof (cases "v = re_version (snd x)")
    case True
    then have run: "r = 0" "inst' = inst\<lparr>ri_queue := [] @ rest, ri_tail := (if rest = [] then None else ri_tail inst)\<rparr>"
      "w' = desc_task_waiting_rpc_count (snd x) w"
      using assms(3) Cons by (auto simp: remove_from_queue_def)
    from drop_entry_ok [OF assms(1) _ this(2), of x] Cons q(3)
    have "inst_ok inst' \<and> pending inst = pending inst' + pend (snd x)" by simp
    then show ?thesis using fin [of x] run True by simp
  next
    case False
    show ?thesis
    proof (cases "queue_seek v x rest")
      case None
      then have "\<not> holds_version inst v"
        using queue_seek_miss [of rest v x] q(1) assms(2) False Cons by (auto simp: holds_version_iff)
      then show ?thesis using assms(3) Cons False None by (simp add: remove_from_queue_def)
    next
      case (Some res)
      obtain p y others where res: "res = (p, y, others)" by (metis prod_cases3)
      from queue_seek_hit [OF Some [unfolded res]] obtain ys zs where
        s: "rest = ys @ y # zs" "others = ys @ zs" "re_version (snd y) = v" "p = last (x # ys)" by blast
      have run: "r = 0" "inst' = inst\<lparr>ri_queue := (x # ys) @ zs, ri_tail := (if ri_tail inst = Some (fst y) then Some (fst p) else ri_tail inst)\<rparr>"
        "w' = desc_task_waiting_rpc_count (snd y) w"
        using assms(3) Cons False Some res s(2) by (auto simp: remove_from_queue_def)
      have "(ri_tail inst = Some (fst y)) = (zs = [])"
      proof (cases zs rule: rev_cases)
        case Nil
        then show ?thesis using q(3) s(1) by simp
      next
        case (snoc zs' z)
        then have "fst z \<noteq> fst y" using q(2) s(1) by auto
        then show ?thesis using q(3) s(1) snoc by simp
      qed
      then have "(if ri_tail inst = Some (fst y) then Some (fst p) else ri_tail inst) = Some (fst (last ((x # ys) @ zs)))"
        using q(3) s(1,4) by simp
      with drop_entry_ok [OF assms(1) _ run(2), of y] Cons s(1)
      have "inst_ok inst' \<and> pending inst = pending inst' + pend (snd y)" by simp
      then show ?thesis using fin [of y] run s(1,3) by simp
    qed
  qed
qed

lemma skip_empty_ok:
  "inst_ok inst \<Longrightarrow> index = ri_start inst + k * ri_size inst \<Longrightarrow>
   inst_ok (skip_empty n index inst) \<and> pending (skip_empty n index inst) = pending inst"
proof (induction n arbitrary: index inst k)
  case (Suc n)
  show ?case
  proof (cases "ri_start inst \<noteq> ri_end inst \<and> re_version (ri_entries inst ! ri_start inst) = 0")
    case True
    have r: "ring_ok inst" using Suc.prems(1) by (simp add: inst_ok_def)
    have i: "Suc index mod ri_size inst = Suc (ri_start inst) mod ri_size inst"
      unfolding Suc.prems(2) by (metis add_Suc mod_mult_self1)
    have k: "Suc index = ri_start (pop_start inst) + (Suc index div ri_size inst) * ri_size (pop_start inst)"
      by (simp only: pop_start_fields i [symmetric] mod_div_mult_eq)
    have "skip_empty (Suc n) index inst = skip_empty n (Suc index) (pop_start inst)"
      using True i skip_is_pop [OF r] by simp
    moreover have "pending (pop_start inst) = pending inst"
      using pop_start_ok(2) [OF r] True by (simp add: pend_def)
    ultimately show ?thesis using Suc.IH [OF pop_start_apart [OF Suc.prems(1)] k] True by simp
  next
    case False
    then have "skip_empty (Suc n) index inst = inst" by auto
    then show ?thesis using Suc.prems by simp
  qed
qed simp

text \<open>The answered slot itself lies outside of what is skipped: clearing it before or after is the same.\<close>

lemma skip_empty_update:
  assumes "ri_start inst < ri_size inst" "ri_end inst < ri_size inst" "j < ri_size inst"
    "ring_dist (ri_size inst) (ri_start inst) (ri_end inst) \<le> ring_dist (ri_size inst) (ri_start inst) j"
    "index = ri_start inst + k * ri_size inst"
  shows "skip_empty n index (inst\<lparr>ri_entries := (ri_entries inst)[j := x]\<rparr>) =
    (skip_empty n index inst)\<lparr>ri_entries := (ri_entries inst)[j := x]\<rparr> \<and> ri_entries (skip_empty n index inst) = ri_entries inst"
  using assms
proof (induction n arbitrary: index inst k)
  case (Suc n)
  let ?z = "ri_size inst"
  let ?next = "inst\<lparr>ri_start := Suc index mod ?z\<rparr>"
  show ?case
  proof (cases "ri_start inst = ri_end inst")
    case True
    then show ?thesis by simp
  next
    case False
    have i: "Suc index mod ?z = Suc (ri_start inst) mod ?z"
      unfolding Suc.prems(5) by (metis add_Suc mod_mult_self1)
    have d: "ring_dist ?z (ri_start inst) (ri_end inst) = Suc (ring_dist ?z (Suc index mod ?z) (ri_end inst))"
      unfolding i using ring_dist_step [OF Suc.prems(1,2) False] .
    then have j: "ri_start inst \<noteq> j" using Suc.prems(4) by (auto simp: ring_dist_def)
    have dj: "ring_dist ?z (ri_start inst) j = Suc (ring_dist ?z (Suc index mod ?z) j)"
      unfolding i using ring_dist_step [OF Suc.prems(1,3) j] .
    have k: "Suc index = ri_start ?next + (Suc index div ?z) * ri_size ?next"
      by (simp add: mod_div_mult_eq [symmetric])
    have "Suc index mod ?z < ?z" using Suc.prems(1) by simp
    then have "skip_empty n (Suc index) (?next\<lparr>ri_entries := (ri_entries ?next)[j := x]\<rparr>) =
      (skip_empty n (Suc index) ?next)\<lparr>ri_entries := (ri_entries ?next)[j := x]\<rparr> \<and>
      ri_entries (skip_empty n (Suc index) ?next) = ri_entries ?next"
      by (intro Suc.IH [OF _ _ _ _ k]) (use Suc.prems(2,3,4) d dj in simp_all)
    moreover have c: "inst\<lparr>ri_entries := (ri_entries inst)[j := x], ri_start := Suc index mod ?z\<rparr> =
        inst\<lparr>ri_start := Suc index mod ?z, ri_entries := (ri_entries inst)[j := x]\<rparr>" by simp
    ultimately show ?thesis using j by (simp add: c)
  qed
qed simp

lemma ring_remove_ok:
  assumes "inst_ok inst" "v \<noteq> 0" "ring_remove inst v w = (r, inst', w')"
  shows "(r = 0 \<and> inst_ok inst' \<and> (\<exists>t. pending inst = add_mset (v, t) (pending inst') \<and> released {#t#} w w')) \<or>
    (r = ENOENT \<and> inst' = inst \<and> w' = w \<and> \<not> holds_version inst v)"
proof -
  let ?z = "ri_size inst" let ?k = "nat (v mod int ?z)" let ?e = "ri_entries inst ! ?k"
  have r: "ring_ok inst" and z: "2 \<le> ?z" "length (ri_entries inst) = ?z" "ri_start inst < ?z" "ri_end inst < ?z"
    using assms(1) by (auto simp: inst_ok_def ring_ok_def)
  have "v mod int ?z < int ?z" using z(1) by simp
  then have k: "?k < ?z" using z(1) by linarith
  show ?thesis
  proof (cases "ri_end inst \<noteq> ri_start inst \<and> re_version ?e = v")
    case True
    have e: "entry_ok ?e" "pend ?e = {#(v, the (re_task ?e))#}"
      using r k True assms(2) by (auto simp: ring_ok_def pend_def)
    have rel: "released {#the (re_task ?e)#} w (desc_task_waiting_rpc_count ?e w)"
      using desc_released [OF e(1), of w] e(2) by simp
    let ?clear = "inst\<lparr>ri_entries := (ri_entries inst)[?k := empty_slot ?e]\<rparr>"
    have "inst_ok inst' \<and> pending inst = pending inst' + pend ?e \<and> r = 0 \<and> w' = desc_task_waiting_rpc_count ?e w"
    proof (cases "ri_start inst = ?k")
      case s: True
      let ?adv = "inst\<lparr>ri_start := Suc ?k mod ?z\<rparr>"
      have d: "ring_dist ?z ?k (ri_end inst) = Suc (ring_dist ?z (Suc ?k mod ?z) (ri_end inst))"
        using ring_dist_step [OF z(3,4)] True s by simp
      have "ring_dist ?z (Suc ?k mod ?z) ?k = ?z - 1" using k z(1) by (auto simp: ring_dist_def Suc_mod)
      moreover have "ring_dist ?z ?k (ri_end inst) < ?z" using ring_dist_less [OF k z(4)] .
      ultimately have far: "ring_dist ?z (Suc ?k mod ?z) (ri_end inst) \<le> ring_dist ?z (Suc ?k mod ?z) ?k" using d by simp
      have idx: "Suc ?k = ri_start ?adv + (Suc ?k div ?z) * ri_size ?adv" by (simp add: mod_div_mult_eq [symmetric])
      have "Suc ?k mod ?z < ?z" using z(1) by simp
      then have sk: "skip_empty ?z (Suc ?k) (?adv\<lparr>ri_entries := (ri_entries ?adv)[?k := empty_slot ?e]\<rparr>) =
          (skip_empty ?z (Suc ?k) ?adv)\<lparr>ri_entries := (ri_entries ?adv)[?k := empty_slot ?e]\<rparr> \<and>
          ri_entries (skip_empty ?z (Suc ?k) ?adv) = ri_entries ?adv"
        by (intro skip_empty_update [OF _ _ _ _ idx]) (use z(4) k far in simp_all)
      have pop: "?adv\<lparr>ri_entries := (ri_entries ?adv)[?k := empty_slot ?e]\<rparr> = pop_start inst"
        by (simp add: pop_start_def s)
      have run: "r = 0" "inst' = skip_empty ?z (Suc ?k) (pop_start inst)" "w' = desc_task_waiting_rpc_count ?e w"
        using assms(3) True s sk unfolding pop [symmetric] by (auto simp: ring_remove_def Let_def)
      have idx2: "Suc ?k = ri_start (pop_start inst) + (Suc ?k div ?z) * ri_size (pop_start inst)"
        by (simp add: s mod_div_mult_eq [symmetric])
      have ne: "ri_start inst \<noteq> ri_end inst" using True by simp
      from skip_empty_ok [OF pop_start_apart [OF assms(1) ne] idx2, of ?z] pop_start_ok(2) [OF r ne] run s
      show ?thesis by simp
    next
      case False
      then have run: "r = 0" "inst' = ?clear" "w' = desc_task_waiting_rpc_count ?e w"
        using assms(3) True by (auto simp: ring_remove_def Let_def)
      have nth: "(ri_entries inst)[?k := empty_slot ?e] ! i = (if i = ?k then empty_slot ?e else ri_entries inst ! i)" for i
        using k z(2) by simp
      have "ring_ok ?clear" using r by (simp add: ring_ok_def nth) (simp add: entry_ok_def)
      moreover have "f = empty_slot ?e \<or> f \<in> set (ri_entries inst)" if "f \<in> set (ri_entries ?clear)" for f
        using that set_update_subset_insert [of "ri_entries inst"] by auto
      ultimately have "inst_ok ?clear" using assms(1) unfolding inst_ok_def queue_ok_def by fastforce
      moreover have "pending inst = pending ?clear + pend ?e"
        using pend_list_update [of ?k "ri_entries inst" "empty_slot ?e"] k z(2) by (simp add: pending_def pend_def union_ac)
      ultimately show ?thesis using run by simp
    qed
    then show ?thesis using rel e(2) by auto
  next
    case False
    have "\<forall>e\<in>set (ri_entries inst). re_version e \<noteq> v"
    proof
      fix f assume "f \<in> set (ri_entries inst)"
      then obtain i where i: "i < ?z" "f = ri_entries inst ! i" using z(2) by (auto simp: in_set_conv_nth)
      show "re_version f \<noteq> v"
      proof
        assume v: "re_version f = v"
        then have "?k = i" "ring_dist ?z (ri_start inst) i < ring_dist ?z (ri_start inst) (ri_end inst)"
          using r i assms(2) by (auto simp: ring_ok_def)
        then show False using False v i by (auto simp: ring_dist_def)
      qed
    qed
    moreover have "remove_from_queue inst v w = (r, inst', w')"
      using assms(3) False by (auto simp: ring_remove_def Let_def)
    ultimately show ?thesis by (rule remove_from_queue_ok [OF assms(1)])
  qed
qed

end
