(* ===== verification/RPC_Ring_Properties.thy ===== *)
theory RPC_Ring_Properties
  imports RPC_Ring_Facts
begin

text \<open>
  The contract of the table of pending calls, as its callers in the replication use it, and the
  proof that the ring with its overflow queue satisfies it.
\<close>

section \<open>The contract\<close>

locale call_table =
  fixes inv :: "'s \<Rightarrow> bool"
    and calls :: "'s \<Rightarrow> (int \<times> nat) multiset"
    and freed :: "nat multiset \<Rightarrow> 's \<Rightarrow> 's \<Rightarrow> bool"
    and add :: "int \<Rightarrow> nat \<Rightarrow> 's \<Rightarrow> int \<times> 's"
    and remove :: "int \<Rightarrow> 's \<Rightarrow> int \<times> 's"
  assumes freed_none: "freed {#} s s"
    and freed_trans: "freed R s s1 \<Longrightarrow> freed R' s1 s2 \<Longrightarrow> freed (R + R') s s2"
    and add_new: "inv s \<Longrightarrow> v \<noteq> 0 \<Longrightarrow> (\<forall>t. (v, t) \<notin># calls s) \<Longrightarrow> add v t s = (r, s') \<Longrightarrow>
          inv s' \<and> freed {#} s s' \<and> (r = 0 \<and> calls s' = add_mset (v, t) (calls s) \<or> r = ENOMEM \<and> calls s' = calls s)"
    and remove_hit: "inv s \<Longrightarrow> v \<noteq> 0 \<Longrightarrow> (v, t) \<in># calls s \<Longrightarrow>
          \<exists>s' t'. remove v s = (0, s') \<and> inv s' \<and> calls s = add_mset (v, t') (calls s') \<and> freed {#t'#} s s'"
    and remove_miss: "inv s \<Longrightarrow> v \<noteq> 0 \<Longrightarrow> (\<forall>t. (v, t) \<notin># calls s) \<Longrightarrow> remove v s = (ENOENT, s)"
begin

fun answer :: "int list \<Rightarrow> 's \<Rightarrow> int list \<times> 's" where
  "answer [] s = ([], s)"
| "answer (v # vs) s = (case remove v s of (r, s) \<Rightarrow> (case answer vs s of (rs, s) \<Rightarrow> (r # rs, s)))"

lemma answer_all:
  assumes "inv s" "mset vs = image_mset fst (calls s)" "0 \<notin> set vs"
  shows "\<exists>s'. answer vs s = (replicate (length vs) 0, s') \<and> inv s' \<and> calls s' = {#} \<and>
    freed (image_mset snd (calls s)) s s'"
  using assms
proof (induction vs arbitrary: s)
  case Nil
  then show ?case using freed_none by auto
next
  case (Cons v vs)
  then have v: "v \<noteq> 0" by auto
  have "v \<in># image_mset fst (calls s)" using Cons.prems(2) by (metis list.set_intros(1) set_mset_mset)
  then obtain t where "(v, t) \<in># calls s" by auto
  from remove_hit [OF Cons.prems(1) v this] obtain s1 t' where
    s1: "remove v s = (0, s1)" "inv s1" "calls s = add_mset (v, t') (calls s1)" "freed {#t'#} s s1" by blast
  have "mset vs = image_mset fst (calls s1)" using Cons.prems(2) s1(3) by simp
  from Cons.IH [OF s1(2) this] Cons.prems(3) obtain s' where
    s': "answer vs s1 = (replicate (length vs) 0, s')" "inv s'" "calls s' = {#}" "freed (image_mset snd (calls s1)) s1 s'" by auto
  from freed_trans [OF s1(4) s'(4)] s1(3) have "freed (image_mset snd (calls s)) s s'" by simp
  then show ?case using s1(1) s'(1-3) by simp
qed

lemma add_then_remove:
  assumes "inv s" "v \<noteq> 0" "\<forall>t. (v, t) \<notin># calls s" "add v t s = (0, s1)"
  shows "\<exists>s2. remove v s1 = (0, s2) \<and> inv s2 \<and> calls s2 = calls s \<and> freed {#t#} s s2"
proof -
  from add_new [OF assms] have 1: "inv s1" "freed {#} s s1" "calls s1 = add_mset (v, t) (calls s)" by auto
  then have "(v, t) \<in># calls s1" by simp
  from remove_hit [OF 1(1) assms(2) this] obtain s2 t' where
    2: "remove v s1 = (0, s2)" "inv s2" "calls s1 = add_mset (v, t') (calls s2)" "freed {#t'#} s1 s2" by blast
  have "t' = t"
  proof (rule ccontr)
    assume "t' \<noteq> t"
    then have "(v, t') \<in># calls s" using 1(3) 2(3) by (metis Pair_inject insert_iff set_mset_add_mset_insert)
    then show False using assms(3) by simp
  qed
  then show ?thesis using 2 1 freed_trans [OF 1(2) 2(4)] by auto
qed

end

section \<open>The ring satisfies it\<close>

definition ring_add_st :: "fc_env \<Rightarrow> int \<Rightarrow> nat \<Rightarrow> FSReplicaRPCResultInstance \<times> rpc_world \<Rightarrow>
    int \<times> FSReplicaRPCResultInstance \<times> rpc_world" where
  "ring_add_st E v t s = ring_add E (fst s) v t (snd s)"

definition ring_remove_st :: "int \<Rightarrow> FSReplicaRPCResultInstance \<times> rpc_world \<Rightarrow>
    int \<times> FSReplicaRPCResultInstance \<times> rpc_world" where
  "ring_remove_st v s = ring_remove (fst s) v (snd s)"

sublocale fastcommon < rpc: call_table "\<lambda>s. inst_ok (fst s)" "\<lambda>s. pending (fst s)"
  "\<lambda>R s s'. released R (snd s) (snd s')" "ring_add_st E" ring_remove_st
proof
  fix s s' s1 s2 :: "FSReplicaRPCResultInstance \<times> rpc_world" and R R' v r and t :: nat
  show "released {#} (snd s) (snd s)" by simp
  show "released R (snd s) (snd s1) \<Longrightarrow> released R' (snd s1) (snd s2) \<Longrightarrow> released (R + R') (snd s) (snd s2)"
    by (rule released_trans)
  show "inst_ok (fst s') \<and> released {#} (snd s) (snd s') \<and>
      (r = 0 \<and> pending (fst s') = add_mset (v, t) (pending (fst s)) \<or> r = ENOMEM \<and> pending (fst s') = pending (fst s))"
    if "inst_ok (fst s)" "v \<noteq> 0" "\<forall>t. (v, t) \<notin># pending (fst s)" "ring_add_st E v t s = (r, s')"
    using ring_add_ok [OF fastcommon_axioms that(1,2), of t "snd s" r "fst s'" "snd s'"] that
    by (auto simp: ring_add_st_def holds_version_def)
  obtain r2 i2 w2 where rm: "ring_remove (fst s) v (snd s) = (r2, i2, w2)" by (metis prod_cases3)
  show "\<exists>s' t'. ring_remove_st v s = (0, s') \<and> inst_ok (fst s') \<and> pending (fst s) = add_mset (v, t') (pending (fst s')) \<and>
      released {#t'#} (snd s) (snd s')"
    if "inst_ok (fst s)" "v \<noteq> 0" "(v, t) \<in># pending (fst s)"
    using ring_remove_ok [OF that(1,2) rm] that(3) rm by (auto simp: ring_remove_st_def holds_version_def)
  show "ring_remove_st v s = (ENOENT, s)"
    if "inst_ok (fst s)" "v \<noteq> 0" "\<forall>t. (v, t) \<notin># pending (fst s)"
    using ring_remove_ok [OF that(1,2) rm] that(3) rm by (cases s) (auto simp: ring_remove_st_def holds_version_def)
qed

fun ring_answer :: "int list \<Rightarrow> FSReplicaRPCResultInstance \<times> rpc_world \<Rightarrow>
    int list \<times> FSReplicaRPCResultInstance \<times> rpc_world" where
  "ring_answer [] s = ([], s)"
| "ring_answer (v # vs) s = (case ring_remove_st v s of (r, s) \<Rightarrow> (case ring_answer vs s of (rs, s) \<Rightarrow> (r # rs, s)))"

context fastcommon
begin

lemma ring_answer_eq: "ring_answer vs s = rpc.answer vs s"
  by (induction vs arbitrary: s) auto

lemma ring_answer_all:
  assumes "inst_ok inst" "mset vs = image_mset fst (pending inst)" "0 \<notin> set vs"
  shows "\<exists>inst' w'. ring_answer vs (inst, w) = (replicate (length vs) 0, inst', w') \<and> inst_ok inst' \<and> pending inst' = {#} \<and>
    released (image_mset snd (pending inst)) w w'"
  using rpc.answer_all [of "(inst, w)" vs] assms unfolding ring_answer_eq by auto

lemma ring_add_remove:
  assumes "inst_ok inst" "v \<noteq> 0" "\<not> holds_version inst v" "ring_add E inst v t w = (0, inst1, w1)"
  shows "\<exists>inst2 w2. ring_remove inst1 v w1 = (0, inst2, w2) \<and> inst_ok inst2 \<and> pending inst2 = pending inst \<and> released {#t#} w w2"
  using rpc.add_then_remove [of "(inst, w)" v t "(inst1, w1)"] assms
  by (auto simp: ring_add_st_def ring_remove_st_def holds_version_def)

end

section \<open>Contexts\<close>

text \<open>The calls that are pending for a data group.\<close>

definition ctx_ok :: "FSReplicaRPCResultContext \<Rightarrow> bool" where
  "ctx_ok ctx \<longleftrightarrow> (case rc_instances ctx of None \<Rightarrow> False | Some insts \<Rightarrow> \<forall>inst\<in>set insts. inst_ok inst)"

definition ctx_calls :: "FSReplicaRPCResultContext \<Rightarrow> int \<Rightarrow> (int \<times> nat) multiset option" where
  "ctx_calls ctx dg = (case rc_instances ctx of None \<Rightarrow> None
     | Some insts \<Rightarrow> map_option (\<lambda>k. pending (insts ! k)) (instance_index ctx dg insts))"

lemma ctx_calls_split:
  assumes "ctx_ok ctx" "ctx_calls ctx dg = Some C"
  obtains insts k where "rc_instances ctx = Some insts" "instance_index ctx dg insts = Some k" "k < length insts"
    "inst_ok (insts ! k)" "pending (insts ! k) = C"
  using assms by (fastforce simp: ctx_ok_def ctx_calls_def instance_index_def split: option.splits if_splits)

lemma ctx_update:
  assumes "ctx_ok ctx" "rc_instances ctx = Some insts" "instance_index ctx dg insts = Some k" "k < length insts" "inst_ok inst"
    "ctx' = ctx\<lparr>rc_instances := Some (insts[k := inst])\<rparr>"
  shows "ctx_ok ctx' \<and> ctx_calls ctx' = (ctx_calls ctx)(dg \<mapsto> pending inst)"
proof -
  have "ctx_ok ctx'"
    using assms set_update_subset_insert [of insts k inst] by (auto simp: ctx_ok_def)
  moreover have "ctx_calls ctx' d = ((ctx_calls ctx)(dg \<mapsto> pending inst)) d" for d
  proof (cases "d = dg")
    case True
    then show ?thesis using assms by (simp add: ctx_calls_def instance_index_def split: if_splits)
  next
    case False
    then have "instance_index ctx d insts \<noteq> Some k"
      using assms(3) by (auto simp: instance_index_def split: if_splits)
    moreover have "instance_index ctx' d (insts[k := inst]) = instance_index ctx d insts"
      using assms(6) by (simp add: instance_index_def)
    ultimately show ?thesis
      using assms(2,6) False by (cases "instance_index ctx d insts") (auto simp: ctx_calls_def)
  qed
  ultimately show ?thesis by blast
qed

section \<open>Properties\<close>

text \<open>
  Property C22. Adding a call with a version that is not pending adds the pair of version and task to the
  pending calls of its data group, whether it goes to the ring or to the queue, and touches no
  other group and no task. The only failure is lack of memory, which changes nothing.
\<close>
theorem rpc_add_refines:
  assumes "fastcommon E" "ctx_ok ctx" "ctx_calls ctx dg = Some C" "v \<noteq> 0" "\<forall>u. (v, u) \<notin># C"
    and "rpc_result_ring_add E ctx dg v t w = (r, ctx', w')"
  shows "ctx_ok ctx' \<and> released {#} w w' \<and>
    (r = 0 \<and> ctx_calls ctx' = (ctx_calls ctx)(dg \<mapsto> add_mset (v, t) C) \<or> r = ENOMEM \<and> ctx_calls ctx' = ctx_calls ctx)"
proof -
  obtain insts k where k: "rc_instances ctx = Some insts" "instance_index ctx dg insts = Some k" "k < length insts"
    "inst_ok (insts ! k)" "pending (insts ! k) = C" using ctx_calls_split [OF assms(2,3)] .
  obtain inst' where run: "ring_add E (insts ! k) v t w = (r, inst', w')" "ctx' = ctx\<lparr>rc_instances := Some (insts[k := inst'])\<rparr>"
    using assms(6) k by (auto simp: rpc_result_ring_add_def on_instance_def split: prod.splits)
  have "\<not> holds_version (insts ! k) v" using assms(5) k(5) by (simp add: holds_version_def)
  note a = ring_add_ok [OF assms(1) k(4) assms(4) this run(1)]
  then have ok: "inst_ok inst'" using k(4) by auto
  note u = ctx_update [OF assms(2) k(1-3) ok run(2)]
  show ?thesis using a u k(5) assms(3) by (auto simp: fun_upd_idem)
qed

text \<open>
  Property C23. An answer for a pending version removes exactly that call and decrements the counter of
  its task once, notifying the task when the counter reaches 0; an answer for any other version
  is \<open>ENOENT\<close> and changes nothing.
\<close>
theorem rpc_remove_refines:
  assumes "ctx_ok ctx" "ctx_calls ctx dg = Some C" "v \<noteq> 0"
    and "rpc_result_ring_remove ctx dg v w = (r, ctx', w')"
  shows "ctx_ok ctx' \<and>
    (if \<exists>t. (v, t) \<in># C
     then r = 0 \<and> (\<exists>t C'. C = add_mset (v, t) C' \<and> ctx_calls ctx' = (ctx_calls ctx)(dg \<mapsto> C') \<and> released {#t#} w w')
     else r = ENOENT \<and> ctx_calls ctx' = ctx_calls ctx \<and> w' = w)"
proof -
  obtain insts k where k: "rc_instances ctx = Some insts" "instance_index ctx dg insts = Some k" "k < length insts"
    "inst_ok (insts ! k)" "pending (insts ! k) = C" using ctx_calls_split [OF assms(1,2)] .
  obtain inst' where run: "ring_remove (insts ! k) v w = (r, inst', w')" "ctx' = ctx\<lparr>rc_instances := Some (insts[k := inst'])\<rparr>"
    using assms(4) k by (auto simp: rpc_result_ring_remove_def on_instance_def split: prod.splits)
  note a = ring_remove_ok [OF k(4) assms(3) run(1)]
  then have ok: "inst_ok inst'" using k(4) by auto
  note u = ctx_update [OF assms(1) k(1-3) ok run(2)]
  from a show ?thesis
  proof (elim disjE conjE exE)
    fix t assume t: "r = 0" "pending (insts ! k) = add_mset (v, t) (pending inst')" "released {#t#} w w'"
    then have "\<exists>t. (v, t) \<in># C" using k(5) by (metis union_single_eq_member)
    moreover have "C = add_mset (v, t) (pending inst')" using t(2) k(5) by simp
    ultimately show ?thesis using t(1,3) u by (auto simp del: fun_upd_apply)
  next
    assume "r = ENOENT" "inst' = insts ! k" "w' = w" "\<not> holds_version (insts ! k) v"
    then show ?thesis using u k(5) assms(2) by (auto simp: holds_version_def fun_upd_idem)
  qed
qed

text \<open>
  Property C24. When every pending call of a data group is answered, in whatever order the answers come,
  each answer is found, nothing stays pending, and every waiting task has been decremented once
  for each of its calls.
\<close>
theorem rpc_answers_in_any_order:
  assumes "inst_ok inst" "mset vs = image_mset fst (pending inst)" "0 \<notin> set vs"
  shows "\<exists>inst' w'. ring_answer vs (inst, w) = (replicate (length vs) 0, inst', w') \<and> inst_ok inst' \<and> pending inst' = {#} \<and>
    released (image_mset snd (pending inst)) w w'"
  by (rule fastcommon.ring_answer_all [OF list_fc.fastcommon_axioms assms])

text \<open>
  A call that is added and then answered leaves the pending calls as they were, and its task
  decremented once.
\<close>
theorem rpc_add_remove_roundtrip:
  assumes "fastcommon E" "inst_ok inst" "v \<noteq> 0" "\<not> holds_version inst v" "ring_add E inst v t w = (0, inst1, w1)"
  shows "\<exists>inst2 w2. ring_remove inst1 v w1 = (0, inst2, w2) \<and> inst_ok inst2 \<and> pending inst2 = pending inst \<and> released {#t#} w w2"
  by (rule fastcommon.ring_add_remove [OF assms])

lemma clear_all_loop_ok:
  "\<forall>inst\<in>set insts. inst_ok inst \<Longrightarrow> clear_all_loop insts w = (insts', w') \<Longrightarrow>
   (\<forall>inst\<in>set insts'. inst_ok inst \<and> pending inst = {#}) \<and> length insts' = length insts \<and>
   released (\<Sum>inst\<leftarrow>insts. image_mset snd (pending inst)) w w'"
proof (induction insts arbitrary: w insts')
  case (Cons inst insts)
  obtain inst1 w1 where 1: "rpc_result_instance_clear_all inst w = (inst1, w1)" by (metis surj_pair)
  obtain rest where 2: "clear_all_loop insts w1 = (rest, w')" "insts' = inst1 # rest"
    using Cons.prems(2) 1 by (auto split: prod.splits)
  have a: "inst_ok inst1 \<and> pending inst1 = {#} \<and> released (image_mset snd (pending inst)) w w1"
    using clear_all_ok [OF _ 1] Cons.prems(1) by simp
  have b: "(\<forall>inst\<in>set rest. inst_ok inst \<and> pending inst = {#}) \<and> length rest = length insts \<and>
      released (\<Sum>inst\<leftarrow>insts. image_mset snd (pending inst)) w1 w'"
    using Cons.IH [OF _ 2(1)] Cons.prems(1) by simp
  show ?case using a b released_trans [of _ w w1 _ w'] 2(2) by simp
qed simp

text \<open>
  When the connection to a replica ends, clearing the table leaves no call pending in any
  data group and releases every waiting task once for each of its calls: no task waits forever.
\<close>
theorem rpc_clear_all_releases:
  assumes "ctx_ok ctx" "rpc_result_ring_clear_all ctx w = (ctx', w')" "rc_instances ctx = Some insts"
  shows "ctx_ok ctx' \<and> (\<forall>dg C. ctx_calls ctx' dg = Some C \<longrightarrow> C = {#}) \<and>
    released (\<Sum>inst\<leftarrow>insts. image_mset snd (pending inst)) w w'"
proof -
  obtain insts' where 1: "clear_all_loop insts w = (insts', w')" "ctx' = ctx\<lparr>rc_instances := Some insts'\<rparr>"
    using assms(2,3) by (auto simp: rpc_result_ring_clear_all_def split: prod.splits)
  from clear_all_loop_ok [OF _ 1(1)] assms(1,3)
  have a: "(\<forall>inst\<in>set insts'. inst_ok inst \<and> pending inst = {#})"
    "released (\<Sum>inst\<leftarrow>insts. image_mset snd (pending inst)) w w'" by (auto simp: ctx_ok_def)
  have "C = {#}" if "ctx_calls ctx' dg = Some C" for dg C
    using that a(1) 1(2) by (auto simp: ctx_calls_def instance_index_def split: if_splits)
  then show ?thesis using a 1(2) by (auto simp: ctx_ok_def)
qed

text \<open>
  Checking for timeouts removes only calls whose time is over, releases the task of each of them
  once, and reports at least as many as it removed; so a result of 0 means that no call was dropped.
\<close>
theorem rpc_timeouts_only_expired:
  assumes "inst_ok inst" "rpc_result_instance_clear_timeouts inst w = (c, inst', w')"
  shows "inst_ok inst' \<and> (\<exists>R. pending inst = pending inst' + R \<and> released (image_mset snd R) w w' \<and> int (size R) \<le> c \<and>
    (\<forall>x\<in>#R. expired_in (rw_now w) inst (fst x)))"
  using clear_timeouts_ok [OF assms] by (simp add: timed_out_def)

lemma init_instance_ok:
  assumes "init_rpc_result_instance E inst n w = (0, inst', w')" "2 \<le> n"
  shows "inst_ok inst'" "pending inst' = {#}"
proof -
  have i: "ri_entries inst' = replicate n zero_entry" "ri_start inst' = 0" "ri_end inst' = 0" "ri_size inst' = n"
    "ri_queue inst' = []" "ri_tail inst' = None"
    using assms(1) by (auto simp: init_rpc_result_instance_def Let_def split: if_splits)
  show ok: "inst_ok inst'"
    using assms(2) i by (simp add: inst_ok_def ring_ok_def queue_ok_def entry_ok_def zero_entry_def)
  show "pending inst' = {#}"
    using empty_ring(2) [of inst'] ok i by (simp add: pending_def inst_ok_def)
qed

lemma init_instances_ok:
  assumes "init_instances E d n insts w = (0, insts', w')" "2 \<le> n"
  shows "(\<forall>inst\<in>set insts'. inst_ok inst \<and> pending inst = {#}) \<and> length insts' = length insts"
  using assms
proof (induction E d n insts w arbitrary: insts' rule: init_instances.induct)
  case (2 E d n inst rest w)
  obtain r1 inst1 w1 where 1: "init_rpc_result_instance E (inst\<lparr>ri_data_group_id := d\<rparr>) n w = (r1, inst1, w1)" by (metis prod_cases3)
  then have r1: "r1 = 0" using "2.prems"(1) by (auto split: if_splits prod.splits)
  then obtain rest' where 3: "init_instances E (d + 1) n rest w1 = (0, rest', w')" "insts' = inst1 # rest'"
    using "2.prems"(1) 1 by (auto split: prod.splits)
  from "2.IH" [OF 1 [symmetric] refl _ 3(1) "2.prems"(2)] r1 3(2) init_instance_ok [OF 1 [unfolded r1] "2.prems"(2)] show ?case by simp
qed simp

text \<open>
  After its creation with room for at least two entries the table has one empty instance for
  each data group of this server.
\<close>
theorem rpc_init_empty:
  assumes "rc_instances ctx = None" "2 \<le> alloc_size" "rpc_result_ring_check_init E ids alloc_size ctx w = (0, ctx', w')"
  shows "ctx_ok ctx' \<and> (\<forall>dg. ctx_calls ctx' dg =
    (if hd (ids @ [-1]) \<le> dg \<and> dg < hd (ids @ [-1]) + int (length ids) then Some {#} else None))"
proof -
  obtain insts w2 where 1: "init_instances E (fs_cluster_cfg_get_min_data_group_id ids) alloc_size (replicate (length ids) zero_instance)
      (w\<lparr>rw_calls := Suc (rw_calls w)\<rparr>) = (0, insts, w2)"
    and ctx': "ctx' = ctx\<lparr>rc_dg_base_id := fs_cluster_cfg_get_min_data_group_id ids, rc_instances := Some insts\<rparr>"
    using assms(1,3) by (auto simp: rpc_result_ring_check_init_def Let_def split: prod.splits if_splits)
  from init_instances_ok [OF 1 assms(2)]
  have a: "\<forall>inst\<in>set insts. inst_ok inst \<and> pending inst = {#}" "length insts = length ids" by simp_all
  have b: "fs_cluster_cfg_get_min_data_group_id ids = hd (ids @ [-1])"
    by (cases ids) (simp_all add: fs_cluster_cfg_get_min_data_group_id_def)
  have "ctx_ok ctx'" using a(1) ctx' by (simp add: ctx_ok_def)
  moreover have "pending (insts ! nat (dg - x)) = {#}" if "x \<le> dg" "dg < x + int (length ids)" for dg x
    using a that by simp
  ultimately show ?thesis using a(2) unfolding ctx' b by (auto simp: ctx_calls_def instance_index_def)
qed

text \<open>
  A version that equals the one of \<open>queue.tail\<close> is chained behind it without moving the tail. The next
  larger version is then written over the link to it: that call is never answered, its task
  is never decremented.
\<close>

definition ex_entry :: "int \<Rightarrow> nat \<Rightarrow> FSReplicaRPCResultEntry" where
  "ex_entry v t = \<lparr>re_version = v, re_expires = 30, re_task = Some t\<rparr>"

definition ex_world :: rpc_world where
  "ex_world = \<lparr>rw_now = 10, rw_network_timeout = 20, rw_calls = 0, rw_waiting = (\<lambda>_. 1), rw_notified = []\<rparr>"

definition ex_inst :: FSReplicaRPCResultInstance where
  "ex_inst = \<lparr>ri_data_group_id = 1, ri_entries = [zero_entry, ex_entry 1 4, ex_entry 2 5, zero_entry], ri_start = 1, ri_end = 3,
     ri_size = 4, ri_queue = [(9, ex_entry 5 6)], ri_tail = Some 9\<rparr>"


section \<open>Witnesses\<close>

lemma ex_inst_ok: "inst_ok ex_inst"
  by (auto simp: inst_ok_def ring_ok_def queue_ok_def entry_ok_def ex_inst_def ex_entry_def zero_entry_def ring_dist_def
      less_Suc_eq numeral_eq_Suc)

lemma ex_inst_pending: "pending ex_inst = {#(1, 4), (2, 5), (5, 6)#}"
  by (simp add: pending_def ex_inst_def ex_entry_def zero_entry_def pend_def)

definition ex_ctx :: FSReplicaRPCResultContext where
  "ex_ctx = \<lparr>rc_last_check_timeout_time = 0, rc_dg_base_id = 1, rc_instances = Some [ex_inst]\<rparr>"

lemma ex_ctx_ok: "ctx_ok ex_ctx" "ctx_calls ex_ctx 1 = Some {#(1, 4), (2, 5), (5, 6)#}"
  using ex_inst_ok ex_inst_pending by (simp_all add: ctx_ok_def ctx_calls_def ex_ctx_def instance_index_def)

theorem rpc_add_refines_witness:
  "\<exists>r ctx' w'. rpc_result_ring_add list_env ex_ctx 1 3 8 ex_world = (r, ctx', w') \<and> ctx_ok ctx' \<and>
     (r = 0 \<and> ctx_calls ctx' = (ctx_calls ex_ctx)(1 \<mapsto> {#(3, 8), (1, 4), (2, 5), (5, 6)#}) \<or> r = ENOMEM)"
proof -
  obtain r ctx' w' where run: "rpc_result_ring_add list_env ex_ctx 1 3 8 ex_world = (r, ctx', w')" by (metis prod_cases3)
  have "\<forall>u. (3, u) \<notin># {#(1::int, 4::nat), (2, 5), (5, 6)#}" by simp
  from rpc_add_refines [OF list_fc.fastcommon_axioms ex_ctx_ok _ this run] run show ?thesis by auto
qed

theorem rpc_remove_refines_witness:
  "\<exists>ctx' w'. rpc_result_ring_remove ex_ctx 1 5 ex_world = (0, ctx', w') \<and> ctx_ok ctx'"
proof -
  obtain r ctx' w' where run: "rpc_result_ring_remove ex_ctx 1 5 ex_world = (r, ctx', w')" by (metis prod_cases3)
  from rpc_remove_refines [OF ex_ctx_ok _ run] have "r = 0 \<and> ctx_ok ctx'" by auto
  then show ?thesis using run by simp
qed

theorem rpc_answers_in_any_order_witness:
  "\<exists>inst' w'. ring_answer [2, 5, 1] (ex_inst, ex_world) = ([0, 0, 0], inst', w') \<and> pending inst' = {#}"
  using rpc_answers_in_any_order [OF ex_inst_ok, of "[2, 5, 1]" ex_world]
  by (auto simp: ex_inst_pending numeral_eq_Suc)

theorem rpc_add_remove_roundtrip_witness:
  "\<exists>inst1 w1 inst2 w2. ring_add list_env ex_inst 3 8 ex_world = (0, inst1, w1) \<and> ring_remove inst1 3 w1 = (0, inst2, w2) \<and>
     pending inst2 = pending ex_inst"
proof -
  have "fst (ring_add list_env ex_inst 3 8 ex_world) = 0" by code_simp
  then obtain inst1 w1 where run: "ring_add list_env ex_inst 3 8 ex_world = (0, inst1, w1)" by (metis prod.collapse)
  have "\<not> holds_version ex_inst 3" by (simp add: holds_version_def ex_inst_pending)
  from rpc_add_remove_roundtrip [OF list_fc.fastcommon_axioms ex_inst_ok _ this run] run show ?thesis by auto
qed

theorem rpc_clear_all_releases_witness:
  "\<exists>ctx' w'. rpc_result_ring_clear_all ex_ctx ex_world = (ctx', w') \<and> ctx_ok ctx' \<and> released {#4, 5, 6#} ex_world w'"
proof -
  obtain ctx' w' where run: "rpc_result_ring_clear_all ex_ctx ex_world = (ctx', w')" by (metis surj_pair)
  have "rc_instances ex_ctx = Some [ex_inst]" by (simp add: ex_ctx_def)
  from rpc_clear_all_releases [OF ex_ctx_ok(1) run this] run show ?thesis by (auto simp: ex_inst_pending)
qed

theorem rpc_timeouts_only_expired_witness:
  "\<exists>c inst' w'. rpc_result_instance_clear_timeouts ex_inst ex_world = (c, inst', w') \<and> inst_ok inst'"
proof -
  obtain c inst' w' where run: "rpc_result_instance_clear_timeouts ex_inst ex_world = (c, inst', w')" by (metis prod_cases3)
  from rpc_timeouts_only_expired [OF ex_inst_ok run] run show ?thesis by blast
qed

theorem rpc_init_empty_witness:
  "\<exists>ctx' w'. rpc_result_ring_check_init list_env [3, 4] 8 (ex_ctx\<lparr>rc_instances := None\<rparr>) ex_world = (0, ctx', w') \<and>
     ctx_calls ctx' 4 = Some {#}"
proof -
  have "fst (rpc_result_ring_check_init list_env [3, 4] 8 (ex_ctx\<lparr>rc_instances := None\<rparr>) ex_world) = 0" by code_simp
  then obtain ctx' w' where
    run: "rpc_result_ring_check_init list_env [3, 4] 8 (ex_ctx\<lparr>rc_instances := None\<rparr>) ex_world = (0, ctx', w')"
    by (metis prod.collapse)
  from rpc_init_empty [OF _ _ run] run show ?thesis by simp
qed

end
