(* ===== verification/FD_Cache.thy ===== *)
theory FD_Cache
  imports FS_Prelude "HOL-Library.Multiset"
begin

text \<open>
  The cache of open trunk files of a reader or writer thread
  (\<open>src/server/dio/trunk_fd_cache.c\<close>): a hash table of chains from the trunk id to the file
  descriptor, and a list of the entries in the order of their last use. The library calls
  (\<open>fc_list\<close>, \<open>fast_mblock\<close>, \<open>hash_get_prime_capacity\<close>) are the fields of \<open>fd_env\<close>; what is
  relied on of them is the locale \<open>fd_library\<close>. An entry is a struct with an address that
  is linked into both the chain and the list; \<open>close\<close> appends to a log.
\<close>

section \<open>Data and library\<close>

record TrunkFDCacheEntry =
  fe_ptr :: nat
  fe_trunk_id :: int
  fe_fd :: int

record fd_env =
  fde_prime_capacity :: "int \<Rightarrow> int option"
  fde_malloc :: "nat \<Rightarrow> bool"
  fde_pool_init :: "int \<Rightarrow> int"
  fde_alloc :: "nat \<Rightarrow> (nat \<Rightarrow> bool) \<Rightarrow> nat option"
  fde_add_tail :: "TrunkFDCacheEntry list \<Rightarrow> TrunkFDCacheEntry \<Rightarrow> TrunkFDCacheEntry list"
  fde_del :: "TrunkFDCacheEntry list \<Rightarrow> TrunkFDCacheEntry \<Rightarrow> TrunkFDCacheEntry list"
  fde_move_tail :: "TrunkFDCacheEntry list \<Rightarrow> TrunkFDCacheEntry \<Rightarrow> TrunkFDCacheEntry list"

record TrunkFDCacheContext =
  fc_buckets :: "TrunkFDCacheEntry list list"
  fc_size :: int
  fc_capacity :: int
  fc_count :: int
  fc_lru :: "TrunkFDCacheEntry list"
  fc_closed :: "int list"
  fc_calls :: nat

locale fd_library =
  fixes L :: fd_env
  assumes prime_capacity: "fde_prime_capacity L n = Some sz \<Longrightarrow> n \<le> sz"
    and alloc_fresh: "fde_alloc L k used = Some p \<Longrightarrow> \<not> used p"
    and add_tail: "fde_add_tail L xs e = xs @ [e]"
    and del: "fde_del L xs e = remove1 e xs"
    and move_tail: "e \<in> set xs \<Longrightarrow> fde_move_tail L xs e = remove1 e xs @ [e]"

section \<open>Operations\<close>

text \<open>The number of elements that the pool allocates at once.\<close>

definition alloc_elements_once :: "int \<Rightarrow> int" where
  "alloc_elements_once capacity =
     (if capacity < 1024 then 512
      else if capacity < 2 * 1024 then 1 * 1024
      else if capacity < 4 * 1024 then 2 * 1024
      else if capacity < 8 * 1024 then 4 * 1024
      else 8 * 1024)"

definition trunk_fd_cache_init :: "fd_env \<Rightarrow> TrunkFDCacheContext \<Rightarrow> int \<Rightarrow> int \<times> TrunkFDCacheContext" where
  "trunk_fd_cache_init L c capacity =
     (let sz = (case fde_prime_capacity L capacity of Some p \<Rightarrow> p | None \<Rightarrow> capacity);
          c1 = c\<lparr>fc_size := sz, fc_calls := Suc (fc_calls c)\<rparr>
      in if \<not> fde_malloc L (fc_calls c) then (ENOMEM, c1)
         else
           (let c2 = c1\<lparr>fc_buckets := replicate (nat sz) []\<rparr>; result = fde_pool_init L (alloc_elements_once capacity)
            in if result \<noteq> 0 then (result, c2)
               else (0, c2\<lparr>fc_count := 0, fc_capacity := capacity, fc_lru := []\<rparr>)))"

definition fd_bucket :: "TrunkFDCacheContext \<Rightarrow> int \<Rightarrow> nat" where
  "fd_bucket c trunk_id = nat (trunk_id mod fc_size c)"

text \<open>The first entry of the chain is compared before the loop over the others.\<close>

fun chain_find :: "int \<Rightarrow> TrunkFDCacheEntry list \<Rightarrow> TrunkFDCacheEntry option" where
  "chain_find trunk_id [] = None"
| "chain_find trunk_id (e # es) = (if fe_trunk_id e = trunk_id then Some e else chain_find trunk_id es)"

definition trunk_fd_cache_get :: "fd_env \<Rightarrow> TrunkFDCacheContext \<Rightarrow> int \<Rightarrow> int \<times> TrunkFDCacheContext" where
  "trunk_fd_cache_get L c trunk_id =
     (case fc_buckets c ! fd_bucket c trunk_id of
        [] \<Rightarrow> (-1, c)
      | e # es \<Rightarrow>
          (case (if fe_trunk_id e = trunk_id then Some e else chain_find trunk_id es) of
             None \<Rightarrow> (-1, c)
           | Some entry \<Rightarrow> (fe_fd entry, c\<lparr>fc_lru := fde_move_tail L (fc_lru c) entry\<rparr>)))"

text \<open>The search that keeps the previous entry: the entry found and the chain without it.\<close>

fun chain_unlink :: "int \<Rightarrow> TrunkFDCacheEntry list \<Rightarrow> (TrunkFDCacheEntry \<times> TrunkFDCacheEntry list) option" where
  "chain_unlink trunk_id [] = None"
| "chain_unlink trunk_id (e # es) =
     (if fe_trunk_id e = trunk_id then Some (e, es)
      else map_option (\<lambda>(x, r). (x, e # r)) (chain_unlink trunk_id es))"

definition trunk_fd_cache_delete :: "fd_env \<Rightarrow> TrunkFDCacheContext \<Rightarrow> int \<Rightarrow> int \<times> TrunkFDCacheContext" where
  "trunk_fd_cache_delete L c trunk_id =
     (let b = fd_bucket c trunk_id
      in case chain_unlink trunk_id (fc_buckets c ! b) of
           None \<Rightarrow> (ENOENT, c)
         | Some (entry, chain) \<Rightarrow>
             (0, c\<lparr>fc_buckets := (fc_buckets c)[b := chain], fc_closed := fc_closed c @ [fe_fd entry],
                   fc_lru := fde_del L (fc_lru c) entry, fc_count := fc_count c - 1\<rparr>))"

text \<open>With no entry to evict (a capacity of 0) the first entry of the list is no entry.\<close>

definition trunk_fd_cache_add :: "fd_env \<Rightarrow> TrunkFDCacheContext \<Rightarrow> int \<Rightarrow> int \<Rightarrow> int \<times> TrunkFDCacheContext" where
  "trunk_fd_cache_add L c trunk_id fd =
     (case (if fc_count c \<ge> fc_capacity c
            then (case fc_lru c of [] \<Rightarrow> None | e # _ \<Rightarrow> Some (snd (trunk_fd_cache_delete L c (fe_trunk_id e))))
            else Some c) of
        None \<Rightarrow> (FAULT, c)
      | Some c1 \<Rightarrow>
          (let c2 = c1\<lparr>fc_calls := Suc (fc_calls c1)\<rparr>
           in case fde_alloc L (fc_calls c1) (\<lambda>p. p \<in> fe_ptr ` set (fc_lru c1)) of
                None \<Rightarrow> (ENOMEM, c2)
              | Some p \<Rightarrow>
                  (let entry = \<lparr>fe_ptr = p, fe_trunk_id = trunk_id, fe_fd = fd\<rparr>; b = fd_bucket c2 trunk_id
                   in (0, c2\<lparr>fc_buckets := (fc_buckets c2)[b := entry # fc_buckets c2 ! b],
                             fc_lru := fde_add_tail L (fc_lru c2) entry, fc_count := fc_count c2 + 1\<rparr>))))"

section \<open>The specification: a list of pairs, the least recently used first\<close>

type_synonym lru = "(int \<times> int) list"

definition lru_get :: "int \<Rightarrow> lru \<Rightarrow> int \<times> lru" where
  "lru_get k xs = (case map_of xs k of None \<Rightarrow> (-1, xs) | Some fd \<Rightarrow> (fd, remove1 (k, fd) xs @ [(k, fd)]))"

definition lru_evict :: "int \<Rightarrow> lru \<Rightarrow> lru" where
  "lru_evict capacity xs = (if int (length xs) \<ge> capacity then tl xs else xs)"

section \<open>Invariant and refinement\<close>

definition lru_of :: "TrunkFDCacheContext \<Rightarrow> lru" where
  "lru_of c = map (\<lambda>e. (fe_trunk_id e, fe_fd e)) (fc_lru c)"

definition fd_cache_ok :: "TrunkFDCacheContext \<Rightarrow> bool" where
  "fd_cache_ok c \<longleftrightarrow> 0 < fc_size c \<and> length (fc_buckets c) = nat (fc_size c) \<and> 0 < fc_capacity c \<and>
     fc_count c = int (length (fc_lru c)) \<and> fc_count c \<le> fc_capacity c \<and>
     distinct (map fe_trunk_id (fc_lru c)) \<and> distinct (map fe_ptr (fc_lru c)) \<and>
     (\<forall>b<length (fc_buckets c). distinct (fc_buckets c ! b) \<and>
        set (fc_buckets c ! b) = {e \<in> set (fc_lru c). fd_bucket c (fe_trunk_id e) = b})"

lemma chain_find_eq: "chain_find k es = find (\<lambda>e. fe_trunk_id e = k) es"
  by (induction es) auto

lemma chain_unlink_eq:
  "chain_unlink k es = (case find (\<lambda>e. fe_trunk_id e = k) es of None \<Rightarrow> None | Some e \<Rightarrow> Some (e, remove1 e es))"
proof (induction es)
  case (Cons e es)
  have "fe_trunk_id x = k" if "find (\<lambda>e. fe_trunk_id e = k) es = Some x" for x
    using that by (auto simp: find_Some_iff)
  with Cons show ?case by (auto split: option.splits)
qed simp

lemma fd_bucket_less: "fd_cache_ok c \<Longrightarrow> fd_bucket c k < length (fc_buckets c)"
  by (auto simp: fd_cache_ok_def fd_bucket_def nat_mono_iff)

lemma bucket_find:
  assumes "fd_cache_ok c"
  shows "find (\<lambda>e. fe_trunk_id e = k) (fc_buckets c ! fd_bucket c k) = find (\<lambda>e. fe_trunk_id e = k) (fc_lru c)"
proof -
  have s: "set (fc_buckets c ! fd_bucket c k) = {e \<in> set (fc_lru c). fd_bucket c (fe_trunk_id e) = fd_bucket c k}"
    using assms fd_bucket_less [OF assms] by (simp add: fd_cache_ok_def)
  have u: "y = z" if "y \<in> set (fc_lru c)" "z \<in> set (fc_lru c)" "fe_trunk_id y = k" "fe_trunk_id z = k" for y z
    using that assms by (auto simp: fd_cache_ok_def distinct_map dest: inj_onD)
  have "find (\<lambda>e. fe_trunk_id e = k) (fc_buckets c ! fd_bucket c k) = Some x \<longleftrightarrow>
      find (\<lambda>e. fe_trunk_id e = k) (fc_lru c) = Some x" for x
    by (subst find_Some_unique, use s u in blast, subst find_Some_unique, use u in blast) (use s in auto)
  then show ?thesis by (metis option.exhaust)
qed

lemma find_lru:
  "find (\<lambda>e. fe_trunk_id e = k) es = Some e \<Longrightarrow>
     map_of (map (\<lambda>e. (fe_trunk_id e, fe_fd e)) es) k = Some (fe_fd e) \<and> e \<in> set es \<and> fe_trunk_id e = k"
  "find (\<lambda>e. fe_trunk_id e = k) es = None \<Longrightarrow> map_of (map (\<lambda>e. (fe_trunk_id e, fe_fd e)) es) k = None"
  by (induction es) (auto split: if_splits)

lemma map_remove1_entry:
  assumes "distinct (map fe_trunk_id es)" "e \<in> set es"
  shows "map (\<lambda>e. (fe_trunk_id e, fe_fd e)) (remove1 e es) = remove1 (fe_trunk_id e, fe_fd e) (map (\<lambda>e. (fe_trunk_id e, fe_fd e)) es)"
  using assms by (induction es) (auto simp: image_iff)

lemma fd_cache_ok_lru:
  assumes "fd_cache_ok c" "mset lru' = mset (fc_lru c)"
  shows "fd_cache_ok (c\<lparr>fc_lru := lru'\<rparr>)"
proof -
  have "set lru' = set (fc_lru c)" "length lru' = length (fc_lru c)"
    using assms(2) by (metis set_mset_mset, metis size_mset)
  moreover have "distinct (map fe_trunk_id lru') = distinct (map fe_trunk_id (fc_lru c))"
    "distinct (map fe_ptr lru') = distinct (map fe_ptr (fc_lru c))"
    using assms(2) by (metis mset_map mset_eq_imp_distinct_iff)+
  ultimately show ?thesis using assms(1) by (simp add: fd_cache_ok_def fd_bucket_def)
qed

lemma fd_cache_ok_drop:
  assumes "fd_cache_ok c" "e \<in> set (fc_lru c)" "b = fd_bucket c (fe_trunk_id e)"
  shows "fd_cache_ok (c\<lparr>fc_buckets := (fc_buckets c)[b := remove1 e (fc_buckets c ! b)], fc_closed := cl,
     fc_lru := remove1 e (fc_lru c), fc_count := fc_count c - 1\<rparr>)"
proof -
  have d: "distinct (fc_lru c)" using assms(1) by (auto simp: fd_cache_ok_def distinct_map)
  then have s: "set (remove1 e (fc_lru c)) = set (fc_lru c) - {e}" by simp
  have m: "distinct (map f xs) \<Longrightarrow> distinct (map f (remove1 e xs))" for f :: "TrunkFDCacheEntry \<Rightarrow> int" and xs
    by (induction xs) (auto, metis image_eqI notin_set_remove1)
  have m': "distinct (map f xs) \<Longrightarrow> distinct (map f (remove1 e xs))" for f :: "TrunkFDCacheEntry \<Rightarrow> nat" and xs
    by (induction xs) (auto, metis image_eqI notin_set_remove1)
  have l: "int (length (remove1 e (fc_lru c))) = int (length (fc_lru c)) - 1"
    using length_pos_if_in_set [OF assms(2)] by (simp only: length_remove1 assms(2) if_True)
  show ?thesis
    using assms(1) fd_bucket_less [OF assms(1)] assms(3) s m m' l unfolding fd_cache_ok_def
    by (auto simp: fd_bucket_def nth_list_update)
qed

lemma fd_cache_ok_insert:
  assumes "fd_cache_ok c" "fc_count c < fc_capacity c" "fe_trunk_id e \<notin> fe_trunk_id ` set (fc_lru c)"
    "fe_ptr e \<notin> fe_ptr ` set (fc_lru c)" "b = fd_bucket c (fe_trunk_id e)"
  shows "fd_cache_ok (c\<lparr>fc_calls := k, fc_buckets := (fc_buckets c)[b := e # fc_buckets c ! b],
     fc_lru := fc_lru c @ [e], fc_count := fc_count c + 1\<rparr>)"
proof -
  have "e \<notin> set (fc_lru c)" using assms(3) by auto
  then have "e \<notin> set (fc_buckets c ! b)"
    using assms(1,5) fd_bucket_less [OF assms(1)] by (auto simp: fd_cache_ok_def)
  then show ?thesis
    using assms fd_bucket_less [OF assms(1), of "fe_trunk_id e"] unfolding fd_cache_ok_def
    by (auto simp: fd_bucket_def nth_list_update)
qed

context fd_library
begin

lemma get_refines:
  assumes ok: "fd_cache_ok c" and run: "trunk_fd_cache_get L c k = (r, c')"
  shows "fd_cache_ok c' \<and> (r, lru_of c') = lru_get k (lru_of c) \<and> fc_closed c' = fc_closed c"
proof -
  have run': "(case find (\<lambda>e. fe_trunk_id e = k) (fc_lru c) of None \<Rightarrow> (-1, c)
      | Some e \<Rightarrow> (fe_fd e, c\<lparr>fc_lru := fde_move_tail L (fc_lru c) e\<rparr>)) = (r, c')"
    using run unfolding bucket_find [OF ok, symmetric] trunk_fd_cache_get_def chain_find_eq
    by (cases "fc_buckets c ! fd_bucket c k") (auto split: if_splits)
  show ?thesis
  proof (cases "find (\<lambda>e. fe_trunk_id e = k) (fc_lru c)")
    case None
    then show ?thesis using run' ok find_lru(2) [OF None] by (auto simp: lru_get_def lru_of_def)
  next
    case (Some e)
    note e = find_lru(1) [OF Some]
    have c': "r = fe_fd e" "c' = c\<lparr>fc_lru := remove1 e (fc_lru c) @ [e]\<rparr>" using run' Some move_tail e by auto
    have "distinct (map fe_trunk_id (fc_lru c))" using ok by (simp add: fd_cache_ok_def)
    then have "lru_get k (lru_of c) = (r, lru_of c')"
      using e c' by (simp add: lru_get_def lru_of_def map_remove1_entry)
    moreover have "fd_cache_ok c'" unfolding c'(2) by (rule fd_cache_ok_lru [OF ok]) (use e in simp)
    ultimately show ?thesis using c' by simp
  qed
qed

lemma delete_refines:
  assumes ok: "fd_cache_ok c" and run: "trunk_fd_cache_delete L c k = (r, c')"
  shows "fd_cache_ok c' \<and> (case map_of (lru_of c) k of
      None \<Rightarrow> r = ENOENT \<and> c' = c
    | Some fd \<Rightarrow> r = 0 \<and> lru_of c' = remove1 (k, fd) (lru_of c) \<and> fc_closed c' = fc_closed c @ [fd] \<and>
        fc_capacity c' = fc_capacity c \<and> fc_calls c' = fc_calls c)"
proof (cases "find (\<lambda>e. fe_trunk_id e = k) (fc_lru c)")
  case None
  then show ?thesis
    using run ok find_lru(2) [OF None] by (simp add: trunk_fd_cache_delete_def Let_def chain_unlink_eq bucket_find lru_of_def)
next
  case (Some e)
  note e = find_lru(1) [OF Some]
  let ?b = "fd_bucket c k"
  have c': "r = 0" "c' = c\<lparr>fc_buckets := (fc_buckets c)[?b := remove1 e (fc_buckets c ! ?b)], fc_closed := fc_closed c @ [fe_fd e],
      fc_lru := remove1 e (fc_lru c), fc_count := fc_count c - 1\<rparr>"
    using run ok Some by (auto simp: trunk_fd_cache_delete_def Let_def chain_unlink_eq bucket_find del)
  have "fd_cache_ok c'" unfolding c'(2) by (rule fd_cache_ok_drop [OF ok]) (use e in auto)
  moreover have "distinct (map fe_trunk_id (fc_lru c))" using ok by (simp add: fd_cache_ok_def)
  ultimately show ?thesis using e c' by (simp add: lru_of_def map_remove1_entry)
qed

lemma add_refines:
  assumes ok: "fd_cache_ok c" and new: "map_of (lru_of c) k = None" and run: "trunk_fd_cache_add L c k fd = (r, c')"
  shows "fd_cache_ok c' \<and>
    (r = 0 \<and> lru_of c' = lru_evict (fc_capacity c) (lru_of c) @ [(k, fd)] \<or> r = ENOMEM \<and> lru_of c' = lru_evict (fc_capacity c) (lru_of c)) \<and>
    fc_closed c' = fc_closed c @ (if fc_count c \<ge> fc_capacity c then [snd (hd (lru_of c))] else [])"
proof -
  let ?full = "fc_count c \<ge> fc_capacity c"
  have cnt: "fc_count c = int (length (lru_of c))" "0 < fc_capacity c" using ok by (auto simp: fd_cache_ok_def lru_of_def)
  obtain c1 where c1: "(if ?full then (case fc_lru c of [] \<Rightarrow> None | e # _ \<Rightarrow> Some (snd (trunk_fd_cache_delete L c (fe_trunk_id e))))
      else Some c) = Some c1"
    using cnt by (cases "fc_lru c"; cases ?full) (simp_all add: lru_of_def)
  have "fd_cache_ok c1 \<and> lru_of c1 = lru_evict (fc_capacity c) (lru_of c) \<and> fc_count c1 < fc_capacity c1 \<and>
      fc_closed c1 = fc_closed c @ (if ?full then [snd (hd (lru_of c))] else []) \<and> set (lru_of c1) \<subseteq> set (lru_of c)"
  proof (cases ?full)
    case True
    then obtain e es where l: "fc_lru c = e # es" using cnt by (cases "fc_lru c") (auto simp: lru_of_def)
    obtain r2 c2 where d: "trunk_fd_cache_delete L c (fe_trunk_id e) = (r2, c2)" by (metis surj_pair)
    have "c1 = c2" using c1 True l d by simp
    moreover have "map_of (lru_of c) (fe_trunk_id e) = Some (fe_fd e)" by (simp add: lru_of_def l)
    ultimately have c1: "fd_cache_ok c1" "lru_of c1 = remove1 (fe_trunk_id e, fe_fd e) (lru_of c)" "fc_closed c1 = fc_closed c @ [fe_fd e]"
      "fc_capacity c1 = fc_capacity c"
      using delete_refines [OF ok d] by simp_all
    have "int (length (lru_of c1)) < fc_capacity c1" using c1(2,4) cnt l ok by (simp add: lru_of_def fd_cache_ok_def)
    moreover have "fc_count c1 = int (length (lru_of c1))" using c1(1) by (simp add: fd_cache_ok_def lru_of_def)
    ultimately show ?thesis using c1 True l cnt by (auto simp: lru_evict_def lru_of_def)
  next
    case False
    then show ?thesis using c1 ok cnt by (simp add: lru_evict_def)
  qed
  note a = this
  show ?thesis
  proof (cases "fde_alloc L (fc_calls c1) (\<lambda>p. p \<in> fe_ptr ` set (fc_lru c1))")
    case None
    then have "r = ENOMEM" "c' = c1\<lparr>fc_calls := Suc (fc_calls c1)\<rparr>" using run c1 by (auto simp: trunk_fd_cache_add_def Let_def)
    then show ?thesis using a by (simp add: fd_cache_ok_def lru_of_def fd_bucket_def)
  next
    case (Some p)
    let ?e = "\<lparr>fe_ptr = p, fe_trunk_id = k, fe_fd = fd\<rparr>" and ?b = "fd_bucket c1 k"
    have c': "r = 0" "c' = c1\<lparr>fc_calls := Suc (fc_calls c1), fc_buckets := (fc_buckets c1)[?b := ?e # fc_buckets c1 ! ?b],
        fc_lru := fc_lru c1 @ [?e], fc_count := fc_count c1 + 1\<rparr>"
      using run c1 Some by (auto simp: trunk_fd_cache_add_def Let_def add_tail fd_bucket_def)
    have "k \<notin> fst ` set (lru_of c)" using new by (simp add: map_of_eq_None_iff)
    moreover have "fst ` set (lru_of c1) = fe_trunk_id ` set (fc_lru c1)" by (auto simp: lru_of_def image_iff)
    moreover have "fst ` set (lru_of c1) \<subseteq> fst ` set (lru_of c)" using a by blast
    ultimately have "fe_trunk_id ?e \<notin> fe_trunk_id ` set (fc_lru c1)" by auto
    moreover have "fe_ptr ?e \<notin> fe_ptr ` set (fc_lru c1)" using alloc_fresh [OF Some] by simp
    ultimately have "fd_cache_ok c'" unfolding c'(2) by (intro fd_cache_ok_insert) (use a in simp_all)
    then show ?thesis using c' a by (simp add: lru_of_def)
  qed
qed

end

section \<open>Properties\<close>

text \<open>
  Property C25. The cache of file descriptors is a bounded list in the order of last use. A lookup answers the
  descriptor of the trunk or -1 and makes a hit the most recently used; adding a trunk that is
  not cached puts it at the end and, when the cache is full, closes the descriptor of the least
  recently used one; deleting closes the descriptor. The cache never exceeds its capacity, and
  no descriptor is closed twice or dropped without a close.
\<close>
theorem fd_cache_refines_lru:
  assumes "fd_library L" "fd_cache_ok c" "map_of (lru_of c) new_id = None"
  shows "(case trunk_fd_cache_get L c k of (r, c') \<Rightarrow>
       fd_cache_ok c' \<and> (r, lru_of c') = lru_get k (lru_of c) \<and> fc_closed c' = fc_closed c) \<and>
    (case trunk_fd_cache_delete L c k of (r, c') \<Rightarrow>
       fd_cache_ok c' \<and> (case map_of (lru_of c) k of
          None \<Rightarrow> r = ENOENT \<and> c' = c
        | Some fd \<Rightarrow> r = 0 \<and> lru_of c' = remove1 (k, fd) (lru_of c) \<and> fc_closed c' = fc_closed c @ [fd])) \<and>
    (case trunk_fd_cache_add L c new_id fd of (r, c') \<Rightarrow>
       fd_cache_ok c' \<and> (r = 0 \<and> lru_of c' = lru_evict (fc_capacity c) (lru_of c) @ [(new_id, fd)] \<or>
          r = ENOMEM \<and> lru_of c' = lru_evict (fc_capacity c) (lru_of c)) \<and>
       fc_closed c' = fc_closed c @ (if fc_count c \<ge> fc_capacity c then [snd (hd (lru_of c))] else []))"
  using fd_library.get_refines [OF assms(1,2), of k] fd_library.delete_refines [OF assms(1,2), of k]
    fd_library.add_refines [OF assms, of fd]
  by (auto split: prod.splits option.splits)

definition list_fd_env :: fd_env where
  "list_fd_env = \<lparr>fde_prime_capacity = (\<lambda>n. if n \<le> 7 then Some 7 else None), fde_malloc = (\<lambda>_. True), fde_pool_init = (\<lambda>_. 0),
     fde_alloc = (\<lambda>k used. if used (100 + k) then None else Some (100 + k)),
     fde_add_tail = (\<lambda>xs e. xs @ [e]), fde_del = (\<lambda>xs e. remove1 e xs), fde_move_tail = (\<lambda>xs e. remove1 e xs @ [e])\<rparr>"

interpretation list_fd: fd_library list_fd_env
  by unfold_locales (auto simp: list_fd_env_def split: if_splits)

definition ex_cache :: TrunkFDCacheContext where
  "ex_cache = \<lparr>fc_buckets = [[], [\<lparr>fe_ptr = 1, fe_trunk_id = 4, fe_fd = 30\<rparr>, \<lparr>fe_ptr = 2, fe_trunk_id = 1, fe_fd = 31\<rparr>], []],
     fc_size = 3, fc_capacity = 2, fc_count = 2,
     fc_lru = [\<lparr>fe_ptr = 2, fe_trunk_id = 1, fe_fd = 31\<rparr>, \<lparr>fe_ptr = 1, fe_trunk_id = 4, fe_fd = 30\<rparr>],
     fc_closed = [], fc_calls = 0\<rparr>"

lemma ex_cache_ok: "fd_cache_ok ex_cache"
  by (auto simp: fd_cache_ok_def ex_cache_def fd_bucket_def less_Suc_eq)

theorem fd_cache_refines_lru_witness:
  "fst (trunk_fd_cache_get list_fd_env ex_cache 4) = 30 \<and> fst (trunk_fd_cache_get list_fd_env ex_cache 5) = -1 \<and>
   lru_of (snd (trunk_fd_cache_add list_fd_env ex_cache 5 32)) = [(4, 30), (5, 32)] \<and>
   fc_closed (snd (trunk_fd_cache_add list_fd_env ex_cache 5 32)) = [31]"
proof -
  have new: "map_of (lru_of ex_cache) 5 = None" by (simp add: lru_of_def ex_cache_def)
  note t = fd_cache_refines_lru [OF list_fd.fd_library_axioms ex_cache_ok new, of _ 32]
  have "fst (trunk_fd_cache_get list_fd_env ex_cache 4) = 30" "fst (trunk_fd_cache_get list_fd_env ex_cache 5) = -1"
    using t [of 4] t [of 5] by (auto simp: lru_get_def lru_of_def ex_cache_def split: prod.splits)
  moreover have "fst (trunk_fd_cache_add list_fd_env ex_cache 5 32) = 0" by code_simp
  then have "lru_of (snd (trunk_fd_cache_add list_fd_env ex_cache 5 32)) = [(4, 30), (5, 32)]"
    "fc_closed (snd (trunk_fd_cache_add list_fd_env ex_cache 5 32)) = [31]"
    using t [of 4] by (auto simp: lru_evict_def lru_of_def ex_cache_def split: prod.splits)
  ultimately show ?thesis by simp
qed

text \<open>
  A new cache with a positive capacity is empty and well formed; its table has at least as many
  buckets as the capacity; the errors are lack of memory and what setting up the pool answers.
\<close>
theorem fd_cache_init_ok:
  assumes "fd_library L" "0 < capacity" "trunk_fd_cache_init L c capacity = (r, c')"
  shows "(r = 0 \<and> fd_cache_ok c' \<and> lru_of c' = [] \<and> capacity \<le> fc_size c' \<and> fc_capacity c' = capacity) \<or>
    r = ENOMEM \<or> r \<noteq> 0 \<and> r = fde_pool_init L (alloc_elements_once capacity)"
proof -
  let ?sz = "case fde_prime_capacity L capacity of Some p \<Rightarrow> p | None \<Rightarrow> capacity"
  have sz: "capacity \<le> ?sz" using fd_library.prime_capacity [OF assms(1)] by (auto split: option.splits)
  show ?thesis
  proof (cases "r = 0")
    case True
    then have c': "fc_size c' = ?sz" "fc_buckets c' = replicate (nat ?sz) []" "fc_count c' = 0" "fc_capacity c' = capacity" "fc_lru c' = []"
      using assms(3) by (auto simp: trunk_fd_cache_init_def Let_def split: if_splits)
    show ?thesis using c' sz assms(2) True by (simp add: fd_cache_ok_def lru_of_def)
  next
    case False
    then show ?thesis using assms(3) by (auto simp: trunk_fd_cache_init_def Let_def split: if_splits)
  qed
qed

theorem fd_cache_init_ok_witness:
  "fd_cache_ok (snd (trunk_fd_cache_init list_fd_env ex_cache 5)) \<and> lru_of (snd (trunk_fd_cache_init list_fd_env ex_cache 5)) = []"
proof -
  have "fst (trunk_fd_cache_init list_fd_env ex_cache 5) = 0" by code_simp
  then show ?thesis
    using fd_cache_init_ok [OF list_fd.fd_library_axioms, of 5 ex_cache 0 "snd (trunk_fd_cache_init list_fd_env ex_cache 5)"]
    by (simp add: prod_eq_iff)
qed

end
