(* ===== verification/Trunk_Id.thy ===== *)
theory Trunk_Id
  imports FC_Contracts
begin

text \<open>
  Trunk ids and subdirectories (\<open>src/server/storage/trunk_id_info.c\<close>). Each store path keeps the
  subdirectories that hold trunk files with their file counts, and a free list of those with
  room for more. A new trunk gets the next id and the first subdirectory of the free list, or a
  new one.

  The two skip lists share their elements, structs with a counter that is updated in place:
  the model keeps the counters in \<open>sd_count\<close>, by subdirectory, and the lists hold the numbers
  the elements compare by. The skip list operations are a parameter with the contract of
  \<open>skiplist_contract\<close>; the order is \<open>compare_by_id\<close>.
\<close>

section \<open>Data\<close>

record SortedSubdirs =
  sd_inited :: bool
  sd_all :: "int list"
  sd_freelist :: "int list"
  sd_count :: "int \<Rightarrow> int"

record TrunkIdInfoContext =
  ic_current_trunk_id :: int
  ic_current_subdir_id :: int
  ic_last_trunk_id :: int
  ic_last_subdir_id :: int
  ic_subdirs :: "SortedSubdirs list"
  ic_calls :: nat

text \<open>The data file: what is written and what a later start reads.\<close>

record trunk_id_file =
  tif_trunk_id :: int
  tif_subdir_id :: int
  tif_normal_exit :: bool

definition compare_by_id :: "int \<Rightarrow> int \<Rightarrow> int" where
  "compare_by_id s1 s2 = s1 - s2"

section \<open>Saving and loading the counters\<close>

definition save_current_trunk_id_ex :: "int \<Rightarrow> int \<Rightarrow> bool \<Rightarrow> trunk_id_file" where
  "save_current_trunk_id_ex current_trunk_id current_subdir_id on_exit =
     \<lparr>tif_trunk_id = current_trunk_id, tif_subdir_id = current_subdir_id, tif_normal_exit = on_exit\<rparr>"

definition load_current_trunk_id :: "trunk_id_file option \<Rightarrow> TrunkIdInfoContext \<Rightarrow> TrunkIdInfoContext" where
  "load_current_trunk_id file ctx =
     (case file of
        None \<Rightarrow> ctx
      | Some f \<Rightarrow>
          (let ctx1 = ctx\<lparr>ic_current_trunk_id := tif_trunk_id f, ic_current_subdir_id := tif_subdir_id f\<rparr>
           in if \<not> tif_normal_exit f
              then ctx1\<lparr>ic_current_trunk_id := ic_current_trunk_id ctx1 + 10000,
                        ic_current_subdir_id := ic_current_subdir_id ctx1 + 100\<rparr>
              else ctx1))"

definition trunk_id_sync_to_file :: "TrunkIdInfoContext \<Rightarrow> trunk_id_file option \<times> TrunkIdInfoContext" where
  "trunk_id_sync_to_file ctx =
     (if ic_last_trunk_id ctx \<noteq> ic_current_trunk_id ctx \<or> ic_last_subdir_id ctx \<noteq> ic_current_subdir_id ctx
      then (Some (save_current_trunk_id_ex (ic_current_trunk_id ctx) (ic_current_subdir_id ctx) False),
            ctx\<lparr>ic_last_trunk_id := ic_current_trunk_id ctx, ic_last_subdir_id := ic_current_subdir_id ctx\<rparr>)
      else (None, ctx))"

definition trunk_id_info_destroy :: "TrunkIdInfoContext \<Rightarrow> trunk_id_file" where
  "trunk_id_info_destroy ctx = save_current_trunk_id_ex (ic_current_trunk_id ctx) (ic_current_subdir_id ctx) True"

section \<open>Operations\<close>

text \<open>The work of \<open>trunk_id_info_add\<close> and \<open>_delete\<close> on the entry of one store path.\<close>

definition subdirs_add :: "fc_env \<Rightarrow> int uniq_skiplist \<Rightarrow> int \<Rightarrow> nat \<Rightarrow> int \<Rightarrow> SortedSubdirs \<Rightarrow> int \<times> SortedSubdirs" where
  "subdirs_add E SK max_files call subdir s =
     (case skl_find SK (sd_all s) subdir of
        Some d \<Rightarrow>
          (let s1 = s\<lparr>sd_count := (sd_count s)(d := sd_count s d + 1)\<rparr>
           in (0, if sd_count s1 d \<ge> max_files
                  then s1\<lparr>sd_freelist := (case skl_delete SK (sd_freelist s1) d of None \<Rightarrow> sd_freelist s1 | Some (_, fl) \<Rightarrow> fl)\<rparr>
                  else s1))
      | None \<Rightarrow>
          if \<not> env_task_alloc E call then (ENOMEM, s)
          else
            (let s1 = s\<lparr>sd_count := (sd_count s)(subdir := 1)\<rparr>
             in case skl_insert SK (sd_all s1) subdir of (result, all) \<Rightarrow>
                  if result \<noteq> 0 then (result, s1)
                  else if 1 < max_files then
                    (case skl_insert SK (sd_freelist s1) subdir of (result, fl) \<Rightarrow>
                       (result, s1\<lparr>sd_all := all, sd_freelist := fl\<rparr>))
                  else (0, s1\<lparr>sd_all := all\<rparr>)))"

definition subdirs_delete :: "int uniq_skiplist \<Rightarrow> int \<Rightarrow> int \<Rightarrow> SortedSubdirs \<Rightarrow> SortedSubdirs" where
  "subdirs_delete SK max_files subdir s =
     (case skl_find SK (sd_all s) subdir of
        None \<Rightarrow> s
      | Some d \<Rightarrow>
          (let s1 = (if sd_count s d \<ge> max_files
                     then s\<lparr>sd_freelist := snd (skl_insert SK (sd_freelist s) d)\<rparr> else s)
           in s1\<lparr>sd_count := (sd_count s1)(d := sd_count s1 d - 1)\<rparr>))"

definition trunk_id_info_add :: "fc_env \<Rightarrow> int uniq_skiplist \<Rightarrow> int \<Rightarrow> nat \<Rightarrow> FSTrunkIdInfo \<Rightarrow> TrunkIdInfoContext \<Rightarrow>
    int \<times> TrunkIdInfoContext" where
  "trunk_id_info_add E SK max_files path_index id_info ctx =
     (if length (ic_subdirs ctx) \<le> path_index then (FAULT, ctx)
      else if \<not> sd_inited (ic_subdirs ctx ! path_index) then (ENOENT, ctx)
      else (case subdirs_add E SK max_files (ic_calls ctx) (ti_subdir id_info) (ic_subdirs ctx ! path_index) of (result, s) \<Rightarrow>
              (result, ctx\<lparr>ic_subdirs := (ic_subdirs ctx)[path_index := s], ic_calls := Suc (ic_calls ctx)\<rparr>)))"

definition trunk_id_info_delete :: "int uniq_skiplist \<Rightarrow> int \<Rightarrow> nat \<Rightarrow> FSTrunkIdInfo \<Rightarrow> TrunkIdInfoContext \<Rightarrow>
    int \<times> TrunkIdInfoContext" where
  "trunk_id_info_delete SK max_files path_index id_info ctx =
     (if length (ic_subdirs ctx) \<le> path_index then (FAULT, ctx)
      else if \<not> sd_inited (ic_subdirs ctx ! path_index) then (ENOENT, ctx)
      else (0, ctx\<lparr>ic_subdirs := (ic_subdirs ctx)
                     [path_index := subdirs_delete SK max_files (ti_subdir id_info) (ic_subdirs ctx ! path_index)]\<rparr>))"

definition trunk_id_info_generate :: "nat \<Rightarrow> TrunkIdInfoContext \<Rightarrow> int \<times> FSTrunkIdInfo option \<times> TrunkIdInfoContext" where
  "trunk_id_info_generate path_index ctx =
     (if length (ic_subdirs ctx) \<le> path_index then (FAULT, None, ctx)
      else if \<not> sd_inited (ic_subdirs ctx ! path_index) then (ENOENT, None, ctx)
      else
        (let (subdir, ctx1) =
               (case sd_freelist (ic_subdirs ctx ! path_index) of
                  d # _ \<Rightarrow> (d, ctx)
                | [] \<Rightarrow> (ic_current_subdir_id ctx + 1, ctx\<lparr>ic_current_subdir_id := ic_current_subdir_id ctx + 1\<rparr>));
             ctx2 = ctx1\<lparr>ic_current_trunk_id := ic_current_trunk_id ctx1 + 1\<rparr>
         in (0, Some \<lparr>ti_id = ic_current_trunk_id ctx2, ti_subdir = subdir\<rparr>, ctx2)))"

section \<open>The specification: a multiset of files\<close>

text \<open>
  The invariant for a store path that holds the trunk files \<open>F\<close>, a multiset of subdirectories: the
  counters are the multiplicities, every used subdirectory is in \<open>all\<close>, and the free list is
  exactly the subdirectories with room left.
\<close>

definition subdirs_ok :: "int \<Rightarrow> int multiset \<Rightarrow> SortedSubdirs \<Rightarrow> bool" where
  "subdirs_ok max_files F s \<longleftrightarrow> skl_ordered compare_by_id (sd_all s) \<and> skl_ordered compare_by_id (sd_freelist s) \<and>
     set_mset F \<subseteq> set (sd_all s) \<and> (\<forall>d\<in>set (sd_all s). sd_count s d = int (count F d) \<and> sd_count s d \<le> max_files) \<and>
     set (sd_freelist s) = {d \<in> set (sd_all s). sd_count s d < max_files}"

lemma find_by_id: "find (\<lambda>x. compare_by_id x d = 0) xs = (if d \<in> set xs then Some d else None)"
  by (induction xs) (auto simp: compare_by_id_def)

lemma subdirs_add_ok:
  assumes "skiplist_contract SK compare_by_id" "subdirs_ok max_files F s" "0 < max_files" "int (count F d) < max_files"
    "subdirs_add E SK max_files call d s = (r, s')"
  shows "(r = 0 \<and> subdirs_ok max_files (add_mset d F) s' \<and> set (sd_all s') = insert d (set (sd_all s)) \<and> sd_inited s' = sd_inited s) \<or>
    (r = ENOMEM \<and> s' = s)"
proof -
  note ok = assms(2) [unfolded subdirs_ok_def]
  have o: "skl_ordered compare_by_id (sd_all s)" "skl_ordered compare_by_id (sd_freelist s)" using ok by auto
  have find: "skl_find SK (sd_all s) d = (if d \<in> set (sd_all s) then Some d else None)"
    unfolding skiplist_contract.find_eq [OF assms(1) o(1)] by (rule find_by_id)
  show ?thesis
  proof (cases "d \<in> set (sd_all s)")
    case True
    let ?s1 = "s\<lparr>sd_count := (sd_count s)(d := sd_count s d + 1)\<rparr>"
    have c: "sd_count s d = int (count F d)" using ok True by auto
    have fl: "d \<in> set (sd_freelist s)" using ok True c assms(4) by auto
    have del: "skl_delete SK (sd_freelist s) d = Some (d, remove1 d (sd_freelist s))"
      "skl_ordered compare_by_id (remove1 d (sd_freelist s))" "set (remove1 d (sd_freelist s)) = set (sd_freelist s) - {d}"
      using skiplist_contract.delete_mem [OF assms(1) o(2) fl] by auto
    show ?thesis
    proof (cases "sd_count s d + 1 \<ge> max_files")
      case full: True
      then have "r = 0" "s' = ?s1\<lparr>sd_freelist := remove1 d (sd_freelist s)\<rparr>"
        using assms(5) find True del(1) by (auto simp: subdirs_add_def Let_def)
      moreover have "subdirs_ok max_files (add_mset d F) (?s1\<lparr>sd_freelist := remove1 d (sd_freelist s)\<rparr>)"
        using ok True full c assms(4) del unfolding subdirs_ok_def by auto
      ultimately show ?thesis using True by auto
    next
      case False
      then have "r = 0" "s' = ?s1" using assms(5) find True by (auto simp: subdirs_add_def Let_def)
      moreover have "subdirs_ok max_files (add_mset d F) ?s1"
        using ok True False c unfolding subdirs_ok_def by auto
      ultimately show ?thesis using True by auto
    qed
  next
    case False
    then have nF: "count F d = 0" using ok by (meson count_eq_zero_iff subsetD)
    have nfl: "d \<notin> set (sd_freelist s)" using ok False by auto
    show ?thesis
    proof (cases "env_task_alloc E call")
      case False
      then show ?thesis using assms(5) find \<open>d \<notin> set (sd_all s)\<close> by (auto simp: subdirs_add_def)
    next
      case True
      obtain all where all: "skl_insert SK (sd_all s) d = (0, all)" "skl_ordered compare_by_id all" "set all = insert d (set (sd_all s))"
        using skiplist_contract.insert_new [OF assms(1) o(1), of d] False by (auto simp: compare_by_id_def)
      obtain fl where fl: "skl_insert SK (sd_freelist s) d = (0, fl)" "skl_ordered compare_by_id fl" "set fl = insert d (set (sd_freelist s))"
        using skiplist_contract.insert_new [OF assms(1) o(2), of d] nfl by (auto simp: compare_by_id_def)
      let ?s1 = "s\<lparr>sd_count := (sd_count s)(d := 1), sd_all := all, sd_freelist := (if 1 < max_files then fl else sd_freelist s)\<rparr>"
      have "r = 0" "s' = ?s1"
        using assms(5) find False True all(1) fl(1) by (auto simp: subdirs_add_def Let_def split: if_splits)
      moreover have "subdirs_ok max_files (add_mset d F) ?s1"
        using ok False nF all fl assms(3) nfl o(2) unfolding subdirs_ok_def by auto
      ultimately show ?thesis using all(3) by simp
    qed
  qed
qed

lemma subdirs_delete_ok:
  assumes "skiplist_contract SK compare_by_id" "subdirs_ok max_files (add_mset d F) s"
  shows "subdirs_ok max_files F (subdirs_delete SK max_files d s) \<and> sd_all (subdirs_delete SK max_files d s) = sd_all s \<and>
    sd_inited (subdirs_delete SK max_files d s) = sd_inited s"
proof -
  note ok = assms(2) [unfolded subdirs_ok_def]
  have o: "skl_ordered compare_by_id (sd_all s)" "skl_ordered compare_by_id (sd_freelist s)" using ok by auto
  have d: "d \<in> set (sd_all s)" using ok by auto
  have find: "skl_find SK (sd_all s) d = Some d"
    unfolding skiplist_contract.find_eq [OF assms(1) o(1)] using d by (simp add: find_by_id)
  have c: "sd_count s d = int (count F d) + 1" using ok d by auto
  show ?thesis
  proof (cases "sd_count s d \<ge> max_files")
    case True
    then have nfl: "d \<notin> set (sd_freelist s)" using ok by auto
    obtain fl where fl: "skl_insert SK (sd_freelist s) d = (0, fl)" "skl_ordered compare_by_id fl" "set fl = insert d (set (sd_freelist s))"
      using skiplist_contract.insert_new [OF assms(1) o(2), of d] nfl by (auto simp: compare_by_id_def)
    have "subdirs_delete SK max_files d s = s\<lparr>sd_freelist := fl, sd_count := (sd_count s)(d := sd_count s d - 1)\<rparr>"
      using find True fl(1) by (simp add: subdirs_delete_def Let_def)
    then show ?thesis using ok True c d fl unfolding subdirs_ok_def by auto
  next
    case False
    then have "subdirs_delete SK max_files d s = s\<lparr>sd_count := (sd_count s)(d := sd_count s d - 1)\<rparr>"
      using find by (simp add: subdirs_delete_def Let_def)
    then show ?thesis using ok False c d unfolding subdirs_ok_def by auto
  qed
qed

section \<open>Properties\<close>

text \<open>The context with the trunk files \<open>F i\<close> of each store path \<open>i\<close>.\<close>

definition ids_ok :: "int \<Rightarrow> (nat \<Rightarrow> int multiset) \<Rightarrow> TrunkIdInfoContext \<Rightarrow> bool" where
  "ids_ok max_files F ctx \<longleftrightarrow> (\<forall>i<length (ic_subdirs ctx). sd_inited (ic_subdirs ctx ! i) \<longrightarrow>
     subdirs_ok max_files (F i) (ic_subdirs ctx ! i) \<and> (\<forall>d\<in>set (sd_all (ic_subdirs ctx ! i)). d \<le> ic_current_subdir_id ctx))"

lemma ids_ok_update:
  assumes "ids_ok max_files F ctx" "i < length (ic_subdirs ctx)" "subdirs_ok max_files G s"
    "\<forall>d\<in>set (sd_all s). d \<le> ic_current_subdir_id ctx'" "ic_current_subdir_id ctx \<le> ic_current_subdir_id ctx'"
    "ic_subdirs ctx' = (ic_subdirs ctx)[i := s]"
  shows "ids_ok max_files (F(i := G)) ctx'"
  unfolding ids_ok_def
proof (intro allI impI)
  fix j assume j: "j < length (ic_subdirs ctx')" "sd_inited (ic_subdirs ctx' ! j)"
  show "subdirs_ok max_files ((F(i := G)) j) (ic_subdirs ctx' ! j) \<and>
      (\<forall>d\<in>set (sd_all (ic_subdirs ctx' ! j)). d \<le> ic_current_subdir_id ctx')"
  proof (cases "j = i")
    case True
    then show ?thesis using assms j by simp
  next
    case False
    then have "subdirs_ok max_files (F j) (ic_subdirs ctx ! j) \<and> (\<forall>d\<in>set (sd_all (ic_subdirs ctx ! j)). d \<le> ic_current_subdir_id ctx)"
      using assms(1,6) j by (simp add: ids_ok_def)
    then show ?thesis using False assms(5,6) by auto
  qed
qed

text \<open>
  A generated trunk id is one more than the last one, so no id is given twice, and its
  subdirectory has room: it is a listed one of the store path below the limit of files, or a
  number that no subdirectory of any store path has.
\<close>
theorem generated_trunk_has_room:
  assumes "ids_ok max_files F ctx" "0 < max_files" "i < length (ic_subdirs ctx)" "sd_inited (ic_subdirs ctx ! i)"
    and "trunk_id_info_generate i ctx = (r, info, ctx')"
  shows "r = 0 \<and> ids_ok max_files F ctx' \<and> (\<exists>d. info = Some \<lparr>ti_id = ic_current_trunk_id ctx + 1, ti_subdir = d\<rparr> \<and>
    ic_current_trunk_id ctx' = ic_current_trunk_id ctx + 1 \<and> d \<le> ic_current_subdir_id ctx' \<and> int (count (F i) d) < max_files \<and>
    (d \<in> set (sd_all (ic_subdirs ctx ! i)) \<or>
     (\<forall>j<length (ic_subdirs ctx). sd_inited (ic_subdirs ctx ! j) \<longrightarrow> d \<notin> set (sd_all (ic_subdirs ctx ! j)))))"
proof -
  let ?s = "ic_subdirs ctx ! i"
  have s: "subdirs_ok max_files (F i) ?s" "\<forall>d\<in>set (sd_all ?s). d \<le> ic_current_subdir_id ctx"
    using assms(1,3,4) by (simp_all add: ids_ok_def)
  show ?thesis
  proof (cases "sd_freelist ?s")
    case Nil
    let ?d = "ic_current_subdir_id ctx + 1"
    have g: "r = 0" "info = Some \<lparr>ti_id = ic_current_trunk_id ctx + 1, ti_subdir = ?d\<rparr>"
      "ctx' = ctx\<lparr>ic_current_subdir_id := ?d, ic_current_trunk_id := ic_current_trunk_id ctx + 1\<rparr>"
      using assms(3-5) Nil by (auto simp: trunk_id_info_generate_def)
    have n: "?d \<notin> set (sd_all (ic_subdirs ctx ! j))" if "j < length (ic_subdirs ctx)" "sd_inited (ic_subdirs ctx ! j)" for j
    proof
      assume "?d \<in> set (sd_all (ic_subdirs ctx ! j))"
      then have "?d \<le> ic_current_subdir_id ctx" using that assms(1) unfolding ids_ok_def by blast
      then show False by simp
    qed
    then have "count (F i) ?d = 0" using s(1) assms(3,4) by (metis count_eq_zero_iff subsetD subdirs_ok_def)
    moreover have "ids_ok max_files F ctx'" using assms(1) unfolding g(3) ids_ok_def by force
    ultimately show ?thesis using g n assms(2) by auto
  next
    case (Cons x xs)
    have g: "r = 0" "info = Some \<lparr>ti_id = ic_current_trunk_id ctx + 1, ti_subdir = x\<rparr>"
      "ctx' = ctx\<lparr>ic_current_trunk_id := ic_current_trunk_id ctx + 1\<rparr>"
      using assms(3-5) Cons by (auto simp: trunk_id_info_generate_def)
    have "x \<in> set (sd_freelist ?s)" using Cons by simp
    then have "x \<in> set (sd_all ?s)" "int (count (F i) x) < max_files" using s(1) by (auto simp: subdirs_ok_def)
    moreover have "ids_ok max_files F ctx'" using assms(1) unfolding g(3) ids_ok_def by simp
    ultimately show ?thesis using g s(2) by auto
  qed
qed

text \<open>
  Recording a trunk in a subdirectory with room counts it there and keeps the free list equal to
  the subdirectories below the limit; deleting the record undoes it. The only failure is lack of memory,
  which leaves the counts as they were.
\<close>
theorem trunk_record_add_delete:
  assumes "skiplist_contract SK compare_by_id" "ids_ok max_files F ctx" "0 < max_files"
    and "i < length (ic_subdirs ctx)" "sd_inited (ic_subdirs ctx ! i)"
    and "ti_subdir info \<le> ic_current_subdir_id ctx" "int (count (F i) (ti_subdir info)) < max_files"
    and "trunk_id_info_add E SK max_files i info ctx = (r, ctx')"
  shows "(r = 0 \<and> ids_ok max_files (F(i := add_mset (ti_subdir info) (F i))) ctx' \<and>
      (case trunk_id_info_delete SK max_files i info ctx' of (r2, ctx2) \<Rightarrow> r2 = 0 \<and> ids_ok max_files F ctx2)) \<or>
    (r = ENOMEM \<and> ids_ok max_files F ctx')"
proof -
  let ?s = "ic_subdirs ctx ! i" let ?d = "ti_subdir info"
  have s: "subdirs_ok max_files (F i) ?s" "\<forall>d\<in>set (sd_all ?s). d \<le> ic_current_subdir_id ctx"
    using assms(2,4,5) by (simp_all add: ids_ok_def)
  obtain s2 where add: "subdirs_add E SK max_files (ic_calls ctx) ?d ?s = (r, s2)"
    and ctx': "ctx' = ctx\<lparr>ic_subdirs := (ic_subdirs ctx)[i := s2], ic_calls := Suc (ic_calls ctx)\<rparr>"
    using assms(4,5,8) by (auto simp: trunk_id_info_add_def split: prod.splits)
  from subdirs_add_ok [OF assms(1) s(1) assms(3,7) add] show ?thesis
  proof (elim disjE conjE)
    assume a: "r = 0" "subdirs_ok max_files (add_mset ?d (F i)) s2" "set (sd_all s2) = insert ?d (set (sd_all ?s))" "sd_inited s2 = sd_inited ?s"
    have 1: "ids_ok max_files (F(i := add_mset ?d (F i))) ctx'"
      by (rule ids_ok_update [OF assms(2,4) a(2)]) (use a(3) s(2) assms(6) ctx' in auto)
    note d = subdirs_delete_ok [OF assms(1) a(2)]
    let ?s3 = "subdirs_delete SK max_files ?d s2" let ?ctx2 = "ctx'\<lparr>ic_subdirs := (ic_subdirs ctx')[i := ?s3]\<rparr>"
    have run: "trunk_id_info_delete SK max_files i info ctx' = (0, ?ctx2)"
      using assms(4,5) a(4) ctx' by (simp add: trunk_id_info_delete_def)
    have "ids_ok max_files ((F(i := add_mset ?d (F i)))(i := F i)) ?ctx2"
      by (rule ids_ok_update [OF 1]) (use d a(3) s(2) assms(4,6) ctx' in auto)
    then have "ids_ok max_files F ?ctx2" by simp
    then show ?thesis using a(1) 1 run by simp
  next
    assume "r = ENOMEM" "s2 = ?s"
    then show ?thesis using assms(2) ctx' by (simp add: ids_ok_def)
  qed
qed

fun generate_n :: "nat \<Rightarrow> nat \<Rightarrow> TrunkIdInfoContext \<Rightarrow> TrunkIdInfoContext" where
  "generate_n 0 i ctx = ctx"
| "generate_n (Suc n) i ctx = generate_n n i (snd (snd (trunk_id_info_generate i ctx)))"

lemma generate_n_bound: "ic_current_trunk_id (generate_n n i ctx) \<le> ic_current_trunk_id ctx + int n \<and>
   ic_current_subdir_id (generate_n n i ctx) \<le> ic_current_subdir_id ctx + int n"
proof (induction n arbitrary: ctx)
  case (Suc n)
  have "ic_current_trunk_id (snd (snd (trunk_id_info_generate i ctx))) \<le> ic_current_trunk_id ctx + 1 \<and>
     ic_current_subdir_id (snd (snd (trunk_id_info_generate i ctx))) \<le> ic_current_subdir_id ctx + 1"
    by (auto simp: trunk_id_info_generate_def Let_def split: list.splits)
  with Suc [of "snd (snd (trunk_id_info_generate i ctx))"] show ?case by simp
qed simp


section \<open>Witnesses\<close>

definition id_skiplist :: "int uniq_skiplist" where
  "id_skiplist = list_skiplist (\<lambda>x. x)"

interpretation id_skl: skiplist_contract id_skiplist compare_by_id
  unfolding id_skiplist_def by (rule list_skiplist_contract) (auto simp: compare_by_id_def)

definition ex_ids :: TrunkIdInfoContext where
  "ex_ids = \<lparr>ic_current_trunk_id = 9, ic_current_subdir_id = 2, ic_last_trunk_id = 9, ic_last_subdir_id = 2,
     ic_subdirs = [\<lparr>sd_inited = True, sd_all = [1, 2], sd_freelist = [2], sd_count = (\<lambda>d. if d = 1 then 2 else if d = 2 then 1 else 0)\<rparr>],
     ic_calls = 0\<rparr>"

lemma ex_ids_ok: "ids_ok 2 (\<lambda>_. {#1, 1, 2#}) ex_ids"
  by (auto simp: ids_ok_def subdirs_ok_def ex_ids_def skl_ordered_def compare_by_id_def)

theorem generated_trunk_has_room_witness:
  "\<exists>d ctx'. trunk_id_info_generate 0 ex_ids = (0, Some \<lparr>ti_id = 10, ti_subdir = d\<rparr>, ctx') \<and> int (count {#1, 1, 2#} d) < 2"
proof -
  obtain r info ctx' where run: "trunk_id_info_generate 0 ex_ids = (r, info, ctx')" by (metis prod_cases3)
  have i: "0 < length (ic_subdirs ex_ids)" "sd_inited (ic_subdirs ex_ids ! 0)" "ic_current_trunk_id ex_ids + 1 = 10"
    by (simp_all add: ex_ids_def)
  have "(0::int) < 2" by simp
  from generated_trunk_has_room [OF ex_ids_ok this i(1,2) run] obtain d where
    "r = 0" "info = Some \<lparr>ti_id = 10, ti_subdir = d\<rparr>" "int (count {#1, 1, 2#} d) < 2" unfolding i(3) by blast
  then show ?thesis using run by blast
qed

theorem trunk_record_add_delete_witness:
  "\<exists>ctx'. trunk_id_info_add list_env id_skiplist 2 0 \<lparr>ti_id = 10, ti_subdir = 2\<rparr> ex_ids = (0, ctx') \<and>
     ids_ok 2 ((\<lambda>_. {#1, 1, 2#})(0 := {#2, 1, 1, 2#})) ctx'"
proof -
  obtain r ctx' where run: "trunk_id_info_add list_env id_skiplist 2 0 \<lparr>ti_id = 10, ti_subdir = 2\<rparr> ex_ids = (r, ctx')" by (metis surj_pair)
  have "fst (trunk_id_info_add list_env id_skiplist 2 0 \<lparr>ti_id = 10, ti_subdir = 2\<rparr> ex_ids) = 0" by code_simp
  then have "r = 0" using run by simp
  moreover have "0 < length (ic_subdirs ex_ids)" "sd_inited (ic_subdirs ex_ids ! 0)" "(2::int) \<le> ic_current_subdir_id ex_ids"
    by (simp_all add: ex_ids_def)
  ultimately show ?thesis
    using trunk_record_add_delete [OF id_skl.skiplist_contract_axioms ex_ids_ok _ _ _ _ _ run] run by simp
qed


end
