(* ===== verification/Storage_Alloc.thy ===== *)
theory Storage_Alloc
  imports Freelist_Properties
begin

text \<open>
  The layer above the free lists: choosing a store path for an allocation and trying again
  (\<open>storage_allocator.h\<close>), the regular check of full store paths (\<open>storage_allocator.c\<close>), the
  statistics of a store path (\<open>storage_config.c\<close>), and sorting the trunks of a store path into the free
  list and the candidates for reclaiming when the server starts (\<open>trunk_allocator.c\<close>).

  Ratios are \<open>double\<close>s in the source and rational numbers here, without rounding. The answer
  of \<open>statvfs\<close> for a store path is a parameter: an \<open>errno\<close>, or the numbers of available
  blocks, of bytes per block and of all blocks.
\<close>

section \<open>Configuration and statistics\<close>

record storage_cfg =
  cfg_trunk_file_size :: int
  cfg_discard_remain_space_size :: int
  cfg_reclaim_trunks_on_path_usage :: rat
  cfg_never_reclaim_on_trunk_usage :: rat

abbreviation EPERM :: int where "EPERM \<equiv> 1"

type_synonym statvfs = "nat \<Rightarrow> int + int \<times> int \<times> int"

definition storage_config_calc_path_avail_space :: "statvfs \<Rightarrow> nat \<Rightarrow> FSStorageAllocatorManager \<Rightarrow>
    int \<times> FSStorageAllocatorManager" where
  "storage_config_calc_path_avail_space sv i m =
     (case am_allocators m i of
        None \<Rightarrow> (FAULT, m)
      | Some a \<Rightarrow>
          if pi_last_stat_time (ta_path_info a) = am_now m then (0, m)
          else
            (let m1 = upd_path_info i (\<lambda>q. q\<lparr>pi_last_stat_time := am_now m\<rparr>) m
             in case sv i of
                  Inl e \<Rightarrow> (if e \<noteq> 0 then e else EPERM, m1)
                | Inr (bavail, frsize, blocks) \<Rightarrow>
                    (0, upd_path_info i (\<lambda>q. q\<lparr>pi_space_avail := bavail * frsize,
                          pi_used_ratio := (if blocks > 0 then of_int (blocks - bavail) / of_int blocks
                                            else pi_used_ratio q)\<rparr>) m1)))"

record FSClusterServerSpaceStat =
  ss_total :: int
  ss_avail :: int
  ss_used :: int

fun stat_path_spaces :: "statvfs \<Rightarrow> nat list \<Rightarrow> FSClusterServerSpaceStat \<Rightarrow> FSStorageAllocatorManager \<Rightarrow>
    FSClusterServerSpaceStat \<times> FSStorageAllocatorManager" where
  "stat_path_spaces sv [] stat m = (stat, m)"
| "stat_path_spaces sv (i # rest) stat m =
     (let m1 = snd (storage_config_calc_path_avail_space sv i m)
      in case am_allocators m1 i of
           None \<Rightarrow> stat_path_spaces sv rest stat m1
         | Some a \<Rightarrow>
             (let q = ta_path_info a;
                  d = pi_space_avail q - pi_reserved q;
                  disk_avail = (if d < 0 then 0 else d)
              in stat_path_spaces sv rest
                   \<lparr>ss_total = ss_total stat + pi_trunk_total q + disk_avail,
                    ss_avail = ss_avail stat + pi_trunk_avail q + disk_avail,
                    ss_used = ss_used stat + pi_trunk_used q\<rparr> m1))"

definition storage_config_stat_path_spaces :: "statvfs \<Rightarrow> nat list \<Rightarrow> FSStorageAllocatorManager \<Rightarrow>
    FSClusterServerSpaceStat \<times> FSStorageAllocatorManager" where
  "storage_config_stat_path_spaces sv paths m = stat_path_spaces sv paths \<lparr>ss_total = 0, ss_avail = 0, ss_used = 0\<rparr> m"

section \<open>Sorting the trunks at the start\<close>

definition trunk_allocator_calc_reclaim_ratio_thredhold :: "storage_cfg \<Rightarrow> FSStoragePathInfo \<Rightarrow> rat" where
  "trunk_allocator_calc_reclaim_ratio_thredhold cfg q =
     (let used_ratio = pi_used_ratio q + pi_reserved_ratio q
      in if used_ratio \<ge> 1 then cfg_never_reclaim_on_trunk_usage cfg
         else cfg_never_reclaim_on_trunk_usage cfg * (used_ratio - cfg_reclaim_trunks_on_path_usage cfg) /
              (1 - cfg_reclaim_trunks_on_path_usage cfg))"

definition can_add_to_freelist :: "storage_cfg \<Rightarrow> nat \<Rightarrow> FSTrunkFileInfo \<Rightarrow> FSStorageAllocatorManager \<Rightarrow>
    bool \<times> FSStorageAllocatorManager" where
  "can_add_to_freelist cfg p t m =
     (if tf_free_start t = 0 then (True, m)
      else if tf_used_bytes t = 0 then (True, upd_trunk p (\<lambda>t. t\<lparr>tf_free_start := 0\<rparr>) m)
      else
        (let remain_size = FS_TRUNK_AVAIL_SPACE t
         in if remain_size < FS_FILE_BLOCK_SIZE then (False, m)
            else
              (case am_allocators m (tf_allocator t) of
                 None \<Rightarrow> (False, m)
               | Some a \<Rightarrow>
                   if pi_used_ratio (ta_path_info a) \<le> cfg_reclaim_trunks_on_path_usage cfg then
                     (of_int (tf_free_start t) / of_int (tf_size t) \<le> 1 - cfg_reclaim_trunks_on_path_usage cfg, m)
                   else if of_int remain_size / of_int (tf_size t) \<ge> 1 - cfg_reclaim_trunks_on_path_usage cfg then (True, m)
                   else (of_int (tf_used_bytes t) / of_int (tf_free_start t) >
                           trunk_allocator_calc_reclaim_ratio_thredhold cfg (ta_path_info a), m))))"

definition deal_one :: "fc_env \<Rightarrow> storage_cfg \<Rightarrow> nat \<Rightarrow> nat \<Rightarrow> FSStorageAllocatorManager \<Rightarrow> FSStorageAllocatorManager" where
  "deal_one E cfg i p m =
     (case am_trunks m p of
        None \<Rightarrow> m
      | Some t \<Rightarrow>
          (let m1 = upd_path_info i (\<lambda>q. q\<lparr>pi_trunk_total := pi_trunk_total q + tf_size t,
                                          pi_trunk_used := pi_trunk_used q + tf_used_bytes t\<rparr>) m
           in case can_add_to_freelist cfg p t m1 of (ok, m2) \<Rightarrow>
                if ok then
                  if map_option tf_free_start (am_trunks m2 p) = Some 0
                  then snd (trunk_allocator_add_to_freelist i p m2)
                  else snd (trunk_freelist_add (FL_PATH i) p m2)
                else push_trunk_util_change_event E i p EVENT_CREATE m2))"

fun deal_on_ready_loop :: "fc_env \<Rightarrow> storage_cfg \<Rightarrow> nat \<Rightarrow> nat list \<Rightarrow> FSStorageAllocatorManager \<Rightarrow>
    FSStorageAllocatorManager" where
  "deal_on_ready_loop E cfg i [] m = m"
| "deal_on_ready_loop E cfg i (p # rest) m = deal_on_ready_loop E cfg i rest (deal_one E cfg i p m)"

definition trunk_allocator_deal_on_ready :: "fc_env \<Rightarrow> storage_cfg \<Rightarrow> nat \<Rightarrow> FSStorageAllocatorManager \<Rightarrow>
    FSStorageAllocatorManager" where
  "trunk_allocator_deal_on_ready E cfg i m =
     (case am_allocators m i of
        None \<Rightarrow> m
      | Some a \<Rightarrow> deal_on_ready_loop E cfg i (map snd (ta_by_id a)) m)"

section \<open>Allocation with a choice of the store path\<close>

text \<open>
  Each element of \<open>scheds\<close> is what the other threads do during one turn of the loop; when the
  turns are used up the loop is still running (\<open>None\<close>).
\<close>

type_synonym schedule = "(FSStorageAllocatorManager \<Rightarrow> FSStorageAllocatorManager) list"

fun storage_allocator_normal_alloc_ex :: "fc_env \<Rightarrow> int \<Rightarrow> schedule list \<Rightarrow> int \<Rightarrow> int \<Rightarrow> bool \<Rightarrow>
    FSStorageAllocatorManager \<Rightarrow> (int \<times> FSTrunkSpaceWithVersion list \<times> FSStorageAllocatorManager) option" where
  "storage_allocator_normal_alloc_ex E discard [] blk_hc sz is_normal m = None"
| "storage_allocator_normal_alloc_ex E discard (sched # scheds) blk_hc sz is_normal m =
     (let items = aa_items (am_avail m)
      in if items = [] then Some (ENOSPC, [], m)
         else
           (let i = items ! nat (blk_hc mod int (length items))
            in case trunk_freelist_alloc_space E discard sched i (FL_PATH i) sz is_normal m of
                 None \<Rightarrow> None
               | Some (result, spaces, m1) \<Rightarrow>
                   if (result = ENOSPC \<or> result = EAGAIN) \<and> is_normal
                   then storage_allocator_normal_alloc_ex E discard scheds blk_hc sz is_normal m1
                   else Some (result, spaces, m1)))"

text \<open>The second attempt passes a null allocator, which is not used unless the call waits.\<close>

definition storage_allocator_reclaim_alloc :: "fc_env \<Rightarrow> int \<Rightarrow> schedule list \<Rightarrow> int \<Rightarrow> int \<Rightarrow>
    FSStorageAllocatorManager \<Rightarrow> (int \<times> FSTrunkSpaceWithVersion list \<times> FSStorageAllocatorManager) option" where
  "storage_allocator_reclaim_alloc E discard scheds blk_hc sz m =
     (case storage_allocator_normal_alloc_ex E discard scheds blk_hc sz False m of
        None \<Rightarrow> None
      | Some (result, spaces, m1) \<Rightarrow>
          if result = 0 then Some (result, spaces, m1)
          else trunk_freelist_alloc_space E discard [] 0 FL_RECLAIM sz False m1)"

section \<open>The check of full store paths\<close>

fun check_trunk_avail_loop :: "fc_env \<Rightarrow> storage_cfg \<Rightarrow> statvfs \<Rightarrow> nat list \<Rightarrow> int \<Rightarrow> FSStorageAllocatorManager \<Rightarrow>
    int \<times> FSStorageAllocatorManager" where
  "check_trunk_avail_loop E cfg sv [] result m = (result, m)"
| "check_trunk_avail_loop E cfg sv (i # rest) result m =
     (case am_allocators m i of
        None \<Rightarrow> check_trunk_avail_loop E cfg sv rest FAULT m
      | Some a \<Rightarrow>
          if trunk_allocator_is_available a then
            (case fs_add_to_avail_aptr_array E i m of (r, m1) \<Rightarrow>
               check_trunk_avail_loop E cfg sv rest (if r \<noteq> 0 then r else result) m1)
          else
            (let q = ta_path_info a; used_bytes = pi_trunk_used q
             in if pi_trunk_last_used q - used_bytes \<ge> cfg_trunk_file_size cfg then
                  check_trunk_avail_loop E cfg sv rest result
                    (snd (trunk_maker_allocate_ex E i True (upd_path_info i (\<lambda>q. q\<lparr>pi_trunk_last_used := used_bytes\<rparr>) m)))
                else
                  (let m1 = snd (storage_config_calc_path_avail_space sv i m)
                   in check_trunk_avail_loop E cfg sv rest result
                        (case am_allocators m1 i of
                           None \<Rightarrow> m1
                         | Some a1 \<Rightarrow>
                             if pi_space_avail (ta_path_info a1) - cfg_trunk_file_size cfg > pi_reserved (ta_path_info a1)
                             then snd (trunk_maker_allocate_ex E i False m1) else m1))))"

definition check_trunk_avail :: "fc_env \<Rightarrow> storage_cfg \<Rightarrow> statvfs \<Rightarrow> FSStorageAllocatorManager \<Rightarrow>
    int \<times> FSStorageAllocatorManager" where
  "check_trunk_avail E cfg sv m = check_trunk_avail_loop E cfg sv (aa_items (am_full m)) 0 m"

definition check_trunk_avail_func :: "fc_env \<Rightarrow> storage_cfg \<Rightarrow> statvfs \<Rightarrow> bool \<Rightarrow> FSStorageAllocatorManager \<Rightarrow>
    int \<times> FSStorageAllocatorManager" where
  "check_trunk_avail_func E cfg sv in_progress m =
     (if in_progress then (EINPROGRESS, m)
      else if aa_items (am_full m) \<noteq> [] then check_trunk_avail E cfg sv m
      else (0, m))"

end
