(* ===== verification/Alloc_Frame.thy ===== *)
theory Alloc_Frame
  imports Storage_Alloc
begin

text \<open>
  What an allocation of space leaves alone. A property of the allocator state that the single updates of the free
  lists keep is kept by a whole allocation, provided the other threads keep it while the
  allocation waits. The contract \<open>kept_by_updates\<close> is about the updates; it holds for the partition of the store paths into
  full and available ones, and for the identities of the trunks.
\<close>

definition keeps :: "(FSStorageAllocatorManager \<Rightarrow> bool) \<Rightarrow> schedule \<Rightarrow> bool" where
  "keeps I sched \<longleftrightarrow> (\<forall>f\<in>set sched. \<forall>m. I m \<longrightarrow> I (f m))"

definition same_identity :: "(FSTrunkFileInfo \<Rightarrow> FSTrunkFileInfo) \<Rightarrow> bool" where
  "same_identity f \<longleftrightarrow> (\<forall>t. tf_allocator (f t) = tf_allocator t \<and> tf_id_info (f t) = tf_id_info t)"

locale kept_by_updates =
  fixes E :: fc_env and I :: "FSStorageAllocatorManager \<Rightarrow> bool"
  assumes trunk: "I m \<Longrightarrow> same_identity f \<Longrightarrow> I (upd_trunk p f m)"
    and allocator: "I m \<Longrightarrow> I (upd_allocator i g m)"
    and reclaim_list: "I m \<Longrightarrow> I (m\<lparr>am_reclaim_freelist := l\<rparr>)"
    and calls: "I m \<Longrightarrow> I (m\<lparr>am_calls := n\<rparr>)"
    and tasks: "I m \<Longrightarrow> I (m\<lparr>am_maker_tasks := ts\<rparr>)"
    and avail: "I m \<Longrightarrow> I (snd (fs_remove_from_avail_aptr_array E i m))"
begin

lemma updates:
  assumes "I m"
  shows "I (upd_path_info i h m)" "I (upd_freelist fl k m)" "I (fs_set_trunk_status p s m)"
    "I (trunk_allocator_before_make_trunk i m)"
  using assms allocator reclaim_list trunk
  by (auto simp: upd_path_info_def upd_freelist_def fs_set_trunk_status_def trunk_allocator_before_make_trunk_def same_identity_def
      split: freelist_ref.splits)

lemma make: "I m \<Longrightarrow> I (snd (trunk_maker_allocate_ex E i u m))"
  using calls tasks updates by (simp add: trunk_maker_allocate_ex_def Let_def)

lemma event: "I m \<Longrightarrow> I (push_trunk_util_event_force E i p ev m)"
  using trunk allocator by (auto simp: push_trunk_util_event_force_def same_identity_def Let_def split: option.splits)

lemma freelist_remove: "I m \<Longrightarrow> I (trunk_freelist_remove E fl m)"
  using updates make event by (auto simp: trunk_freelist_remove_def Let_def split: list.splits option.splits)

lemma alloc_space: "TRUNK_ALLOC_SPACE p n m = Some (s, m') \<Longrightarrow> I m \<Longrightarrow> I m'"
  using updates allocator trunk by (auto simp: TRUNK_ALLOC_SPACE_def same_identity_def split: option.splits)

lemma first_step: "alloc_first E fl is_normal n m = (r, ss, n', m') \<Longrightarrow> I m \<Longrightarrow> I m'"
  using alloc_space freelist_remove by (auto simp: alloc_first_def Let_def split: list.splits option.splits if_splits)

lemma last_step: "alloc_last E d fl n ss m = (r, ss', m') \<Longrightarrow> I m \<Longrightarrow> I m'"
  using alloc_space freelist_remove updates by (auto simp: alloc_last_def Let_def split: list.splits option.splits if_splits)

lemma wait_cond:
  assumes "wait_trunk_cond sched i fl m = Some (m', sched')" "keeps I sched" "I m"
  shows "I m' \<and> keeps I sched'"
  using assms
proof (induction sched arbitrary: m)
  case Nil
  then show ?case by (auto simp: wait_trunk_cond.simps split: option.splits if_splits)
next
  case (Cons f fs)
  have "I (f m)" "keeps I fs" using Cons.prems by (auto simp: keeps_def)
  with Cons.prems Cons.IH [of "f m"] show ?case
    by (auto simp: wait_trunk_cond.simps [of "f # fs"] split: option.splits if_splits)
qed

lemma waiting:
  assumes "waiting_avail_trunk E n first sched i fl m = Some (r, m')" "keeps I sched" "I m"
  shows "I m'"
  using assms
proof (induction n arbitrary: first sched m)
  case (Suc n)
  show ?case
  proof (cases "am_allocators m i")
    case None
    then show ?thesis using Suc.prems by simp
  next
    case (Some a)
    let ?made = "if ta_creating_trunks a = 0 \<and> (am_now m - ta_last_trigger_time a > 0 \<or> \<not> first)
       then trunk_maker_allocate_ex E i True (upd_allocator i (\<lambda>a. a\<lparr>ta_last_trigger_time := am_now m\<rparr>) m) else (0, m)"
    obtain r1 m1 where t: "?made = (r1, m1)" by (metis surj_pair)
    have m1: "I m1"
      using arg_cong [OF t, of snd] make [OF allocator [OF Suc.prems(3)]] Suc.prems(3) by (auto split: if_splits)
    note run = Suc.prems(1) [unfolded waiting_avail_trunk.simps Some option.case t prod.case]
    show ?thesis
    proof (cases "r1 = 0")
      case False
      then show ?thesis using run m1 by simp
    next
      case True
      from run obtain m2 sched2 where
        m2: "wait_trunk_cond sched i fl (upd_allocator i (\<lambda>a. a\<lparr>ta_waiting_callers := ta_waiting_callers a + 1\<rparr>) m1) = Some (m2, sched2)"
        by (auto simp: True split: option.splits)
      let ?m3 = "upd_allocator i (\<lambda>a. a\<lparr>ta_waiting_callers := ta_waiting_callers a - 1\<rparr>) m2"
      have "m' = ?m3 \<or> waiting_avail_trunk E n False sched2 i fl ?m3 = Some (r, m')"
        using run by (auto simp: True m2 Let_def split: if_splits)
      then show ?thesis
        using wait_cond [OF m2 Suc.prems(2) allocator [OF m1]] allocator Suc.IH [of False sched2 ?m3] by blast
    qed
  qed
qed simp

lemma freelist_alloc_space:
  assumes "trunk_freelist_alloc_space E d sched i fl n is_normal m = Some (r, ss, m')" "keeps I sched" "I m"
  shows "I m'"
proof -
  obtain m1 where b: "alloc_body E d sched i fl n is_normal m = Some (r, ss, m1)"
    and m': "m' = (if r = ENOSPC \<and> is_normal then snd (fs_remove_from_avail_aptr_array E i m1) else m1)"
    using assms(1) by (auto simp: trunk_freelist_alloc_space_def split: option.splits)
  obtain r2 ss2 n2 m2 where f: "alloc_first E fl is_normal (env_align_ceil E n FS_SPACE_ALIGN_SIZE) m = (r2, ss2, n2, m2)"
    by (metis prod_cases4)
  have m2: "I m2" by (rule first_step [OF f assms(3)])
  have "(m1 = m2 \<or> alloc_last E d fl n2 ss2 m2 = (r, ss, m1)) \<or>
      (\<exists>r3 m3. waiting_avail_trunk E 10 True sched i fl m2 = Some (r3, m3) \<and> (m1 = m3 \<or> alloc_last E d fl n2 ss2 m3 = (r, ss, m1)))"
    using b by (auto simp: alloc_body_def f split: if_splits option.splits)
  then have "I m1" using m2 last_step waiting [OF _ assms(2) m2] by blast
  then show ?thesis unfolding m' by (simp add: avail)
qed

lemma normal_alloc:
  assumes "storage_allocator_normal_alloc_ex E discard scheds h sz is_normal m = Some (r, ss, m')"
    "\<forall>sched\<in>set scheds. keeps I sched" "I m"
  shows "I m'"
  using assms
proof (induction scheds arbitrary: m)
  case (Cons sched scheds)
  show ?case
  proof (cases "aa_items (am_avail m) = []")
    case True
    then show ?thesis using Cons.prems by simp
  next
    case False
    define i where "i = aa_items (am_avail m) ! nat (h mod int (length (aa_items (am_avail m))))"
    obtain r1 ss1 m1 where t: "trunk_freelist_alloc_space E discard sched i (FL_PATH i) sz is_normal m = Some (r1, ss1, m1)"
      using Cons.prems(1) False by (auto simp: i_def [symmetric] Let_def split: option.splits)
    have "I m1" by (rule freelist_alloc_space [OF t _ Cons.prems(3)]) (use Cons.prems(2) in simp)
    moreover have "m' = m1 \<or> storage_allocator_normal_alloc_ex E discard scheds h sz is_normal m1 = Some (r, ss, m')"
      using Cons.prems(1) False t by (auto simp: i_def [symmetric] Let_def split: if_splits)
    ultimately show ?thesis using Cons.IH [of m1] Cons.prems(2) by auto
  qed
qed simp

lemma reclaim_alloc:
  assumes "storage_allocator_reclaim_alloc E discard scheds h sz m = Some (r, ss, m')"
    "\<forall>sched\<in>set scheds. keeps I sched" "I m"
  shows "I m'"
proof -
  obtain r1 ss1 m1 where n: "storage_allocator_normal_alloc_ex E discard scheds h sz False m = Some (r1, ss1, m1)"
    using assms(1) by (auto simp: storage_allocator_reclaim_alloc_def split: option.splits)
  have "I m1" by (rule normal_alloc [OF n assms(2,3)])
  moreover have "m' = m1 \<or> trunk_freelist_alloc_space E discard [] 0 FL_RECLAIM sz False m1 = Some (r, ss, m')"
    using assms(1) n by (auto simp: storage_allocator_reclaim_alloc_def split: if_splits)
  ultimately show ?thesis using freelist_alloc_space [of discard "[]" 0 FL_RECLAIM sz False m1 r ss m'] by (auto simp: keeps_def)
qed

end

section \<open>The arrays of store paths\<close>

lemma aptr_split_arrays: "am_full m' = am_full m \<Longrightarrow> am_avail m' = am_avail m \<Longrightarrow> aptr_split P m \<Longrightarrow> aptr_split P m'"
  by (simp add: aptr_split_def)

interpretation arrays: kept_by_updates E "aptr_split P" for E P
proof
  fix m i assume "aptr_split P m"
  from moves_keep_split [where E = E and a = i, OF this]
  show "aptr_split P (snd (fs_remove_from_avail_aptr_array E i m))" by (simp split: prod.splits)
qed (simp_all add: upd_trunk_def upd_allocator_def aptr_split_def)

section \<open>The identities of the trunks\<close>

definition ids_distinct :: "FSStorageAllocatorManager \<Rightarrow> bool" where
  "ids_distinct m \<longleftrightarrow> (\<forall>p q t u. am_trunks m p = Some t \<longrightarrow> am_trunks m q = Some u \<longrightarrow>
     tf_allocator t = tf_allocator u \<longrightarrow> tf_id_info t = tf_id_info u \<longrightarrow> p = q)"

interpretation ids: kept_by_updates E ids_distinct for E
proof
  fix m f p assume "ids_distinct m" "same_identity f"
  then show "ids_distinct (upd_trunk p f m)"
    by (auto simp: ids_distinct_def same_identity_def upd_trunk_def split: if_splits)
next
  fix m i assume "ids_distinct m"
  moreover have "am_trunks (snd (fs_remove_from_avail_aptr_array E i m)) = am_trunks m"
    by (auto simp: fs_remove_from_avail_aptr_array_def upd_path_info_def upd_allocator_def Let_def split: prod.splits)
  ultimately show "ids_distinct (snd (fs_remove_from_avail_aptr_array E i m))" by (simp add: ids_distinct_def)
qed (simp_all add: upd_allocator_def ids_distinct_def)

end
