(* ===== verification/Storage_Alloc_Properties.thy ===== *)
theory Storage_Alloc_Properties
  imports Alloc_Frame
begin

text \<open>
  Allocation over several store paths: the pieces that an allocation gives are the ones of the free lists,
  the arrays of full and available store paths stay a partition, and a normal allocation reports
  a full disk only when no store path is left. The start of the server sorts every trunk into
  its place.
\<close>

abbreviation aptr_rely :: "nat set \<Rightarrow> schedule \<Rightarrow> bool" where
  "aptr_rely P \<equiv> keeps (aptr_split P)"

section \<open>Allocation over the store paths\<close>

lemma spaces_for_before:
  assumes "later S T" "spaces_for T U n ss"
  shows "spaces_for S U n ss"
  using assms(2) carved_before [OF assms(1)]
  by (auto simp: spaces_for_def split: list.splits) (metis carved_before [OF assms(1)])+

text \<open>What an allocation of space may do to the state: \<open>S\<close> before, \<open>S'\<close> after.\<close>

definition alloc_outcome :: "fc_env \<Rightarrow> int \<Rightarrow> int \<Rightarrow> FSTrunkSpaceWithVersion list \<Rightarrow> free_space \<Rightarrow> free_space \<Rightarrow> bool" where
  "alloc_outcome E sz r ss S S' \<longleftrightarrow> evolves S S' \<and>
     (r = 0 \<and> spaces_for S S' (env_align_ceil E sz FS_SPACE_ALIGN_SIZE) ss \<or> r \<in> {ENOSPC, EINTR, EAGAIN, ENOMEM})"

lemma alloc_outcome_before:
  assumes "evolves S T" "alloc_outcome E sz r ss T U"
  shows "alloc_outcome E sz r ss S U"
  using assms(2) evolves_trans [OF assms(1)] spaces_for_before [OF assms(1) [unfolded evolves_def, THEN conjunct2]]
  by (auto simp: alloc_outcome_def)

definition paths_exist :: "nat set \<Rightarrow> free_space \<Rightarrow> bool" where
  "paths_exist P S \<longleftrightarrow> (\<forall>i\<in>P. sp_version S i \<noteq> None)"

lemma paths_exist_later: "paths_exist P S \<Longrightarrow> evolves S T \<Longrightarrow> paths_exist P T"
  unfolding paths_exist_def evolves_def by (metis laterD(2) option.distinct(1) option.exhaust)

lemma avail_item:
  assumes "aptr_split P m" "aa_items (am_avail m) \<noteq> []"
  shows "aa_items (am_avail m) ! nat (h mod int (length (aa_items (am_avail m)))) \<in> P"
proof -
  let ?xs = "aa_items (am_avail m)"
  have "nat (h mod int (length ?xs)) < length ?xs" using assms(2) by (simp add: nat_less_iff)
  then have "?xs ! nat (h mod int (length ?xs)) \<in> set ?xs" by simp
  then show ?thesis using assms(1) by (auto simp: aptr_split_def)
qed

lemma normal_alloc_ok:
  assumes "storage_allocator_normal_alloc_ex E discard scheds h sz is_normal m = Some (r, ss, m')"
    and "fastcommon E" "space_ok (free_space_of m)" "aptr_split P m" "paths_exist P (free_space_of m)" "0 < sz" "0 < discard"
    and "\<forall>sched\<in>set scheds. rely sched \<and> aptr_rely P sched"
  shows "alloc_outcome E sz r ss (free_space_of m) (free_space_of m') \<and> aptr_split P m' \<and>
    (is_normal \<longrightarrow> r \<noteq> EAGAIN \<and> (r = ENOSPC \<longrightarrow> aa_items (am_avail m') = []))"
  using assms
proof (induction scheds arbitrary: m)
  case (Cons sched scheds)
  let ?items = "aa_items (am_avail m)"
  show ?case
  proof (cases "?items = []")
    case True
    then show ?thesis using Cons.prems by (auto simp: alloc_outcome_def evolves_refl)
  next
    case False
    define i where "i = ?items ! nat (h mod int (length ?items))"
    have i: "sp_version (free_space_of m) i \<noteq> None"
      using avail_item [OF Cons.prems(4) False] Cons.prems(5) by (auto simp: i_def paths_exist_def)
    have sched: "rely sched" "aptr_rely P sched" using Cons.prems(8) by auto
    obtain r1 ss1 m1 where t: "trunk_freelist_alloc_space E discard sched i (FL_PATH i) sz is_normal m = Some (r1, ss1, m1)"
      using Cons.prems(1) False by (auto simp: i_def [symmetric] Let_def split: option.splits)
    have o: "alloc_outcome E sz r1 ss1 (free_space_of m) (free_space_of m1)"
      unfolding alloc_outcome_def by (rule alloc_space_ok [OF Cons.prems(2,3,6,7) sched(1) _ t]) (use i in blast)
    then have ev: "evolves (free_space_of m) (free_space_of m1)" by (simp add: alloc_outcome_def)
    have sp: "aptr_split P m1" by (rule arrays.freelist_alloc_space [OF t sched(2) Cons.prems(4)])
    show ?thesis
    proof (cases "(r1 = ENOSPC \<or> r1 = EAGAIN) \<and> is_normal")
      case True
      then have "storage_allocator_normal_alloc_ex E discard scheds h sz is_normal m1 = Some (r, ss, m')"
        using Cons.prems(1) False t by (simp add: i_def [symmetric] Let_def)
      from Cons.IH [OF this Cons.prems(2) _ sp paths_exist_later [OF Cons.prems(5) ev] Cons.prems(6,7)] ev Cons.prems(8)
      have "alloc_outcome E sz r ss (free_space_of m1) (free_space_of m') \<and> aptr_split P m' \<and>
          (is_normal \<longrightarrow> r \<noteq> EAGAIN \<and> (r = ENOSPC \<longrightarrow> aa_items (am_avail m') = []))"
        by (simp add: evolves_def)
      then show ?thesis using alloc_outcome_before [OF ev] by blast
    next
      case end_here: False
      then have "r = r1" "ss = ss1" "m' = m1"
        using Cons.prems(1) False t by (auto simp: i_def [symmetric] Let_def)
      then show ?thesis using o sp end_here by auto
    qed
  qed
qed simp

lemma reclaim_alloc_ok:
  assumes "storage_allocator_reclaim_alloc E discard scheds h sz m = Some (r, ss, m')"
    and "fastcommon E" "space_ok (free_space_of m)" "aptr_split P m" "paths_exist P (free_space_of m)" "0 < sz" "0 < discard"
    and "\<forall>sched\<in>set scheds. rely sched \<and> aptr_rely P sched"
  shows "alloc_outcome E sz r ss (free_space_of m) (free_space_of m') \<and> aptr_split P m'"
proof -
  obtain r1 ss1 m1 where n: "storage_allocator_normal_alloc_ex E discard scheds h sz False m = Some (r1, ss1, m1)"
    using assms(1) by (auto simp: storage_allocator_reclaim_alloc_def split: option.splits)
  note o = normal_alloc_ok [OF n assms(2-8)]
  show ?thesis
  proof (cases "r1 = 0")
    case True
    then show ?thesis using assms(1) n o by (simp add: storage_allocator_reclaim_alloc_def)
  next
    case False
    then have t: "trunk_freelist_alloc_space E discard [] 0 FL_RECLAIM sz False m1 = Some (r, ss, m')"
      using assms(1) n by (simp add: storage_allocator_reclaim_alloc_def)
    have ev: "evolves (free_space_of m) (free_space_of m1)" using o by (simp add: alloc_outcome_def)
    then have ok: "space_ok (free_space_of m1)" by (simp add: evolves_def)
    have "alloc_outcome E sz r ss (free_space_of m1) (free_space_of m')"
      unfolding alloc_outcome_def by (rule alloc_space_ok [OF assms(2) ok assms(6,7) _ _ t]) (simp_all add: rely_def)
    moreover have "aptr_split P m'" by (rule arrays.freelist_alloc_space [OF t]) (use o in \<open>simp_all add: keeps_def\<close>)
    ultimately show ?thesis using alloc_outcome_before [OF ev] by blast
  qed
qed



section \<open>Sorting the trunks at the start\<close>

text \<open>A trunk as the log left it: of store path \<open>i\<close>, on no list and without an event.\<close>

definition startup_trunk :: "nat \<Rightarrow> FSStorageAllocatorManager \<Rightarrow> nat \<Rightarrow> bool" where
  "startup_trunk i m p \<longleftrightarrow> (\<forall>fl. p \<notin> set (fl_list fl m)) \<and>
     (case am_trunks m p of
        None \<Rightarrow> False
      | Some t \<Rightarrow> tf_allocator t = i \<and> 0 \<le> tf_free_start t \<and> tf_free_start t \<le> tf_size t \<and> 0 < tf_size t \<and> tf_size t < 2 ^ 31 \<and>
          tf_event t = EVENT_NONE)"

definition path_queue :: "nat \<Rightarrow> FSStorageAllocatorManager \<Rightarrow> nat list" where
  "path_queue i m = (case am_allocators m i of None \<Rightarrow> [] | Some a \<Rightarrow> ta_queue a)"

definition on_freelist :: "nat \<Rightarrow> FSStorageAllocatorManager \<Rightarrow> nat \<Rightarrow> bool" where
  "on_freelist i m p \<longleftrightarrow> p \<in> set (fl_list (FL_PATH i) m) \<or> p \<in> set (fl_list FL_RECLAIM m)"

definition for_reclaim :: "nat \<Rightarrow> FSStorageAllocatorManager \<Rightarrow> nat \<Rightarrow> bool" where
  "for_reclaim i m p \<longleftrightarrow> map_option tf_event (am_trunks m p) = Some EVENT_CREATE \<and> p \<in> set (path_queue i m)"

definition path_stat :: "nat \<Rightarrow> FSStorageAllocatorManager \<Rightarrow> (int \<times> int) option" where
  "path_stat i m = map_option (\<lambda>a. (pi_trunk_total (ta_path_info a), pi_trunk_used (ta_path_info a))) (am_allocators m i)"

abbreviation add_stat :: "int \<Rightarrow> int \<Rightarrow> (int \<times> int) option \<Rightarrow> (int \<times> int) option" where
  "add_stat n u \<equiv> map_option (\<lambda>(x, y). (x + n, y + u))"

text \<open>What handling trunk \<open>p\<close> leaves as it was.\<close>

definition only_trunk :: "nat \<Rightarrow> nat \<Rightarrow> FSStorageAllocatorManager \<Rightarrow> FSStorageAllocatorManager \<Rightarrow> bool" where
  "only_trunk i p m m' \<longleftrightarrow> (\<forall>q. q \<noteq> p \<longrightarrow> am_trunks m' q = am_trunks m q \<and>
      (\<forall>fl. q \<in> set (fl_list fl m') \<longleftrightarrow> q \<in> set (fl_list fl m)) \<and> (q \<in> set (path_queue i m') \<longleftrightarrow> q \<in> set (path_queue i m)))"

lemma only_trunk_keeps:
  assumes "only_trunk i p m m'" "q \<noteq> p"
  shows "startup_trunk i m' q = startup_trunk i m q" "on_freelist i m' q = on_freelist i m q" "for_reclaim i m' q = for_reclaim i m q"
  using assms by (auto simp: only_trunk_def startup_trunk_def on_freelist_def for_reclaim_def)

lemma space_ok_reset:
  assumes "space_ok S" "\<forall>fl. p \<notin> set (sp_list S fl)"
  shows "space_ok (S\<lparr>sp_trunk := (sp_trunk S)(p := x)\<rparr>)"
proof -
  let ?T = "S\<lparr>sp_trunk := (sp_trunk S)(p := x)\<rparr>"
  have "free_on ?T i = free_on S i" for i using assms(2) by (auto simp: free_on_def)
  moreover have "sum (left_of ?T) (free_on S i) = sum (left_of S) (free_on S i)" for i
    by (rule sum.cong) (use assms(2) in \<open>auto simp: left_of_def free_on_def\<close>)
  moreover have "listed ?T fl q = listed S fl q" if "q \<in> set (sp_list S fl)" for fl q
    using that assms(2) by (auto simp: listed_def)
  ultimately have "space_books ?T" using assms(1) by (simp add: space_ok_def space_books_def)
  then show ?thesis using assms by (auto simp: space_ok_def)
qed

lemma freelist_add_places:
  assumes ok: "space_ok (free_space_of m)" "startup_trunk i m p" and ex: "am_allocators m i \<noteq> None"
    and b: "am_trunks m p = Some t" "tf_free_start t < tf_size t" and fl: "fl = FL_PATH i \<or> fl = FL_RECLAIM"
  shows "let m' = snd (trunk_freelist_add fl p m)
    in space_ok (free_space_of m') \<and> only_trunk i p m m' \<and> on_freelist i m' p \<and> \<not> for_reclaim i m' p \<and> path_stat i m' = path_stat i m"
proof -
  let ?m' = "snd (trunk_freelist_add fl p m)"
  have t: "tf_allocator t = i" "tf_event t = EVENT_NONE" "in_bounds (extent_of t)" "\<forall>fl. p \<notin> set (fl_list fl m)"
    using ok(2) b by (auto simp: startup_trunk_def in_bounds_def extent_of_def)
  have ref: "free_space_of ?m' = put_trunk fl p (extent_of t) (free_space_of m)"
    by (rule put_trunk_refines) (use fl ex b in auto)
  have "space_ok (free_space_of ?m')"
    unfolding ref by (rule space_ok_put [OF ok(1)]) (use t b fl ex in \<open>auto simp: sp_simps extent_of_def\<close>)
  moreover have lst: "fl_list g ?m' = (if g = fl then fl_list fl m @ [p] else fl_list g m)" for g
    using arg_cong [OF ref, of "\<lambda>S. sp_list S g"] by (simp add: sp_simps put_trunk_def)
  moreover have tr: "am_trunks ?m' q = (if q = p then Some (t\<lparr>tf_status := FS_TRUNK_STATUS_ALLOCING\<rparr>) else am_trunks m q)" for q
    using b by (simp add: trunk_freelist_add_def upd_path_info_def fs_set_trunk_status_def)
  moreover have al: "path_queue i ?m' = path_queue i m" "path_stat i ?m' = path_stat i m"
    using b fl t(1) by (auto simp: trunk_freelist_add_def upd_path_info_def fs_set_trunk_status_def upd_freelist_def path_stat_def path_queue_def
        upd_allocator_def upd_trunk_def option.map_comp comp_def split: option.splits)
  ultimately show ?thesis using fl t(2) by (auto simp: Let_def only_trunk_def on_freelist_def for_reclaim_def)
qed

lemma event_places:
  assumes "fastcommon E" "space_ok (free_space_of m)" "startup_trunk i m p" "am_allocators m i \<noteq> None"
  shows "let m' = push_trunk_util_change_event E i p EVENT_CREATE m
    in space_ok (free_space_of m') \<and> only_trunk i p m m' \<and> for_reclaim i m' p \<and> \<not> on_freelist i m' p \<and> path_stat i m' = path_stat i m"
proof -
  let ?m' = "push_trunk_util_change_event E i p EVENT_CREATE m"
  obtain t a where t: "am_trunks m p = Some t" "tf_event t = EVENT_NONE" and a: "am_allocators m i = Some a"
    using assms(3,4) by (auto simp: startup_trunk_def split: option.splits)
  have m': "?m' = upd_allocator i (\<lambda>a. a\<lparr>ta_queue := ta_queue a @ [p]\<rparr>) (upd_trunk p (\<lambda>t. t\<lparr>tf_event := EVENT_CREATE\<rparr>) m)"
    using t by (simp add: push_trunk_util_change_event_def fastcommon.queue_push [OF assms(1)])
  have same: "free_space_of ?m' = free_space_of m"
    unfolding m' by (simp add: free_space_upd_allocator_same free_space_upd_trunk_same extent_of_def)
  have lst: "fl_list g ?m' = fl_list g m" for g using arg_cong [OF same, of "\<lambda>S. sp_list S g"] by (simp add: sp_simps)
  have "path_queue i ?m' = path_queue i m @ [p]" "path_stat i ?m' = path_stat i m"
    "am_trunks ?m' q = (if q = p then Some (t\<lparr>tf_event := EVENT_CREATE\<rparr>) else am_trunks m q)" for q
    unfolding m' using a t by (simp_all add: path_stat_def path_queue_def)
  then show ?thesis using assms(2,3) lst
    by (auto simp: Let_def same only_trunk_def on_freelist_def for_reclaim_def startup_trunk_def)
qed

lemma deal_one_places:
  assumes "fastcommon E" "space_ok (free_space_of m)" "startup_trunk i m p" "am_allocators m i \<noteq> None" "am_trunks m p = Some t"
  shows "let m' = deal_one E cfg i p m
    in space_ok (free_space_of m') \<and> only_trunk i p m m' \<and> (on_freelist i m' p \<noteq> for_reclaim i m' p) \<and>
       path_stat i m' = add_stat (tf_size t) (tf_used_bytes t) (path_stat i m)"
proof -
  define m1 where "m1 = upd_path_info i (\<lambda>q. q\<lparr>pi_trunk_total := pi_trunk_total q + tf_size t,
    pi_trunk_used := pi_trunk_used q + tf_used_bytes t\<rparr>) m"
  have s1: "free_space_of m1 = free_space_of m" "am_trunks m1 = am_trunks m" "am_allocators m1 i \<noteq> None"
      "path_stat i m1 = add_stat (tf_size t) (tf_used_bytes t) (path_stat i m)" "path_queue i m1 = path_queue i m"
    using assms(4)
    by (auto simp: m1_def upd_path_info_def free_space_upd_allocator_same path_stat_def path_queue_def split: option.splits)
  have l1: "fl_list g m1 = fl_list g m" for g using arg_cong [OF s1(1), of "\<lambda>S. sp_list S g"] by (simp add: sp_simps)
  obtain ok m2 where c: "can_add_to_freelist cfg p t m1 = (ok, m2)" by fastforce
  have st: "(\<forall>g. p \<notin> set (fl_list g m)) \<and> tf_allocator t = i \<and> 0 \<le> tf_free_start t \<and> tf_free_start t \<le> tf_size t \<and> 0 < tf_size t \<and>
      tf_size t < 2 ^ 31 \<and> tf_event t = EVENT_NONE"
    using assms(3,5) by (simp add: startup_trunk_def)
  define reset where "reset \<longleftrightarrow> tf_free_start t \<noteq> 0 \<and> tf_used_bytes t = 0"
  define t2 where "t2 = (if reset then t\<lparr>tf_free_start := 0\<rparr> else t)"
  have m2: "m2 = (if reset then upd_trunk p (\<lambda>t. t\<lparr>tf_free_start := 0\<rparr>) m1 else m1)"
    and room: "ok \<longrightarrow> tf_free_start t2 < tf_size t2"
    using c st by (auto simp: can_add_to_freelist_def t2_def reset_def Let_def split: if_splits option.splits)
  have s2: "am_trunks m2 p = Some t2" "am_allocators m2 = am_allocators m1" "\<forall>q. q \<noteq> p \<longrightarrow> am_trunks m2 q = am_trunks m q"
    "\<forall>g. fl_list g m2 = fl_list g m"
    using assms(5) s1(2) l1 by (auto simp: m2 t2_def)
  have fs2: "space_ok (free_space_of m2)"
  proof (cases reset)
    case False
    then show ?thesis using assms(2) by (simp add: m2 s1(1))
  next
    case True
    have "free_space_of m2 = (free_space_of m1)\<lparr>sp_trunk := (sp_trunk (free_space_of m1))(p := Some (extent_of t2))\<rparr>"
      using True s1(2) assms(5) by (auto simp: m2 t2_def free_space_of_def fun_eq_iff)
    then show ?thesis using space_ok_reset [of "free_space_of m" p] assms(2) st by (simp add: s1(1) sp_simps)
  qed
  have su: "startup_trunk i m2 p" using st s2 by (auto simp: startup_trunk_def t2_def)
  have o2: "only_trunk i p m m2" using s2 s1(5) by (auto simp: only_trunk_def path_queue_def)
  have p2: "path_stat i m2 = add_stat (tf_size t) (tf_used_bytes t) (path_stat i m)" using s1(4) s2(2) by (simp add: path_stat_def)
  have tr: "only_trunk i p m m'" if "only_trunk i p m2 m'" for m' using that o2 by (simp add: only_trunk_def)
  have al2: "am_allocators m2 i \<noteq> None" using s1(3) s2(2) by simp
  define m' where "m' = deal_one E cfg i p m"
  have "m' = (if ok then snd (trunk_freelist_add (if tf_free_start t2 = 0 \<and> fl_count (am_reclaim_freelist m2) < fl_water_mark (am_reclaim_freelist m2)
        then FL_RECLAIM else FL_PATH i) p m2) else push_trunk_util_change_event E i p EVENT_CREATE m2)"
    using assms(5) s2(1) by (auto simp: m'_def deal_one_def m1_def [symmetric] c Let_def trunk_allocator_add_to_freelist_def)
  then have "space_ok (free_space_of m') \<and> only_trunk i p m2 m' \<and> (on_freelist i m' p \<noteq> for_reclaim i m' p) \<and> path_stat i m' = path_stat i m2"
    using freelist_add_places [OF fs2 su al2 s2(1), of "FL_PATH i"] freelist_add_places [OF fs2 su al2 s2(1), of FL_RECLAIM]
      event_places [OF assms(1) fs2 su al2] room by (auto simp: Let_def)
  then show ?thesis using tr p2 by (simp add: m'_def [symmetric])
qed

lemma deal_on_ready_loop_places:
  assumes "fastcommon E" "space_ok (free_space_of m)" "distinct ps" "\<forall>p\<in>set ps. startup_trunk i m p" "am_allocators m i \<noteq> None"
  shows "let m' = deal_on_ready_loop E cfg i ps m
    in space_ok (free_space_of m') \<and> (\<forall>p\<in>set ps. on_freelist i m' p \<noteq> for_reclaim i m' p) \<and>
       (\<forall>q. q \<notin> set ps \<longrightarrow> on_freelist i m' q = on_freelist i m q \<and> for_reclaim i m' q = for_reclaim i m q) \<and>
       path_stat i m' = add_stat (\<Sum>p\<leftarrow>ps. tf_size (the (am_trunks m p))) (\<Sum>p\<leftarrow>ps. tf_used_bytes (the (am_trunks m p))) (path_stat i m)"
  using assms(2-5)
proof (induction ps arbitrary: m)
  case Nil
  then show ?case by (cases "path_stat i m") auto
next
  case (Cons p ps)
  then obtain t where t: "am_trunks m p = Some t" by (auto simp: startup_trunk_def split: option.splits)
  define m1 where "m1 = deal_one E cfg i p m"
  have s: "startup_trunk i m p" using Cons.prems(3) by simp
  note d = deal_one_places [where cfg = cfg, OF assms(1) Cons.prems(1) s Cons.prems(4) t, unfolded Let_def, folded m1_def]
  have k: "only_trunk i p m m1" using d by simp
  have al: "am_allocators m1 i \<noteq> None" using d Cons.prems(4) by (auto simp: path_stat_def)
  have tr: "am_trunks m1 q = am_trunks m q" if "q \<in> set ps" for q using k that Cons.prems(2) by (auto simp: only_trunk_def)
  have ps: "\<forall>q\<in>set ps. startup_trunk i m1 q" using only_trunk_keeps(1) [OF k] Cons.prems(2,3) by (metis distinct.simps(2) list.set_intros(2))
  have sums: "(\<Sum>p\<leftarrow>ps. f (the (am_trunks m1 p))) = (\<Sum>p\<leftarrow>ps. f (the (am_trunks m p)))" for f :: "FSTrunkFileInfo \<Rightarrow> int"
    using tr by (intro arg_cong [where f = sum_list] map_cong) auto
  from Cons.IH [of m1] d ps al Cons.prems(2) have "let m' = deal_on_ready_loop E cfg i ps m1
    in space_ok (free_space_of m') \<and> (\<forall>p\<in>set ps. on_freelist i m' p \<noteq> for_reclaim i m' p) \<and>
       (\<forall>q. q \<notin> set ps \<longrightarrow> on_freelist i m' q = on_freelist i m1 q \<and> for_reclaim i m' q = for_reclaim i m1 q) \<and>
       path_stat i m' = add_stat (\<Sum>p\<leftarrow>ps. tf_size (the (am_trunks m p))) (\<Sum>p\<leftarrow>ps. tf_used_bytes (the (am_trunks m p))) (path_stat i m1)"
    by (simp add: sums)
  then show ?case
    using d only_trunk_keeps(2,3) [OF k] t Cons.prems(2)
    by (auto simp: Let_def m1_def [symmetric] option.map_comp comp_def case_prod_beta add.assoc)
qed

text \<open>
  When the server starts, every trunk of a store path gets exactly one place: a free list, where space
  is taken from it, or the queue of trunks that may be reclaimed. The free lists are well
  formed afterwards, trunks of other paths stay where they were, and the statistics of the path grow by the
  sizes and by the used bytes of its trunks.
\<close>
theorem deal_on_ready_sorts:
  assumes "fastcommon E" "space_ok (free_space_of m)" "am_allocators m i = Some a" "ps = map snd (ta_by_id a)" "distinct ps"
    "\<forall>p\<in>set ps. startup_trunk i m p" "m' = trunk_allocator_deal_on_ready E cfg i m"
  shows "space_ok (free_space_of m') \<and> (\<forall>p\<in>set ps. on_freelist i m' p \<noteq> for_reclaim i m' p) \<and>
    (\<forall>q. q \<notin> set ps \<longrightarrow> on_freelist i m' q = on_freelist i m q \<and> for_reclaim i m' q = for_reclaim i m q) \<and>
    path_stat i m' = Some (pi_trunk_total (ta_path_info a) + (\<Sum>p\<leftarrow>ps. tf_size (the (am_trunks m p))),
                           pi_trunk_used (ta_path_info a) + (\<Sum>p\<leftarrow>ps. tf_used_bytes (the (am_trunks m p))))"
  using deal_on_ready_loop_places [OF assms(1,2,5,6), of cfg] assms(3,4,7)
  by (simp add: trunk_allocator_deal_on_ready_def Let_def path_stat_def)

definition ex_boot :: FSStorageAllocatorManager where
  "ex_boot = upd_allocator 0 (\<lambda>a. a\<lparr>ta_by_id := [(1, 1), (2, 2)]\<rparr>)
     (ex_mgr [1 \<mapsto> ex_trunk 1 100 88, 2 \<mapsto> (ex_trunk 2 100 100)\<lparr>tf_used_bytes := 40\<rparr>] [] 0)"

definition ex_storage_cfg :: storage_cfg where
  "ex_storage_cfg = \<lparr>cfg_trunk_file_size = 100, cfg_discard_remain_space_size = 8, cfg_reclaim_trunks_on_path_usage = 1 / 2,
     cfg_never_reclaim_on_trunk_usage = 9 / 10\<rparr>"

text \<open>The empty trunk goes to the list for reclaiming, the full one is a candidate.\<close>

theorem deal_on_ready_sorts_witness:
  "let m' = trunk_allocator_deal_on_ready list_env ex_storage_cfg 0 ex_boot
   in space_ok (free_space_of m') \<and> on_freelist 0 m' 1 \<and> for_reclaim 0 m' 2 \<and> path_stat 0 m' = Some (200, 40)"
proof -
  let ?m' = "trunk_allocator_deal_on_ready list_env ex_storage_cfg 0 ex_boot"
  have lists: "fl_list fl ex_boot = []" for fl
    by (simp add: get_freelist_def ex_boot_def ex_mgr_def ex_path_allocator_def upd_allocator_def split: freelist_ref.splits)
  have cnt: "fl_count (get_freelist fl ex_boot) = 0" for fl
    by (simp add: get_freelist_def ex_boot_def ex_mgr_def ex_path_allocator_def upd_allocator_def split: freelist_ref.splits)
  have al: "am_allocators ex_boot i = (if i = 0 then Some (ex_path_allocator [] 0\<lparr>ta_by_id := [(1, 1), (2, 2)]\<rparr>) else None)" for i
    by (simp add: ex_boot_def ex_mgr_def)
  have ok: "space_ok (free_space_of ex_boot)"
    by (simp add: space_ok_def space_books_def sp_simps lists cnt al free_on_def ex_path_allocator_def)
  have "startup_trunk 0 ex_boot 1" "startup_trunk 0 ex_boot 2"
    by (simp_all add: startup_trunk_def lists) (simp_all add: ex_boot_def ex_mgr_def ex_trunk_def new_trunk_def)
  then have "space_ok (free_space_of ?m')" "path_stat 0 ?m' = Some (200, 40)"
    using deal_on_ready_sorts [OF list_fc.fastcommon_axioms ok, of 0 "ex_path_allocator [] 0\<lparr>ta_by_id := [(1, 1), (2, 2)]\<rparr>" "[1, 2]" ?m' ex_storage_cfg]
    by (auto simp: al) (simp_all add: ex_path_allocator_def ex_boot_def ex_mgr_def ex_trunk_def new_trunk_def)
  moreover have "on_freelist 0 ?m' 1" "for_reclaim 0 ?m' 2" by code_simp+
  ultimately show ?thesis by (simp add: Let_def)
qed

end
