(* ===== verification/Binlog_Record.thy ===== *)
theory Binlog_Record
  imports Slice_Heap
begin

text \<open>
  The text records of the two binlogs: the replica binlog (\<open>src/server/binlog/replica_binlog.c\<close>),
  one record for each update of a data group, and the slice binlog (\<open>slice_binlog.c\<close>), one record for each
  change of the index, with the place of the data on disk. Records are written by
  \<open>sprintf\<close> and read back with \<open>split_string_ex\<close> and \<open>strtol\<close> (\<open>replica_binlog.c\<close>,
  \<open>slice_loader.c\<close>, the macros of \<open>binlog_loader.h\<close>).

  A column is a pointer into the line: the model has the text from its first character to the end of the
  buffer that the line lies in (\<open>after\<close> is what follows the line there), because \<open>strtol\<close> reads on
  and the macros look at the character behind the number. The writer's queue and buffers
  (libserverframe) and \<open>split_string_ex\<close> (libfastcommon) are the fields of \<open>log_env\<close>, with the contract
  \<open>log_library\<close>.
\<close>

section \<open>Decimal numbers\<close>

text \<open>\<open>%d\<close> and \<open>%PRId64\<close> of \<open>sprintf\<close>.\<close>

definition digit_char :: "nat \<Rightarrow> char" where
  "digit_char n = char_of (48 + n)"

fun show_nat :: "nat \<Rightarrow> string" where
  "show_nat n = (if n < 10 then [digit_char n] else show_nat (n div 10) @ [digit_char (n mod 10)])"

declare show_nat.simps [simp del]

definition show_int :: "int \<Rightarrow> string" where
  "show_int i = (if i < 0 then CHR ''-'' # show_nat (nat (- i)) else show_nat (nat i))"

text \<open>\<open>strtol\<close> with base 10: the value and the rest of the text. It saturates at 64 bits.\<close>

definition is_space :: "char \<Rightarrow> bool" where
  "is_space c \<longleftrightarrow> of_char c = (32 :: nat) \<or> (9 \<le> (of_char c :: nat) \<and> of_char c \<le> (13 :: nat))"

definition is_digit :: "char \<Rightarrow> bool" where
  "is_digit c \<longleftrightarrow> 48 \<le> (of_char c :: nat) \<and> of_char c \<le> (57 :: nat)"

fun read_digits :: "int \<Rightarrow> string \<Rightarrow> int \<times> string" where
  "read_digits acc [] = (acc, [])"
| "read_digits acc (c # s) = (if is_digit c then read_digits (10 * acc + (of_char c - 48)) s else (acc, c # s))"

definition long_clamp :: "int \<Rightarrow> int" where
  "long_clamp v = (if v > 2 ^ 63 - 1 then 2 ^ 63 - 1 else if v < - (2 ^ 63) then - (2 ^ 63) else v)"

definition strtol :: "string \<Rightarrow> int \<times> string" where
  "strtol s =
     (let s1 = dropWhile is_space s;
          (neg, s2) = (case s1 of
                         [] \<Rightarrow> (False, [])
                       | c # r \<Rightarrow> if c = CHR ''-'' then (True, r) else if c = CHR ''+'' then (False, r) else (False, s1))
      in case s2 of
           [] \<Rightarrow> (0, s)
         | c # _ \<Rightarrow>
             if \<not> is_digit c then (0, s)
             else (case read_digits 0 s2 of (v, rest) \<Rightarrow> (long_clamp (if neg then - v else v), rest)))"

section \<open>The library\<close>

record log_line =
  ll_version :: int
  ll_tag :: int
  ll_text :: string

record log_env =
  le_alloc :: "nat \<Rightarrow> bool"
  le_push :: "log_line list \<Rightarrow> log_line \<Rightarrow> log_line list"
  le_split :: "string \<Rightarrow> char \<Rightarrow> nat \<Rightarrow> string list"

lemma dropWhile_Cons_shorter: "dropWhile P xs = y # ys \<Longrightarrow> length ys < length xs"
  using length_dropWhile_le [of P xs] by simp

text \<open>The texts from the start of each column to the end.\<close>

function suffixes :: "char \<Rightarrow> string \<Rightarrow> string list" where
  "suffixes sep s = s # (case dropWhile (\<lambda>c. c \<noteq> sep) s of [] \<Rightarrow> [] | _ # rest \<Rightarrow> suffixes sep rest)"
  by pat_completeness auto
termination
  by (relation "measure (\<lambda>(_, s). length s)") (auto dest: dropWhile_Cons_shorter)

declare suffixes.simps [simp del]

locale log_library =
  fixes L :: log_env
  assumes push: "le_push L q x = q @ [x]"
    and split: "s \<noteq> [] \<Longrightarrow> last s \<noteq> sep \<Longrightarrow> length (suffixes sep s) \<le> n \<Longrightarrow> le_split L s sep n = suffixes sep s"

section \<open>Writing records\<close>

abbreviation BINLOG_OP_TYPE_WRITE_SLICE :: char where "BINLOG_OP_TYPE_WRITE_SLICE \<equiv> CHR ''w''"
abbreviation BINLOG_OP_TYPE_ALLOC_SLICE :: char where "BINLOG_OP_TYPE_ALLOC_SLICE \<equiv> CHR ''a''"
abbreviation BINLOG_OP_TYPE_DEL_SLICE :: char where "BINLOG_OP_TYPE_DEL_SLICE \<equiv> CHR ''d''"
abbreviation BINLOG_OP_TYPE_DEL_BLOCK :: char where "BINLOG_OP_TYPE_DEL_BLOCK \<equiv> CHR ''D''"
abbreviation BINLOG_OP_TYPE_NO_OP :: char where "BINLOG_OP_TYPE_NO_OP \<equiv> CHR ''N''"
abbreviation BINLOG_SOURCE_RECLAIM :: char where "BINLOG_SOURCE_RECLAIM \<equiv> CHR ''M''"
abbreviation BINLOG_SOURCE_REPLAY :: char where "BINLOG_SOURCE_REPLAY \<equiv> CHR ''r''"
abbreviation NEWLINE :: char where "NEWLINE \<equiv> CHR 0x0A"

text \<open>The columns of a format string, separated by one blank each and closed by a newline.\<close>

fun columns :: "string list \<Rightarrow> string" where
  "columns [] = [NEWLINE]"
| "columns [f] = f @ [NEWLINE]"
| "columns (f # g # fs) = f @ CHR '' '' # columns (g # fs)"

record binlogs =
  bl_slice :: "log_line list"
  bl_replica :: "int \<Rightarrow> log_line list"
  bl_calls :: nat

definition slice_binlog_log :: "log_env \<Rightarrow> int \<Rightarrow> int \<Rightarrow> string \<Rightarrow> binlogs \<Rightarrow> int \<times> binlogs" where
  "slice_binlog_log L sn data_version text b =
     (let b1 = b\<lparr>bl_calls := Suc (bl_calls b)\<rparr>
      in if \<not> le_alloc L (bl_calls b) then (ENOMEM, b1)
         else (0, b1\<lparr>bl_slice := le_push L (bl_slice b) \<lparr>ll_version = sn, ll_tag = data_version, ll_text = text\<rparr>\<rparr>))"

text \<open>The block key is read through \<open>slice->ob\<close>.\<close>

definition slice_binlog_log_add_slice :: "log_env \<Rightarrow> FSBlockKey \<Rightarrow> OBSliceEntry \<Rightarrow> int \<Rightarrow> int \<Rightarrow> int \<Rightarrow> char \<Rightarrow>
    binlogs \<Rightarrow> int \<times> binlogs" where
  "slice_binlog_log_add_slice L bkey slice current_time sn data_version source =
     slice_binlog_log L sn data_version
       (columns [show_int current_time, show_int (s64 data_version), [source],
          [if sl_type slice = OB_SLICE_TYPE_FILE then BINLOG_OP_TYPE_WRITE_SLICE else BINLOG_OP_TYPE_ALLOC_SLICE],
          show_int (bk_oid bkey), show_int (bk_offset bkey), show_int (sl_offset slice), show_int (sl_length slice),
          show_int (int (ts_store (sl_space slice))), show_int (ti_id (ts_id_info (sl_space slice))),
          show_int (ti_subdir (ts_id_info (sl_space slice))), show_int (ts_offset (sl_space slice)),
          show_int (ts_size (sl_space slice))])"

definition slice_binlog_log_del_slice :: "log_env \<Rightarrow> FSBlockSliceKeyInfo \<Rightarrow> int \<Rightarrow> int \<Rightarrow> int \<Rightarrow> char \<Rightarrow>
    binlogs \<Rightarrow> int \<times> binlogs" where
  "slice_binlog_log_del_slice L bs_key current_time sn data_version source =
     slice_binlog_log L sn data_version
       (columns [show_int current_time, show_int (s64 data_version), [source], [BINLOG_OP_TYPE_DEL_SLICE],
          show_int (bk_oid (bs_block bs_key)), show_int (bk_offset (bs_block bs_key)),
          show_int (ss_offset (bs_slice bs_key)), show_int (ss_length (bs_slice bs_key))])"

definition slice_binlog_log_del_block :: "log_env \<Rightarrow> FSBlockKey \<Rightarrow> int \<Rightarrow> int \<Rightarrow> int \<Rightarrow> char \<Rightarrow>
    binlogs \<Rightarrow> int \<times> binlogs" where
  "slice_binlog_log_del_block L bkey current_time sn data_version source =
     slice_binlog_log L sn data_version
       (columns [show_int current_time, show_int (s64 data_version), [source], [BINLOG_OP_TYPE_DEL_BLOCK],
          show_int (bk_oid bkey), show_int (bk_offset bkey)])"

definition replica_binlog_log :: "log_env \<Rightarrow> int \<Rightarrow> int \<Rightarrow> char \<Rightarrow> string \<Rightarrow> binlogs \<Rightarrow> int \<times> binlogs" where
  "replica_binlog_log L data_group_id data_version source text b =
     (let b1 = b\<lparr>bl_calls := Suc (bl_calls b)\<rparr>
      in if \<not> le_alloc L (bl_calls b) then (ENOMEM, b1)
         else (0, b1\<lparr>bl_replica := (bl_replica b)(data_group_id :=
                      le_push L (bl_replica b data_group_id)
                        \<lparr>ll_version = data_version, ll_tag = of_char source, ll_text = text\<rparr>)\<rparr>))"

definition replica_binlog_log_slice :: "log_env \<Rightarrow> int \<Rightarrow> int \<Rightarrow> int \<Rightarrow> FSBlockSliceKeyInfo \<Rightarrow> char \<Rightarrow> char \<Rightarrow>
    binlogs \<Rightarrow> int \<times> binlogs" where
  "replica_binlog_log_slice L current_time data_group_id data_version bs_key source op_type =
     replica_binlog_log L data_group_id data_version source
       (columns [show_int current_time, show_int (s64 data_version), [source], [op_type],
          show_int (bk_oid (bs_block bs_key)), show_int (bk_offset (bs_block bs_key)),
          show_int (ss_offset (bs_slice bs_key)), show_int (ss_length (bs_slice bs_key))])"

definition replica_binlog_log_block :: "log_env \<Rightarrow> int \<Rightarrow> int \<Rightarrow> int \<Rightarrow> FSBlockKey \<Rightarrow> char \<Rightarrow> char \<Rightarrow>
    binlogs \<Rightarrow> int \<times> binlogs" where
  "replica_binlog_log_block L current_time data_group_id data_version bkey source op_type =
     replica_binlog_log L data_group_id data_version source
       (columns [show_int current_time, show_int (s64 data_version), [source], [op_type],
          show_int (bk_oid bkey), show_int (bk_offset bkey)])"

section \<open>Reading records\<close>

text \<open>
  The character at a pointer; behind the buffer lies a zero byte. \<open>conv\<close> is the conversion to
  the type of the variable.
\<close>

definition char_at :: "string \<Rightarrow> char" where
  "char_at s = (case s of [] \<Rightarrow> CHR 0x00 | c # _ \<Rightarrow> c)"

definition BINLOG_PARSE_INT_SILENCE :: "(int \<Rightarrow> int) \<Rightarrow> string list \<Rightarrow> nat \<Rightarrow> char \<Rightarrow> int \<Rightarrow> int + int" where
  "BINLOG_PARSE_INT_SILENCE conv cols index endchr min_val =
     (case strtol (cols ! index) of (v, endptr) \<Rightarrow>
        if char_at endptr \<noteq> endchr \<or> conv v < min_val then Inl EINVAL else Inr (conv v))"

definition BINLOG_PARSE_INT_EX :: "(int \<Rightarrow> int) \<Rightarrow> string list \<Rightarrow> nat \<Rightarrow> char \<Rightarrow> int \<Rightarrow> int + int" where
  "BINLOG_PARSE_INT_EX conv cols index endchr min_val =
     (case strtol (cols ! index) of (v, endptr) \<Rightarrow>
        if char_at endptr \<noteq> endchr \<or> conv v < min_val then Inl EINVAL else Inr (conv v))"

text \<open>Going on after a field, or returning its error.\<close>

definition and_then :: "int + 'a \<Rightarrow> ('a \<Rightarrow> int + 'b) \<Rightarrow> int + 'b" where
  "and_then r f = (case r of Inl e \<Rightarrow> Inl e | Inr x \<Rightarrow> f x)"

lemma and_then_simps [simp]: "and_then (Inl e) f = Inl e" "and_then (Inr x) f = f x"
  by (simp_all add: and_then_def)

subsection \<open>The replica binlog\<close>

record ReplicaBinlogRecord =
  rb_op_type :: char
  rb_source :: char
  rb_bs_key :: FSBlockSliceKeyInfo
  rb_data_version :: int

definition unpack_slice_record :: "string list \<Rightarrow> ReplicaBinlogRecord \<Rightarrow> int + ReplicaBinlogRecord" where
  "unpack_slice_record cols record =
     (if length cols \<noteq> 8 then Inl EINVAL
      else and_then (BINLOG_PARSE_INT_SILENCE id cols 4 CHR '' '' 1) (\<lambda>oid.
        and_then (BINLOG_PARSE_INT_SILENCE id cols 5 CHR '' '' 0) (\<lambda>boffset.
        and_then (BINLOG_PARSE_INT_SILENCE s32 cols 6 CHR '' '' 0) (\<lambda>soffset.
        and_then (BINLOG_PARSE_INT_SILENCE s32 cols 7 NEWLINE 1) (\<lambda>len.
          Inr (record\<lparr>rb_bs_key := \<lparr>bs_block = (bs_block (rb_bs_key record))\<lparr>bk_oid := oid, bk_offset := boffset\<rparr>,
                                   bs_slice = \<lparr>ss_offset = soffset, ss_length = len\<rparr>\<rparr>\<rparr>))))))"

definition unpack_block_record :: "string list \<Rightarrow> ReplicaBinlogRecord \<Rightarrow> int + ReplicaBinlogRecord" where
  "unpack_block_record cols record =
     (if length cols \<noteq> 6 then Inl EINVAL
      else and_then (BINLOG_PARSE_INT_SILENCE id cols 4 CHR '' '' 1) (\<lambda>oid.
        and_then (BINLOG_PARSE_INT_SILENCE id cols 5 NEWLINE 0) (\<lambda>boffset.
          Inr (record\<lparr>rb_bs_key := (rb_bs_key record)\<lparr>bs_block :=
                 (bs_block (rb_bs_key record))\<lparr>bk_oid := oid, bk_offset := boffset\<rparr>\<rparr>\<rparr>))))"

definition replica_binlog_record_unpack :: "log_env \<Rightarrow> string \<Rightarrow> string \<Rightarrow> ReplicaBinlogRecord \<Rightarrow> int + ReplicaBinlogRecord" where
  "replica_binlog_record_unpack L line after record0 =
     (let cols = map (\<lambda>c. c @ after) (le_split L line CHR '' '' 8)
      in if length cols < 6 then Inl EINVAL
         else
           (let source = char_at (cols ! 2); op_type = char_at (cols ! 3)
            in and_then (BINLOG_PARSE_INT_SILENCE id cols 1 CHR '' '' 1) (\<lambda>dv.
                 let record = record0\<lparr>rb_source := source, rb_op_type := op_type, rb_data_version := dv\<rparr>
                 in if op_type \<in> {BINLOG_OP_TYPE_WRITE_SLICE, BINLOG_OP_TYPE_ALLOC_SLICE, BINLOG_OP_TYPE_DEL_SLICE}
                    then unpack_slice_record cols record
                    else if op_type \<in> {BINLOG_OP_TYPE_DEL_BLOCK, BINLOG_OP_TYPE_NO_OP}
                    then unpack_block_record cols record
                    else Inl EINVAL)))"

subsection \<open>The slice binlog\<close>

record SliceBinlogRecord =
  sb_op_type :: char
  sb_slice_type :: OBSliceType
  sb_bs_key :: FSBlockSliceKeyInfo
  sb_space :: FSTrunkSpaceInfo

text \<open>\<open>paths\<close> says for each index up to \<open>max_store_path_index\<close> whether there is a store path.\<close>

definition add_slice_set_fields :: "bool list \<Rightarrow> string list \<Rightarrow> SliceBinlogRecord \<Rightarrow> int + SliceBinlogRecord" where
  "add_slice_set_fields paths cols record =
     (if length cols \<noteq> 13 then Inl EINVAL
      else and_then (BINLOG_PARSE_INT_EX s32 cols 6 CHR '' '' 0) (\<lambda>soffset.
        and_then (BINLOG_PARSE_INT_EX s32 cols 7 CHR '' '' 1) (\<lambda>len.
        and_then (BINLOG_PARSE_INT_EX s32 cols 8 CHR '' '' 0) (\<lambda>path_index.
          if path_index > int (length paths) - 1 then Inl EINVAL
          else if \<not> paths ! nat path_index then Inl ENOENT
          else
            and_then (BINLOG_PARSE_INT_EX id cols 9 CHR '' '' 1) (\<lambda>tid.
            and_then (BINLOG_PARSE_INT_EX id cols 10 CHR '' '' 1) (\<lambda>subdir.
            and_then (BINLOG_PARSE_INT_EX id cols 11 CHR '' '' 0) (\<lambda>offset.
            and_then (BINLOG_PARSE_INT_EX id cols 12 NEWLINE 0) (\<lambda>sz.
              Inr (record\<lparr>sb_bs_key := (sb_bs_key record)\<lparr>bs_slice := \<lparr>ss_offset = soffset, ss_length = len\<rparr>\<rparr>,
                          sb_space := \<lparr>ts_store = nat path_index, ts_id_info = \<lparr>ti_id = tid, ti_subdir = subdir\<rparr>,
                                       ts_offset = offset, ts_size = sz\<rparr>\<rparr>)))))))))"

definition del_slice_set_fields :: "string list \<Rightarrow> SliceBinlogRecord \<Rightarrow> int + SliceBinlogRecord" where
  "del_slice_set_fields cols record =
     (if length cols \<noteq> 8 then Inl EINVAL
      else and_then (BINLOG_PARSE_INT_EX s32 cols 6 CHR '' '' 0) (\<lambda>soffset.
        and_then (BINLOG_PARSE_INT_EX s32 cols 7 NEWLINE 1) (\<lambda>len.
          Inr (record\<lparr>sb_bs_key := (sb_bs_key record)\<lparr>bs_slice := \<lparr>ss_offset = soffset, ss_length = len\<rparr>\<rparr>\<rparr>))))"

definition del_block_set_fields :: "string list \<Rightarrow> SliceBinlogRecord \<Rightarrow> int + SliceBinlogRecord" where
  "del_block_set_fields cols record = (if length cols \<noteq> 6 then Inl EINVAL else Inr record)"

definition slice_parse_line :: "log_env \<Rightarrow> bool list \<Rightarrow> string \<Rightarrow> string \<Rightarrow> SliceBinlogRecord \<Rightarrow> int + SliceBinlogRecord" where
  "slice_parse_line L paths line after record0 =
     (let cols = map (\<lambda>c. c @ after) (le_split L line CHR '' '' 16)
      in if length cols < 6 then Inl EINVAL
         else
           (let op_type = char_at (cols ! 3)
            in and_then (BINLOG_PARSE_INT_EX id cols 4 CHR '' '' 1) (\<lambda>oid.
               and_then (BINLOG_PARSE_INT_EX id cols 5
                           (if op_type = BINLOG_OP_TYPE_DEL_BLOCK then NEWLINE else CHR '' '') 0) (\<lambda>boffset.
                 let bkey = fs_calc_block_hashcode \<lparr>bk_oid = oid, bk_offset = boffset, bk_hash_code = 0\<rparr>;
                     record = record0\<lparr>sb_op_type := op_type, sb_bs_key := (sb_bs_key record0)\<lparr>bs_block := bkey\<rparr>\<rparr>
                 in if op_type = BINLOG_OP_TYPE_WRITE_SLICE
                    then add_slice_set_fields paths cols (record\<lparr>sb_slice_type := OB_SLICE_TYPE_FILE\<rparr>)
                    else if op_type = BINLOG_OP_TYPE_ALLOC_SLICE
                    then add_slice_set_fields paths cols (record\<lparr>sb_slice_type := OB_SLICE_TYPE_ALLOC\<rparr>)
                    else if op_type = BINLOG_OP_TYPE_DEL_SLICE then del_slice_set_fields cols record
                    else if op_type = BINLOG_OP_TYPE_DEL_BLOCK then del_block_set_fields cols record
                    else Inl EINVAL))))"

end
