(* ===== verification/Binlog_Roundtrip.thy ===== *)
theory Binlog_Roundtrip
  imports Binlog_Record
begin

text \<open>
  Every record that the binlogs write is read back as what was written: numbers survive \<open>sprintf\<close> and \<open>strtol\<close>,
  columns survive the join and the split, and the parsers put them into the right fields.
\<close>

section \<open>Numbers\<close>

lemma digit_char_value:
  assumes "n < 10"
  shows "of_char (digit_char n) = 48 + n" "of_char (digit_char n) = (48 + int n)"
proof -
  show v: "of_char (digit_char n) = 48 + n" using assms by (simp add: digit_char_def)
  have "int (of_char (digit_char n)) = 48 + int n" unfolding v by simp
  then show "of_char (digit_char n) = (48 + int n)" by (simp only: of_nat_of_char)
qed

lemma digit_char_digit: "n < 10 \<Longrightarrow> is_digit (digit_char n)"
  by (simp add: is_digit_def digit_char_value)

lemma show_nat_digits: "c \<in> set (show_nat n) \<Longrightarrow> is_digit c"
proof (induction n rule: show_nat.induct)
  case (1 n)
  then show ?case by (auto simp: show_nat.simps [of n] digit_char_digit split: if_splits)
qed

lemma show_nat_nonempty: "show_nat n \<noteq> []"
  by (subst show_nat.simps) simp

lemma read_digits_append:
  "\<forall>c\<in>set ds. is_digit c \<Longrightarrow> read_digits a (ds @ s) = read_digits (foldl (\<lambda>a c. 10 * a + (of_char c - 48)) a ds) s"
  by (induction ds arbitrary: a) auto

lemma show_nat_value: "foldl (\<lambda>a c. 10 * a + (of_char c - 48)) 0 (show_nat n) = (int n)"
proof (induction n rule: show_nat.induct)
  case (1 n)
  have "10 * int (n div 10) + int (n mod 10) = int n" by presburger
  with 1 show ?case by (subst show_nat.simps) (simp add: digit_char_value)
qed

lemma strtol_show:
  assumes "- (2 ^ 63) \<le> i" "i < 2 ^ 63" "\<not> is_digit c"
  shows "strtol (show_int i @ c # s) = (i, c # s)"
proof -
  obtain d ds where d: "show_nat (nat \<bar>i\<bar>) = d # ds" using show_nat_nonempty by (metis list.exhaust)
  have dg: "is_digit d" using show_nat_digits [of d "nat \<bar>i\<bar>"] d by simp
  then have nd: "\<not> is_space d" "d \<noteq> CHR ''-''" "d \<noteq> CHR ''+''" by (auto simp: is_digit_def is_space_def)
  have "read_digits 0 (d # ds @ c # s) = (\<bar>i\<bar>, c # s)"
    using read_digits_append [of "show_nat (nat \<bar>i\<bar>)" 0 "c # s"] show_nat_digits [of _ "nat \<bar>i\<bar>"] assms(3)
      show_nat_value [of "nat \<bar>i\<bar>"]
    unfolding d by simp
  moreover have "long_clamp i = i" using assms(1,2) by (simp add: long_clamp_def)
  moreover have "\<not> is_space CHR ''-''" by (simp add: is_space_def)
  moreover have "show_int i = (if i < 0 then CHR ''-'' # d # ds else d # ds)" using d by (cases "i < 0") (simp_all add: show_int_def)
  ultimately show ?thesis using dg nd by (auto simp: strtol_def)
qed

lemma show_int_no_blank: "CHR '' '' \<notin> set (show_int i)"
  using show_nat_digits [of "CHR '' ''"] by (auto simp: show_int_def is_digit_def)

section \<open>Columns\<close>

lemma suffixes_columns:
  "\<forall>f\<in>set fs. CHR '' '' \<notin> set f \<Longrightarrow> fs \<noteq> [] \<Longrightarrow>
   suffixes CHR '' '' (columns fs) = map (\<lambda>i. columns (drop i fs)) [0..<length fs]"
proof (induction fs rule: columns.induct)
  case (2 f)
  then have "dropWhile (\<lambda>c. c \<noteq> CHR '' '') (f @ [NEWLINE]) = []" by auto
  then show ?case by (simp add: suffixes.simps)
next
  case (3 f g fs)
  have "dropWhile (\<lambda>c. c \<noteq> CHR '' '') (columns (f # g # fs)) = CHR '' '' # columns (g # fs)"
    using "3.prems" by (auto simp: dropWhile_append)
  then have "suffixes CHR '' '' (columns (f # g # fs)) = columns (f # g # fs) # suffixes CHR '' '' (columns (g # fs))"
    by (subst suffixes.simps) simp
  also have "suffixes CHR '' '' (columns (g # fs)) = map (\<lambda>i. columns (drop i (g # fs))) [0..<length (g # fs)]"
    by (rule "3.IH") (use "3.prems" in auto)
  also have "columns (f # g # fs) # \<dots> = map (\<lambda>i. columns (drop i (f # g # fs))) [0..<Suc (length (g # fs))]"
    by (subst upt_conv_Cons) (simp_all add: map_Suc_upt [symmetric] del: upt_Suc)
  finally show ?case by simp
qed simp

lemma columns_end: "columns fs \<noteq> [] \<and> last (columns fs) = NEWLINE"
  by (induction fs rule: columns.induct) auto

context log_library
begin

lemma split_columns:
  assumes "\<forall>f\<in>set fs. CHR '' '' \<notin> set f" "fs \<noteq> []" "length fs \<le> n"
  shows "le_split L (columns fs) CHR '' '' n = map (\<lambda>i. columns (drop i fs)) [0..<length fs]"
  using split [of "columns fs" "CHR '' ''" n] columns_end [of fs] assms by (simp add: suffixes_columns)

end

text \<open>A number in a column that is followed by another one, or by the end of the line.\<close>

lemma parse_column:
  assumes "- (2 ^ 63) \<le> v" "v < 2 ^ 63" "conv v = v" "min_val \<le> v" "cols ! i = columns (show_int v # fs) @ after"
    and "c = (if fs = [] then NEWLINE else CHR '' '')"
  shows "BINLOG_PARSE_INT_SILENCE conv cols i c min_val = Inr v" "BINLOG_PARSE_INT_EX conv cols i c min_val = Inr v"
proof -
  have "\<exists>s. columns (show_int v # fs) @ after = show_int v @ c # s" using assms(6) by (cases fs) auto
  then obtain s where "cols ! i = show_int v @ c # s" using assms(5) by auto
  moreover have "\<not> is_digit c" using assms(6) by (simp add: is_digit_def)
  ultimately have "strtol (cols ! i) = (v, c # s)" using strtol_show [OF assms(1,2)] by simp
  then show "BINLOG_PARSE_INT_SILENCE conv cols i c min_val = Inr v" "BINLOG_PARSE_INT_EX conv cols i c min_val = Inr v"
    using assms(3,4) by (simp_all add: BINLOG_PARSE_INT_SILENCE_def BINLOG_PARSE_INT_EX_def char_at_def)
qed

lemma parse_column_low:
  assumes "- (2 ^ 63) \<le> v" "v < 2 ^ 63" "conv v < min_val" "cols ! i = columns (show_int v # fs) @ after"
  shows "BINLOG_PARSE_INT_EX conv cols i c min_val = Inl EINVAL"
proof -
  define e where "e = (if fs = [] then NEWLINE else CHR '' '')"
  have "\<exists>s. columns (show_int v # fs) @ after = show_int v @ e # s" by (cases fs) (auto simp: e_def)
  then obtain s where "cols ! i = show_int v @ e # s" using assms(4) by auto
  moreover have "\<not> is_digit e" by (simp add: is_digit_def e_def)
  ultimately have "strtol (cols ! i) = (v, e # s)" using strtol_show [OF assms(1,2)] by simp
  then show ?thesis using assms(3) by (simp add: BINLOG_PARSE_INT_EX_def)
qed

section \<open>Records\<close>

text \<open>What the program keeps to: positive object ids, non-negative offsets, positive lengths, within the C types.\<close>

definition loggable_key :: "FSBlockKey \<Rightarrow> bool" where
  "loggable_key k \<longleftrightarrow> 1 \<le> bk_oid k \<and> bk_oid k < 2 ^ 63 \<and> 0 \<le> bk_offset k \<and> bk_offset k < 2 ^ 63"

definition loggable_size :: "FSSliceSize \<Rightarrow> bool" where
  "loggable_size s \<longleftrightarrow> 0 \<le> ss_offset s \<and> ss_offset s < 2 ^ 31 \<and> 1 \<le> ss_length s \<and> ss_length s < 2 ^ 31"

definition loggable_space :: "bool list \<Rightarrow> FSTrunkSpaceInfo \<Rightarrow> bool" where
  "loggable_space paths t \<longleftrightarrow> ts_store t < length paths \<and> paths ! ts_store t \<and> length paths \<le> 2 ^ 31 \<and>
     1 \<le> ti_id (ts_id_info t) \<and> ti_id (ts_id_info t) < 2 ^ 63 \<and> 1 \<le> ti_subdir (ts_id_info t) \<and> ti_subdir (ts_id_info t) < 2 ^ 63 \<and>
     0 \<le> ts_offset t \<and> ts_offset t < 2 ^ 63 \<and> 0 \<le> ts_size t \<and> ts_size t < 2 ^ 63"

lemma char_at_column: "char_at (columns ([c] # fs) @ after) = c"
  by (cases fs) (simp_all add: char_at_def)

context log_library
begin

lemma column_list:
  assumes "\<forall>f\<in>set fs. CHR '' '' \<notin> set f" "fs \<noteq> []" "length fs \<le> n"
  shows "length (map (\<lambda>c. c @ after) (le_split L (columns fs) CHR '' '' n)) = length fs"
    "i < length fs \<Longrightarrow> map (\<lambda>c. c @ after) (le_split L (columns fs) CHR '' '' n) ! i = columns (drop i fs) @ after"
  unfolding split_columns [OF assms] by simp_all

lemma replica_slice_text:
  assumes "loggable_key (bs_block bs)" "loggable_size (bs_slice bs)" "0 < dv" "dv < 2 ^ 63" "source \<noteq> CHR '' ''"
    "op \<in> {BINLOG_OP_TYPE_WRITE_SLICE, BINLOG_OP_TYPE_ALLOC_SLICE, BINLOG_OP_TYPE_DEL_SLICE}"
  shows "replica_binlog_record_unpack L (columns [show_int t, show_int (s64 dv), [source], [op],
      show_int (bk_oid (bs_block bs)), show_int (bk_offset (bs_block bs)), show_int (ss_offset (bs_slice bs)), show_int (ss_length (bs_slice bs))])
      after rec = Inr (rec\<lparr>rb_source := source, rb_op_type := op, rb_data_version := dv,
        rb_bs_key := \<lparr>bs_block = (bs_block (rb_bs_key rec))\<lparr>bk_oid := bk_oid (bs_block bs), bk_offset := bk_offset (bs_block bs)\<rparr>,
          bs_slice = bs_slice bs\<rparr>\<rparr>)"
proof -
  define fs where "fs = [show_int t, show_int dv, [source], [op], show_int (bk_oid (bs_block bs)), show_int (bk_offset (bs_block bs)),
    show_int (ss_offset (bs_slice bs)), show_int (ss_length (bs_slice bs))]"
  define cols where "cols = map (\<lambda>c. c @ after) (le_split L (columns fs) CHR '' '' 8)"
  have nb: "\<forall>f\<in>set fs. CHR '' '' \<notin> set f" "fs \<noteq> []" "length fs \<le> 8" using assms(5,6) show_int_no_blank by (auto simp: fs_def)
  have len: "length cols = 8" using column_list(1) [OF nb] by (simp add: cols_def fs_def)
  have col: "cols ! i = columns (drop i fs) @ after" if "i < 8" for i using column_list(2) [OF nb] that by (simp add: cols_def fs_def)
  have c: "char_at (cols ! 2) = source" "char_at (cols ! 3) = op" by (simp_all add: col fs_def char_at_column del: columns.simps)
  have p: "BINLOG_PARSE_INT_SILENCE id cols 1 CHR '' '' 1 = Inr dv" "BINLOG_PARSE_INT_SILENCE id cols 4 CHR '' '' 1 = Inr (bk_oid (bs_block bs))"
    "BINLOG_PARSE_INT_SILENCE id cols 5 CHR '' '' 0 = Inr (bk_offset (bs_block bs))"
    "BINLOG_PARSE_INT_SILENCE s32 cols 6 CHR '' '' 0 = Inr (ss_offset (bs_slice bs))"
    "BINLOG_PARSE_INT_SILENCE s32 cols 7 NEWLINE 1 = Inr (ss_length (bs_slice bs))"
    using assms(1-4) by (auto intro!: parse_column(1) simp: loggable_key_def loggable_size_def s32_id col fs_def simp del: columns.simps)
  show ?thesis
    using c p len assms(6)
    by (simp add: replica_binlog_record_unpack_def unpack_slice_record_def fs_def [symmetric] cols_def [symmetric]
        s64_id [OF less_imp_le [OF assms(3)] assms(4)] Let_def del: columns.simps)
qed

lemma replica_block_text:
  assumes "loggable_key k" "0 < dv" "dv < 2 ^ 63" "source \<noteq> CHR '' ''" "op \<in> {BINLOG_OP_TYPE_DEL_BLOCK, BINLOG_OP_TYPE_NO_OP}"
  shows "replica_binlog_record_unpack L (columns [show_int t, show_int (s64 dv), [source], [op], show_int (bk_oid k), show_int (bk_offset k)])
      after rec = Inr (rec\<lparr>rb_source := source, rb_op_type := op, rb_data_version := dv,
        rb_bs_key := (rb_bs_key rec)\<lparr>bs_block := (bs_block (rb_bs_key rec))\<lparr>bk_oid := bk_oid k, bk_offset := bk_offset k\<rparr>\<rparr>\<rparr>)"
proof -
  define fs where "fs = [show_int t, show_int dv, [source], [op], show_int (bk_oid k), show_int (bk_offset k)]"
  define cols where "cols = map (\<lambda>c. c @ after) (le_split L (columns fs) CHR '' '' 8)"
  have nb: "\<forall>f\<in>set fs. CHR '' '' \<notin> set f" "fs \<noteq> []" "length fs \<le> 8" using assms(4,5) show_int_no_blank by (auto simp: fs_def)
  have len: "length cols = 6" using column_list(1) [OF nb] by (simp add: cols_def fs_def)
  have col: "cols ! i = columns (drop i fs) @ after" if "i < 6" for i using column_list(2) [OF nb] that by (simp add: cols_def fs_def)
  have c: "char_at (cols ! 2) = source" "char_at (cols ! 3) = op" by (simp_all add: col fs_def char_at_column del: columns.simps)
  have p: "BINLOG_PARSE_INT_SILENCE id cols 1 CHR '' '' 1 = Inr dv" "BINLOG_PARSE_INT_SILENCE id cols 4 CHR '' '' 1 = Inr (bk_oid k)"
    "BINLOG_PARSE_INT_SILENCE id cols 5 NEWLINE 0 = Inr (bk_offset k)"
    using assms(1-3) by (auto intro!: parse_column(1) simp: loggable_key_def col fs_def simp del: columns.simps)
  show ?thesis
    using c p len assms(5)
    by (auto simp add: replica_binlog_record_unpack_def unpack_block_record_def fs_def [symmetric] cols_def [symmetric]
        s64_id [OF less_imp_le [OF assms(2)] assms(3)] Let_def simp del: columns.simps)
qed

lemma add_slice_text:
  assumes "loggable_key k" "loggable_size (sl_ssize s)" "loggable_space paths (sl_space s)" "source \<noteq> CHR '' ''"
    "op = (if sl_type s = OB_SLICE_TYPE_FILE then BINLOG_OP_TYPE_WRITE_SLICE else BINLOG_OP_TYPE_ALLOC_SLICE)"
  shows "slice_parse_line L paths (columns [show_int t, show_int dv, [source], [op], show_int (bk_oid k), show_int (bk_offset k),
      show_int (sl_offset s), show_int (sl_length s), show_int (int (ts_store (sl_space s))), show_int (ti_id (ts_id_info (sl_space s))),
      show_int (ti_subdir (ts_id_info (sl_space s))), show_int (ts_offset (sl_space s)), show_int (ts_size (sl_space s))]) after rec =
    Inr (rec\<lparr>sb_op_type := op, sb_slice_type := sl_type s, sb_bs_key := \<lparr>bs_block = fs_calc_block_hashcode k, bs_slice = sl_ssize s\<rparr>,
      sb_space := sl_space s\<rparr>)"
proof -
  define fs where "fs = [show_int t, show_int dv, [source], [op], show_int (bk_oid k), show_int (bk_offset k),
      show_int (sl_offset s), show_int (sl_length s), show_int (int (ts_store (sl_space s))), show_int (ti_id (ts_id_info (sl_space s))),
      show_int (ti_subdir (ts_id_info (sl_space s))), show_int (ts_offset (sl_space s)), show_int (ts_size (sl_space s))]"
  define cols where "cols = map (\<lambda>c. c @ after) (le_split L (columns fs) CHR '' '' 16)"
  have nb: "\<forall>f\<in>set fs. CHR '' '' \<notin> set f" "fs \<noteq> []" "length fs \<le> 16" using assms(4,5) show_int_no_blank by (auto simp: fs_def)
  have len: "length cols = 13" using column_list(1) [OF nb] by (simp add: cols_def fs_def)
  have col: "cols ! i = columns (drop i fs) @ after" if "i < 13" for i using column_list(2) [OF nb] that by (simp add: cols_def fs_def)
  have c: "char_at (cols ! 3) = op" by (simp add: col fs_def char_at_column del: columns.simps)
  have st: "ts_store (sl_space s) < 2 ^ 31" using assms(3) by (simp add: loggable_space_def)
  have p: "BINLOG_PARSE_INT_EX id cols 4 CHR '' '' 1 = Inr (bk_oid k)" "BINLOG_PARSE_INT_EX id cols 5 CHR '' '' 0 = Inr (bk_offset k)"
    "BINLOG_PARSE_INT_EX s32 cols 6 CHR '' '' 0 = Inr (sl_offset s)" "BINLOG_PARSE_INT_EX s32 cols 7 CHR '' '' 1 = Inr (sl_length s)"
    "BINLOG_PARSE_INT_EX s32 cols 8 CHR '' '' 0 = Inr (int (ts_store (sl_space s)))"
    "BINLOG_PARSE_INT_EX id cols 9 CHR '' '' 1 = Inr (ti_id (ts_id_info (sl_space s)))"
    "BINLOG_PARSE_INT_EX id cols 10 CHR '' '' 1 = Inr (ti_subdir (ts_id_info (sl_space s)))"
    "BINLOG_PARSE_INT_EX id cols 11 CHR '' '' 0 = Inr (ts_offset (sl_space s))"
    "BINLOG_PARSE_INT_EX id cols 12 NEWLINE 0 = Inr (ts_size (sl_space s))"
    using assms(1-3) st
    by (auto intro!: parse_column(2) simp: loggable_key_def loggable_size_def loggable_space_def s32_id col fs_def simp del: columns.simps)
  have pth: "paths ! ts_store (sl_space s)" "int (ts_store (sl_space s)) \<le> int (length paths) - 1"
    using assms(3) by (auto simp: loggable_space_def)
  have "add_slice_set_fields paths cols r = Inr (r\<lparr>sb_bs_key := (sb_bs_key r)\<lparr>bs_slice := sl_ssize s\<rparr>, sb_space := sl_space s\<rparr>)" for r
    using p len pth by (simp add: add_slice_set_fields_def)
  then show ?thesis
    unfolding slice_parse_line_def fs_def [symmetric] cols_def [symmetric]
    using c p(1,2) len assms(5) by (cases "sl_type s") (simp_all add: fs_calc_block_hashcode_def Let_def)
qed

text \<open>The record of an empty slice is refused.\<close>

lemma empty_slice_text:
  assumes "loggable_key k" "0 \<le> sl_offset s" "sl_offset s < 2 ^ 31" "sl_length s = 0" "source \<noteq> CHR '' ''"
    "op = (if sl_type s = OB_SLICE_TYPE_FILE then BINLOG_OP_TYPE_WRITE_SLICE else BINLOG_OP_TYPE_ALLOC_SLICE)"
  shows "slice_parse_line L paths (columns [show_int t, show_int dv, [source], [op], show_int (bk_oid k), show_int (bk_offset k),
      show_int (sl_offset s), show_int (sl_length s), show_int (int (ts_store (sl_space s))), show_int (ti_id (ts_id_info (sl_space s))),
      show_int (ti_subdir (ts_id_info (sl_space s))), show_int (ts_offset (sl_space s)), show_int (ts_size (sl_space s))]) after rec =
    Inl EINVAL"
proof -
  define fs where "fs = [show_int t, show_int dv, [source], [op], show_int (bk_oid k), show_int (bk_offset k),
      show_int (sl_offset s), show_int (sl_length s), show_int (int (ts_store (sl_space s))), show_int (ti_id (ts_id_info (sl_space s))),
      show_int (ti_subdir (ts_id_info (sl_space s))), show_int (ts_offset (sl_space s)), show_int (ts_size (sl_space s))]"
  define cols where "cols = map (\<lambda>c. c @ after) (le_split L (columns fs) CHR '' '' 16)"
  have nb: "\<forall>f\<in>set fs. CHR '' '' \<notin> set f" "fs \<noteq> []" "length fs \<le> 16" using assms(5,6) show_int_no_blank by (auto simp: fs_def)
  have len: "length cols = 13" using column_list(1) [OF nb] by (simp add: cols_def fs_def)
  have col: "cols ! i = columns (drop i fs) @ after" if "i < 13" for i using column_list(2) [OF nb] that by (simp add: cols_def fs_def)
  have c: "char_at (cols ! 3) = op" by (simp add: col fs_def char_at_column del: columns.simps)
  have p: "BINLOG_PARSE_INT_EX id cols 4 CHR '' '' 1 = Inr (bk_oid k)" "BINLOG_PARSE_INT_EX id cols 5 CHR '' '' 0 = Inr (bk_offset k)"
    "BINLOG_PARSE_INT_EX s32 cols 6 CHR '' '' 0 = Inr (sl_offset s)"
    using assms(1-3) by (auto intro!: parse_column(2) simp: loggable_key_def s32_id col fs_def simp del: columns.simps)
  have "BINLOG_PARSE_INT_EX s32 cols 7 CHR '' '' 1 = Inl EINVAL"
    by (rule parse_column_low [of 0]) (simp_all add: s32_id col fs_def assms(4) del: columns.simps)
  then have "add_slice_set_fields paths cols r = Inl EINVAL" for r using p len by (simp add: add_slice_set_fields_def)
  then show ?thesis
    unfolding slice_parse_line_def fs_def [symmetric] cols_def [symmetric]
    using c p(1,2) len assms(6) by (cases "sl_type s") (simp_all add: Let_def)
qed

lemma del_slice_text:
  assumes "loggable_key (bs_block bs)" "loggable_size (bs_slice bs)" "source \<noteq> CHR '' ''"
  shows "slice_parse_line L paths (columns [show_int t, show_int dv, [source], [BINLOG_OP_TYPE_DEL_SLICE],
      show_int (bk_oid (bs_block bs)), show_int (bk_offset (bs_block bs)), show_int (ss_offset (bs_slice bs)), show_int (ss_length (bs_slice bs))])
      after rec = Inr (rec\<lparr>sb_op_type := BINLOG_OP_TYPE_DEL_SLICE,
        sb_bs_key := \<lparr>bs_block = fs_calc_block_hashcode (bs_block bs), bs_slice = bs_slice bs\<rparr>\<rparr>)"
proof -
  define fs where "fs = [show_int t, show_int dv, [source], [BINLOG_OP_TYPE_DEL_SLICE], show_int (bk_oid (bs_block bs)),
      show_int (bk_offset (bs_block bs)), show_int (ss_offset (bs_slice bs)), show_int (ss_length (bs_slice bs))]"
  define cols where "cols = map (\<lambda>c. c @ after) (le_split L (columns fs) CHR '' '' 16)"
  have nb: "\<forall>f\<in>set fs. CHR '' '' \<notin> set f" "fs \<noteq> []" "length fs \<le> 16" using assms(3) show_int_no_blank by (auto simp: fs_def)
  have len: "length cols = 8" using column_list(1) [OF nb] by (simp add: cols_def fs_def)
  have col: "cols ! i = columns (drop i fs) @ after" if "i < 8" for i using column_list(2) [OF nb] that by (simp add: cols_def fs_def)
  have c: "char_at (cols ! 3) = BINLOG_OP_TYPE_DEL_SLICE" by (simp add: col fs_def char_at_column del: columns.simps)
  have p: "BINLOG_PARSE_INT_EX id cols 4 CHR '' '' 1 = Inr (bk_oid (bs_block bs))"
    "BINLOG_PARSE_INT_EX id cols 5 CHR '' '' 0 = Inr (bk_offset (bs_block bs))"
    "BINLOG_PARSE_INT_EX s32 cols 6 CHR '' '' 0 = Inr (ss_offset (bs_slice bs))" "BINLOG_PARSE_INT_EX s32 cols 7 NEWLINE 1 = Inr (ss_length (bs_slice bs))"
    using assms(1,2) by (auto intro!: parse_column(2) simp: loggable_key_def loggable_size_def s32_id col fs_def simp del: columns.simps)
  show ?thesis
    using c p len
    by (simp add: slice_parse_line_def del_slice_set_fields_def fs_def [symmetric] cols_def [symmetric] fs_calc_block_hashcode_def Let_def
        del: columns.simps)
qed

lemma del_block_text:
  assumes "loggable_key k" "source \<noteq> CHR '' ''"
  shows "slice_parse_line L paths (columns [show_int t, show_int dv, [source], [BINLOG_OP_TYPE_DEL_BLOCK],
      show_int (bk_oid k), show_int (bk_offset k)]) after rec =
    Inr (rec\<lparr>sb_op_type := BINLOG_OP_TYPE_DEL_BLOCK, sb_bs_key := (sb_bs_key rec)\<lparr>bs_block := fs_calc_block_hashcode k\<rparr>\<rparr>)"
proof -
  define fs where "fs = [show_int t, show_int dv, [source], [BINLOG_OP_TYPE_DEL_BLOCK], show_int (bk_oid k), show_int (bk_offset k)]"
  define cols where "cols = map (\<lambda>c. c @ after) (le_split L (columns fs) CHR '' '' 16)"
  have nb: "\<forall>f\<in>set fs. CHR '' '' \<notin> set f" "fs \<noteq> []" "length fs \<le> 16" using assms(2) show_int_no_blank by (auto simp: fs_def)
  have len: "length cols = 6" using column_list(1) [OF nb] by (simp add: cols_def fs_def)
  have col: "cols ! i = columns (drop i fs) @ after" if "i < 6" for i using column_list(2) [OF nb] that by (simp add: cols_def fs_def)
  have c: "char_at (cols ! 3) = BINLOG_OP_TYPE_DEL_BLOCK" by (simp add: col fs_def char_at_column del: columns.simps)
  have p: "BINLOG_PARSE_INT_EX id cols 4 CHR '' '' 1 = Inr (bk_oid k)" "BINLOG_PARSE_INT_EX id cols 5 NEWLINE 0 = Inr (bk_offset k)"
    using assms(1) by (auto intro!: parse_column(2) simp: loggable_key_def col fs_def simp del: columns.simps)
  show ?thesis
    using c p len
    by (simp add: slice_parse_line_def del_block_set_fields_def fs_def [symmetric] cols_def [symmetric] fs_calc_block_hashcode_def Let_def
        del: columns.simps)
qed

end

section \<open>Properties\<close>

abbreviation slice_ops :: "char set" where
  "slice_ops \<equiv> {BINLOG_OP_TYPE_WRITE_SLICE, BINLOG_OP_TYPE_ALLOC_SLICE, BINLOG_OP_TYPE_DEL_SLICE}"

abbreviation block_ops :: "char set" where
  "block_ops \<equiv> {BINLOG_OP_TYPE_DEL_BLOCK, BINLOG_OP_TYPE_NO_OP}"

text \<open>
  Property C29. A record of the replica binlog is read back as it was written: logging an update of a slice or of a
  block appends one line for the data group, under its data version, and unpacking that line,
  whatever follows it in the buffer, gives the source, the operation, the data version, the block and, for
  a slice operation, the range. The log of no other data group changes.
\<close>
theorem replica_record_roundtrip:
  assumes "log_library L" "loggable_key (bs_block bs)" "loggable_size (bs_slice bs)" "0 < dv" "dv < 2 ^ 63" "source \<noteq> CHR '' ''"
    and "(op \<in> slice_ops \<and> run = replica_binlog_log_slice L t g dv bs source op b) \<or>
         (op \<in> block_ops \<and> run = replica_binlog_log_block L t g dv (bs_block bs) source op b)"
    and "run = (0, b')"
  shows "\<exists>line. bl_replica b' = (bl_replica b)(g := bl_replica b g @ [line]) \<and> ll_version line = dv \<and>
    (\<exists>rec'. replica_binlog_record_unpack L (ll_text line) after rec = Inr rec' \<and>
       rb_source rec' = source \<and> rb_op_type rec' = op \<and> rb_data_version rec' = dv \<and>
       bk_oid (bs_block (rb_bs_key rec')) = bk_oid (bs_block bs) \<and> bk_offset (bs_block (rb_bs_key rec')) = bk_offset (bs_block bs) \<and>
       bs_slice (rb_bs_key rec') = (if op \<in> slice_ops then bs_slice bs else bs_slice (rb_bs_key rec)))"
proof (cases "op \<in> slice_ops")
  case True
  with assms(7,8) have r: "replica_binlog_log_slice L t g dv bs source op b = (0, b')" by auto
  show ?thesis
    using r True log_library.replica_slice_text [OF assms(1-6) True, of t after rec]
    by (auto simp: replica_binlog_log_slice_def replica_binlog_log_def Let_def log_library.push [OF assms(1)] split: if_splits)
next
  case False
  with assms(7,8) have o: "op \<in> block_ops" and r: "replica_binlog_log_block L t g dv (bs_block bs) source op b = (0, b')" by auto
  show ?thesis
    using r False log_library.replica_block_text [OF assms(1,2,4-6) o, of t after rec]
    by (auto simp: replica_binlog_log_block_def replica_binlog_log_def Let_def log_library.push [OF assms(1)] split: if_splits)
qed

text \<open>
  Property C30. A record of the slice binlog is read back as it was written: the line of a write or an allocation gives
  the kind of the slice, its block with the hash code, its range and its place on disk; the line of
  a deletion gives the block and the range, the line of a block deletion the block.
\<close>
theorem slice_record_roundtrip:
  assumes "log_library L" "loggable_key k" "loggable_size (sl_ssize s)" "loggable_space paths (sl_space s)" "source \<noteq> CHR '' ''"
    and "run = slice_binlog_log_add_slice L k s t sn dv source b \<and>
           op = (if sl_type s = OB_SLICE_TYPE_FILE then BINLOG_OP_TYPE_WRITE_SLICE else BINLOG_OP_TYPE_ALLOC_SLICE) \<or>
         run = slice_binlog_log_del_slice L \<lparr>bs_block = k, bs_slice = sl_ssize s\<rparr> t sn dv source b \<and> op = BINLOG_OP_TYPE_DEL_SLICE \<or>
         run = slice_binlog_log_del_block L k t sn dv source b \<and> op = BINLOG_OP_TYPE_DEL_BLOCK"
    and "run = (0, b')"
  shows "\<exists>line. bl_slice b' = bl_slice b @ [line] \<and> ll_version line = sn \<and>
    (\<exists>rec'. slice_parse_line L paths (ll_text line) after rec = Inr rec' \<and> sb_op_type rec' = op \<and>
       bs_block (sb_bs_key rec') = fs_calc_block_hashcode k \<and>
       (op \<noteq> BINLOG_OP_TYPE_DEL_BLOCK \<longrightarrow> bs_slice (sb_bs_key rec') = sl_ssize s) \<and>
       (op = BINLOG_OP_TYPE_WRITE_SLICE \<or> op = BINLOG_OP_TYPE_ALLOC_SLICE \<longrightarrow> sb_slice_type rec' = sl_type s \<and> sb_space rec' = sl_space s))"
proof -
  have log: "(\<exists>line. bl_slice b' = bl_slice b @ [line] \<and> ll_version line = sn \<and> ll_text line = tx)"
    if "slice_binlog_log L sn dv tx b = (0, b')" for tx
    using that by (auto simp: slice_binlog_log_def Let_def log_library.push [OF assms(1)] split: if_splits)
  consider (add) "run = slice_binlog_log_add_slice L k s t sn dv source b"
      "op = (if sl_type s = OB_SLICE_TYPE_FILE then BINLOG_OP_TYPE_WRITE_SLICE else BINLOG_OP_TYPE_ALLOC_SLICE)"
    | (del) "run = slice_binlog_log_del_slice L \<lparr>bs_block = k, bs_slice = sl_ssize s\<rparr> t sn dv source b" "op = BINLOG_OP_TYPE_DEL_SLICE"
    | (block) "run = slice_binlog_log_del_block L k t sn dv source b" "op = BINLOG_OP_TYPE_DEL_BLOCK"
    using assms(6) by blast
  then show ?thesis
  proof cases
    case add
    then have "slice_binlog_log_add_slice L k s t sn dv source b = (0, b')" using assms(7) by simp
    from log [OF this [unfolded slice_binlog_log_add_slice_def add(2) [symmetric]]]
      log_library.add_slice_text [OF assms(1-5) add(2), of t "s64 dv" after rec]
    show ?thesis using add(2) by (fastforce split: if_splits)
  next
    case del
    then have "slice_binlog_log_del_slice L \<lparr>bs_block = k, bs_slice = sl_ssize s\<rparr> t sn dv source b = (0, b')" using assms(7) by simp
    from log [OF this [unfolded slice_binlog_log_del_slice_def]]
      log_library.del_slice_text [OF assms(1), of "\<lparr>bs_block = k, bs_slice = sl_ssize s\<rparr>" source paths t "s64 dv" after rec]
    show ?thesis using del(2) assms(2,3,5) by fastforce
  next
    case block
    then have "slice_binlog_log_del_block L k t sn dv source b = (0, b')" using assms(7) by simp
    from log [OF this [unfolded slice_binlog_log_del_block_def]] log_library.del_block_text [OF assms(1,2,5), of paths t "s64 dv" after rec]
    show ?thesis using block(2) by fastforce
  qed
qed

section \<open>Witnesses\<close>

definition list_log_env :: log_env where
  "list_log_env = \<lparr>le_alloc = (\<lambda>_. True), le_push = (\<lambda>q x. q @ [x]), le_split = (\<lambda>s sep n. take n (suffixes sep s))\<rparr>"

interpretation list_log: log_library list_log_env
  by unfold_locales (simp_all add: list_log_env_def)

definition ex_logs :: binlogs where
  "ex_logs = \<lparr>bl_slice = [], bl_replica = (\<lambda>_. []), bl_calls = 0\<rparr>"

definition ex_log_bs :: FSBlockSliceKeyInfo where
  "ex_log_bs = \<lparr>bs_block = \<lparr>bk_oid = 5, bk_offset = 4194304, bk_hash_code = 4194310\<rparr>, bs_slice = \<lparr>ss_offset = 100, ss_length = 50\<rparr>\<rparr>"

definition ex_log_slice :: OBSliceEntry where
  "ex_log_slice = \<lparr>sl_ptr = 3, sl_ob = 1, sl_type = OB_SLICE_TYPE_FILE, sl_ssize = bs_slice ex_log_bs,
     sl_space = \<lparr>ts_store = 0, ts_id_info = \<lparr>ti_id = 9, ti_subdir = 1\<rparr>, ts_offset = 8192, ts_size = 56\<rparr>\<rparr>"

definition ex_rec :: ReplicaBinlogRecord where
  "ex_rec = \<lparr>rb_op_type = CHR 0x00, rb_source = CHR 0x00, rb_bs_key = ex_log_bs, rb_data_version = 0\<rparr>"

definition ex_srec :: SliceBinlogRecord where
  "ex_srec = \<lparr>sb_op_type = CHR 0x00, sb_slice_type = OB_SLICE_TYPE_ALLOC, sb_bs_key = ex_log_bs, sb_space = sl_space ex_log_slice\<rparr>"

theorem replica_record_roundtrip_witness:
  "\<exists>line rec'. bl_replica (snd (replica_binlog_log_slice list_log_env 1600000000 1 77 ex_log_bs CHR ''C'' BINLOG_OP_TYPE_WRITE_SLICE ex_logs)) 1 =
      [line] \<and> replica_binlog_record_unpack list_log_env (ll_text line) ''16'' ex_rec = Inr rec' \<and> rb_data_version rec' = 77 \<and>
      bs_slice (rb_bs_key rec') = \<lparr>ss_offset = 100, ss_length = 50\<rparr>"
proof -
  obtain b' where b': "replica_binlog_log_slice list_log_env 1600000000 1 77 ex_log_bs CHR ''C'' BINLOG_OP_TYPE_WRITE_SLICE ex_logs = (0, b')"
    by (simp add: replica_binlog_log_slice_def replica_binlog_log_def list_log_env_def Let_def)
  have "loggable_key (bs_block ex_log_bs)" "loggable_size (bs_slice ex_log_bs)" "bl_replica ex_logs 1 = []"
    by (simp_all add: ex_log_bs_def loggable_key_def loggable_size_def ex_logs_def)
  with replica_record_roundtrip [OF list_log.log_library_axioms, of ex_log_bs 77 "CHR ''C''" BINLOG_OP_TYPE_WRITE_SLICE _ 1600000000 1 ex_logs b' "''16''" ex_rec]
    b' show ?thesis by (fastforce simp: ex_log_bs_def)
qed

theorem slice_record_roundtrip_witness:
  "\<exists>line rec'. bl_slice (snd (slice_binlog_log_add_slice list_log_env (bs_block ex_log_bs) ex_log_slice 1600000000 42 77 CHR ''C'' ex_logs)) = [line] \<and>
      slice_parse_line list_log_env [True] (ll_text line) ''16'' ex_srec = Inr rec' \<and> sb_space rec' = sl_space ex_log_slice"
proof -
  obtain b' where b': "slice_binlog_log_add_slice list_log_env (bs_block ex_log_bs) ex_log_slice 1600000000 42 77 CHR ''C'' ex_logs = (0, b')"
    by (simp add: slice_binlog_log_add_slice_def slice_binlog_log_def list_log_env_def Let_def)
  have "loggable_key (bs_block ex_log_bs)" "loggable_size (sl_ssize ex_log_slice)" "loggable_space [True] (sl_space ex_log_slice)"
    "bl_slice ex_logs = []" "sl_type ex_log_slice = OB_SLICE_TYPE_FILE"
    by (simp_all add: ex_log_bs_def ex_log_slice_def loggable_key_def loggable_size_def loggable_space_def ex_logs_def)
  with slice_record_roundtrip [OF list_log.log_library_axioms, of "bs_block ex_log_bs" ex_log_slice "[True]" "CHR ''C''" _ 1600000000 42 77 ex_logs
      BINLOG_OP_TYPE_WRITE_SLICE b' "''16''" ex_srec] b'
  show ?thesis by fastforce
qed

end
