(* ===== verification/Slice_Op.thy ===== *)
theory Slice_Op
  imports Storage_Alloc_Properties Index_Properties Binlog_Roundtrip
begin

text \<open>
  The operations on slices (\<open>src/server/storage/slice_op.c\<close>): writing, allocating, reading and
  deleting a range of a block, and logging what was done. A write gets space from the allocators
  (\<open>Storage_Alloc\<close>), hands the data to the write threads of the store paths, and enters the new
  slices into the index (\<open>Block_Table\<close>) when all of it is on disk; reads and holes come from the
  index; every update raises the data version and is logged in the slice binlog and the replica
  binlog (\<open>Binlog_Record\<close>).

  \<open>op_world\<close> is what the operations share; \<open>FSSliceOpContext\<close> is the context of one operation. Its callback
  \<open>rw_done_callback\<close> is counted in \<open>oc_callbacks\<close>. As in \<open>Block_Table\<close> the arguments \<open>scheds\<close> and \<open>ascheds\<close>
  are what other threads do while a call waits for a reclaim or for a trunk, and \<open>None\<close> says
  that the call still waits.
\<close>

section \<open>Data\<close>

abbreviation (input) FS_MAX_SPLIT_COUNT_PER_SPACE_ALLOC :: int where "FS_MAX_SPLIT_COUNT_PER_SPACE_ALLOC \<equiv> 2"
abbreviation (input) FS_SLICE_SN_PARRAY_INIT_ALLOC_COUNT :: int where "FS_SLICE_SN_PARRAY_INIT_ALLOC_COUNT \<equiv> 4"
abbreviation (input) FS_SLICE_HOLES_FIXED_COUNT :: nat where "FS_SLICE_HOLES_FIXED_COUNT \<equiv> 256"

record FSSliceSNPair =
  sn_slice :: OBSliceEntry
  sn_sn :: int
  sn_version :: int

datatype FSIOBufferType = fs_buffer_type_direct | fs_buffer_type_array

record AlignedReadBuffer =
  ab_buff :: string
  ab_offset :: int
  ab_length :: int

text \<open>An entry of \<open>oc_aio_buffers\<close> is \<open>None\<close> until the read thread sets it.\<close>

record FSSliceOpContext =
  oc_callbacks :: nat
  oc_counter :: int
  oc_result :: int
  oc_done_bytes :: int
  oc_log_replica :: bool
  oc_source :: char
  oc_data_group_id :: int
  oc_data_version :: int
  oc_sn :: int
  oc_bs_key :: FSBlockSliceKeyInfo
  oc_buffer_type :: FSIOBufferType
  oc_buff :: string
  oc_space_changed :: int
  oc_sarray :: "FSSliceSNPair list"
  oc_sarray_alloc :: int
  oc_slice_ptr_array :: OBSlicePtrArray
  oc_aio_buffers :: "AlignedReadBuffer option list"
  oc_aio_alloc :: int

datatype io_data = IO_BUFF string | IO_IOVEC "string list"

text \<open>A slice write in the queue of a write thread (the trunk operations are separate requests).\<close>

record TrunkWriteIOBuffer =
  io_version :: int
  io_slice :: OBSliceEntry
  io_data :: io_data

record op_world =
  ow_ix :: ob_index
  ow_version :: int
  ow_logs :: binlogs
  ow_now :: int
  ow_writes :: "TrunkWriteIOBuffer list"
  ow_reads :: "(OBSliceEntry \<times> nat) list"
  ow_calls :: nat

definition is_reclaim :: "FSSliceOpContext \<Rightarrow> bool" where
  "is_reclaim c \<longleftrightarrow> oc_source c = BINLOG_SOURCE_RECLAIM"

definition take_call :: "fc_env \<Rightarrow> op_world \<Rightarrow> bool \<times> op_world" where
  "take_call E w = (env_task_alloc E (ow_calls w), w\<lparr>ow_calls := Suc (ow_calls w)\<rparr>)"

section \<open>Helpers\<close>

definition realloc_slice_sn_pairs :: "fc_env \<Rightarrow> int \<Rightarrow> FSSliceOpContext \<Rightarrow> op_world \<Rightarrow> int \<times> FSSliceOpContext \<times> op_world" where
  "realloc_slice_sn_pairs E capacity c w =
     (case take_call E w of (ok, w1) \<Rightarrow>
        if \<not> ok then (ENOMEM, c, w1) else (0, c\<lparr>oc_sarray_alloc := capacity\<rparr>, w1))"

text \<open>
  The compare-and-swap loop: each element of \<open>interf\<close> is the version that another thread has left when
  the swap is tried; when they are used up the swap succeeds.
\<close>

fun raise_version :: "int list \<Rightarrow> int \<Rightarrow> int \<Rightarrow> int" where
  "raise_version [] dv old = (if dv \<le> old then old else dv)"
| "raise_version (now # interf) dv old =
     (if dv \<le> old then old else if now = old then dv else raise_version interf dv now)"

definition set_data_version :: "int list \<Rightarrow> FSSliceOpContext \<Rightarrow> op_world \<Rightarrow> FSSliceOpContext \<times> op_world" where
  "set_data_version interf c w =
     (if \<not> oc_log_replica c then (c, w)
      else if oc_data_version c = 0
      then (c\<lparr>oc_data_version := u64 (ow_version w + 1)\<rparr>, w\<lparr>ow_version := u64 (ow_version w + 1)\<rparr>)
      else (c, w\<lparr>ow_version := raise_version interf (oc_data_version c) (ow_version w)\<rparr>))"

definition free_slice_array :: "FSSliceOpContext \<Rightarrow> op_world \<Rightarrow> FSSliceOpContext \<times> op_world" where
  "free_slice_array c w =
     (c\<lparr>oc_sarray := []\<rparr>,
      w\<lparr>ow_ix := (ow_ix w)\<lparr>ix_heap := fold (\<lambda>p. ob_index_free_slice (sn_slice p)) (oc_sarray c) (ix_heap (ow_ix w))\<rparr>\<rparr>)"

section \<open>Writing\<close>

text \<open>Other fields of a fresh slice are set by the caller; \<open>junk\<close> is what they hold before.\<close>

definition alloc_init_slice :: "fc_env \<Rightarrow> OBSliceEntry \<Rightarrow> FSBlockKey \<Rightarrow> FSTrunkSpaceInfo \<Rightarrow> OBSliceType \<Rightarrow> int \<Rightarrow> int \<Rightarrow>
    ob_index \<Rightarrow> OBSliceEntry option \<times> ob_index" where
  "alloc_init_slice E junk bkey space ty offset len st =
     (case ob_index_alloc_slice_ex E junk bkey 1 st of
        (None, st1) \<Rightarrow> (None, st1)
      | (Some s, st1) \<Rightarrow>
          (Some (s\<lparr>sl_type := ty, sl_space := space, sl_ssize := \<lparr>ss_offset = offset, ss_length = len\<rparr>\<rparr>), st1))"

fun alloc_slices :: "fc_env \<Rightarrow> OBSliceEntry \<Rightarrow> FSBlockKey \<Rightarrow> OBSliceType \<Rightarrow> FSTrunkSpaceWithVersion list \<Rightarrow> int \<Rightarrow> int \<Rightarrow>
    ob_index \<Rightarrow> int \<times> FSSliceSNPair list \<times> ob_index" where
  "alloc_slices E junk bkey ty [] offset remain st = (0, [], st)"
| "alloc_slices E junk bkey ty (sp # spaces) offset remain st =
     (let len = (if ts_size (tv_space sp) < remain then ts_size (tv_space sp) else remain)
      in case alloc_init_slice E junk bkey (tv_space sp) ty offset len st of
           (None, st1) \<Rightarrow> (ENOMEM, [], st1)
         | (Some s, st1) \<Rightarrow>
             (case alloc_slices E junk bkey ty spaces (offset + len) (remain - len) st1 of (result, pairs, st2) \<Rightarrow>
                (result, \<lparr>sn_slice = s, sn_sn = 0, sn_version = tv_version sp\<rparr> # pairs, st2)))"

definition fs_slice_alloc :: "fc_env \<Rightarrow> int \<Rightarrow> schedule list \<Rightarrow> OBSliceEntry \<Rightarrow> FSBlockSliceKeyInfo \<Rightarrow> OBSliceType \<Rightarrow> bool \<Rightarrow>
    ob_index \<Rightarrow> (int \<times> FSSliceSNPair list \<times> ob_index) option" where
  "fs_slice_alloc E discard asched junk bs_key ty reclaim_alloc st =
     (let hc = u32 (bk_hash_code (bs_block bs_key)); len = ss_length (bs_slice bs_key)
      in case (if reclaim_alloc then storage_allocator_reclaim_alloc E discard asched hc len (ix_mgr st)
               else storage_allocator_normal_alloc_ex E discard asched hc len True (ix_mgr st)) of
           None \<Rightarrow> None
         | Some (result, spaces, m) \<Rightarrow>
             (let st1 = st\<lparr>ix_mgr := m\<rparr>
              in if result \<noteq> 0 then Some (result, [], st1)
                 else
                   (case spaces of
                      [sp] \<Rightarrow>
                        (case alloc_init_slice E junk (bs_block bs_key) (tv_space sp) ty (ss_offset (bs_slice bs_key)) len st1 of
                           (None, st2) \<Rightarrow> Some (ENOMEM, [], st2)
                         | (Some s, st2) \<Rightarrow> Some (0, [\<lparr>sn_slice = s, sn_sn = 0, sn_version = tv_version sp\<rparr>], st2))
                    | _ \<Rightarrow> Some (alloc_slices E junk (bs_block bs_key) ty spaces (ss_offset (bs_slice bs_key)) len st1))))"

text \<open>Handing a slice to the write thread of its store path.\<close>

definition trunk_write_thread_push :: "fc_env \<Rightarrow> TrunkWriteIOBuffer \<Rightarrow> op_world \<Rightarrow> int \<times> op_world" where
  "trunk_write_thread_push E iob w =
     (case take_call E w of (ok, w1) \<Rightarrow> if \<not> ok then (ENOMEM, w1) else (0, w1\<lparr>ow_writes := ow_writes w @ [iob]\<rparr>))"

abbreviation ab_piece :: "AlignedReadBuffer \<Rightarrow> string" where
  "ab_piece b \<equiv> take (nat (ab_length b)) (drop (nat (ab_offset b)) (ab_buff b))"

text \<open>
  The inner loop of \<open>write_iovec_array\<close>: the pieces for the slice that ends at \<open>slice_total\<close>, the buffers that
  are left (a buffer that is cut keeps its rest) and \<open>buffer_total_length\<close>.
\<close>

fun fill_iovec :: "int \<Rightarrow> AlignedReadBuffer list \<Rightarrow> int \<Rightarrow> string list \<times> AlignedReadBuffer list \<times> int" where
  "fill_iovec slice_total [] buffer_total = ([], [], buffer_total)"
| "fill_iovec slice_total (b # bs) buffer_total =
     (let total = buffer_total + ab_length b
      in if total \<le> slice_total then
           if total = slice_total then ([ab_piece b], bs, total)
           else (case fill_iovec slice_total bs total of (iovs, left_bufs, t) \<Rightarrow> (ab_piece b # iovs, left_bufs, t))
         else
           (let remain = total - slice_total; len = ab_length b - remain
            in ([ab_piece (b\<lparr>ab_length := len\<rparr>)],
                b\<lparr>ab_offset := ab_offset b + len, ab_length := remain\<rparr> # bs, slice_total)))"

fun push_iovecs :: "fc_env \<Rightarrow> FSSliceSNPair list \<Rightarrow> int \<Rightarrow> AlignedReadBuffer list \<Rightarrow> int \<Rightarrow> op_world \<Rightarrow> int \<times> op_world" where
  "push_iovecs E [] slice_total bufs buffer_total w = (0, w)"
| "push_iovecs E (p # ps) slice_total bufs buffer_total w =
     (let total = slice_total + sl_length (sn_slice p)
      in case fill_iovec total bufs buffer_total of (iovs, left_bufs, bt) \<Rightarrow>
           (case trunk_write_thread_push E \<lparr>io_version = sn_version p, io_slice = sn_slice p, io_data = IO_IOVEC iovs\<rparr> w of
              (result, w1) \<Rightarrow> if result \<noteq> 0 then (result, w1) else push_iovecs E ps total left_bufs bt w1))"

definition write_iovec_array :: "fc_env \<Rightarrow> FSSliceOpContext \<Rightarrow> op_world \<Rightarrow> int \<times> op_world" where
  "write_iovec_array E c w =
     (case take_call E w of (ok, w1) \<Rightarrow>
        if \<not> ok then (ENOMEM, w1)
        else
          (let bufs = map the (oc_aio_buffers c)
           in case oc_sarray c of
                [p] \<Rightarrow> trunk_write_thread_push E
                         \<lparr>io_version = sn_version p, io_slice = sn_slice p, io_data = IO_IOVEC (map ab_piece bufs)\<rparr> w1
              | ps \<Rightarrow> push_iovecs E ps 0 bufs 0 w1))"

fun push_buffs :: "fc_env \<Rightarrow> FSSliceSNPair list \<Rightarrow> string \<Rightarrow> op_world \<Rightarrow> int \<times> op_world" where
  "push_buffs E [] buff w = (0, w)"
| "push_buffs E (p # ps) buff w =
     (case trunk_write_thread_push E \<lparr>io_version = sn_version p, io_slice = sn_slice p, io_data = IO_BUFF buff\<rparr> w of
        (result, w1) \<Rightarrow>
          if result \<noteq> 0 then (result, w1) else push_buffs E ps (drop (nat (sl_length (sn_slice p))) buff) w1)"

definition fs_slice_write :: "fc_env \<Rightarrow> int \<Rightarrow> schedule list \<Rightarrow> OBSliceEntry \<Rightarrow> FSSliceOpContext \<Rightarrow> op_world \<Rightarrow>
    (int \<times> FSSliceOpContext \<times> op_world) option" where
  "fs_slice_write E discard asched junk c w =
     (let c1 = c\<lparr>oc_done_bytes := 0, oc_space_changed := 0\<rparr>
      in case fs_slice_alloc E discard asched junk (oc_bs_key c) OB_SLICE_TYPE_FILE (is_reclaim c) (ow_ix w) of
           None \<Rightarrow> None
         | Some (result, pairs, ix) \<Rightarrow>
             (let w1 = w\<lparr>ow_ix := ix\<rparr>; c2 = c1\<lparr>oc_sarray := pairs\<rparr>
              in if result \<noteq> 0 then Some (result, c2\<lparr>oc_result := result, oc_callbacks := Suc (oc_callbacks c)\<rparr>, w1)
                 else
                   (let c3 = c2\<lparr>oc_result := 0, oc_counter := int (length pairs)\<rparr>
                    in case (if oc_buffer_type c = fs_buffer_type_array then write_iovec_array E c3 w1
                             else (case pairs of
                                     [p] \<Rightarrow> trunk_write_thread_push E
                                              \<lparr>io_version = sn_version p, io_slice = sn_slice p, io_data = IO_BUFF (oc_buff c)\<rparr> w1
                                   | _ \<Rightarrow> push_buffs E pairs (oc_buff c) w1)) of
                         (result, w2) \<Rightarrow> Some (result, c3, w2))))"

definition slice_write_done :: "OBSliceEntry \<Rightarrow> int \<Rightarrow> FSSliceOpContext \<Rightarrow> FSSliceOpContext" where
  "slice_write_done slice result c =
     (let c1 = (if result = 0 then c\<lparr>oc_done_bytes := oc_done_bytes c + sl_length slice\<rparr> else c\<lparr>oc_result := result\<rparr>);
          c2 = c1\<lparr>oc_counter := oc_counter c1 - 1\<rparr>
      in if oc_counter c2 = 0 then c2\<lparr>oc_callbacks := Suc (oc_callbacks c2)\<rparr> else c2)"

text \<open>Entering slices into the index: \<open>scheds i\<close> are the wake-ups of the wait for the \<open>i\<close>-th one.\<close>

fun add_pairs :: "fc_env \<Rightarrow> (nat \<Rightarrow> (ob_index \<Rightarrow> ob_index) list) \<Rightarrow> bool \<Rightarrow> nat \<Rightarrow> FSSliceSNPair list \<Rightarrow> ob_index \<Rightarrow>
    (int \<times> FSSliceSNPair list \<times> int \<times> ob_index) option" where
  "add_pairs E scheds reclaim i [] st = Some (0, [], 0, st)"
| "add_pairs E scheds reclaim i (p # ps) st =
     (case ob_index_add_slice_ex E (scheds i) (sn_slice p) True reclaim st of
        None \<Rightarrow> None
      | Some (result, sn, inc, st1) \<Rightarrow>
          if result \<noteq> 0 then Some (result, p # ps, 0, st1)
          else
            (case add_pairs E scheds reclaim (Suc i) ps st1 of
               None \<Rightarrow> None
             | Some (result, qs, incs, st2) \<Rightarrow>
                 Some (result, p\<lparr>sn_sn := (case sn of None \<Rightarrow> sn_sn p | Some n \<Rightarrow> n)\<rparr> # qs, inc + incs, st2)))"

definition fs_write_finish :: "fc_env \<Rightarrow> (nat \<Rightarrow> (ob_index \<Rightarrow> ob_index) list) \<Rightarrow> int list \<Rightarrow> FSSliceOpContext \<Rightarrow> op_world \<Rightarrow>
    (FSSliceOpContext \<times> op_world) option" where
  "fs_write_finish E scheds interf c w =
     (if oc_result c \<noteq> 0 then Some (free_slice_array c w)
      else
        (case add_pairs E scheds (is_reclaim c) 0 (oc_sarray c) (ow_ix w) of
           None \<Rightarrow> None
         | Some (result, pairs, inc, ix) \<Rightarrow>
             (let c1 = c\<lparr>oc_sarray := pairs, oc_space_changed := oc_space_changed c + inc, oc_result := result\<rparr>; w1 = w\<lparr>ow_ix := ix\<rparr>
              in if result = 0 then Some (set_data_version interf c1 w1) else Some (free_slice_array c1 w1))))"

section \<open>Logging\<close>

text \<open>One record for each slice; the block key is read through \<open>slice->ob\<close>.\<close>

fun log_pairs :: "log_env \<Rightarrow> int \<Rightarrow> int \<Rightarrow> char \<Rightarrow> FSSliceSNPair list \<Rightarrow> ob_index \<Rightarrow> binlogs \<Rightarrow> int \<times> binlogs" where
  "log_pairs L now dv source [] ix b = (0, b)"
| "log_pairs L now dv source (p # ps) ix b =
     (case ob_deref ix (sl_ob (sn_slice p)) of
        None \<Rightarrow> (FAULT, b)
      | Some ob \<Rightarrow>
          (case slice_binlog_log_add_slice L (ob_bkey ob) (sn_slice p) now (sn_sn p) dv source b of (result, b1) \<Rightarrow>
             if result \<noteq> 0 then (result, b1) else log_pairs L now dv source ps ix b1))"

definition fs_log_slice_write :: "log_env \<Rightarrow> FSSliceOpContext \<Rightarrow> op_world \<Rightarrow> int \<times> FSSliceOpContext \<times> op_world" where
  "fs_log_slice_write L c w =
     (case log_pairs L (ow_now w) (oc_data_version c) (oc_source c) (oc_sarray c) (ow_ix w) (ow_logs w) of (result, b) \<Rightarrow>
        (case (if result = 0 \<and> oc_log_replica c
               then replica_binlog_log_slice L (ow_now w) (oc_data_group_id c) (oc_data_version c) (oc_bs_key c) (oc_source c)
                      BINLOG_OP_TYPE_WRITE_SLICE b
               else (result, b)) of (result, b1) \<Rightarrow>
           (case free_slice_array c (w\<lparr>ow_logs := b1\<rparr>) of (c1, w1) \<Rightarrow> (result, c1, w1))))"

section \<open>Allocating\<close>

text \<open>The loop over the slices found: the holes before them, the end of the last one; each slice is released.\<close>

fun hole_scan :: "OBSliceEntry list \<Rightarrow> int \<Rightarrow> slice_heap \<Rightarrow> FSSliceSize list \<times> int \<times> slice_heap" where
  "hole_scan [] offset h = ([], offset, h)"
| "hole_scan (s # ss) offset h =
     (let hole_len = sl_offset s - offset
      in case hole_scan ss (sl_end s) (ob_index_free_slice s h) of (holes, e, h1) \<Rightarrow>
           ((if hole_len > 0 then [\<lparr>ss_offset = offset, ss_length = hole_len\<rparr>] else []) @ holes, e, h1))"

definition get_slice_index_holes :: "fc_env \<Rightarrow> (ob_index \<Rightarrow> ob_index) list \<Rightarrow> nat \<Rightarrow> FSSliceOpContext \<Rightarrow> op_world \<Rightarrow>
    (int \<times> FSSliceSize list \<times> nat \<times> FSSliceOpContext \<times> op_world) option" where
  "get_slice_index_holes E sched max_size c w =
     (case ob_index_get_slices_ex E sched (oc_bs_key c) (oc_slice_ptr_array c) (is_reclaim c) (ow_ix w) of
        None \<Rightarrow> None
      | Some (result, arr, ix) \<Rightarrow>
          (let c1 = c\<lparr>oc_slice_ptr_array := arr\<rparr>; key = bs_slice (oc_bs_key c)
           in if result = ENOENT then Some (0, [key], 1, c1, w\<lparr>ow_ix := ix\<rparr>)
              else if result \<noteq> 0 then Some (result, [], 0, c1, w\<lparr>ow_ix := ix\<rparr>)
              else
                (case hole_scan (pa_slices arr) (ss_offset key) (ix_heap ix) of (holes, offset, h) \<Rightarrow>
                   (let all = holes @ (if offset < ss_offset key + ss_length key
                                       then [\<lparr>ss_offset = offset, ss_length = ss_offset key + ss_length key - offset\<rparr>] else [])
                    in Some (if length all \<le> max_size then 0 else - ENOSPC, take max_size all, length all, c1,
                             w\<lparr>ow_ix := ix\<lparr>ix_heap := h\<rparr>\<rparr>)))))"

text \<open>The second and later attempts, each with a larger array; an element of \<open>scheds\<close> for each of them.\<close>

fun holes_retry :: "fc_env \<Rightarrow> (ob_index \<Rightarrow> ob_index) list list \<Rightarrow> nat \<Rightarrow> FSSliceOpContext \<Rightarrow> op_world \<Rightarrow>
    (int \<times> FSSliceSize list \<times> FSSliceOpContext \<times> op_world) option" where
  "holes_retry E [] n c w = None"
| "holes_retry E (sched # scheds) n c w =
     (case take_call E w of (ok, w1) \<Rightarrow>
        if \<not> ok then Some (ENOMEM, [], c, w1)
        else
          (case get_slice_index_holes E sched (n + nat FS_SLICE_SN_PARRAY_INIT_ALLOC_COUNT) c w1 of
             None \<Rightarrow> None
           | Some (result, holes, n2, c2, w2) \<Rightarrow>
               if result = 0 then Some (0, holes, c2, w2)
               else if result \<noteq> - ENOSPC then Some (result, [], c2, w2)
               else holes_retry E scheds n2 c2 w2))"

fun alloc_holes :: "fc_env \<Rightarrow> int \<Rightarrow> (nat \<Rightarrow> schedule list) \<Rightarrow> OBSliceEntry \<Rightarrow> FSBlockKey \<Rightarrow> nat \<Rightarrow> FSSliceSize list \<Rightarrow>
    ob_index \<Rightarrow> (int \<times> FSSliceSNPair list \<times> ob_index) option" where
  "alloc_holes E discard ascheds junk bkey k [] st = Some (0, [], st)"
| "alloc_holes E discard ascheds junk bkey k (h # hs) st =
     (case fs_slice_alloc E discard (ascheds k) junk \<lparr>bs_block = bkey, bs_slice = h\<rparr> OB_SLICE_TYPE_ALLOC False st of
        None \<Rightarrow> None
      | Some (result, ps, st1) \<Rightarrow>
          if result \<noteq> 0 then Some (result, [], st1)
          else
            (case alloc_holes E discard ascheds junk bkey (Suc k) hs st1 of
               None \<Rightarrow> None
             | Some (result, qs, st2) \<Rightarrow> Some (result, ps @ qs, st2)))"

definition fs_slice_allocate :: "fc_env \<Rightarrow> int \<Rightarrow> (nat \<Rightarrow> schedule list) \<Rightarrow> (ob_index \<Rightarrow> ob_index) list list \<Rightarrow>
    (nat \<Rightarrow> (ob_index \<Rightarrow> ob_index) list) \<Rightarrow> int list \<Rightarrow> OBSliceEntry \<Rightarrow> FSSliceOpContext \<Rightarrow> op_world \<Rightarrow>
    (int \<times> FSSliceOpContext \<times> op_world) option" where
  "fs_slice_allocate E discard ascheds gscheds scheds interf junk c0 w0 =
     (let c = c0\<lparr>oc_sarray := [], oc_space_changed := 0\<rparr>
      in case (case get_slice_index_holes E (case gscheds of [] \<Rightarrow> [] | g # _ \<Rightarrow> g) FS_SLICE_HOLES_FIXED_COUNT c w0 of
                 None \<Rightarrow> None
               | Some (result, holes, n, c1, w1) \<Rightarrow>
                   if result = - ENOSPC then holes_retry E (tl gscheds) n c1 w1 else Some (result, holes, c1, w1)) of
           None \<Rightarrow> None
         | Some (result, holes, c1, w1) \<Rightarrow>
             if result \<noteq> 0 then Some (result, c1, w1)
             else
               (case (if oc_sarray_alloc c1 < int (length holes) * FS_MAX_SPLIT_COUNT_PER_SPACE_ALLOC
                      then realloc_slice_sn_pairs E (int (length holes) * FS_MAX_SPLIT_COUNT_PER_SPACE_ALLOC) c1 w1
                      else (0, c1, w1)) of (result, c2, w2) \<Rightarrow>
                  if result \<noteq> 0 then Some (result, c2, w2)
                  else
                    (case alloc_holes E discard ascheds junk (bs_block (oc_bs_key c2)) 0 holes (ow_ix w2) of
                       None \<Rightarrow> None
                     | Some (result, pairs, ix) \<Rightarrow>
                         (let c3 = c2\<lparr>oc_sarray := pairs\<rparr>; w3 = w2\<lparr>ow_ix := ix\<rparr>
                          in if result \<noteq> 0 then Some (result, c3, w3)
                             else
                               (case add_pairs E scheds (is_reclaim c3) 0 pairs ix of
                                  None \<Rightarrow> None
                                | Some (result, pairs, inc, ix) \<Rightarrow>
                                    (let c4 = c3\<lparr>oc_sarray := pairs, oc_space_changed := inc\<rparr>; w4 = w3\<lparr>ow_ix := ix\<rparr>
                                     in if result = 0 then (case set_data_version interf c4 w4 of (c5, w5) \<Rightarrow> Some (0, c5, w5))
                                        else (case free_slice_array c4 w4 of (c5, w5) \<Rightarrow> Some (result, c5, w5))))))))"

text \<open>Here each slice is released as soon as it is logged; an error leaves the others referenced.\<close>

fun log_free_pairs :: "log_env \<Rightarrow> int \<Rightarrow> int \<Rightarrow> char \<Rightarrow> FSSliceSNPair list \<Rightarrow> ob_index \<Rightarrow> binlogs \<Rightarrow> int \<times> ob_index \<times> binlogs" where
  "log_free_pairs L now dv source [] ix b = (0, ix, b)"
| "log_free_pairs L now dv source (p # ps) ix b =
     (case ob_deref ix (sl_ob (sn_slice p)) of
        None \<Rightarrow> (FAULT, ix, b)
      | Some ob \<Rightarrow>
          (case slice_binlog_log_add_slice L (ob_bkey ob) (sn_slice p) now (sn_sn p) dv source b of (result, b1) \<Rightarrow>
             if result \<noteq> 0 then (result, ix, b1)
             else log_free_pairs L now dv source ps (ix\<lparr>ix_heap := ob_index_free_slice (sn_slice p) (ix_heap ix)\<rparr>) b1))"

definition fs_log_slice_allocate :: "fc_env \<Rightarrow> log_env \<Rightarrow> FSSliceOpContext \<Rightarrow> op_world \<Rightarrow> int \<times> FSSliceOpContext \<times> op_world" where
  "fs_log_slice_allocate E L c w =
     (case log_free_pairs L (ow_now w) (oc_data_version c) (oc_source c) (oc_sarray c) (ow_ix w) (ow_logs w) of (result, ix, b) \<Rightarrow>
        (let w1 = w\<lparr>ow_ix := ix, ow_logs := b\<rparr>
         in if result \<noteq> 0 then (result, c, w1)
            else
              (case (if oc_log_replica c
                     then replica_binlog_log_slice L (ow_now w) (oc_data_group_id c) (oc_data_version c) (oc_bs_key c) (oc_source c)
                            BINLOG_OP_TYPE_ALLOC_SLICE b
                     else (0, b)) of (result, b1) \<Rightarrow>
                 (let w2 = w1\<lparr>ow_logs := b1\<rparr>
                  in if result \<noteq> 0 then (result, c, w2)
                     else if oc_sarray_alloc c > FS_SLICE_SN_PARRAY_INIT_ALLOC_COUNT
                     then (0, snd (realloc_slice_sn_pairs E FS_SLICE_SN_PARRAY_INIT_ALLOC_COUNT c w2))
                     else (0, c, w2)))))"

section \<open>Reading\<close>

definition do_read_done :: "OBSliceEntry \<Rightarrow> int \<Rightarrow> FSSliceOpContext \<Rightarrow> op_world \<Rightarrow> FSSliceOpContext \<times> op_world" where
  "do_read_done slice result c w =
     (let c1 = (if result = 0 then c\<lparr>oc_done_bytes := oc_done_bytes c + sl_length slice\<rparr> else c\<lparr>oc_result := result\<rparr>);
          w1 = w\<lparr>ow_ix := (ow_ix w)\<lparr>ix_heap := ob_index_free_slice slice (ix_heap (ow_ix w))\<rparr>\<rparr>;
          c2 = c1\<lparr>oc_counter := oc_counter c1 - 1\<rparr>
      in (if oc_counter c2 = 0 then c2\<lparr>oc_callbacks := Suc (oc_callbacks c2)\<rparr> else c2, w1))"

function double_until :: "int \<Rightarrow> int \<Rightarrow> int" where
  "double_until n target = (if 0 < n \<and> n < target then double_until (n * 2) target else n)"
  by pat_completeness auto
termination
  by (relation "measure (\<lambda>(n, target). nat (target - n))") auto

declare double_until.simps [simp del]

definition check_realloc_buffer_ptr_array :: "fc_env \<Rightarrow> int \<Rightarrow> FSSliceOpContext \<Rightarrow> op_world \<Rightarrow>
    int \<times> FSSliceOpContext \<times> op_world" where
  "check_realloc_buffer_ptr_array E target_size c w =
     (if oc_aio_alloc c \<ge> target_size then (0, c, w)
      else
        (let new_alloc = double_until (if oc_aio_alloc c = 0 then 256 else oc_aio_alloc c * 2) target_size
         in case take_call E w of (ok, w1) \<Rightarrow>
              if \<not> ok then (ENOMEM, c, w1) else (0, c\<lparr>oc_aio_alloc := new_alloc\<rparr>, w1)))"

definition add_zero_aligned_buffer :: "fc_env \<Rightarrow> int \<Rightarrow> FSSliceOpContext \<Rightarrow> op_world \<Rightarrow> int \<times> FSSliceOpContext \<times> op_world" where
  "add_zero_aligned_buffer E len c w =
     (case take_call E w of (ok, w1) \<Rightarrow>
        if \<not> ok then (ENOMEM, c, w1)
        else (0, c\<lparr>oc_aio_buffers := oc_aio_buffers c @
                      [Some \<lparr>ab_buff = replicate (nat len) (CHR 0x00), ab_offset = 0, ab_length = len\<rparr>]\<rparr>, w1))"

definition trunk_read_thread_push :: "fc_env \<Rightarrow> OBSliceEntry \<Rightarrow> nat \<Rightarrow> op_world \<Rightarrow> int \<times> op_world" where
  "trunk_read_thread_push E slice i w =
     (case take_call E w of (ok, w1) \<Rightarrow> if \<not> ok then (ENOMEM, w1) else (0, w1\<lparr>ow_reads := ow_reads w @ [(slice, i)]\<rparr>))"

fun read_loop :: "fc_env \<Rightarrow> OBSliceEntry list \<Rightarrow> int \<Rightarrow> FSSliceOpContext \<Rightarrow> op_world \<Rightarrow> int \<times> FSSliceOpContext \<times> op_world" where
  "read_loop E [] offset c w = (0, c, w)"
| "read_loop E (s # ss) offset c w =
     (let hole_len = sl_offset s - offset
      in case (if hole_len > 0 then add_zero_aligned_buffer E hole_len c w else (0, c, w)) of (result, c1, w1) \<Rightarrow>
           if result \<noteq> 0 then (result, c1, w1)
           else
             (let c2 = (if hole_len > 0 then c1\<lparr>oc_done_bytes := oc_done_bytes c1 + hole_len\<rparr> else c1)
              in if sl_type s = OB_SLICE_TYPE_ALLOC then
                   (case add_zero_aligned_buffer E (sl_length s) c2 w1 of (result, c3, w3) \<Rightarrow>
                      if result \<noteq> 0 then (result, c3, w3)
                      else (case do_read_done s 0 c3 w3 of (c4, w4) \<Rightarrow> read_loop E ss (sl_end s) c4 w4))
                 else
                   (case trunk_read_thread_push E s (length (oc_aio_buffers c2)) w1 of (result, w3) \<Rightarrow>
                      (let c3 = c2\<lparr>oc_aio_buffers := oc_aio_buffers c2 @ [None]\<rparr>
                       in if result \<noteq> 0 then (result, c3, w3) else read_loop E ss (sl_end s) c3 w3))))"

definition fs_slice_read :: "fc_env \<Rightarrow> (ob_index \<Rightarrow> ob_index) list \<Rightarrow> FSSliceOpContext \<Rightarrow> op_world \<Rightarrow>
    (int \<times> FSSliceOpContext \<times> op_world) option" where
  "fs_slice_read E sched c w =
     (case ob_index_get_slices_ex E sched (oc_bs_key c) (oc_slice_ptr_array c) (is_reclaim c) (ow_ix w) of
        None \<Rightarrow> None
      | Some (result, arr, ix) \<Rightarrow>
          (let c1 = c\<lparr>oc_slice_ptr_array := arr\<rparr>; w1 = w\<lparr>ow_ix := ix\<rparr>
           in if result \<noteq> 0 then Some (result, c1, w1)
              else
                (case check_realloc_buffer_ptr_array E (int (length (pa_slices arr)) * 2) c1 w1 of (result, c2, w2) \<Rightarrow>
                   if result \<noteq> 0 then Some (result, c2, w2)
                   else Some (read_loop E (pa_slices arr) (ss_offset (bs_slice (oc_bs_key c)))
                          (c2\<lparr>oc_result := 0, oc_done_bytes := 0, oc_counter := int (length (pa_slices arr)), oc_aio_buffers := []\<rparr>) w2))))"

section \<open>Deleting\<close>

definition fs_delete_slices :: "fc_env \<Rightarrow> (ob_index \<Rightarrow> ob_index) list \<Rightarrow> int list \<Rightarrow> FSSliceOpContext \<Rightarrow> op_world \<Rightarrow>
    (int \<times> FSSliceOpContext \<times> op_world) option" where
  "fs_delete_slices E sched interf c w =
     (case ob_index_delete_slices_ex E sched (oc_bs_key c) True (is_reclaim c) (ow_ix w) of
        None \<Rightarrow> None
      | Some (result, sn, dec, ix) \<Rightarrow>
          (let c1 = c\<lparr>oc_space_changed := dec, oc_sn := (case sn of None \<Rightarrow> oc_sn c | Some n \<Rightarrow> n)\<rparr>; w1 = w\<lparr>ow_ix := ix\<rparr>
           in if result = 0 then (case set_data_version interf c1 w1 of (c2, w2) \<Rightarrow> Some (0, c2, w2)) else Some (result, c1, w1)))"

definition fs_log_delete_slices :: "log_env \<Rightarrow> FSSliceOpContext \<Rightarrow> op_world \<Rightarrow> int \<times> op_world" where
  "fs_log_delete_slices L c w =
     (case slice_binlog_log_del_slice L (oc_bs_key c) (ow_now w) (oc_sn c) (oc_data_version c) (oc_source c) (ow_logs w) of (result, b) \<Rightarrow>
        if result \<noteq> 0 then (result, w\<lparr>ow_logs := b\<rparr>)
        else if oc_log_replica c then
          (case replica_binlog_log_slice L (ow_now w) (oc_data_group_id c) (oc_data_version c) (oc_bs_key c) (oc_source c)
                  BINLOG_OP_TYPE_DEL_SLICE b of (result, b1) \<Rightarrow> (result, w\<lparr>ow_logs := b1\<rparr>))
        else (0, w\<lparr>ow_logs := b\<rparr>))"

definition fs_delete_block :: "fc_env \<Rightarrow> (ob_index \<Rightarrow> ob_index) list \<Rightarrow> int list \<Rightarrow> FSSliceOpContext \<Rightarrow> op_world \<Rightarrow>
    (int \<times> FSSliceOpContext \<times> op_world) option" where
  "fs_delete_block E sched interf c w =
     (case ob_index_delete_block_ex E sched (bs_block (oc_bs_key c)) True (is_reclaim c) (ow_ix w) of
        None \<Rightarrow> None
      | Some (result, sn, dec, ix) \<Rightarrow>
          (let c1 = c\<lparr>oc_space_changed := dec, oc_sn := (case sn of None \<Rightarrow> oc_sn c | Some n \<Rightarrow> n)\<rparr>; w1 = w\<lparr>ow_ix := ix\<rparr>
           in if result = 0 then (case set_data_version interf c1 w1 of (c2, w2) \<Rightarrow> Some (0, c2, w2)) else Some (result, c1, w1)))"

definition fs_log_delete_block :: "log_env \<Rightarrow> FSSliceOpContext \<Rightarrow> op_world \<Rightarrow> int \<times> op_world" where
  "fs_log_delete_block L c w =
     (case slice_binlog_log_del_block L (bs_block (oc_bs_key c)) (ow_now w) (oc_sn c) (oc_data_version c) (oc_source c) (ow_logs w) of
        (result, b) \<Rightarrow>
          if result \<noteq> 0 then (result, w\<lparr>ow_logs := b\<rparr>)
          else if oc_log_replica c then
            (case replica_binlog_log_block L (ow_now w) (oc_data_group_id c) (oc_data_version c) (bs_block (oc_bs_key c)) (oc_source c)
                    BINLOG_OP_TYPE_DEL_BLOCK b of (result, b1) \<Rightarrow> (result, w\<lparr>ow_logs := b1\<rparr>))
          else (0, w\<lparr>ow_logs := b\<rparr>))"

end
