(* ===== verification/Slice_Op_Facts.thy ===== *)
theory Slice_Op_Facts
  imports Slice_Op
begin

text \<open>
  Facts on the slice operations: the holes of a range, slices that tile a range, the distribution of the
  data over the slices, and the buffers of a read.
\<close>

section \<open>Holes\<close>

lemma hole_scan_ok:
  assumes "block_ok ss" "\<forall>s\<in>set ss. offset \<le> sl_offset s" "hole_scan ss offset h = (holes, e, h')"
  shows "h' = fold ob_index_free_slice ss h \<and> offset \<le> e \<and> (\<forall>s\<in>set ss. sl_end s \<le> e) \<and>
    (\<forall>x\<in>set holes. 0 < ss_length x \<and> offset \<le> ss_offset x \<and> ss_offset x + ss_length x \<le> e) \<and>
    sorted_wrt (\<lambda>a b. ss_offset a + ss_length a \<le> ss_offset b) holes \<and>
    (\<Union>x\<in>set holes. ssize_range x) = {offset..<e} - covered ss"
  using assms
proof (induction ss arbitrary: offset h holes e)
  case (Cons s ss)
  obtain hs where r: "hole_scan ss (sl_end s) (ob_index_free_slice s h) = (hs, e, h')"
    and holes: "holes = (if sl_offset s - offset > 0 then [\<lparr>ss_offset = offset, ss_length = sl_offset s - offset\<rparr>] else []) @ hs"
    using Cons.prems(3) by (auto simp: Let_def split: prod.splits)
  have ok: "block_ok ss" "0 < sl_length s" "\<forall>t\<in>set ss. sl_end s \<le> sl_offset t"
    using Cons.prems(1) by (auto simp: block_ok_Cons)
  note ih = Cons.IH [OF ok(1,3) r]
  have off: "offset \<le> sl_offset s" using Cons.prems(2) by simp
  have cov: "covered (s # ss) = slice_range s \<union> covered ss" "covered ss \<subseteq> {sl_end s..}"
    using ok(3) by (auto simp: covered_def)
  have "{offset..<e} - covered (s # ss) = {offset..<sl_offset s} \<union> ({sl_end s..<e} - covered ss)"
    using cov off ok(2) ih by (auto simp: ssize_range_def)
  moreover have "(\<Union>x\<in>set holes. ssize_range x) = {offset..<sl_offset s} \<union> (\<Union>x\<in>set hs. ssize_range x)"
    unfolding holes by (auto simp: ssize_range_def)
  ultimately have "(\<Union>x\<in>set holes. ssize_range x) = {offset..<e} - covered (s # ss)" using ih by simp
  moreover have "sorted_wrt (\<lambda>a b. ss_offset a + ss_length a \<le> ss_offset b) holes"
    unfolding holes using ih off ok(2) by (auto intro: order_trans [of _ "sl_end s"])
  moreover have "\<forall>x\<in>set holes. 0 < ss_length x \<and> offset \<le> ss_offset x \<and> ss_offset x + ss_length x \<le> e"
    unfolding holes using ih off ok(2) by fastforce
  ultimately show ?case using ih off ok(2) by auto
qed auto

lemma hole_scan_heap: "hole_scan ss offset h = (holes, e, h') \<Longrightarrow> h' = fold ob_index_free_slice ss h"
  by (induction ss arbitrary: offset h holes) (auto simp: Let_def split: prod.splits)

text \<open>The holes of a range are its bytes that no slice of the block covers.\<close>

definition holes_of :: "int set \<Rightarrow> FSSliceSize \<Rightarrow> FSSliceSize list \<Rightarrow> bool" where
  "holes_of D key holes \<longleftrightarrow> (\<forall>x\<in>set holes. 0 < ss_length x) \<and>
     sorted_wrt (\<lambda>a b. ss_offset a + ss_length a \<le> ss_offset b) holes \<and>
     (\<Union>x\<in>set holes. ssize_range x) = ssize_range key - D"

lemma hole_scan_holes:
  assumes "block_ok ss" "covered ss \<subseteq> ssize_range key" "hole_scan ss (ss_offset key) h = (holes, e, h')" "0 < ss_length key"
  shows "holes_of (covered ss) key (holes @ (if e < ss_offset key + ss_length key
    then [\<lparr>ss_offset = e, ss_length = ss_offset key + ss_length key - e\<rparr>] else []))"
proof -
  have s: "ss_offset key \<le> sl_offset s \<and> sl_end s \<le> ss_offset key + ss_length key" if "s \<in> set ss" for s
  proof -
    have "0 < sl_length s" using assms(1) that by (auto simp: block_ok_def)
    then have "sl_offset s \<in> covered ss" "sl_end s - 1 \<in> covered ss" using that by (auto simp: covered_def intro!: bexI [of _ s])
    then show ?thesis using assms(2) by auto
  qed
  note hs = hole_scan_ok [OF assms(1) _ assms(3)]
  have e: "e \<le> ss_offset key + ss_length key"
  proof (cases "ss = []")
    case True
    then show ?thesis using assms(3,4) by simp
  next
    case False
    have "e = sl_end (last ss)" if "hole_scan ss off h = (holes, e, h')" "ss \<noteq> []" for off h holes e h'
      using that by (induction ss arbitrary: off h holes) (auto simp: Let_def split: prod.splits if_splits)
    then have "e = sl_end (last ss)" using assms(3) False by blast
    then show ?thesis using s [of "last ss"] False by simp
  qed
  have cov: "covered ss \<subseteq> {..<e}" using hs s by (auto simp: covered_def)
  let ?tl = "if e < ss_offset key + ss_length key then [\<lparr>ss_offset = e, ss_length = ss_offset key + ss_length key - e\<rparr>] else []"
  have "(\<Union>x\<in>set (holes @ ?tl). ssize_range x) = (\<Union>x\<in>set holes. ssize_range x) \<union> {e..<ss_offset key + ss_length key}"
    using e by (auto simp: ssize_range_def)
  also have "\<dots> = ssize_range key - covered ss"
    using hs s e cov by (auto simp: ssize_range_def)
  finally have "(\<Union>x\<in>set (holes @ ?tl). ssize_range x) = ssize_range key - covered ss" .
  moreover have "sorted_wrt (\<lambda>a b. ss_offset a + ss_length a \<le> ss_offset b) (holes @ ?tl)"
    using hs s by (auto simp: sorted_wrt_append)
  ultimately show ?thesis using hs s by (auto simp: holes_of_def)
qed

lemma index_ok_free_all:
  assumes "index_ok E (taken X ts) st" "\<And>p. 0 \<le> X p"
  shows "index_ok E X (st\<lparr>ix_heap := fold ob_index_free_slice ts (ix_heap st)\<rparr>)"
proof -
  have same: "all_slices (st\<lparr>ix_heap := h\<rparr>) = all_slices st" "table_ok E (st\<lparr>ix_heap := h\<rparr>) = table_ok E st" for h
    by (simp_all add: all_slices_def entries_def table_ok_def)
  show ?thesis
    using assms heap_holds_free_all [of "ix_heap st" X ts "ptrs (all_slices st)"] by (simp add: index_ok_def same)
qed

lemma byte_map_heap [simp]: "byte_map (st\<lparr>ix_heap := h\<rparr>) = byte_map st"
  by (simp add: byte_map_def tab_def entries_def fun_eq_iff)

lemma byte_map_mgr [simp]: "byte_map (st\<lparr>ix_mgr := m\<rparr>) = byte_map st"
  by (simp add: byte_map_def tab_def entries_def fun_eq_iff)

lemma covered_dom: "covered ss = dom (block_map ss)"
  by (simp add: dom_block_map)

context fastcommon
begin

text \<open>A lookup that finds nothing leaves the index as it is.\<close>

lemma get_ex_none:
  assumes ok: "index_ok E X st" and k: "key_ok (bs_block key)" and len: "0 < ss_length (bs_slice key)"
    and nw: "reclaim \<or> (\<forall>ob. tab st (block_id (bs_block key)) = Some ob \<longrightarrow> ob_reclaiming_count ob \<le> 0)"
    and run: "ob_index_get_slices_ex E sched key arr0 reclaim st = Some (ENOENT, arr, st')"
  shows "index_ok E X st' \<and> byte_map st' = byte_map st \<and>
    dom (byte_map st (block_id (bs_block key))) \<inter> ssize_range (bs_slice key) = {}"
proof (cases "tab st (block_id (bs_block key))")
  case None
  have tok: "table_ok E st" using ok by (simp add: index_ok_def)
  show ?thesis
    using run get_ob_entry_none [OF tok k None] None ok by (simp add: ob_index_get_slices_ex_def byte_map_def)
next
  case (Some ob)
  have tok: "table_ok E st" using ok by (simp add: index_ok_def)
  with k Some nw run obtain ah h where
    a: "get_slices E (ob_slices ob) (bs_slice key) (arr0\<lparr>pa_slices := []\<rparr>, ix_heap st) = (ENOENT, ah)"
    and ah: "(arr, h) = (if ENOENT \<noteq> 0 \<and> pa_slices (fst ah) \<noteq> [] then free_slices ah else ah)"
    and st': "st' = st\<lparr>ix_heap := h\<rparr>" by (metis get_ex_cases)
  have e: "ob \<in> set (entries st)" "block_id (ob_bkey ob) = block_id (bs_block key)" using Some tab_Some [OF tok] by auto
  note fo = index_focus [OF ok e(1)]
  have P: "ptrs (ob_slices ob) \<subseteq> ptrs (all_slices st)" using fo(8) by simp
  from get_slices_cases [OF fo(4) len P a] obtain ts where
    ts: "got (ptrs (all_slices st)) (arr0\<lparr>pa_slices := []\<rparr>, ix_heap st) ts ah" "pa_slices (fst ah) = []"
    by (auto split: if_splits)
  then have "ts = []" by (simp add: got_def)
  with ts have "heap_holds h X (ptrs (all_slices st))" using ok ah by (auto simp: got_def index_ok_def)
  moreover have "ix_ht st' = ix_ht st" by (simp add: st')
  note same = same_table [OF this]
  moreover have "covered (ob_slices ob) \<inter> ssize_range (bs_slice key) = {}"
    using get_slices_map [OF fo(4) len, of "arr0\<lparr>pa_slices := []\<rparr>" "ix_heap st" ENOENT "fst ah" "snd ah"] a
    by (auto split: if_splits)
  moreover have "byte_map st (block_id (bs_block key)) = block_map (ob_slices ob)"
    using byte_map_at(2) [OF tok e(1)] e(2) by simp
  ultimately show ?thesis using ok st' by (simp add: index_ok_def dom_block_map)
qed

lemma get_ex_result:
  assumes ok: "table_ok E st" and k: "key_ok (bs_block key)" and len: "0 < ss_length (bs_slice key)"
    and nw: "reclaim \<or> (\<forall>ob. tab st (block_id (bs_block key)) = Some ob \<longrightarrow> ob_reclaiming_count ob \<le> 0)"
    and run: "ob_index_get_slices_ex E sched key arr0 reclaim st = Some (r, arr, st')"
  shows "r = ENOENT \<or> r = ENOMEM \<or> (r = 0 \<and> (\<exists>ob. tab st (block_id (bs_block key)) = Some ob \<and> (reclaim \<or> ob_reclaiming_count ob \<le> 0)))"
proof (cases "tab st (block_id (bs_block key))")
  case None
  then show ?thesis using run get_ob_entry_none [OF ok k None] by (simp add: ob_index_get_slices_ex_def)
next
  case (Some ob)
  with ok k nw run obtain ah where
    a: "get_slices E (ob_slices ob) (bs_slice key) (arr0\<lparr>pa_slices := []\<rparr>, ix_heap st) = (r, ah)" by (metis get_ex_cases)
  have e: "ob \<in> set (entries st)" using Some tab_Some [OF ok] by auto
  show ?thesis using get_slices_cases [OF table_entry(2) [OF ok e] len subset_refl a] Some nw by (auto split: if_splits)
qed

lemma get_holes_ok:
  assumes ok: "index_ok E X (ow_ix w)" "\<And>p. 0 \<le> X p" and k: "key_ok (bs_block (oc_bs_key c))" "0 < ss_length (bs_slice (oc_bs_key c))"
    and nw: "is_reclaim c \<or> (\<forall>ob. tab (ow_ix w) (block_id (bs_block (oc_bs_key c))) = Some ob \<longrightarrow> ob_reclaiming_count ob \<le> 0)"
    and run: "get_slice_index_holes E sched n c w = Some (r, holes, cnt, c', w')" and r: "r = 0 \<or> r = - ENOSPC" and n: "1 \<le> n"
  shows "\<exists>all. holes = take n all \<and> cnt = length all \<and> (r = 0 \<longleftrightarrow> cnt \<le> n) \<and>
      holes_of (dom (byte_map (ow_ix w) (block_id (bs_block (oc_bs_key c))))) (bs_slice (oc_bs_key c)) all \<and>
      index_ok E X (ow_ix w') \<and> byte_map (ow_ix w') = byte_map (ow_ix w)"
proof -
  let ?key = "bs_slice (oc_bs_key c)" and ?b = "block_id (bs_block (oc_bs_key c))"
  obtain r1 arr ix where g: "ob_index_get_slices_ex E sched (oc_bs_key c) (oc_slice_ptr_array c) (is_reclaim c) (ow_ix w) = Some (r1, arr, ix)"
    using run by (auto simp: get_slice_index_holes_def split: option.splits)
  show ?thesis
  proof (cases "r1 = ENOENT")
    case True
    then have f: "r = 0" "holes = [?key]" "cnt = 1" "w' = w\<lparr>ow_ix := ix\<rparr>"
      using run g by (auto simp: get_slice_index_holes_def Let_def)
    note en = get_ex_none [OF ok(1) k nw g [unfolded True]]
    then have "holes_of (dom (byte_map (ow_ix w) ?b)) ?key [?key]"
      using k(2) by (auto simp: holes_of_def)
    then show ?thesis using f en n by (intro exI [of _ "[?key]"]) auto
  next
    case False
    have tok: "table_ok E (ow_ix w)" using ok by (simp add: index_ok_def)
    from get_ex_result [OF tok k nw g] False run g r obtain ob where "r1 = 0"
      and ob: "tab (ow_ix w) ?b = Some ob" "is_reclaim c \<or> ob_reclaiming_count ob \<le> 0"
      by (auto simp: get_slice_index_holes_def Let_def)
    note g = g [unfolded this(1)]
    note mp = get_ex_map [OF tok k(1) ob k(2) g] and io = get_ex_index_ok [OF ok(1) k(1) ob k(2) g]
    obtain hs e h where sc: "hole_scan (pa_slices arr) (ss_offset ?key) (ix_heap ix) = (hs, e, h)" by (metis prod_cases3)
    let ?all = "hs @ (if e < ss_offset ?key + ss_length ?key
      then [\<lparr>ss_offset = e, ss_length = ss_offset ?key + ss_length ?key - e\<rparr>] else [])"
    have f: "r = (if length ?all \<le> n then 0 else - ENOSPC)" "holes = take n ?all" "cnt = length ?all"
      "w' = w\<lparr>ow_ix := ix\<lparr>ix_heap := h\<rparr>\<rparr>"
      using run [unfolded get_slice_index_holes_def g option.case prod.case Let_def sc] by (simp_all split: if_splits)
    have cov: "covered (pa_slices arr) = dom (byte_map (ow_ix w) ?b) \<inter> ssize_range ?key"
      using mp(2) by (simp add: covered_dom)
    then have "holes_of (covered (pa_slices arr)) ?key ?all"
      using hole_scan_holes [OF mp(1) _ sc k(2)] by simp
    then have "holes_of (dom (byte_map (ow_ix w) ?b)) ?key ?all" by (auto simp: holes_of_def cov)
    moreover have "h = fold ob_index_free_slice (pa_slices arr) (ix_heap ix)"
      using hole_scan_heap [OF sc] .
    then have "index_ok E X (ix\<lparr>ix_heap := h\<rparr>)" using index_ok_free_all [OF io ok(2)] by simp
    ultimately show ?thesis using f mp(3) by (intro exI [of _ ?all]) auto
  qed
qed

end

end
