(* ===== verification/Slice_IO.thy ===== *)
theory Slice_IO
  imports Slice_Op_Facts
begin

text \<open>
  The data of the slice operations: how the bytes of a write are distributed over its slices, what the
  disk holds after the queued writes, and what the buffers of a read hold once the read threads
  have filled them.
\<close>

section \<open>The bytes of a queued write\<close>

text \<open>A write thread writes as many bytes of the buffer as the slice is long, or the whole vector.\<close>

definition io_bytes :: "TrunkWriteIOBuffer \<Rightarrow> string" where
  "io_bytes iob = (case io_data iob of IO_BUFF b \<Rightarrow> take (nat (sl_length (io_slice iob))) b | IO_IOVEC v \<Rightarrow> concat v)"

text \<open>What the queue should get: each slice with its version and its part of the data.\<close>

fun cut_bytes :: "FSSliceSNPair list \<Rightarrow> string \<Rightarrow> (int \<times> OBSliceEntry \<times> string) list" where
  "cut_bytes [] bytes = []"
| "cut_bytes (p # ps) bytes =
     (sn_version p, sn_slice p, take (nat (sl_length (sn_slice p))) bytes) # cut_bytes ps (drop (nat (sl_length (sn_slice p))) bytes)"

definition io_view :: "TrunkWriteIOBuffer \<Rightarrow> int \<times> OBSliceEntry \<times> string" where
  "io_view iob = (io_version iob, io_slice iob, io_bytes iob)"

lemma io_view_simps [simp]:
  "io_view \<lparr>io_version = v, io_slice = s, io_data = IO_BUFF b\<rparr> = (v, s, take (nat (sl_length s)) b)"
  "io_view \<lparr>io_version = v, io_slice = s, io_data = IO_IOVEC vs\<rparr> = (v, s, concat vs)"
  by (simp_all add: io_view_def io_bytes_def)

definition buf_ok :: "AlignedReadBuffer \<Rightarrow> bool" where
  "buf_ok b \<longleftrightarrow> 0 \<le> ab_offset b \<and> 0 < ab_length b \<and> ab_offset b + ab_length b \<le> int (length (ab_buff b))"

lemma ab_piece_length: "buf_ok b \<Longrightarrow> int (length (ab_piece b)) = ab_length b"
  by (auto simp: buf_ok_def)

lemma pieces_length: "\<forall>b\<in>set bs. buf_ok b \<Longrightarrow> int (length (concat (map ab_piece bs))) = (\<Sum>b\<leftarrow>bs. ab_length b)"
  by (induction bs) (simp_all add: ab_piece_length del: length_take length_drop)

text \<open>Cutting a buffer in two keeps its bytes.\<close>

lemma ab_piece_split:
  assumes "buf_ok b" "0 < n" "n < ab_length b"
  defines "b1 \<equiv> b\<lparr>ab_length := n\<rparr>" and "b2 \<equiv> b\<lparr>ab_offset := ab_offset b + n, ab_length := ab_length b - n\<rparr>"
  shows "ab_piece b1 @ ab_piece b2 = ab_piece b" "buf_ok b1" "buf_ok b2"
proof -
  have "nat (ab_length b) = nat n + nat (ab_length b - n)" "nat (ab_offset b + n) = nat n + nat (ab_offset b)"
    using assms(1-3) by (auto simp: buf_ok_def)
  then show "ab_piece b1 @ ab_piece b2 = ab_piece b" by (simp add: b1_def b2_def take_add)
  show "buf_ok b1" "buf_ok b2" using assms(1-3) by (auto simp: buf_ok_def b1_def b2_def)
qed

lemma fill_iovec_ok:
  assumes "\<forall>b\<in>set bs. buf_ok b" "bt < tot" "tot - bt \<le> (\<Sum>b\<leftarrow>bs. ab_length b)" "fill_iovec tot bs bt = (iovs, bs', t)"
  shows "t = tot \<and> (\<forall>b\<in>set bs'. buf_ok b) \<and> int (length (concat iovs)) = tot - bt \<and>
    concat iovs @ concat (map ab_piece bs') = concat (map ab_piece bs)"
  using assms
proof (induction tot bs bt arbitrary: iovs rule: fill_iovec.induct)
  case (2 tot b bs bt)
  have b: "buf_ok b" "\<forall>b\<in>set bs. buf_ok b" using "2.prems"(1) by simp_all
  note len = ab_piece_length [OF b(1)]
  consider "bt + ab_length b = tot" | "bt + ab_length b < tot" | "tot < bt + ab_length b" by linarith
  then show ?case
  proof cases
    case 1
    then show ?thesis using "2.prems"(4) b len by (auto simp: Let_def)
  next
    case 2
    obtain iovs' where f: "fill_iovec tot bs (bt + ab_length b) = (iovs', bs', t)" "iovs = ab_piece b # iovs'"
      using "2.prems"(4) 2 by (auto simp: Let_def split: prod.splits)
    have "tot - (bt + ab_length b) \<le> (\<Sum>b\<leftarrow>bs. ab_length b)" using "2.prems"(3) by simp
    from "2.IH" [OF refl _ _ b(2) 2 this f(1)] 2 show ?thesis using len f(2) by (simp del: length_take length_drop)
  next
    case 3
    let ?n = "tot - bt"
    have n: "0 < ?n" "?n < ab_length b" using 3 "2.prems"(2) by simp_all
    note sp = ab_piece_split [OF b(1) n]
    have f: "iovs = [ab_piece (b\<lparr>ab_length := ?n\<rparr>)]" "bs' = b\<lparr>ab_offset := ab_offset b + ?n, ab_length := ab_length b - ?n\<rparr> # bs" "t = tot"
      using "2.prems"(4) 3 by (auto simp: Let_def algebra_simps)
    show ?thesis unfolding f using sp(1) [symmetric] sp(3) ab_piece_length [OF sp(2)] b(2)
      by (simp del: length_take length_drop FSBlockKey.update_convs)
  qed
qed simp

lemma push_ok:
  assumes "trunk_write_thread_push E iob w = (0, w')"
  shows "ow_writes w' = ow_writes w @ [iob]" "ow_ix w' = ow_ix w" "ow_version w' = ow_version w"
  using assms by (auto simp: trunk_write_thread_push_def take_call_def split: if_splits)

lemma push_buffs_ok:
  assumes "push_buffs E ps buff w = (0, w')"
  shows "map io_view (ow_writes w') = map io_view (ow_writes w) @ cut_bytes ps buff \<and> ow_ix w' = ow_ix w"
  using assms
proof (induction ps arbitrary: buff w)
  case (Cons p ps)
  obtain w1 where p: "trunk_write_thread_push E \<lparr>io_version = sn_version p, io_slice = sn_slice p, io_data = IO_BUFF buff\<rparr> w = (0, w1)"
    and r: "push_buffs E ps (drop (nat (sl_length (sn_slice p))) buff) w1 = (0, w')"
    using Cons.prems by (auto split: prod.splits if_splits)
  show ?case using Cons.IH [OF r] push_ok [OF p] by simp
qed simp

lemma push_iovecs_ok:
  assumes "push_iovecs E ps st bufs st w = (0, w')" "\<forall>b\<in>set bufs. buf_ok b" "\<forall>p\<in>set ps. 0 < sl_length (sn_slice p)"
    "(\<Sum>p\<leftarrow>ps. sl_length (sn_slice p)) \<le> (\<Sum>b\<leftarrow>bufs. ab_length b)"
  shows "map io_view (ow_writes w') = map io_view (ow_writes w) @ cut_bytes ps (concat (map ab_piece bufs)) \<and> ow_ix w' = ow_ix w"
  using assms
proof (induction ps arbitrary: st bufs w)
  case (Cons p ps)
  let ?len = "sl_length (sn_slice p)"
  obtain iovs bs' bt where f: "fill_iovec (st + ?len) bufs st = (iovs, bs', bt)" by (metis prod_cases3)
  obtain w1 where p: "trunk_write_thread_push E \<lparr>io_version = sn_version p, io_slice = sn_slice p, io_data = IO_IOVEC iovs\<rparr> w = (0, w1)"
    and r: "push_iovecs E ps (st + ?len) bs' bt w1 = (0, w')"
    using Cons.prems(1) f by (auto simp: Let_def split: prod.splits if_splits)
  have pos: "0 < ?len" "0 \<le> (\<Sum>p\<leftarrow>ps. sl_length (sn_slice p))"
    using Cons.prems(3) by (force intro: sum_list_nonneg)+
  have "st + ?len - st \<le> (\<Sum>b\<leftarrow>bufs. ab_length b)" "st < st + ?len" using Cons.prems(4) pos by simp_all
  from fill_iovec_ok [OF Cons.prems(2) this(2,1) f]
  have ok: "bt = st + ?len" "\<forall>b\<in>set bs'. buf_ok b" "length (concat iovs) = nat ?len"
    and c: "concat (map ab_piece bufs) = concat iovs @ concat (map ab_piece bs')" by auto
  have "int (length (concat (map ab_piece bs'))) + ?len = int (length (concat (map ab_piece bufs)))"
    unfolding c using ok(3) pos(1) by simp
  then have "(\<Sum>p\<leftarrow>ps. sl_length (sn_slice p)) \<le> (\<Sum>b\<leftarrow>bs'. ab_length b)"
    using Cons.prems(4) pieces_length [OF Cons.prems(2)] pieces_length [OF ok(2)] by simp
  from Cons.IH [OF r [unfolded ok(1)] ok(2) _ this] Cons.prems(3)
  have "map io_view (ow_writes w') = map io_view (ow_writes w1) @ cut_bytes ps (concat (map ab_piece bs')) \<and> ow_ix w' = ow_ix w1" by simp
  moreover have "cut_bytes (p # ps) (concat (map ab_piece bufs)) = (sn_version p, sn_slice p, concat iovs) # cut_bytes ps (concat (map ab_piece bs'))"
    unfolding c using ok(3) by (simp del: length_concat)
  ultimately show ?case using push_ok [OF p] by (simp del: cut_bytes.simps)
qed simp

section \<open>The disk\<close>

type_synonym disk = "nat \<times> FSTrunkIdInfo \<times> int \<Rightarrow> char"

text \<open>Writing bytes at the place of a slice, and the bytes at that place.\<close>

definition disk_write :: "OBSliceEntry \<Rightarrow> string \<Rightarrow> disk \<Rightarrow> disk" where
  "disk_write s bytes d = (\<lambda>(st, tid, x).
     if st = ts_store (sl_space s) \<and> tid = ts_id_info (sl_space s) \<and>
        ts_offset (sl_space s) \<le> x \<and> x < ts_offset (sl_space s) + int (length bytes)
     then bytes ! nat (x - ts_offset (sl_space s)) else d (st, tid, x))"

definition slice_bytes :: "disk \<Rightarrow> OBSliceEntry \<Rightarrow> string" where
  "slice_bytes d s = map (\<lambda>x. d (ts_store (sl_space s), ts_id_info (sl_space s), ts_offset (sl_space s) + (x - sl_offset s)))
     [sl_offset s..sl_end s - 1]"

text \<open>The byte at offset \<open>x\<close> of a block with the byte map \<open>m\<close>: a hole or allocated space reads as zero.\<close>

definition content :: "disk \<Rightarrow> (int \<Rightarrow> (OBSliceType \<times> nat \<times> FSTrunkIdInfo \<times> int) option) \<Rightarrow> int \<Rightarrow> char" where
  "content d m x = (case m x of Some (OB_SLICE_TYPE_FILE, st, tid, y) \<Rightarrow> d (st, tid, y) | _ \<Rightarrow> CHR 0x00)"

section \<open>The buffers of a read\<close>

text \<open>What the loop of a read produces: zeros of some length, or a slice to be read.\<close>

fun read_plan :: "OBSliceEntry list \<Rightarrow> int \<Rightarrow> (int + OBSliceEntry) list" where
  "read_plan [] offset = []"
| "read_plan (s # ss) offset = (if 0 < sl_offset s - offset then [Inl (sl_offset s - offset)] else []) @
     (if sl_type s = OB_SLICE_TYPE_ALLOC then Inl (sl_length s) else Inr s) # read_plan ss (sl_end s)"

definition item_bytes :: "disk \<Rightarrow> int + OBSliceEntry \<Rightarrow> string" where
  "item_bytes d x = (case x of Inl n \<Rightarrow> replicate (nat n) (CHR 0x00) | Inr s \<Rightarrow> slice_bytes d s)"

definition item_buf :: "int + OBSliceEntry \<Rightarrow> AlignedReadBuffer option" where
  "item_buf x = (case x of Inl n \<Rightarrow> Some \<lparr>ab_buff = replicate (nat n) (CHR 0x00), ab_offset = 0, ab_length = n\<rparr> | Inr s \<Rightarrow> None)"

fun item_reads :: "nat \<Rightarrow> (int + OBSliceEntry) list \<Rightarrow> (OBSliceEntry \<times> nat) list" where
  "item_reads n [] = []"
| "item_reads n (x # xs) = (case x of Inl _ \<Rightarrow> [] | Inr s \<Rightarrow> [(s, n)]) @ item_reads (Suc n) xs"

lemma item_reads_append: "item_reads n (xs @ ys) = item_reads n xs @ item_reads (n + length xs) ys"
  by (induction xs arbitrary: n) auto

lemma add_zero_ok:
  assumes "add_zero_aligned_buffer E n c w = (0, c', w')"
  shows "oc_aio_buffers c' = oc_aio_buffers c @ [item_buf (Inl n)]" "ow_reads w' = ow_reads w"
  using assms by (auto simp: add_zero_aligned_buffer_def take_call_def item_buf_def split: if_splits)

lemma read_push_ok: "trunk_read_thread_push E s i w = (0, w') \<Longrightarrow> ow_reads w' = ow_reads w @ [(s, i)]"
  by (auto simp: trunk_read_thread_push_def take_call_def split: if_splits)

lemma do_read_done_frame:
  "do_read_done s r c w = (c', w') \<Longrightarrow> oc_aio_buffers c' = oc_aio_buffers c \<and> ow_reads w' = ow_reads w"
  by (auto simp: do_read_done_def Let_def)

lemma read_loop_plan:
  assumes "read_loop E ss offset c w = (0, c', w')"
  shows "oc_aio_buffers c' = oc_aio_buffers c @ map item_buf (read_plan ss offset) \<and>
    ow_reads w' = ow_reads w @ item_reads (length (oc_aio_buffers c)) (read_plan ss offset)"
  using assms
proof (induction ss arbitrary: offset c w)
  case (Cons s ss)
  let ?hole = "sl_offset s - offset"
  obtain r1 c1 w1 where z: "(if ?hole > 0 then add_zero_aligned_buffer E ?hole c w else (0, c, w)) = (r1, c1, w1)" by (metis prod_cases3)
  have "r1 = 0" using Cons.prems z by (simp add: Let_def split: if_splits)
  note z = z [unfolded this]
  let ?pre = "if 0 < ?hole then [Inl ?hole] else []" and ?c2 = "if ?hole > 0 then c1\<lparr>oc_done_bytes := oc_done_bytes c1 + ?hole\<rparr> else c1"
  have c1: "oc_aio_buffers ?c2 = oc_aio_buffers c @ map item_buf ?pre" "ow_reads w1 = ow_reads w"
    using z by (auto split: if_splits dest: add_zero_ok)
  show ?case
  proof (cases "sl_type s = OB_SLICE_TYPE_ALLOC")
    case True
    obtain c3 w3 c4 w4 where a: "add_zero_aligned_buffer E (sl_length s) ?c2 w1 = (0, c3, w3)" "do_read_done s 0 c3 w3 = (c4, w4)"
      and r: "read_loop E ss (sl_end s) c4 w4 = (0, c', w')"
      using Cons.prems z True by (auto simp: Let_def split: prod.splits if_splits)
    show ?thesis
      using Cons.IH [OF r] do_read_done_frame [OF a(2)] add_zero_ok [OF a(1)] c1 True by (simp add: item_reads_append)
  next
    case False
    obtain w3 where a: "trunk_read_thread_push E s (length (oc_aio_buffers ?c2)) w1 = (0, w3)"
      and r: "read_loop E ss (sl_end s) (?c2\<lparr>oc_aio_buffers := oc_aio_buffers ?c2 @ [None]\<rparr>) w3 = (0, c', w')"
      using Cons.prems z False by (auto simp: Let_def split: prod.splits if_splits)
    show ?thesis
      using Cons.IH [OF r] read_push_ok [OF a] c1 False by (simp add: item_reads_append item_buf_def)
  qed
qed simp

lemma map_upto_append:
  assumes "a \<le> b" "b \<le> c"
  shows "map f [a..c - 1] = map f [a..b - 1] @ map f [b..c - 1]"
  using upto_split1 [of a b "c - 1"] upto_split1 [of a b "c - 1"] assms by (cases "b \<le> c - 1") auto

lemma map_upto_const: "(\<And>x. a \<le> x \<Longrightarrow> x < b \<Longrightarrow> f x = z) \<Longrightarrow> map f [a..b - 1] = replicate (nat (b - a)) z"
  by (auto simp: list_eq_iff_nth_eq)

definition plan_end :: "OBSliceEntry list \<Rightarrow> int \<Rightarrow> int" where
  "plan_end ss offset = (if ss = [] then offset else sl_end (last ss))"

lemma content_Cons_head:
  assumes "x \<in> slice_range s"
  shows "content d (block_map (s # ss)) x = (if sl_type s = OB_SLICE_TYPE_ALLOC then CHR 0x00
    else d (ts_store (sl_space s), ts_id_info (sl_space s), ts_offset (sl_space s) + (x - sl_offset s)))"
  using assms by (cases "sl_type s") (simp_all add: content_def block_map_def byte_loc_def)

lemma content_Cons_tail: "x \<notin> slice_range s \<Longrightarrow> content d (block_map (s # ss)) x = content d (block_map ss) x"
  by (auto simp: content_def block_map_def)

lemma content_none: "x \<notin> covered ss \<Longrightarrow> content d (block_map ss) x = CHR 0x00"
  using dom_block_map [of ss] by (cases "block_map ss x") (auto simp: content_def)

lemma plan_end_ge:
  "block_ok ss \<Longrightarrow> \<forall>s\<in>set ss. offset \<le> sl_offset s \<Longrightarrow> offset \<le> plan_end ss offset"
  using last_in_set [of ss] by (fastforce simp: plan_end_def block_ok_def)

lemma read_plan_content:
  assumes "block_ok ss" "\<forall>s\<in>set ss. offset \<le> sl_offset s"
  shows "concat (map (item_bytes d) (read_plan ss offset)) = map (content d (block_map ss)) [offset..plan_end ss offset - 1]"
  using assms
proof (induction ss arbitrary: offset)
  case (Cons s ss)
  let ?f = "content d (block_map (s # ss))"
  have ok: "block_ok ss" "0 < sl_length s" "\<forall>t\<in>set ss. sl_end s \<le> sl_offset t"
    using Cons.prems(1) by (auto simp: block_ok_Cons)
  have off: "offset \<le> sl_offset s" using Cons.prems(2) by simp
  have e: "plan_end (s # ss) offset = plan_end ss (sl_end s)" by (simp add: plan_end_def)
  note ge = plan_end_ge [OF ok(1,3)]
  have hole: "map ?f [offset..sl_offset s - 1] = replicate (nat (sl_offset s - offset)) (CHR 0x00)"
    using ok(2,3) by (intro map_upto_const) (simp add: content_Cons_tail, fastforce intro!: content_none simp: covered_def)
  have mid: "map ?f [sl_offset s..sl_end s - 1] =
      item_bytes d (if sl_type s = OB_SLICE_TYPE_ALLOC then Inl (sl_length s) else Inr s)"
    by (cases "sl_type s") (auto simp: item_bytes_def slice_bytes_def content_Cons_head map_upto_const)
  have tail: "map ?f [sl_end s..plan_end ss (sl_end s) - 1] = map (content d (block_map ss)) [sl_end s..plan_end ss (sl_end s) - 1]"
    by (simp add: content_Cons_tail)
  have "map ?f [offset..plan_end ss (sl_end s) - 1] =
      map ?f [offset..sl_offset s - 1] @ map ?f [sl_offset s..sl_end s - 1] @ map ?f [sl_end s..plan_end ss (sl_end s) - 1]"
    using map_upto_append [of offset "sl_offset s" "plan_end ss (sl_end s)" ?f]
      map_upto_append [of "sl_offset s" "sl_end s" "plan_end ss (sl_end s)" ?f] off ok(2) ge by simp
  then show ?case unfolding e hole mid tail using Cons.IH [OF ok(1,3)] off by (simp add: item_bytes_def)
qed (simp add: plan_end_def)

text \<open>
  The buffers after the read threads have set theirs: \<open>vs\<close> are the bytes of each, unchanged where the loop
  has set a buffer of zeros, and the bytes of the slice where it has queued a read.
\<close>

definition filled :: "disk \<Rightarrow> (OBSliceEntry \<times> nat) list \<Rightarrow> AlignedReadBuffer option list \<Rightarrow> string list \<Rightarrow> bool" where
  "filled d reads bufs vs \<longleftrightarrow> length vs = length bufs \<and>
     (\<forall>i<length bufs. \<forall>b. bufs ! i = Some b \<longrightarrow> vs ! i = ab_piece b) \<and> (\<forall>(s, i)\<in>set reads. vs ! i = slice_bytes d s)"

lemma item_reads_mem: "(s, i) \<in> set (item_reads n xs) \<longleftrightarrow> (\<exists>j<length xs. i = n + j \<and> xs ! j = Inr s)"
  by (induction xs arbitrary: n)
    (auto simp: less_Suc_eq_0_disj nth_Cons' split: sum.splits; metis)+

lemma filled_plan:
  assumes "filled d (item_reads 0 xs) (map item_buf xs) vs"
  shows "vs = map (item_bytes d) xs"
proof (rule nth_equalityI)
  show "length vs = length (map (item_bytes d) xs)" using assms by (simp add: filled_def)
  fix i assume "i < length vs"
  then have i: "i < length xs" using assms by (simp add: filled_def)
  show "vs ! i = map (item_bytes d) xs ! i"
  proof (cases "xs ! i")
    case (Inl n)
    then show ?thesis using assms i by (auto simp: filled_def item_buf_def item_bytes_def)
  next
    case (Inr s)
    then have "(s, i) \<in> set (item_reads 0 xs)" using i by (simp add: item_reads_mem)
    then show ?thesis using assms i Inr by (auto simp: filled_def item_bytes_def)
  qed
qed

end
