(* ===== verification/Slice_Write.thy ===== *)
theory Slice_Write
  imports Slice_IO
begin

text \<open>
  A write from its allocation to the index: the slices of a write tile its range, their bytes do not
  overlap on disk, and once they are in the index the block has the new content.
\<close>

section \<open>Slices that tile a range\<close>

fun tiles :: "int \<Rightarrow> OBSliceEntry list \<Rightarrow> int \<Rightarrow> bool" where
  "tiles offset [] e \<longleftrightarrow> offset = e"
| "tiles offset (s # ss) e \<longleftrightarrow> sl_offset s = offset \<and> 0 \<le> sl_length s \<and> tiles (sl_end s) ss e"

lemma tiles_bounds: "tiles offset ss e \<Longrightarrow> offset \<le> e \<and> (\<forall>s\<in>set ss. offset \<le> sl_offset s \<and> 0 \<le> sl_length s \<and> sl_end s \<le> e)"
  by (induction ss arbitrary: offset) fastforce+

lemma tiles_range: "tiles offset ss e \<Longrightarrow> (\<Union>s\<in>set ss. slice_range s) = {offset..<e}"
proof (induction ss arbitrary: offset)
  case (Cons s ss)
  then have "(\<Union>s\<in>set ss. slice_range s) = {sl_end s..<e}" "sl_offset s = offset" "0 \<le> sl_length s" "sl_end s \<le> e"
    using tiles_bounds [of "sl_end s" ss e] by auto
  then show ?case by auto
qed auto

lemma tiles_sum: "tiles offset ss e \<Longrightarrow> (\<Sum>s\<leftarrow>ss. sl_length s) = e - offset"
  by (induction ss arbitrary: offset) auto

definition map_slices :: "OBSliceEntry list \<Rightarrow> (int \<Rightarrow> (OBSliceType \<times> nat \<times> FSTrunkIdInfo \<times> int) option) \<Rightarrow>
    int \<Rightarrow> (OBSliceType \<times> nat \<times> FSTrunkIdInfo \<times> int) option" where
  "map_slices ss m = fold (\<lambda>s m. m ++ slice_map s) ss m"

lemma map_slices_Cons [simp]: "map_slices (s # ss) m = map_slices ss (m ++ slice_map s)"
  "map_slices [] m = m"
  by (simp_all add: map_slices_def)

lemma map_slices_other: "(\<And>s. s \<in> set ss \<Longrightarrow> x \<notin> slice_range s) \<Longrightarrow> map_slices ss m x = m x"
  by (induction ss arbitrary: m) (auto simp: map_add_def slice_map_def split: option.splits)

section \<open>Places on disk\<close>

definition apart :: "OBSliceEntry \<Rightarrow> OBSliceEntry \<Rightarrow> bool" where
  "apart s t \<longleftrightarrow> ts_store (sl_space s) \<noteq> ts_store (sl_space t) \<or> ts_id_info (sl_space s) \<noteq> ts_id_info (sl_space t) \<or>
     ts_offset (sl_space s) + sl_length s \<le> ts_offset (sl_space t) \<or> ts_offset (sl_space t) + sl_length t \<le> ts_offset (sl_space s)"

abbreviation place :: "OBSliceEntry \<Rightarrow> int \<Rightarrow> nat \<times> FSTrunkIdInfo \<times> int" where
  "place s x \<equiv> (ts_store (sl_space s), ts_id_info (sl_space s), ts_offset (sl_space s) + (x - sl_offset s))"

definition disk_writes :: "(int \<times> OBSliceEntry \<times> string) list \<Rightarrow> disk \<Rightarrow> disk" where
  "disk_writes ws d = fold (\<lambda>(v, s, bytes). disk_write s bytes) ws d"

lemma disk_writes_simps [simp]: "disk_writes [] d = d" "disk_writes ((v, s, bytes) # ws) d = disk_writes ws (disk_write s bytes d)"
  by (simp_all add: disk_writes_def)

lemma disk_write_other:
  "apart s t \<Longrightarrow> x \<in> slice_range s \<Longrightarrow> int (length bytes) \<le> sl_length t \<Longrightarrow> disk_write t bytes d (place s x) = d (place s x)"
  by (auto simp: disk_write_def apart_def)

lemma disk_writes_other:
  assumes "x \<in> slice_range s" "\<forall>p\<in>set ps. apart s (sn_slice p) \<and> 0 \<le> sl_length (sn_slice p)"
  shows "disk_writes (cut_bytes ps bytes) d (place s x) = d (place s x)"
  using assms(2) by (induction ps arbitrary: bytes d) (auto simp: disk_write_other [OF _ assms(1)])

lemma write_content:
  assumes "tiles offset (map sn_slice ps) e" "\<forall>p\<in>set ps. sl_type (sn_slice p) = OB_SLICE_TYPE_FILE"
    "sorted_wrt (\<lambda>p q. apart (sn_slice p) (sn_slice q)) ps" "e - offset \<le> int (length bytes)" "offset \<le> x" "x < e"
  shows "content (disk_writes (cut_bytes ps bytes) d) (map_slices (map sn_slice ps) m) x = bytes ! nat (x - offset)"
  using assms
proof (induction ps arbitrary: offset bytes d m)
  case (Cons p ps)
  let ?s = "sn_slice p"
  have s: "sl_offset ?s = offset" "0 \<le> sl_length ?s" "tiles (sl_end ?s) (map sn_slice ps) e" "sl_type ?s = OB_SLICE_TYPE_FILE"
    using Cons.prems(1,2) by auto
  let ?n = "nat (sl_length ?s)"
  show ?case
  proof (cases "x < sl_end ?s")
    case True
    have x: "x \<in> slice_range ?s" using True s Cons.prems(5) by simp
    have later: "\<And>t. t \<in> set (map sn_slice ps) \<Longrightarrow> x \<notin> slice_range t" "\<forall>q\<in>set ps. apart ?s (sn_slice q) \<and> 0 \<le> sl_length (sn_slice q)"
      using tiles_bounds [OF s(3)] True Cons.prems(3) by fastforce+
    have "map_slices (map sn_slice ps) (m ++ slice_map ?s) x = Some (byte_loc ?s x)"
      using x by (subst map_slices_other [OF later(1)]) (simp_all add: map_add_def slice_map_def)
    moreover have "x - offset < int (min (length bytes) ?n)" using x s Cons.prems(4) tiles_bounds [OF s(3)] by (auto simp: min_def)
    ultimately show ?thesis
      using x s disk_writes_other [OF x later(2)] by (simp add: content_def byte_loc_def disk_write_def)
  next
    case False
    have "e - sl_end ?s \<le> int (length (drop ?n bytes))" using Cons.prems(4) s tiles_bounds [OF s(3)] by simp
    from Cons.IH [OF s(3) _ _ this _ Cons.prems(6)] False Cons.prems(2,3)
    have "content (disk_writes (cut_bytes ps (drop ?n bytes)) (disk_write ?s (take ?n bytes) d))
        (map_slices (map sn_slice ps) (m ++ slice_map ?s)) x = drop ?n bytes ! nat (x - sl_end ?s)" by simp
    moreover have "nat (x - offset) = ?n + nat (x - sl_end ?s)" using s False by simp
    ultimately show ?thesis using Cons.prems(4,5,6) s False by (simp add: nat_add_distrib)
  qed
qed simp

section \<open>Allocating the slices\<close>

text \<open>What \<open>fs_slice_alloc\<close> leaves for each slice: the entry of its block, its place and its type.\<close>

definition slice_for :: "ob_index \<Rightarrow> FSBlockKey \<Rightarrow> OBSliceType \<Rightarrow> OBSliceEntry \<Rightarrow> bool" where
  "slice_for st bkey ty s \<longleftrightarrow> sl_type s = ty \<and> sl_length s \<le> ts_size (sl_space s) \<and>
     (\<exists>ob. tab st (block_id bkey) = Some ob \<and> ob_ptr ob = sl_ob s \<and> ob_bkey ob = bkey)"

lemma slice_for_ht: "ix_ht st' = ix_ht st \<Longrightarrow> slice_for st' = slice_for st"
  by (drule same_table(3)) (simp add: slice_for_def [abs_def])

context fastcommon
begin

lemma alloc_init_slice_ok:
  assumes "table_ok E st" "key_ok bkey" "alloc_init_slice E junk bkey sp ty offset len st = (Some s, st')" "len \<le> ts_size sp"
  shows "table_ok E st'" "byte_map st' = byte_map st" "sl_space s = sp" "sl_ssize s = \<lparr>ss_offset = offset, ss_length = len\<rparr>"
    "slice_for st' bkey ty s" "ix_mgr st' = ix_mgr st"
proof -
  obtain o1 st1 where a1: "ob_index_alloc_slice_ex E junk bkey 1 st = (o1, st1)" by fastforce
  note run = assms(3) [unfolded alloc_init_slice_def a1 prod.case]
  then obtain s0 where o1: "o1 = Some s0" by (cases o1) simp_all
  note a = a1 [unfolded o1] and run = run [unfolded o1 option.case]
  have s: "s = s0\<lparr>sl_type := ty, sl_space := sp, sl_ssize := \<lparr>ss_offset = offset, ss_length = len\<rparr>\<rparr>" and "st1 = st'"
    using run by simp_all
  note a = a [unfolded this(2)]
  note am = alloc_slice_map [OF assms(1,2) a]
  show "table_ok E st'" "byte_map st' = byte_map st" by (fact am)+
  show "sl_space s = sp" "sl_ssize s = \<lparr>ss_offset = offset, ss_length = len\<rparr>" by (simp_all add: s)
  show "slice_for st' bkey ty s" using am(3) assms(4) deref_Some [OF am(1)] by (auto simp: slice_for_def s)
  show "ix_mgr st' = ix_mgr st"
    using a by (auto simp: ob_index_alloc_slice_ex_def get_ob_entry_ex_def set_bucket_def Let_def split: prod.splits option.splits if_splits)
qed

lemma alloc_init_slice_found:
  assumes "table_ok E st" "key_ok bkey" "alloc_init_slice E junk bkey sp ty offset len st = (Some s, st')"
    "tab st (block_id bkey) = Some ob"
  shows "ix_ht st' = ix_ht st"
proof -
  obtain pre hit post where w: "chain_walk E bkey (bucket_at st bkey) = (pre, hit, post)" by (metis prod_cases3)
  from walk_bucket [OF assms(1,2) w] assms(4) have "hit = Some ob" by simp
  then have "get_ob_entry_ex E bkey True st = (Some ob, pprev_of pre, st)" using w by (simp add: get_ob_entry_ex_def)
  then show ?thesis
    using assms(3) by (auto simp: alloc_init_slice_def ob_index_alloc_slice_ex_def split: prod.splits option.splits)
qed

lemma alloc_slices_found:
  assumes "table_ok E st" "key_ok bkey" "tab st (block_id bkey) = Some ob" "alloc_slices E junk bkey ty sps offset rem st = (0, ps, st')"
  shows "ix_ht st' = ix_ht st"
  using assms
proof (induction sps arbitrary: offset rem st ps)
  case (Cons sp sps)
  let ?len = "if ts_size (tv_space sp) < rem then ts_size (tv_space sp) else rem"
  obtain s st1 qs where a: "alloc_init_slice E junk bkey (tv_space sp) ty offset ?len st = (Some s, st1)"
    and r: "alloc_slices E junk bkey ty sps (offset + ?len) (rem - ?len) st1 = (0, qs, st')"
    using Cons.prems(4) by (auto simp: Let_def split: prod.splits option.splits)
  note f = alloc_init_slice_found [OF Cons.prems(1,2) a Cons.prems(3)]
  show ?case using Cons.IH [OF _ Cons.prems(2) _ r] f same_table(2,3) [OF f] Cons.prems(1,3) by simp
qed simp

lemma alloc_slices_ok:
  assumes "table_ok E st" "key_ok bkey" "alloc_slices E junk bkey ty sps offset rem st = (0, ps, st')"
    "0 \<le> rem" "rem \<le> (\<Sum>s\<leftarrow>sps. tv_size s)" "\<forall>s\<in>set sps. 0 \<le> tv_size s"
  shows "table_ok E st' \<and> byte_map st' = byte_map st \<and> ix_mgr st' = ix_mgr st \<and>
    tiles offset (map sn_slice ps) (offset + rem) \<and> map (\<lambda>p. sl_space (sn_slice p)) ps = map tv_space sps \<and>
    map sn_version ps = map tv_version sps \<and> (\<forall>p\<in>set ps. slice_for st' bkey ty (sn_slice p))"
  using assms
proof (induction sps arbitrary: offset rem st ps)
  case (Cons sp sps)
  let ?len = "if ts_size (tv_space sp) < rem then ts_size (tv_space sp) else rem"
  obtain s st1 qs where a: "alloc_init_slice E junk bkey (tv_space sp) ty offset ?len st = (Some s, st1)"
    and r: "alloc_slices E junk bkey ty sps (offset + ?len) (rem - ?len) st1 = (0, qs, st')"
    and ps: "ps = \<lparr>sn_slice = s, sn_sn = 0, sn_version = tv_version sp\<rparr> # qs"
    using Cons.prems(3) by (auto simp: Let_def split: prod.splits option.splits)
  have len: "?len \<le> ts_size (tv_space sp)" "0 \<le> ?len" "?len \<le> rem" using Cons.prems(4,6) by auto
  note i = alloc_init_slice_ok [OF Cons.prems(1,2) a len(1)]
  have "0 \<le> (\<Sum>s\<leftarrow>sps. tv_size s)" using Cons.prems(6) by (force intro: sum_list_nonneg)
  then have "rem - ?len \<le> (\<Sum>s\<leftarrow>sps. tv_size s)" using Cons.prems(5) by auto
  note ih = Cons.IH [OF i(1) Cons.prems(2) r _ this]
  from i(5) obtain ob where "tab st1 (block_id bkey) = Some ob" by (auto simp: slice_for_def)
  from alloc_slices_found [OF i(1) Cons.prems(2) this r] have "slice_for st' = slice_for st1" by (rule slice_for_ht)
  then show ?case using ih i len Cons.prems(6) ps by (simp del: if_split)
qed simp

end

text \<open>What an allocation relies on: the free lists, the arrays of store paths and the other threads.\<close>

definition alloc_ready :: "nat set \<Rightarrow> schedule list \<Rightarrow> FSStorageAllocatorManager \<Rightarrow> bool" where
  "alloc_ready P asched m \<longleftrightarrow> space_ok (free_space_of m) \<and> aptr_split P m \<and> paths_exist P (free_space_of m) \<and>
     ids_distinct m \<and> (\<forall>sched\<in>set asched. rely sched \<and> aptr_rely P sched \<and> keeps ids_distinct sched)"

definition pair_space :: "FSSliceSNPair \<Rightarrow> FSTrunkSpaceWithVersion" where
  "pair_space p = \<lparr>tv_space = sl_space (sn_slice p), tv_version = sn_version p\<rparr>"

definition slices_ready :: "fc_env \<Rightarrow> FSBlockSliceKeyInfo \<Rightarrow> OBSliceType \<Rightarrow> FSSliceSNPair list \<Rightarrow> ob_index \<Rightarrow> ob_index \<Rightarrow> bool" where
  "slices_ready E key ty ps st st' \<longleftrightarrow>
     tiles (ss_offset (bs_slice key)) (map sn_slice ps) (ss_offset (bs_slice key) + ss_length (bs_slice key)) \<and>
     (\<forall>p\<in>set ps. slice_for st' (bs_block key) ty (sn_slice p)) \<and>
     spaces_for (free_space_of (ix_mgr st)) (free_space_of (ix_mgr st'))
       (env_align_ceil E (ss_length (bs_slice key)) FS_SPACE_ALIGN_SIZE) (map pair_space ps) \<and>
     sorted_wrt (\<lambda>p q. apart (sn_slice p) (sn_slice q)) ps"

lemma pair_spaces:
  "map (\<lambda>p. sl_space (sn_slice p)) ps = map tv_space sps \<Longrightarrow> map sn_version ps = map tv_version sps \<Longrightarrow> map pair_space ps = sps"
  by (auto simp: list_eq_iff_nth_eq pair_space_def)

lemma spaces_pairs:
  assumes "spaces_for S S' n (map pair_space ps)"
  obtains (one) p where "ps = [p]" "tv_size (pair_space p) = n"
  | (two) p q i j where "ps = [p, q]" "carved S S' i (pair_space p)" "carved S S' j (pair_space q)"
      "i = j \<longrightarrow> tv_offset (pair_space p) + tv_size (pair_space p) \<le> tv_offset (pair_space q)"
      "tv_size (pair_space p) + tv_size (pair_space q) = n"
  using assms by (auto simp: spaces_for_def split: list.splits)

lemma spaces_apart:
  assumes sp: "spaces_for S (free_space_of m) n (map pair_space ps)" and ids: "ids_distinct m"
    and len: "\<forall>p\<in>set ps. sl_length (sn_slice p) \<le> ts_size (sl_space (sn_slice p))"
  shows "sorted_wrt (\<lambda>p q. apart (sn_slice p) (sn_slice q)) ps"
  using sp
proof (cases rule: spaces_pairs)
  case (two p q i j)
  then obtain e f where e: "sp_trunk (free_space_of m) i = Some e" "ts_store (sl_space (sn_slice p)) = ex_path e"
      "ts_id_info (sl_space (sn_slice p)) = ex_id e"
    and f: "sp_trunk (free_space_of m) j = Some f" "ts_store (sl_space (sn_slice q)) = ex_path f"
      "ts_id_info (sl_space (sn_slice q)) = ex_id f"
    by (auto simp: carved_def pair_space_def)
  show ?thesis
  proof (cases "i = j")
    case True
    then show ?thesis using two len by (auto simp: apart_def pair_space_def)
  next
    case False
    then show ?thesis using two(1) e f ids by (auto simp: apart_def ids_distinct_def sp_simps extent_of_def)
  qed
qed simp

lemma spaces_for_sizes: "spaces_for S S' n sps \<Longrightarrow> \<forall>s\<in>set sps. 0 < tv_size s"
  by (auto simp: spaces_for_def carved_def split: list.splits)

context fastcommon
begin

lemma fs_slice_alloc_ok:
  assumes tok: "table_ok E st" and k: "key_ok (bs_block key)" "0 < ss_length (bs_slice key)"
    and m: "alloc_ready P asched (ix_mgr st)" "0 < discard"
    and run: "fs_slice_alloc E discard asched junk key ty reclaim st = Some (r, ps, st')"
  shows "r \<in> {ENOSPC, EINTR, EAGAIN, ENOMEM} \<or>
    r = 0 \<and> table_ok E st' \<and> byte_map st' = byte_map st \<and> slices_ready E key ty ps st st'"
proof -
  let ?len = "ss_length (bs_slice key)" and ?h = "u32 (bk_hash_code (bs_block key))"
  let ?S = "free_space_of (ix_mgr st)"
  obtain r1 sps m1 where a: "(if reclaim then storage_allocator_reclaim_alloc E discard asched ?h ?len (ix_mgr st)
      else storage_allocator_normal_alloc_ex E discard asched ?h ?len True (ix_mgr st)) = Some (r1, sps, m1)"
    using run by (auto simp: fs_slice_alloc_def Let_def split: option.splits)
  have o: "alloc_outcome E ?len r1 sps ?S (free_space_of m1)"
    using a m k(2) normal_alloc_ok [of E discard asched ?h ?len True "ix_mgr st" r1 sps m1 P]
      reclaim_alloc_ok [of E discard asched ?h ?len "ix_mgr st" r1 sps m1 P] fastcommon_axioms
    by (auto simp: alloc_ready_def split: if_splits)
  have ids: "ids_distinct m1"
    using a m(1) ids.normal_alloc [of E discard asched ?h ?len True "ix_mgr st" r1 sps m1]
      ids.reclaim_alloc [of E discard asched ?h ?len "ix_mgr st" r1 sps m1]
    by (auto simp: alloc_ready_def split: if_splits)
  note run' = run [unfolded fs_slice_alloc_def Let_def a option.case prod.case]
  show ?thesis
  proof (cases "r1 = 0")
    case False
    then show ?thesis using run' o by (auto simp: alloc_outcome_def)
  next
    case True
    let ?st1 = "st\<lparr>ix_mgr := m1\<rparr>" and ?off = "ss_offset (bs_slice key)"
    have sp: "spaces_for ?S (free_space_of m1) (env_align_ceil E ?len FS_SPACE_ALIGN_SIZE) sps"
      using o True by (simp add: alloc_outcome_def)
    note run' = run' [unfolded True, simplified]
    have ht: "ix_ht ?st1 = ix_ht st" by simp
    have tok1: "table_ok E ?st1" "byte_map ?st1 = byte_map st" using same_table(2,6) [OF ht] tok by simp_all
    have sum: "?len \<le> (\<Sum>s\<leftarrow>sps. tv_size s)" using sp align_ceil [of FS_SPACE_ALIGN_SIZE ?len] k(2) by (simp add: spaces_for_def)
    have pos: "\<forall>s\<in>set sps. 0 \<le> tv_size s" using spaces_for_sizes [OF sp] by (meson less_imp_le)
    consider (one) x where "sps = [x]" | (two) x y where "sps = [x, y]"
      using sp by (auto simp: spaces_for_def split: list.splits)
    then have "r = ENOMEM \<or> r = 0 \<and> alloc_slices E junk (bs_block key) ty sps ?off ?len ?st1 = (0, ps, st')"
    proof cases
      case one
      then show ?thesis using run' sum k(2) by (auto split: prod.splits option.splits)
    next
      case two
      then show ?thesis using run' by (auto simp: Let_def split: prod.splits option.splits)
    qed
    then show ?thesis
    proof
      assume "r = 0 \<and> alloc_slices E junk (bs_block key) ty sps ?off ?len ?st1 = (0, ps, st')"
      then have "r = 0" and al: "alloc_slices E junk (bs_block key) ty sps ?off ?len ?st1 = (0, ps, st')" by simp_all
      note ok = alloc_slices_ok [OF tok1(1) k(1) al _ sum pos]
      have eq: "map pair_space ps = sps" using ok k(2) by (intro pair_spaces) simp_all
      have "sorted_wrt (\<lambda>p q. apart (sn_slice p) (sn_slice q)) ps"
        using spaces_apart [OF sp [folded eq] ids] ok k(2) by (simp add: slice_for_def)
      then show ?thesis using ok k(2) tok1(2) eq sp \<open>r = 0\<close> by (simp add: slices_ready_def)
    qed simp
  qed
qed

end

definition quiet :: "FSBlockKey \<Rightarrow> ob_index \<Rightarrow> bool" where
  "quiet bkey st \<longleftrightarrow> (\<forall>ob. tab st (block_id bkey) = Some ob \<longrightarrow> ob_reclaiming_count ob \<le> 0)"

lemma slice_map_dom [simp]: "dom (slice_map s) = slice_range s"
  by (auto simp: slice_map_def split: if_splits)

context fastcommon
begin

lemma ready_positive:
  assumes "slices_ready E key ty ps st st'" "0 < ss_length (bs_slice key)"
    "\<forall>p\<in>set ps. FS_SPACE_ALIGN_SIZE dvd ts_size (sl_space (sn_slice p))"
  shows "\<forall>p\<in>set ps. 0 < sl_length (sn_slice p)"
proof -
  let ?len = "ss_length (bs_slice key)"
  from assms(1) have sp: "spaces_for (free_space_of (ix_mgr st)) (free_space_of (ix_mgr st'))
      (env_align_ceil E ?len FS_SPACE_ALIGN_SIZE) (map pair_space ps)"
    and len: "\<forall>p\<in>set ps. sl_length (sn_slice p) \<le> ts_size (sl_space (sn_slice p))"
    and sum: "(\<Sum>s\<leftarrow>map sn_slice ps. sl_length s) = ?len"
    by (auto simp: slices_ready_def slice_for_def dest!: tiles_sum)
  from sp show ?thesis
  proof (cases rule: spaces_pairs)
    case (two p q i j)
    have "8 \<le> ts_size (sl_space (sn_slice p))" "8 \<le> ts_size (sl_space (sn_slice q))"
      using two assms(3) by (auto simp: carved_def pair_space_def intro: zdvd_imp_le)
    then show ?thesis
      using two(1,5) len sum align_ceil [of FS_SPACE_ALIGN_SIZE ?len] assms(2) by (auto simp: pair_space_def)
  qed (use sum assms(2) in simp)
qed

lemma add_ex_deref:
  assumes ok: "table_ok E st" and d: "ob_deref st (sl_ob slice) = Some ob"
    and nw: "reclaim \<or> ob_reclaiming_count ob \<le> 0" and len: "0 < sl_length slice"
    and run: "ob_index_add_slice_ex E sched slice want reclaim st = Some (0, sn, inc, st')"
  shows "\<exists>chain. tab st' = (tab st)(block_id (ob_bkey ob) \<mapsto> ob\<lparr>ob_slices := chain\<rparr>)"
proof -
  from ok d nw len run obtain bs st2 where a: "add_slice E (ix_ht st) slice (block_in st ob) = (0, inc, bs)"
    and st2: "st2 = put_block (sl_ob slice) bs st" "ix_ht st' = ix_ht st2" by (rule add_ex_cases)
  have e: "ob \<in> set (entries st)" using d deref_Some [OF ok] by simp
  have blk: "block_ok (bst_slices (block_in st ob))" using table_entry(2) [OF ok e] by (simp add: block_in_def)
  have "block_ok (bst_slices bs)" using add_slice_overwrites' [OF blk len a] by simp
  from put_block_ok(2) [OF ok d this] same_table(3) [OF st2(2)] show ?thesis by (auto simp: st2(1))
qed

lemma add_pairs_ok:
  assumes "table_ok E st" "key_ok bkey" "\<forall>p\<in>set ps. slice_for st bkey ty (sn_slice p) \<and> 0 < sl_length (sn_slice p)" "reclaim \<or> quiet bkey st"
    "add_pairs E scheds reclaim i ps st = Some (0, qs, inc, st')"
  shows "table_ok E st' \<and> map sn_slice qs = map sn_slice ps \<and> (quiet bkey st \<longrightarrow> quiet bkey st') \<and>
    byte_map st' = (byte_map st)(block_id bkey := map_slices (map sn_slice ps) (byte_map st (block_id bkey))) \<and>
    inc = int (card ((\<Union>p\<in>set ps. slice_range (sn_slice p)) - dom (byte_map st (block_id bkey))))"
  using assms
proof (induction ps arbitrary: i st qs inc)
  case (Cons p ps)
  let ?s = "sn_slice p" and ?b = "block_id bkey"
  obtain sn inc1 st1 qs' inc2 where a: "ob_index_add_slice_ex E (scheds i) ?s True reclaim st = Some (0, sn, inc1, st1)"
    and r: "add_pairs E scheds reclaim (Suc i) ps st1 = Some (0, qs', inc2, st')"
    and qs: "map sn_slice qs = ?s # map sn_slice qs'" "inc = inc1 + inc2"
    using Cons.prems(5) by (auto split: option.splits prod.splits if_splits)
  from Cons.prems(3) obtain ob where ob: "tab st ?b = Some ob" "ob_ptr ob = sl_ob ?s" "ob_bkey ob = bkey" and pos: "0 < sl_length ?s"
    by (auto simp: slice_for_def)
  have d: "ob_deref st (sl_ob ?s) = Some ob" using ob tab_Some [OF Cons.prems(1)] deref_Some [OF Cons.prems(1)] by auto
  have nw: "reclaim \<or> ob_reclaiming_count ob \<le> 0" using Cons.prems(4) ob(1) by (auto simp: quiet_def)
  note am = add_ex_map [OF Cons.prems(1) d nw pos a, unfolded ob(3)]
  obtain chain where tb: "tab st1 = (tab st)(?b \<mapsto> ob\<lparr>ob_slices := chain\<rparr>)"
    using add_ex_deref [OF Cons.prems(1) d nw pos a] ob(3) by auto
  have q: "quiet bkey st1 = quiet bkey st" using ob(1) by (simp add: quiet_def tb)
  have "\<forall>p\<in>set ps. slice_for st1 bkey ty (sn_slice p) \<and> 0 < sl_length (sn_slice p)"
    using Cons.prems(3) ob by (auto simp: slice_for_def tb)
  note ih = Cons.IH [OF am(1) Cons.prems(2) this _ r] 
  let ?m = "byte_map st ?b" and ?R = "\<Union>p\<in>set ps. slice_range (sn_slice p)"
  have "dom (byte_map st1 ?b) = dom ?m \<union> slice_range ?s" by (simp add: am(2) Un_commute)
  then have "inc = int (card (slice_range ?s - dom ?m)) + int (card (?R - (dom ?m \<union> slice_range ?s)))"
    using ih q Cons.prems(4) qs(2) am(3) by simp
  also have "\<dots> = int (card ((slice_range ?s - dom ?m) \<union> (?R - (dom ?m \<union> slice_range ?s))))"
    by (subst card_Un_disjoint) auto
  also have "(slice_range ?s - dom ?m) \<union> (?R - (dom ?m \<union> slice_range ?s)) = (\<Union>p\<in>set (p # ps). slice_range (sn_slice p)) - dom ?m" by auto
  finally show ?case using ih q qs(1) am(2) Cons.prems(4) by (simp, intro ext) simp
qed simp

end

end
