(* ===== verification/Slice_Op_Properties.thy ===== *)
theory Slice_Op_Properties
  imports Slice_Write
begin

text \<open>
  The properties of the slice operations, and a run of a write followed by a read on which they are applied.
\<close>

section \<open>Writing\<close>

lemma fs_slice_write_cases:
  assumes "fs_slice_write E discard asched junk c w = Some (0, c1, w1)"
  obtains ix ps w2 where
    "fs_slice_alloc E discard asched junk (oc_bs_key c) OB_SLICE_TYPE_FILE (is_reclaim c) (ow_ix w) = Some (0, ps, ix)"
    "c1 = c\<lparr>oc_done_bytes := 0, oc_space_changed := 0, oc_sarray := ps, oc_result := 0, oc_counter := int (length ps)\<rparr>"
    "(if oc_buffer_type c = fs_buffer_type_array then write_iovec_array E c1 (w\<lparr>ow_ix := ix\<rparr>)
      else push_buffs E ps (oc_buff c) (w\<lparr>ow_ix := ix\<rparr>)) = (0, w1)"
proof -
  obtain r ps ix where a: "fs_slice_alloc E discard asched junk (oc_bs_key c) OB_SLICE_TYPE_FILE (is_reclaim c) (ow_ix w) = Some (r, ps, ix)"
    using assms by (auto simp: fs_slice_write_def Let_def split: option.splits)
  note run = assms [unfolded fs_slice_write_def Let_def a option.case prod.case]
  then have r: "r = 0" by (simp split: if_splits)
  show thesis
  proof (rule that)
    show "fs_slice_alloc E discard asched junk (oc_bs_key c) OB_SLICE_TYPE_FILE (is_reclaim c) (ow_ix w) = Some (0, ps, ix)"
      using a r by simp
    have single: "push_buffs E [p] buff v = trunk_write_thread_push E \<lparr>io_version = sn_version p, io_slice = sn_slice p, io_data = IO_BUFF buff\<rparr> v"
      for p buff v by (simp split: prod.splits)
    show c1: "c1 = c\<lparr>oc_done_bytes := 0, oc_space_changed := 0, oc_sarray := ps, oc_result := 0, oc_counter := int (length ps)\<rparr>"
      using run r by (auto split: prod.splits)
    show "(if oc_buffer_type c = fs_buffer_type_array then write_iovec_array E c1 (w\<lparr>ow_ix := ix\<rparr>)
      else push_buffs E ps (oc_buff c) (w\<lparr>ow_ix := ix\<rparr>)) = (0, w1)"
      unfolding c1 using run r single by (auto simp del: push_buffs.simps split: prod.splits list.splits if_splits)
  qed
qed

lemma push_buffs_reads: "push_buffs E ps buff w = (r, w') \<Longrightarrow> ow_reads w' = ow_reads w"
  by (induction ps arbitrary: buff w)
    (auto simp: trunk_write_thread_push_def take_call_def split: prod.splits if_splits)

lemma write_iovec_ok:
  assumes "write_iovec_array E c w = (0, w')" "oc_aio_buffers c = map Some bufs" "\<forall>b\<in>set bufs. buf_ok b"
    "\<forall>p\<in>set (oc_sarray c). 0 < sl_length (sn_slice p)"
    "(\<Sum>p\<leftarrow>oc_sarray c. sl_length (sn_slice p)) = (\<Sum>b\<leftarrow>bufs. ab_length b)"
  shows "map io_view (ow_writes w') = map io_view (ow_writes w) @ cut_bytes (oc_sarray c) (concat (map ab_piece bufs)) \<and> ow_ix w' = ow_ix w"
proof -
  have bufs: "map the (oc_aio_buffers c) = bufs" using assms(2) by simp
  let ?w1 = "w\<lparr>ow_calls := Suc (ow_calls w)\<rparr>"
  have run: "(case oc_sarray c of
      [p] \<Rightarrow> trunk_write_thread_push E \<lparr>io_version = sn_version p, io_slice = sn_slice p, io_data = IO_IOVEC (map ab_piece bufs)\<rparr> ?w1
    | ps \<Rightarrow> push_iovecs E ps 0 bufs 0 ?w1) = (0, w')"
    using assms(1) by (auto simp: write_iovec_array_def take_call_def bufs Let_def split: if_splits)
  show ?thesis
  proof (cases "\<exists>p. oc_sarray c = [p]")
    case True
    then obtain p where p: "oc_sarray c = [p]" by blast
    have "length (concat (map ab_piece bufs)) = nat (sl_length (sn_slice p))"
      using pieces_length [OF assms(3)] assms(5) p by simp
    then show ?thesis using run p push_ok [of E _ ?w1 w'] by (simp del: length_concat)
  next
    case False
    then have "push_iovecs E (oc_sarray c) 0 bufs 0 ?w1 = (0, w')" using run by (auto split: list.splits)
    from push_iovecs_ok [OF this assms(3,4)] assms(5) show ?thesis by simp
  qed
qed

lemma push_iovecs_index: "push_iovecs E ps st bufs bt w = (r, w') \<Longrightarrow> ow_ix w' = ow_ix w \<and> ow_reads w' = ow_reads w"
  by (induction ps arbitrary: st bufs bt w)
    (auto simp: trunk_write_thread_push_def take_call_def Let_def split: prod.splits if_splits)

lemma writes_keep_index:
  "push_buffs E ps buff w = (0, w') \<Longrightarrow> ow_ix w' = ow_ix w"
  "write_iovec_array E c w = (0, w') \<Longrightarrow> ow_ix w' = ow_ix w \<and> ow_reads w' = ow_reads w"
  by (use push_buffs_ok in blast)
    (auto simp: write_iovec_array_def trunk_write_thread_push_def take_call_def Let_def
      simp del: push_iovecs.simps dest!: push_iovecs_index split: if_splits list.splits)

text \<open>The write threads report each slice once, in any order.\<close>

lemma writes_done:
  assumes "oc_counter c = int (length ts)" "ts \<noteq> []"
  shows "fold (\<lambda>s. slice_write_done s 0) ts c =
    c\<lparr>oc_done_bytes := oc_done_bytes c + (\<Sum>s\<leftarrow>ts. sl_length s), oc_counter := 0, oc_callbacks := Suc (oc_callbacks c)\<rparr>"
  using assms
proof (induction ts arbitrary: c)
  case (Cons t ts)
  then show ?case by (cases "ts = []") (simp_all add: slice_write_done_def Let_def)
qed simp

section \<open>Reading\<close>

lemma block_ok_last:
  assumes "block_ok ss" "s \<in> set ss"
  shows "sl_end s \<le> sl_end (last ss)"
proof -
  obtain xs t where ss: "ss = xs @ [t]" using assms(2) by (metis empty_iff empty_set rev_exhaust)
  then have "0 < sl_length t" "\<forall>x\<in>set xs. sl_end x \<le> sl_offset t" using assms(1) by (auto simp: block_ok_def sorted_wrt_append)
  then show ?thesis using assms(2) by (fastforce simp: ss)
qed

lemma dom_map_slices: "dom (map_slices ss m) = dom m \<union> (\<Union>s\<in>set ss. slice_range s)"
  by (induction ss arbitrary: m) auto

lemma content_restrict: "x \<in> A \<Longrightarrow> content d (m |` A) x = content d m x"
  by (simp add: content_def)

text \<open>The bytes that a read returns: \<open>e\<close> is the end of the last slice in the range.\<close>

definition reads_back :: "disk \<Rightarrow> (int \<Rightarrow> (OBSliceType \<times> nat \<times> FSTrunkIdInfo \<times> int) option) \<Rightarrow> FSSliceSize \<Rightarrow> string \<Rightarrow> bool" where
  "reads_back d m key bytes \<longleftrightarrow>
     (\<exists>e. ss_offset key \<le> e \<and> e \<le> ss_offset key + ss_length key \<and> dom m \<inter> {e..<ss_offset key + ss_length key} = {} \<and>
          bytes = map (content d m) [ss_offset key..e - 1])"

context fastcommon
begin

lemma fs_slice_read_ok:
  assumes tok: "table_ok E (ow_ix w)" and k: "key_ok (bs_block (oc_bs_key c))" "0 < ss_length (bs_slice (oc_bs_key c))"
    and nw: "is_reclaim c \<or> quiet (bs_block (oc_bs_key c)) (ow_ix w)" and rd: "ow_reads w = []"
    and run: "fs_slice_read E sched c w = Some (0, c', w')" and fl: "filled d (ow_reads w') (oc_aio_buffers c') vs"
  shows "reads_back d (byte_map (ow_ix w) (block_id (bs_block (oc_bs_key c)))) (bs_slice (oc_bs_key c)) (concat vs)"
proof -
  let ?key = "bs_slice (oc_bs_key c)" and ?b = "block_id (bs_block (oc_bs_key c))" and ?off = "ss_offset (bs_slice (oc_bs_key c))"
  obtain r1 arr ix where g: "ob_index_get_slices_ex E sched (oc_bs_key c) (oc_slice_ptr_array c) (is_reclaim c) (ow_ix w) = Some (r1, arr, ix)"
    using run by (auto simp: fs_slice_read_def split: option.splits)
  note run' = run [unfolded fs_slice_read_def g option.case prod.case Let_def]
  then have "r1 = 0" by (simp split: if_splits)
  note g = g [unfolded this]
  obtain c2 w2 where ck: "check_realloc_buffer_ptr_array E (int (length (pa_slices arr)) * 2) (c\<lparr>oc_slice_ptr_array := arr\<rparr>) (w\<lparr>ow_ix := ix\<rparr>) = (0, c2, w2)"
    and rl: "read_loop E (pa_slices arr) ?off
      (c2\<lparr>oc_result := 0, oc_done_bytes := 0, oc_counter := int (length (pa_slices arr)), oc_aio_buffers := []\<rparr>) w2 = (0, c', w')"
    using run' \<open>r1 = 0\<close> by (auto split: prod.splits if_splits)
  have w2: "ow_reads w2 = []"
    using ck rd by (auto simp: check_realloc_buffer_ptr_array_def take_call_def Let_def split: if_splits)
  from get_ex_result [OF tok k nw [unfolded quiet_def] g] obtain ob where
    ob: "tab (ow_ix w) ?b = Some ob" "is_reclaim c \<or> ob_reclaiming_count ob \<le> 0" by auto
  note mp = get_ex_map [OF tok k(1) ob k(2) g]
  have cov: "covered (pa_slices arr) = dom (byte_map (ow_ix w) ?b) \<inter> ssize_range ?key" using mp(2) by (simp add: covered_dom)
  have inr: "?off \<le> sl_offset s \<and> sl_end s \<le> ?off + ss_length ?key" if "s \<in> set (pa_slices arr)" for s
  proof -
    have "0 < sl_length s" using mp(1) that by (auto simp: block_ok_def)
    then have "sl_offset s \<in> covered (pa_slices arr)" "sl_end s - 1 \<in> covered (pa_slices arr)" using that by (auto simp: covered_def intro!: bexI [of _ s])
    then show ?thesis using cov by auto
  qed
  have off: "\<forall>s\<in>set (pa_slices arr). ?off \<le> sl_offset s" using inr by blast
  let ?e = "plan_end (pa_slices arr) ?off"
  have e: "?off \<le> ?e" "?e \<le> ?off + ss_length ?key"
    using plan_end_ge [OF mp(1) off] inr [of "last (pa_slices arr)"] k(2) by (auto simp: plan_end_def)
  have "vs = map (item_bytes d) (read_plan (pa_slices arr) ?off)"
    using filled_plan [of d "read_plan (pa_slices arr) ?off" vs] fl read_loop_plan [OF rl] w2 by simp
  then have "concat vs = map (content d (block_map (pa_slices arr))) [?off..?e - 1]" using read_plan_content [OF mp(1) off] by simp
  also have "\<dots> = map (content d (byte_map (ow_ix w) ?b)) [?off..?e - 1]" unfolding mp(2) using e(2) by (auto intro!: content_restrict)
  finally have bytes: "concat vs = map (content d (byte_map (ow_ix w) ?b)) [?off..?e - 1]" .
  have "covered (pa_slices arr) \<subseteq> {..<?e}"
  proof (cases "pa_slices arr = []")
    case False
    then have "sl_end s \<le> ?e" if "s \<in> set (pa_slices arr)" for s
      using block_ok_last [OF mp(1) that] by (simp add: plan_end_def)
    then show ?thesis by (fastforce simp: covered_def)
  qed (simp add: covered_def)
  then have "dom (byte_map (ow_ix w) ?b) \<inter> {?e..<?off + ss_length ?key} = {}" using cov e(1) by (fastforce simp: ssize_range_def)
  then show ?thesis unfolding reads_back_def using e bytes by blast
qed

end

section \<open>From a write to a read\<close>

context fastcommon
begin

lemma write_finish_ok:
  assumes tok: "table_ok E (ow_ix w)" and k: "key_ok (bs_block (oc_bs_key c))" "0 < ss_length (bs_slice (oc_bs_key c))"
    and m: "alloc_ready P asched (ix_mgr (ow_ix w))" "0 < discard"
    and run: "fs_slice_write E discard asched junk c w = Some (0, c1, w1)" and pos: "\<forall>p\<in>set (oc_sarray c1). 0 < sl_length (sn_slice p)"
    and ts: "mset ts = mset (map sn_slice (oc_sarray c1))" and c2: "c2 = fold (\<lambda>s. slice_write_done s 0) ts c1"
    and nw: "is_reclaim c \<or> quiet (bs_block (oc_bs_key c)) (ow_ix w1)"
    and fin: "fs_write_finish E scheds interf c2 w1 = Some (c3, w2)" "oc_result c3 = 0"
  shows "oc_callbacks c2 = Suc (oc_callbacks c) \<and> oc_done_bytes c2 = ss_length (bs_slice (oc_bs_key c)) \<and>
    table_ok E (ow_ix w2) \<and> ow_reads w2 = ow_reads w1 \<and>
    byte_map (ow_ix w2) = (byte_map (ow_ix w))(block_id (bs_block (oc_bs_key c)) :=
      map_slices (map sn_slice (oc_sarray c1)) (byte_map (ow_ix w) (block_id (bs_block (oc_bs_key c))))) \<and>
    oc_space_changed c3 = int (card (ssize_range (bs_slice (oc_bs_key c)) - dom (byte_map (ow_ix w) (block_id (bs_block (oc_bs_key c)))))) \<and>
    (quiet (bs_block (oc_bs_key c)) (ow_ix w1) \<longrightarrow> quiet (bs_block (oc_bs_key c)) (ow_ix w2))"
proof -
  let ?bkey = "bs_block (oc_bs_key c)" and ?key = "bs_slice (oc_bs_key c)"
  from run obtain ix ps where
    a: "fs_slice_alloc E discard asched junk (oc_bs_key c) OB_SLICE_TYPE_FILE (is_reclaim c) (ow_ix w) = Some (0, ps, ix)"
    and c1: "c1 = c\<lparr>oc_done_bytes := 0, oc_space_changed := 0, oc_sarray := ps, oc_result := 0, oc_counter := int (length ps)\<rparr>"
    and q: "(if oc_buffer_type c = fs_buffer_type_array then write_iovec_array E c1 (w\<lparr>ow_ix := ix\<rparr>)
      else push_buffs E ps (oc_buff c) (w\<lparr>ow_ix := ix\<rparr>)) = (0, w1)" by (rule fs_slice_write_cases)
  have ps: "oc_sarray c1 = ps" by (simp add: c1)
  from fs_slice_alloc_ok [OF tok k m a] have tok1: "table_ok E ix" "byte_map ix = byte_map (ow_ix w)"
    and rd: "slices_ready E (oc_bs_key c) OB_SLICE_TYPE_FILE ps (ow_ix w) ix" by auto
  have ix: "ow_ix w1 = ix"
    using q writes_keep_index by (auto split: if_splits)
  have til: "tiles (ss_offset ?key) (map sn_slice ps) (ss_offset ?key + ss_length ?key)" using rd by (simp add: slices_ready_def)
  have "ps \<noteq> []" using til k(2) by auto
  then have ne: "ts \<noteq> []" "length ts = length ps" using ts ps mset_eq_length [OF ts] by auto
  have sum: "(\<Sum>s\<leftarrow>ts. sl_length s) = ss_length ?key"
    using tiles_sum [OF til] ts ps by (metis add_diff_cancel_left' mset_map sum_mset_sum_list)
  have c2': "c2 = c1\<lparr>oc_done_bytes := oc_done_bytes c1 + (\<Sum>s\<leftarrow>ts. sl_length s), oc_counter := 0, oc_callbacks := Suc (oc_callbacks c1)\<rparr>"
    unfolding c2 by (rule writes_done) (use ne in \<open>simp_all add: c1\<close>)
  have rc: "is_reclaim c2 = is_reclaim c" by (simp add: c2' c1 is_reclaim_def)
  obtain r qs inc ix2 where ap: "add_pairs E scheds (is_reclaim c) 0 ps ix = Some (r, qs, inc, ix2)"
    using fin(1) by (auto simp: fs_write_finish_def c2' c1 ix is_reclaim_def split: option.splits)
  note f = fin(1) [unfolded fs_write_finish_def rc]
  have r: "r = 0"
    using f ap fin(2) by (cases "r = 0") (auto simp: c2' c1 ix free_slice_array_def)
  have c3: "oc_space_changed c3 = inc \<and> ow_ix w2 = ix2 \<and> ow_reads w2 = ow_reads w1"
    using f ap r by (auto simp: c2' c1 ix set_data_version_def Let_def split: if_splits)
  have sf: "\<forall>p\<in>set ps. slice_for ix ?bkey OB_SLICE_TYPE_FILE (sn_slice p) \<and> 0 < sl_length (sn_slice p)"
    using rd pos ps by (simp add: slices_ready_def)
  note ad = add_pairs_ok [OF tok1(1) k(1) sf _ ap [unfolded r]]
  have "(\<Union>p\<in>set ps. slice_range (sn_slice p)) = ssize_range ?key" using tiles_range [OF til] by (simp add: ssize_range_def)
  then show ?thesis using ad nw c3 c2' sum tok1(2) by (simp add: ix c1)
qed

end

section \<open>Properties\<close>

text \<open>
  Property C31. The slices that a write or an allocation gets tile the range of the request without a gap or an overlap: each
  lies in space that was free before, long enough for it, and no two of them share a byte on disk; the
  index still maps what it mapped. When the free space of trunks is a multiple of the alignment, no
  slice is empty. The only errors are \<open>ENOSPC\<close>, \<open>EINTR\<close>, \<open>EAGAIN\<close> and \<open>ENOMEM\<close>.
\<close>
theorem slices_tile_range:
  assumes "fastcommon E" "table_ok E st" "key_ok (bs_block key)" "0 < ss_length (bs_slice key)"
    "alloc_ready P asched (ix_mgr st)" "0 < discard"
    "fs_slice_alloc E discard asched junk key ty reclaim st = Some (r, ps, st')"
  shows "r \<in> {ENOSPC, EINTR, EAGAIN, ENOMEM} \<or>
    r = 0 \<and> table_ok E st' \<and> byte_map st' = byte_map st \<and> slices_ready E key ty ps st st' \<and>
    ((\<forall>p\<in>set ps. FS_SPACE_ALIGN_SIZE dvd ts_size (sl_space (sn_slice p))) \<longrightarrow> (\<forall>p\<in>set ps. 0 < sl_length (sn_slice p)))"
  using fastcommon.fs_slice_alloc_ok [OF assms] fastcommon.ready_positive [OF assms(1) _ assms(4)] by blast

text \<open>
  Property C12. A write whose data come as a list of buffers hands the same bytes to the write threads as a write of the
  concatenated data from one buffer: the same slices with the same versions, and for each slice
  the same bytes, wherever the borders of the buffers lie.
\<close>
theorem iovec_same_as_direct:
  assumes "fastcommon E" "table_ok E (ow_ix w)" "key_ok (bs_block (oc_bs_key c))" "0 < ss_length (bs_slice (oc_bs_key c))"
    "alloc_ready P asched (ix_mgr (ow_ix w))" "0 < discard"
    and "oc_buffer_type c = fs_buffer_type_array" "oc_aio_buffers c = map Some bufs" "\<forall>b\<in>set bufs. buf_ok b"
    "(\<Sum>b\<leftarrow>bufs. ab_length b) = ss_length (bs_slice (oc_bs_key c))"
    and "fs_slice_write E discard asched junk c w = Some (0, c1, w1)" "\<forall>p\<in>set (oc_sarray c1). 0 < sl_length (sn_slice p)"
    and "fs_slice_write E discard asched junk (c\<lparr>oc_buffer_type := fs_buffer_type_direct, oc_buff := concat (map ab_piece bufs)\<rparr>) w =
      Some (0, c2, w2)"
  shows "map io_view (ow_writes w1) = map io_view (ow_writes w2) \<and> ow_ix w1 = ow_ix w2"
proof -
  from assms(11) obtain ix ps where
    a: "fs_slice_alloc E discard asched junk (oc_bs_key c) OB_SLICE_TYPE_FILE (is_reclaim c) (ow_ix w) = Some (0, ps, ix)"
    and c1: "c1 = c\<lparr>oc_done_bytes := 0, oc_space_changed := 0, oc_sarray := ps, oc_result := 0, oc_counter := int (length ps)\<rparr>"
    and q: "(if oc_buffer_type c = fs_buffer_type_array then write_iovec_array E c1 (w\<lparr>ow_ix := ix\<rparr>)
      else push_buffs E ps (oc_buff c) (w\<lparr>ow_ix := ix\<rparr>)) = (0, w1)" by (rule fs_slice_write_cases)
  from assms(13) have q2: "push_buffs E ps (concat (map ab_piece bufs)) (w\<lparr>ow_ix := ix\<rparr>) = (0, w2)"
    by (rule fs_slice_write_cases) (use a in \<open>simp add: is_reclaim_def\<close>)
  have "(\<Sum>p\<leftarrow>oc_sarray c1. sl_length (sn_slice p)) = (\<Sum>b\<leftarrow>bufs. ab_length b)"
    using fastcommon.fs_slice_alloc_ok [OF assms(1-6) a] tiles_sum assms(10)
    by (fastforce simp: slices_ready_def c1 o_def)
  from write_iovec_ok [OF _ _ assms(9,12) this, of E "w\<lparr>ow_ix := ix\<rparr>" w1] q assms(7,8)
  have "map io_view (ow_writes w1) = map io_view (ow_writes w) @ cut_bytes ps (concat (map ab_piece bufs)) \<and> ow_ix w1 = ix"
    by (simp add: c1)
  then show ?thesis using push_buffs_ok [OF q2] by simp
qed

text \<open>
  Property C32. The buffers of a read, once the read threads have filled them, hold the content of the block from the
  start of the range to the end of the last slice in it: what is on disk where a slice was written, and zeros in holes
  and in space that is only allocated. Behind that end no byte of the range is mapped.
\<close>
theorem read_returns_content:
  assumes "fastcommon E" "table_ok E (ow_ix w)" "key_ok (bs_block (oc_bs_key c))" "0 < ss_length (bs_slice (oc_bs_key c))"
    "is_reclaim c \<or> quiet (bs_block (oc_bs_key c)) (ow_ix w)" "ow_reads w = []"
    "fs_slice_read E sched c w = Some (0, c', w')" "filled d (ow_reads w') (oc_aio_buffers c') vs"
  shows "reads_back d (byte_map (ow_ix w) (block_id (bs_block (oc_bs_key c)))) (bs_slice (oc_bs_key c)) (concat vs)"
  by (rule fastcommon.fs_slice_read_ok [OF assms])

text \<open>
  Property C2. What is written is read back. A write gets its slices and queues them; the write threads put the bytes on disk and report
  every slice, in any order; the callback of the operation runs exactly once, with all bytes counted; the slices
  enter the index, which then has grown by the bytes that were not mapped before; and a read of the same range
  returns the written data, whatever the block held before.
\<close>
theorem write_then_read:
  assumes "fastcommon E" "table_ok E (ow_ix w)" "key_ok (bs_block (oc_bs_key c))" "0 < ss_length (bs_slice (oc_bs_key c))"
    "alloc_ready P asched (ix_mgr (ow_ix w))" "0 < discard"
    and "oc_buffer_type c = fs_buffer_type_direct" "ss_length (bs_slice (oc_bs_key c)) \<le> int (length (oc_buff c))" "ow_writes w = []" "ow_reads w = []"
    and "fs_slice_write E discard asched junk c w = Some (0, c1, w1)" "\<forall>p\<in>set (oc_sarray c1). 0 < sl_length (sn_slice p)"
    and "d' = disk_writes (map io_view (ow_writes w1)) d"
    and "mset ts = mset (map sn_slice (oc_sarray c1))" "c2 = fold (\<lambda>s. slice_write_done s 0) ts c1"
    and "quiet (bs_block (oc_bs_key c)) (ow_ix w1)"
    and "fs_write_finish E scheds interf c2 w1 = Some (c3, w2)" "oc_result c3 = 0"
    and "oc_bs_key c4 = oc_bs_key c" "fs_slice_read E sched c4 w2 = Some (0, c5, w3)" "filled d' (ow_reads w3) (oc_aio_buffers c5) vs"
  shows "concat vs = take (nat (ss_length (bs_slice (oc_bs_key c)))) (oc_buff c) \<and>
    oc_callbacks c2 = Suc (oc_callbacks c) \<and> oc_done_bytes c2 = ss_length (bs_slice (oc_bs_key c)) \<and>
    oc_space_changed c3 = int (card (ssize_range (bs_slice (oc_bs_key c)) - dom (byte_map (ow_ix w) (block_id (bs_block (oc_bs_key c))))))"
proof -
  let ?bkey = "bs_block (oc_bs_key c)" and ?key = "bs_slice (oc_bs_key c)" and ?off = "ss_offset (bs_slice (oc_bs_key c))"
  let ?len = "ss_length (bs_slice (oc_bs_key c))"
  from assms(11) obtain ix ps where
    a: "fs_slice_alloc E discard asched junk (oc_bs_key c) OB_SLICE_TYPE_FILE (is_reclaim c) (ow_ix w) = Some (0, ps, ix)"
    and c1: "c1 = c\<lparr>oc_done_bytes := 0, oc_space_changed := 0, oc_sarray := ps, oc_result := 0, oc_counter := int (length ps)\<rparr>"
    and q: "(if oc_buffer_type c = fs_buffer_type_array then write_iovec_array E c1 (w\<lparr>ow_ix := ix\<rparr>)
      else push_buffs E ps (oc_buff c) (w\<lparr>ow_ix := ix\<rparr>)) = (0, w1)" by (rule fs_slice_write_cases)
  have ps: "oc_sarray c1 = ps" by (simp add: c1)
  have q: "push_buffs E ps (oc_buff c) (w\<lparr>ow_ix := ix\<rparr>) = (0, w1)" using q assms(7) by simp
  from fastcommon.fs_slice_alloc_ok [OF assms(1-6) a]
  have rd: "slices_ready E (oc_bs_key c) OB_SLICE_TYPE_FILE ps (ow_ix w) ix" by auto
  have til: "tiles ?off (map sn_slice ps) (?off + ?len)" using rd by (simp add: slices_ready_def)
  have d': "d' = disk_writes (cut_bytes ps (oc_buff c)) d" using push_buffs_ok [OF q] assms(9,13) by simp
  note fin = fastcommon.write_finish_ok [OF assms(1-6,11,12,14,15) _ assms(17,18)]
  let ?m = "map_slices (map sn_slice ps) (byte_map (ow_ix w) (block_id ?bkey))"
  have w2: "table_ok E (ow_ix w2)" "ow_reads w2 = []" "quiet ?bkey (ow_ix w2)" "byte_map (ow_ix w2) (block_id ?bkey) = ?m"
    using fin assms(10,16) push_buffs_reads [OF q] ps by simp_all
  from fastcommon.fs_slice_read_ok [OF assms(1) w2(1) _ _ _ w2(2) assms(20,21)] assms(3,4,19) w2(3,4)
  have "reads_back d' ?m ?key (concat vs)" by simp
  then obtain e where e: "?off \<le> e" "e \<le> ?off + ?len" "dom ?m \<inter> {e..<?off + ?len} = {}" "concat vs = map (content d' ?m) [?off..e - 1]"
    by (auto simp: reads_back_def)
  have "{?off..<?off + ?len} \<subseteq> dom ?m" using tiles_range [OF til] by (auto simp: dom_map_slices)
  then have "e \<in> dom ?m \<inter> {e..<?off + ?len}" if "e < ?off + ?len" using that e(1) by (meson IntI atLeastLessThan_iff order_refl subsetD)
  then have "e = ?off + ?len" using e(2,3) by (metis emptyE linorder_not_less order_antisym)
  moreover have "content d' ?m x = oc_buff c ! nat (x - ?off)" if "?off \<le> x" "x < ?off + ?len" for x
    unfolding d' by (rule write_content [OF til]) (use rd that assms(8) in \<open>auto simp: slices_ready_def slice_for_def\<close>)
  ultimately have "concat vs = take (nat ?len) (oc_buff c)"
    using e(4) assms(8) by (auto simp: list_eq_iff_nth_eq)
  then show ?thesis using fin assms(16) by simp
qed

text \<open>
  Property C33. The holes that an allocation fills are exactly the bytes of the range that no slice covers: they do not overlap, come in increasing
  order, none is empty, and together they are the unmapped bytes. When the array is too small the call
  says so with \<open>-ENOSPC\<close> and how many holes there are. Every slice that was looked up is released again, and the
  index still maps what it mapped.
\<close>
theorem holes_are_unmapped:
  assumes "fastcommon E" "index_ok E X (ow_ix w)" "\<And>p. 0 \<le> X p" "key_ok (bs_block (oc_bs_key c))" "0 < ss_length (bs_slice (oc_bs_key c))"
    "is_reclaim c \<or> quiet (bs_block (oc_bs_key c)) (ow_ix w)" "1 \<le> n"
    "get_slice_index_holes E sched n c w = Some (r, holes, cnt, c', w')" "r = 0 \<or> r = - ENOSPC"
  shows "\<exists>all. holes = take n all \<and> cnt = length all \<and> (r = 0 \<longleftrightarrow> cnt \<le> n) \<and>
    holes_of (dom (byte_map (ow_ix w) (block_id (bs_block (oc_bs_key c))))) (bs_slice (oc_bs_key c)) all \<and>
    index_ok E X (ow_ix w') \<and> byte_map (ow_ix w') = byte_map (ow_ix w)"
  by (rule fastcommon.get_holes_ok [OF assms(1-5) assms(6) [unfolded quiet_def] assms(8,9,7)])

section \<open>A run\<close>

text \<open>The example index with one store path: 30 bytes do not fit into the first trunk and are written in two slices.\<close>

definition ex_op_mgr :: FSStorageAllocatorManager where
  "ex_op_mgr = upd_allocator 0 (\<lambda>a. a\<lparr>ta_by_id := [(1, 1), (2, 2), (3, 3)]\<rparr>) ex_two"

definition ex_world :: op_world where
  "ex_world = \<lparr>ow_ix = ex_ix\<lparr>ix_mgr := ex_op_mgr\<rparr>, ow_version = 9, ow_logs = ex_logs, ow_now = 17, ow_writes = [], ow_reads = [], ow_calls = 0\<rparr>"

definition ex_ctx :: FSSliceOpContext where
  "ex_ctx = \<lparr>oc_callbacks = 0, oc_counter = 0, oc_result = 0, oc_done_bytes = 0, oc_log_replica = True, oc_source = CHR ''C'',
     oc_data_group_id = 1, oc_data_version = 0, oc_sn = 0, oc_bs_key = \<lparr>bs_block = ex_key, bs_slice = \<lparr>ss_offset = 20000, ss_length = 30\<rparr>\<rparr>,
     oc_buffer_type = fs_buffer_type_direct, oc_buff = ''the quick brown fox jumps over'', oc_space_changed = 0, oc_sarray = [], oc_sarray_alloc = 4,
     oc_slice_ptr_array = ex_arr, oc_aio_buffers = [], oc_aio_alloc = 0\<rparr>"

definition ex_bufs :: "AlignedReadBuffer list" where
  "ex_bufs = [\<lparr>ab_buff = ''--the quick'', ab_offset = 2, ab_length = 9\<rparr>, \<lparr>ab_buff = '' brown fox jumps over+'', ab_offset = 0, ab_length = 21\<rparr>]"

definition ex_vec_ctx :: FSSliceOpContext where
  "ex_vec_ctx = ex_ctx\<lparr>oc_buffer_type := fs_buffer_type_array, oc_aio_buffers := map Some ex_bufs\<rparr>"

lemma ex_free_space: "free_space_of ex_op_mgr = free_space_of ex_two"
  by (simp add: free_space_of_def ex_op_mgr_def upd_allocator_def get_freelist_def fun_eq_iff split: freelist_ref.splits option.splits)

lemma ex_alloc_ready: "alloc_ready {0} [[]] ex_op_mgr"
proof -
  have "aptr_split {0} ex_op_mgr" by (simp add: aptr_split_def aptr_ok_def ex_op_mgr_def upd_allocator_def ex_two_def Freelist_Properties.ex_mgr_def)
  moreover have "paths_exist {0} (free_space_of ex_op_mgr)"
    by (simp add: paths_exist_def sp_simps ex_free_space) (simp add: ex_two_def Freelist_Properties.ex_mgr_def)
  moreover have "ids_distinct ex_op_mgr"
    by (simp add: ids_distinct_def ex_op_mgr_def upd_allocator_def ex_two_def Freelist_Properties.ex_mgr_def Freelist_Properties.ex_trunk_def new_trunk_def)
  ultimately show ?thesis using ex_two_ok by (simp add: alloc_ready_def ex_free_space rely_def keeps_def)
qed

lemma ex_world_ok: "table_ok list_env (ow_ix ex_world)" "ix_mgr (ow_ix ex_world) = ex_op_mgr" "ow_writes ex_world = []" "ow_reads ex_world = []"
  using ex_table_ok same_table(2) [of "ow_ix ex_world" ex_ix list_env] by (simp_all add: ex_world_def)

lemma ex_op_ctx_ok: "bs_block (oc_bs_key ex_ctx) = ex_key" "bs_slice (oc_bs_key ex_ctx) = \<lparr>ss_offset = 20000, ss_length = 30\<rparr>"
  by (simp_all add: ex_ctx_def)

definition runs_to_zero :: "(int \<times> FSSliceOpContext \<times> op_world) option \<Rightarrow> bool" where
  "runs_to_zero x \<longleftrightarrow> (case x of Some (r, c, w) \<Rightarrow> r = 0 \<and> (\<forall>p\<in>set (oc_sarray c). 0 < sl_length (sn_slice p)) | None \<Rightarrow> False)"

lemma runs_to_zeroE: "runs_to_zero x \<Longrightarrow> \<exists>c w. x = Some (0, c, w) \<and> (\<forall>p\<in>set (oc_sarray c). 0 < sl_length (sn_slice p))"
  by (auto simp: runs_to_zero_def split: option.splits)

lemma ex_op_runs:
  "runs_to_zero (fs_slice_write list_env 16 [[]] ex_new ex_ctx ex_world)"
  "runs_to_zero (fs_slice_write list_env 16 [[]] ex_new ex_vec_ctx ex_world)"
  "runs_to_zero (fs_slice_write list_env 16 [[]] ex_new (ex_vec_ctx\<lparr>oc_buffer_type := fs_buffer_type_direct, oc_buff := concat (map ab_piece ex_bufs)\<rparr>) ex_world)"
  by code_simp+

definition ex_done :: "FSSliceOpContext \<Rightarrow> FSSliceOpContext" where
  "ex_done c = fold (\<lambda>s. slice_write_done s 0) (map sn_slice (oc_sarray c)) c"

text \<open>The write of the example, its end and a read of the same range.\<close>

definition ex_finishes :: bool where
  "ex_finishes \<longleftrightarrow> (case fs_slice_write list_env 16 [[]] ex_new ex_ctx ex_world of None \<Rightarrow> False
     | Some (_, c1, w1) \<Rightarrow> map_option ob_reclaiming_count (tab (ow_ix w1) (block_id ex_key)) = Some 0 \<and>
         (case fs_write_finish list_env (\<lambda>_. []) [] (ex_done c1) w1 of None \<Rightarrow> False
          | Some (c3, w2) \<Rightarrow> oc_result c3 = 0 \<and>
              (case fs_slice_read list_env [] ex_ctx w2 of None \<Rightarrow> False
               | Some (r, c5, w3) \<Rightarrow> r = 0 \<and> map Option.is_none (oc_aio_buffers c5) = [True, True] \<and> map snd (ow_reads w3) = [0, 1])))"

lemma ex_finishes_ok: ex_finishes
  by code_simp

lemma ex_filled:
  assumes "map Option.is_none bufs = [True, True]" "map snd reads = [0, 1]"
  shows "filled d reads bufs (map (slice_bytes d) (map fst reads))"
proof -
  from assms(2) obtain s t where r: "reads = [(s, 0), (t, 1)]" by (auto simp: map_eq_Cons_conv)
  from assms(1) have "bufs = [None, None]" by (auto simp: map_eq_Cons_conv Option.is_none_def)
  then show ?thesis by (auto simp: filled_def r less_Suc_eq)
qed

theorem write_then_read_witness:
  "\<exists>c1 w1 c3 w2 c5 w3 vs. fs_slice_write list_env 16 [[]] ex_new ex_ctx ex_world = Some (0, c1, w1) \<and>
     fs_write_finish list_env (\<lambda>_. []) [] (ex_done c1) w1 = Some (c3, w2) \<and> fs_slice_read list_env [] ex_ctx w2 = Some (0, c5, w3) \<and>
     filled (disk_writes (map io_view (ow_writes w1)) (\<lambda>_. CHR ''?'')) (ow_reads w3) (oc_aio_buffers c5) vs \<and>
     concat vs = ''the quick brown fox jumps over'' \<and> oc_callbacks (ex_done c1) = 1 \<and> oc_done_bytes (ex_done c1) = 30"
proof -
  from runs_to_zeroE [OF ex_op_runs(1)] obtain c1 w1 where
    w: "fs_slice_write list_env 16 [[]] ex_new ex_ctx ex_world = Some (0, c1, w1)" "\<forall>p\<in>set (oc_sarray c1). 0 < sl_length (sn_slice p)" by blast
  from ex_finishes_ok w(1) obtain c3 w2 c5 w3 where
    q: "map_option ob_reclaiming_count (tab (ow_ix w1) (block_id ex_key)) = Some 0"
    and f: "fs_write_finish list_env (\<lambda>_. []) [] (ex_done c1) w1 = Some (c3, w2)" "oc_result c3 = 0"
    and r: "fs_slice_read list_env [] ex_ctx w2 = Some (0, c5, w3)"
    and b: "map Option.is_none (oc_aio_buffers c5) = [True, True]" "map snd (ow_reads w3) = [0, 1]"
    unfolding ex_finishes_def by (auto split: option.splits prod.splits)
  let ?d = "disk_writes (map io_view (ow_writes w1)) (\<lambda>_. CHR ''?'')"
  let ?vs = "map (slice_bytes ?d) (map fst (ow_reads w3))"
  note fl = ex_filled [OF b, of ?d]
  have "quiet (bs_block (oc_bs_key ex_ctx)) (ow_ix w1)" using q by (auto simp: quiet_def ex_op_ctx_ok)
  from write_then_read [OF list_fc.fastcommon_axioms ex_world_ok(1) _ _ _ _ _ _ ex_world_ok(3,4) w refl _ ex_done_def this f _ r fl, of "{0}"]
  have "concat ?vs = take 30 (oc_buff ex_ctx) \<and> oc_callbacks (ex_done c1) = Suc (oc_callbacks ex_ctx) \<and> oc_done_bytes (ex_done c1) = 30"
    using ex_alloc_ready by (simp add: ex_op_ctx_ok ex_key_ok ex_world_ok) (simp add: ex_ctx_def)
  then show ?thesis using w f r fl by (intro exI [of _ c1] exI [of _ w1] exI [of _ c3] exI [of _ w2] exI [of _ c5] exI [of _ w3] exI [of _ ?vs])
    (simp add: ex_ctx_def)
qed

theorem iovec_same_as_direct_witness:
  "\<exists>c1 w1 c2 w2. fs_slice_write list_env 16 [[]] ex_new ex_vec_ctx ex_world = Some (0, c1, w1) \<and>
     fs_slice_write list_env 16 [[]] ex_new (ex_vec_ctx\<lparr>oc_buffer_type := fs_buffer_type_direct, oc_buff := concat (map ab_piece ex_bufs)\<rparr>) ex_world =
       Some (0, c2, w2) \<and> map io_view (ow_writes w1) = map io_view (ow_writes w2)"
proof -
  from runs_to_zeroE [OF ex_op_runs(2)] obtain c1 w1 where
    w: "fs_slice_write list_env 16 [[]] ex_new ex_vec_ctx ex_world = Some (0, c1, w1)" "\<forall>p\<in>set (oc_sarray c1). 0 < sl_length (sn_slice p)" by blast
  from runs_to_zeroE [OF ex_op_runs(3)] obtain c2 w2 where
    v: "fs_slice_write list_env 16 [[]] ex_new (ex_vec_ctx\<lparr>oc_buffer_type := fs_buffer_type_direct, oc_buff := concat (map ab_piece ex_bufs)\<rparr>) ex_world =
       Some (0, c2, w2)" by blast
  have "oc_bs_key ex_vec_ctx = oc_bs_key ex_ctx" "oc_aio_buffers ex_vec_ctx = map Some ex_bufs" "oc_buffer_type ex_vec_ctx = fs_buffer_type_array"
    "\<forall>b\<in>set ex_bufs. buf_ok b" "(\<Sum>b\<leftarrow>ex_bufs. ab_length b) = 30"
    by (simp_all add: ex_vec_ctx_def ex_bufs_def buf_ok_def)
  with iovec_same_as_direct [OF list_fc.fastcommon_axioms ex_world_ok(1) _ _ _ _ _ _ _ _ w v, of "{0}"] w v ex_alloc_ready
  show ?thesis by (simp add: ex_op_ctx_ok ex_key_ok ex_world_ok)
qed

theorem slices_tile_range_witness:
  "\<exists>ps st'. fs_slice_alloc list_env 16 [[]] ex_new (oc_bs_key ex_ctx) OB_SLICE_TYPE_FILE False (ow_ix ex_world) = Some (0, ps, st') \<and>
     slices_ready list_env (oc_bs_key ex_ctx) OB_SLICE_TYPE_FILE ps (ow_ix ex_world) st' \<and> byte_map st' = byte_map (ow_ix ex_world)"
proof -
  have "map_option fst (fs_slice_alloc list_env 16 [[]] ex_new (oc_bs_key ex_ctx) OB_SLICE_TYPE_FILE False (ow_ix ex_world)) = Some 0" by code_simp
  from some_fst [OF this] obtain ps st' where
    run: "fs_slice_alloc list_env 16 [[]] ex_new (oc_bs_key ex_ctx) OB_SLICE_TYPE_FILE False (ow_ix ex_world) = Some (0, ps, st')" by auto
  from slices_tile_range [OF list_fc.fastcommon_axioms ex_world_ok(1) _ _ _ _ run, of "{0}"] run ex_alloc_ready
  show ?thesis by (simp add: ex_op_ctx_ok ex_key_ok ex_world_ok)
qed

text \<open>A range of the example block that begins with a hole and ends in a slice.\<close>

definition ex_rd_bs :: FSBlockSliceKeyInfo where
  "ex_rd_bs = \<lparr>bs_block = ex_key, bs_slice = \<lparr>ss_offset = 8180, ss_length = 20\<rparr>\<rparr>"

definition ex_rd_ctx :: FSSliceOpContext where
  "ex_rd_ctx = ex_ctx\<lparr>oc_bs_key := ex_rd_bs\<rparr>"

lemma ex_rd_ok: "quiet (bs_block ex_rd_bs) (ow_ix ex_world)" "bs_block (oc_bs_key ex_rd_ctx) = ex_key" "oc_bs_key ex_rd_ctx = ex_rd_bs" "bs_block ex_rd_bs = ex_key"
  "0 < ss_length (bs_slice ex_rd_bs)"
proof -
  have "tab (ow_ix ex_world) = tab ex_ix" using same_table(3) [of "ow_ix ex_world" ex_ix] by (simp add: ex_world_def)
  then show "quiet (bs_block ex_rd_bs) (ow_ix ex_world)" by (simp add: quiet_def ex_rd_bs_def ex_deref) (simp add: ex_ob_def)
qed (simp_all add: ex_rd_ctx_def ex_rd_bs_def)

theorem read_returns_content_witness:
  "\<exists>c' w' vs. fs_slice_read list_env [] ex_rd_ctx ex_world = Some (0, c', w') \<and>
     reads_back (\<lambda>_. CHR ''?'') (byte_map (ow_ix ex_world) (block_id ex_key)) (bs_slice ex_rd_bs) (concat vs)"
proof -
  have "case fs_slice_read list_env [] ex_rd_ctx ex_world of None \<Rightarrow> False
    | Some (r, c', w') \<Rightarrow> r = 0 \<and> map Option.is_none (oc_aio_buffers c') = [False, True] \<and> map snd (ow_reads w') = [1]" by code_simp
  then obtain c' w' where run: "fs_slice_read list_env [] ex_rd_ctx ex_world = Some (0, c', w')"
    and b: "map Option.is_none (oc_aio_buffers c') = [False, True]" "map snd (ow_reads w') = [1]" by (auto split: option.splits)
  from b(2) obtain s where r: "ow_reads w' = [(s, 1)]" by (auto simp: map_eq_Cons_conv)
  from b(1) obtain z where bufs: "oc_aio_buffers c' = [Some z, None]" by (auto simp: map_eq_Cons_conv Option.is_none_def)
  let ?d = "\<lambda>_. CHR ''?''" and ?vs = "[ab_piece z, slice_bytes (\<lambda>_. CHR ''?'') s]"
  have "filled ?d (ow_reads w') (oc_aio_buffers c') ?vs" by (auto simp: filled_def r bufs less_Suc_eq numeral_eq_Suc)
  from read_returns_content [OF list_fc.fastcommon_axioms ex_world_ok(1) _ _ _ ex_world_ok(4) run this]
  have "reads_back ?d (byte_map (ow_ix ex_world) (block_id ex_key)) (bs_slice ex_rd_bs) (concat ?vs)"
    using ex_rd_ok ex_key_ok by simp
  then show ?thesis using run by blast
qed

definition ex_ix_world :: op_world where
  "ex_ix_world = ex_world\<lparr>ow_ix := ex_ix\<rparr>"

theorem holes_are_unmapped_witness:
  "\<exists>holes c' w'. get_slice_index_holes list_env [] 4 ex_rd_ctx ex_ix_world = Some (0, holes, 1, c', w') \<and>
     holes_of (dom (byte_map ex_ix (block_id ex_key))) (bs_slice ex_rd_bs) holes"
proof -
  have "map_option (\<lambda>(r, holes, n, x). (r, n)) (get_slice_index_holes list_env [] 4 ex_rd_ctx ex_ix_world) = Some (0, 1)" by code_simp
  then obtain holes c' w' where run: "get_slice_index_holes list_env [] 4 ex_rd_ctx ex_ix_world = Some (0, holes, 1, c', w')" by fastforce
  have ix: "ow_ix ex_ix_world = ex_ix" by (simp add: ex_ix_world_def)
  have q: "quiet ex_key ex_ix" by (simp add: quiet_def ex_deref) (simp add: ex_ob_def)
  have X: "0 \<le> ex_X p" for p by (simp add: ex_X_def)
  have "\<exists>all. holes = take 4 all \<and> 1 = length all \<and> ((0::int) = 0 \<longleftrightarrow> 1 \<le> (4::nat)) \<and>
      holes_of (dom (byte_map ex_ix (block_id ex_key))) (bs_slice ex_rd_bs) all \<and> index_ok list_env ex_X (ow_ix w') \<and> byte_map (ow_ix w') = byte_map ex_ix"
    by (rule holes_are_unmapped [OF list_fc.fastcommon_axioms _ X _ _ _ _ run, unfolded ix ex_rd_ok])
      (use ex_index_ok q ex_key_ok ex_rd_ok(5) in simp_all)
  then obtain all where "holes = take 4 all" "length all = 1" "holes_of (dom (byte_map ex_ix (block_id ex_key))) (bs_slice ex_rd_bs) all" by auto
  then have "holes_of (dom (byte_map ex_ix (block_id ex_key))) (bs_slice ex_rd_bs) holes" by simp
  then show ?thesis using run by blast
qed

section \<open>An empty slice\<close>

text \<open>Trunks of 64 MB and 4 bytes, a size the configuration accepts; the first has 4100 bytes left.\<close>

definition ex_odd_mgr :: FSStorageAllocatorManager where
  "ex_odd_mgr = Freelist_Properties.ex_mgr [1 \<mapsto> Freelist_Properties.ex_trunk 1 67108868 67104768, 2 \<mapsto> Freelist_Properties.ex_trunk 2 67108868 0]
     [1, 2] 67112968"

definition ex_odd_bs :: FSBlockSliceKeyInfo where
  "ex_odd_bs = \<lparr>bs_block = ex_key, bs_slice = \<lparr>ss_offset = 20000, ss_length = 4098\<rparr>\<rparr>"

definition record_refused :: "OBSliceEntry \<Rightarrow> bool" where
  "record_refused s \<longleftrightarrow> (case slice_binlog_log_add_slice list_log_env ex_key s 17 42 9 CHR ''C'' ex_logs of (r, b) \<Rightarrow>
     r = 0 \<and> slice_parse_line list_log_env [True] (ll_text (last (bl_slice b))) [] ex_srec = Inl EINVAL)"

lemma empty_record_refused:
  assumes "sl_length s = 0" "0 \<le> sl_offset s" "sl_offset s < 2 ^ 31"
  shows "record_refused s"
proof -
  have "loggable_key ex_key" by (simp add: loggable_key_def ex_key_def fs_calc_block_hashcode_def)
  from list_log.empty_slice_text [OF this assms(2,3,1), of "CHR ''C''"]
  show ?thesis
    by (simp add: record_refused_def slice_binlog_log_add_slice_def slice_binlog_log_def list_log.push Let_def ex_logs_def del: columns.simps)
      (simp add: list_log_env_def)
qed

text \<open>
  Property C34. A write of 4098 bytes with 4100 bytes left in the trunk at the head: the aligned size is 4104, the allocator
  gives pieces of 4100 and 4 bytes, and the first slice takes all of the data. The second slice is empty; it is
  logged in the slice binlog like any other, but the record of an empty slice is not
  accepted when the binlog is read at the next start.
\<close>
theorem empty_slice_breaks_restart:
  "\<exists>p q st'. fs_slice_alloc list_env 4096 [[]] ex_new ex_odd_bs OB_SLICE_TYPE_FILE False (ex_ix\<lparr>ix_mgr := ex_odd_mgr\<rparr>) = Some (0, [p, q], st') \<and>
     sl_length (sn_slice p) = 4098 \<and> sl_length (sn_slice q) = 0 \<and> record_refused (sn_slice q)"
proof -
  have "case fs_slice_alloc list_env 4096 [[]] ex_new ex_odd_bs OB_SLICE_TYPE_FILE False (ex_ix\<lparr>ix_mgr := ex_odd_mgr\<rparr>) of
      None \<Rightarrow> False
    | Some (r, ps, st') \<Rightarrow> r = 0 \<and> map (\<lambda>p. sl_ssize (sn_slice p)) ps = [\<lparr>ss_offset = 20000, ss_length = 4098\<rparr>, \<lparr>ss_offset = 24098, ss_length = 0\<rparr>]"
    by code_simp
  then obtain ps st' where
    run: "fs_slice_alloc list_env 4096 [[]] ex_new ex_odd_bs OB_SLICE_TYPE_FILE False (ex_ix\<lparr>ix_mgr := ex_odd_mgr\<rparr>) = Some (0, ps, st')"
    and ps: "map (\<lambda>p. sl_ssize (sn_slice p)) ps = [\<lparr>ss_offset = 20000, ss_length = 4098\<rparr>, \<lparr>ss_offset = 24098, ss_length = 0\<rparr>]"
    by (auto split: option.splits)
  from ps obtain p q where pq: "ps = [p, q]" "sl_ssize (sn_slice p) = \<lparr>ss_offset = 20000, ss_length = 4098\<rparr>"
    "sl_ssize (sn_slice q) = \<lparr>ss_offset = 24098, ss_length = 0\<rparr>" by (auto simp: map_eq_Cons_conv)
  have "record_refused (sn_slice q)" by (rule empty_record_refused) (simp_all add: pq)
  then show ?thesis using run pq by auto
qed

end
