(* ===== verification/Data_Thread.thy ===== *)
theory Data_Thread
  imports Slice_Op_Properties
begin

text \<open>
  The data threads (\<open>src/server/data_thread.c\<close>, \<open>data_thread.h\<close>): each takes operations from its queue, runs
  them, waits until their I/O is done, sends updates of a master to the slaves
  (\<open>replication/replication_caller.c\<close>) and logs them.

  A thread waits on the flag \<open>notify_done\<close>, which the callback of an operation and the last answer of the slaves set. What other
  threads do while it waits is a list of events: a write or read thread reports a slice, a slave answers,
  the program is told to stop. \<open>None\<close> says that the events ended while the thread still waits.
\<close>

section \<open>Data\<close>

abbreviation (input) DATA_OPERATION_SLICE_READ :: char where "DATA_OPERATION_SLICE_READ \<equiv> CHR ''r''"
abbreviation (input) DATA_OPERATION_SLICE_WRITE :: char where "DATA_OPERATION_SLICE_WRITE \<equiv> CHR ''w''"
abbreviation (input) DATA_OPERATION_SLICE_ALLOCATE :: char where "DATA_OPERATION_SLICE_ALLOCATE \<equiv> CHR ''a''"
abbreviation (input) DATA_OPERATION_SLICE_DELETE :: char where "DATA_OPERATION_SLICE_DELETE \<equiv> CHR ''d''"
abbreviation (input) DATA_OPERATION_BLOCK_DELETE :: char where "DATA_OPERATION_BLOCK_DELETE \<equiv> CHR ''D''"

datatype data_source = DATA_SOURCE_MASTER_SERVICE | DATA_SOURCE_SLAVE_REPLICA | DATA_SOURCE_SLAVE_RECOVERY

record FSDataOperation =
  op_operation :: char
  op_source :: data_source
  op_binlog_write_done :: bool

abbreviation (input) FS_DS_STATUS_OFFLINE :: int where "FS_DS_STATUS_OFFLINE \<equiv> 2"
abbreviation (input) FS_DS_STATUS_ONLINE :: int where "FS_DS_STATUS_ONLINE \<equiv> 4"
abbreviation (input) FS_DS_STATUS_ACTIVE :: int where "FS_DS_STATUS_ACTIVE \<equiv> 5"

text \<open>A slave of the data group: its status, whether its channel is ready, and the calls pushed to its queue.\<close>

record slave_server =
  sv_status :: int
  sv_ready :: bool
  sv_pushed :: nat

text \<open>
  A data thread with the operation it works on: the flag of the thread, the operation and its context, the
  shared state, the slaves of the data group (\<open>None\<close>: the group is not known) and the count of answers
  the operation still waits for. \<open>dt_answered\<close> counts the calls of \<open>notify_func\<close>.
\<close>

record data_thread =
  dt_notify_done :: bool
  dt_continue :: bool
  dt_op :: FSDataOperation
  dt_ctx :: FSSliceOpContext
  dt_world :: op_world
  dt_slaves :: "slave_server list option"
  dt_waiting_rpc :: int
  dt_answered :: nat

datatype io_event = WRITE_DONE OBSliceEntry int | READ_DONE OBSliceEntry int | RPC_ANSWER | SHUTDOWN

section \<open>Waiting\<close>

definition data_thread_notify :: "data_thread \<Rightarrow> data_thread" where
  "data_thread_notify t = t\<lparr>dt_notify_done := True\<rparr>"

text \<open>\<open>data_thread_rw_done_callback\<close> runs when the callbacks of the context have been called.\<close>

definition with_callback :: "FSSliceOpContext \<Rightarrow> op_world \<Rightarrow> data_thread \<Rightarrow> data_thread" where
  "with_callback c w t =
     (let t1 = t\<lparr>dt_ctx := c, dt_world := w\<rparr> in if oc_callbacks (dt_ctx t) < oc_callbacks c then data_thread_notify t1 else t1)"

definition decrease_task_waiting_rpc_count :: "data_thread \<Rightarrow> data_thread" where
  "decrease_task_waiting_rpc_count t =
     (let t1 = t\<lparr>dt_waiting_rpc := dt_waiting_rpc t - 1\<rparr> in if dt_waiting_rpc t1 = 0 then data_thread_notify t1 else t1)"

fun io_step :: "io_event \<Rightarrow> data_thread \<Rightarrow> data_thread" where
  "io_step (WRITE_DONE s r) t = with_callback (slice_write_done s r (dt_ctx t)) (dt_world t) t"
| "io_step (READ_DONE s r) t = (case do_read_done s r (dt_ctx t) (dt_world t) of (c, w) \<Rightarrow> with_callback c w t)"
| "io_step RPC_ANSWER t = decrease_task_waiting_rpc_count t"
| "io_step SHUTDOWN t = t\<lparr>dt_continue := False\<rparr>"

fun cond_wait :: "io_event list \<Rightarrow> data_thread \<Rightarrow> (data_thread \<times> io_event list) option" where
  "cond_wait evs t =
     (if dt_notify_done t \<or> \<not> dt_continue t then Some (t\<lparr>dt_notify_done := False\<rparr>, evs)
      else (case evs of [] \<Rightarrow> None | e # es \<Rightarrow> cond_wait es (io_step e t)))"

declare cond_wait.simps [simp del]

text \<open>The macro returns from the function when the program stops: \<open>k\<close> is what follows it otherwise.\<close>

definition DATA_THREAD_COND_WAIT :: "io_event list \<Rightarrow> data_thread \<Rightarrow> (io_event list \<Rightarrow> data_thread \<Rightarrow> (bool \<times> data_thread) option) \<Rightarrow>
    (bool \<times> data_thread) option" where
  "DATA_THREAD_COND_WAIT evs t k =
     (case cond_wait evs t of
        None \<Rightarrow> None
      | Some (t1, evs1) \<Rightarrow> if \<not> dt_continue t1 then Some (False, t1) else k evs1 t1)"

section \<open>Logging an update\<close>

definition log_data_update :: "fc_env \<Rightarrow> log_env \<Rightarrow> data_thread \<Rightarrow> int \<times> data_thread" where
  "log_data_update E L t =
     (if op_binlog_write_done (dt_op t) then (0, t)
      else
        (let t1 = t\<lparr>dt_op := (dt_op t)\<lparr>op_binlog_write_done := True\<rparr>\<rparr>; op = op_operation (dt_op t); c = dt_ctx t; w = dt_world t
         in if op = DATA_OPERATION_SLICE_WRITE
            then (case fs_log_slice_write L c w of (r, c1, w1) \<Rightarrow> (r, t1\<lparr>dt_ctx := c1, dt_world := w1\<rparr>))
            else if op = DATA_OPERATION_SLICE_ALLOCATE
            then (case fs_log_slice_allocate E L c w of (r, c1, w1) \<Rightarrow> (r, t1\<lparr>dt_ctx := c1, dt_world := w1\<rparr>))
            else if op = DATA_OPERATION_SLICE_DELETE
            then (case fs_log_delete_slices L c w of (r, w1) \<Rightarrow> (r, t1\<lparr>dt_world := w1\<rparr>))
            else if op = DATA_OPERATION_BLOCK_DELETE
            then (case fs_log_delete_block L c w of (r, w1) \<Rightarrow> (r, t1\<lparr>dt_world := w1\<rparr>))
            else (EINVAL, t1)))"

section \<open>Sending an update to the slaves\<close>

text \<open>
  The loop of \<open>push_to_slave_queues\<close>: the slaves after it, the number of those that got no call, and the
  thread, whose operation is logged before a slave that is online gets the call.
\<close>

fun push_slaves :: "fc_env \<Rightarrow> log_env \<Rightarrow> slave_server list \<Rightarrow> data_thread \<Rightarrow> slave_server list \<times> int \<times> data_thread" where
  "push_slaves E L [] t = ([], 0, t)"
| "push_slaves E L (s # ss) t =
     (let t1 = (if sv_status s = FS_DS_STATUS_ONLINE then snd (log_data_update E L t) else t)
      in if sv_status s \<noteq> FS_DS_STATUS_ONLINE \<and> sv_status s \<noteq> FS_DS_STATUS_ACTIVE
         then (case push_slaves E L ss t1 of (ss1, n, t2) \<Rightarrow> (s # ss1, n + 1, t2))
         else if \<not> sv_ready s
         then (case push_slaves E L ss t1 of (ss1, n, t2) \<Rightarrow>
                 ((if sv_status s = FS_DS_STATUS_ACTIVE then s\<lparr>sv_status := FS_DS_STATUS_OFFLINE\<rparr> else s) # ss1, n + 1, t2))
         else (case push_slaves E L ss t1 of (ss1, n, t2) \<Rightarrow> (s\<lparr>sv_pushed := sv_pushed s + 1\<rparr> # ss1, n, t2)))"

text \<open>A constant of the server framework, which is no error number.\<close>

abbreviation (input) TASK_STATUS_CONTINUE :: int where "TASK_STATUS_CONTINUE \<equiv> 12345"

text \<open>\<open>early\<close> slaves answer before the inactive ones are taken off the count.\<close>

definition push_to_slave_queues :: "fc_env \<Rightarrow> log_env \<Rightarrow> nat \<Rightarrow> slave_server list \<Rightarrow> data_thread \<Rightarrow> int \<times> data_thread" where
  "push_to_slave_queues E L early slaves t =
     (case push_slaves E L slaves (t\<lparr>dt_waiting_rpc := dt_waiting_rpc t + int (length slaves)\<rparr>) of (ss, inactive_count, t1) \<Rightarrow>
        (let t2 = (decrease_task_waiting_rpc_count ^^ early) (t1\<lparr>dt_slaves := Some ss\<rparr>)
         in if inactive_count > 0 then
              (let t3 = t2\<lparr>dt_waiting_rpc := dt_waiting_rpc t2 - inactive_count\<rparr>
               in (if dt_waiting_rpc t3 = 0 then 0 else TASK_STATUS_CONTINUE, t3))
            else (TASK_STATUS_CONTINUE, t2)))"

definition replication_caller_push_to_slave_queues :: "fc_env \<Rightarrow> log_env \<Rightarrow> nat \<Rightarrow> data_thread \<Rightarrow> int \<times> data_thread" where
  "replication_caller_push_to_slave_queues E L early t =
     (case dt_slaves t of
        None \<Rightarrow> (ENOENT, t)
      | Some slaves \<Rightarrow>
          if slaves = [] then (0, t)
          else
            (case take_call E (dt_world t) of (ok, w) \<Rightarrow>
               if \<not> ok then (ENOMEM, t\<lparr>dt_world := w\<rparr>)
               else push_to_slave_queues E L early slaves (t\<lparr>dt_world := w\<rparr>)))"

section \<open>Operations\<close>

text \<open>The first component says that the function was left before its end.\<close>

definition deal_operation_finish :: "fc_env \<Rightarrow> log_env \<Rightarrow> bool \<Rightarrow> nat \<Rightarrow> io_event list \<Rightarrow> bool \<Rightarrow> data_thread \<Rightarrow>
    data_thread option" where
  "deal_operation_finish E L failover early evs is_update t =
     (if oc_result (dt_ctx t) \<noteq> 0 then
        Some (if is_update \<and> op_source (dt_op t) = DATA_SOURCE_SLAVE_REPLICA then t\<lparr>dt_continue := False\<rparr> else t)
      else if is_update then
        (let t1 = t\<lparr>dt_op := (dt_op t)\<lparr>op_binlog_write_done := False\<rparr>\<rparr>
         in if op_source (dt_op t) = DATA_SOURCE_MASTER_SERVICE then
              (let t2 = (if \<not> failover then snd (log_data_update E L t1) else t1)
               in case replication_caller_push_to_slave_queues E L early t2 of (r, t3) \<Rightarrow>
                    if r = TASK_STATUS_CONTINUE
                    then map_option snd (DATA_THREAD_COND_WAIT evs t3 (\<lambda>_ t4. Some (True, snd (log_data_update E L t4))))
                    else Some (snd (log_data_update E L t3)))
            else Some (snd (log_data_update E L t1)))
      else Some t)"

record op_args =
  oa_discard :: int
  oa_asched :: "schedule list"
  oa_ascheds :: "nat \<Rightarrow> schedule list"
  oa_junk :: OBSliceEntry
  oa_sched :: "(ob_index \<Rightarrow> ob_index) list"
  oa_gscheds :: "(ob_index \<Rightarrow> ob_index) list list"
  oa_scheds :: "nat \<Rightarrow> (ob_index \<Rightarrow> ob_index) list"
  oa_interf :: "int list"
  oa_failover :: bool
  oa_early :: nat
  oa_io_early :: "io_event list"

definition set_op_result :: "int \<Rightarrow> FSSliceOpContext \<Rightarrow> FSSliceOpContext" where
  "set_op_result r c = c\<lparr>oc_result := r\<rparr>"

text \<open>
  Running an operation up to the end of its I/O; \<open>False\<close> when the wait was left because the program stops. The events
  \<open>oa_io_early\<close> come after the slices are queued and before the call that queued them has returned.
\<close>

definition run_operation :: "fc_env \<Rightarrow> op_args \<Rightarrow> io_event list \<Rightarrow> data_thread \<Rightarrow> (bool \<times> bool \<times> data_thread) option" where
  "run_operation E a evs t =
     (let op = op_operation (dt_op t); c = dt_ctx t; w = dt_world t
      in if op = DATA_OPERATION_SLICE_READ then
           (case fs_slice_read E (oa_sched a) c w of
              None \<Rightarrow> None
            | Some (r, c1, w1) \<Rightarrow>
                (let t0 = fold io_step (oa_io_early a) (with_callback c1 w1 t); t1 = t0\<lparr>dt_ctx := set_op_result r (dt_ctx t0)\<rparr>
                 in map_option (\<lambda>(b, t2). (b, False, t2))
                      (if r = 0 then DATA_THREAD_COND_WAIT evs t1 (\<lambda>_ t2. Some (True, t2)) else Some (True, t1))))
         else if op = DATA_OPERATION_SLICE_WRITE then
           (case fs_slice_write E (oa_discard a) (oa_asched a) (oa_junk a) (c\<lparr>oc_buffer_type := fs_buffer_type_direct\<rparr>) w of
              None \<Rightarrow> None
            | Some (r, c1, w1) \<Rightarrow>
                (let t1 = fold io_step (oa_io_early a) (with_callback c1 w1 t)
                 in map_option (\<lambda>(b, t2). (b, True, t2))
                      (if r = 0
                       then DATA_THREAD_COND_WAIT evs t1 (\<lambda>_ t2.
                              case fs_write_finish E (oa_scheds a) (oa_interf a) (dt_ctx t2) (dt_world t2) of
                                None \<Rightarrow> None
                              | Some (c3, w3) \<Rightarrow> Some (True, t2\<lparr>dt_ctx := c3, dt_world := w3\<rparr>))
                       else Some (True, t1\<lparr>dt_ctx := set_op_result r (dt_ctx t1)\<rparr>))))
         else if op = DATA_OPERATION_SLICE_ALLOCATE then
           map_option (\<lambda>(r, c1, w1). (True, True, t\<lparr>dt_ctx := set_op_result r c1, dt_world := w1\<rparr>))
             (fs_slice_allocate E (oa_discard a) (oa_ascheds a) (oa_gscheds a) (oa_scheds a) (oa_interf a) (oa_junk a) c w)
         else if op = DATA_OPERATION_SLICE_DELETE then
           map_option (\<lambda>(r, c1, w1). (True, True, t\<lparr>dt_ctx := set_op_result r c1, dt_world := w1\<rparr>))
             (fs_delete_slices E (oa_sched a) (oa_interf a) c w)
         else if op = DATA_OPERATION_BLOCK_DELETE then
           map_option (\<lambda>(r, c1, w1). (True, True, t\<lparr>dt_ctx := set_op_result r c1, dt_world := w1\<rparr>))
             (fs_delete_block E (oa_sched a) (oa_interf a) c w)
         else Some (True, False, t\<lparr>dt_ctx := set_op_result EINVAL c\<rparr>))"

definition deal_one_operation :: "fc_env \<Rightarrow> log_env \<Rightarrow> op_args \<Rightarrow> io_event list \<Rightarrow> io_event list \<Rightarrow> data_thread \<Rightarrow> data_thread option" where
  "deal_one_operation E L a evs evs2 t =
     (case run_operation E a evs t of
        None \<Rightarrow> None
      | Some (go_on, is_update, t1) \<Rightarrow>
          if \<not> go_on then Some t1
          else map_option (\<lambda>t2. t2\<lparr>dt_answered := Suc (dt_answered t2)\<rparr>)
                 (deal_operation_finish E L (oa_failover a) (oa_early a) evs2 is_update t1))"

end
