(* ===== verification/Data_Thread_Properties.thy ===== *)
theory Data_Thread_Properties
  imports Data_Thread
begin

text \<open>
  The properties of the data threads: an operation is answered when its I/O is done, an update is logged once, the wait for the
  slaves ends; and two ways in which the code breaks the first of them.
\<close>

section \<open>The wait for the I/O\<close>

text \<open>Only the report of the last slice calls the callback.\<close>

lemma write_done_callback:
  "oc_callbacks (slice_write_done s r c) = (if oc_counter c = 1 then Suc (oc_callbacks c) else oc_callbacks c)"
  "oc_counter (slice_write_done s r c) = oc_counter c - 1"
  by (auto simp: slice_write_done_def Let_def)

lemma read_done_callback:
  assumes "do_read_done s r c w = (c', w')"
  shows "oc_callbacks c' = (if oc_counter c = 1 then Suc (oc_callbacks c) else oc_callbacks c)" "oc_counter c' = oc_counter c - 1"
  using assms by (auto simp: do_read_done_def Let_def split: if_splits)

text \<open>What holds while the I/O of an operation is under way: the flag is set only when all slices are reported.\<close>

definition io_pending :: "data_thread \<Rightarrow> bool" where
  "io_pending t \<longleftrightarrow> 0 \<le> oc_counter (dt_ctx t) \<and> (dt_notify_done t \<longleftrightarrow> oc_counter (dt_ctx t) = 0)"

definition io_only :: "io_event list \<Rightarrow> bool" where
  "io_only evs \<longleftrightarrow> RPC_ANSWER \<notin> set evs"

lemma io_pending_step:
  assumes "io_pending t" "\<not> dt_notify_done t" "e \<noteq> RPC_ANSWER"
  shows "io_pending (io_step e t)"
proof (cases e)
  case (WRITE_DONE s r)
  then show ?thesis
    using assms write_done_callback [of s r "dt_ctx t"] by (auto simp: io_pending_def with_callback_def data_thread_notify_def Let_def)
next
  case (READ_DONE s r)
  obtain c w where d: "do_read_done s r (dt_ctx t) (dt_world t) = (c, w)" by fastforce
  show ?thesis
    using assms READ_DONE read_done_callback [OF d] d by (auto simp: io_pending_def with_callback_def data_thread_notify_def Let_def)
qed (use assms in \<open>simp_all add: io_pending_def\<close>)

lemma cond_wait_io:
  assumes "cond_wait evs t = Some (t', evs')" "io_pending t" "io_only evs" "dt_continue t'"
  shows "oc_counter (dt_ctx t') = 0 \<and> \<not> dt_notify_done t'"
  using assms
proof (induction evs arbitrary: t)
  case Nil
  then show ?case by (auto simp: cond_wait.simps [of "[]"] io_pending_def split: if_splits)
next
  case (Cons e evs)
  show ?case
  proof (cases "dt_notify_done t \<or> \<not> dt_continue t")
    case True
    then show ?thesis using Cons.prems by (auto simp: cond_wait.simps [of "e # evs"] io_pending_def)
  next
    case False
    then have "io_pending (io_step e t)" using io_pending_step [of t e] Cons.prems(2,3) by (auto simp: io_only_def)
    then show ?thesis using Cons.IH [of "io_step e t"] Cons.prems(1,3,4) False by (simp add: cond_wait.simps [of "e # evs"] io_only_def)
  qed
qed

text \<open>A read calls the callback itself only when no slice is left for the read threads.\<close>

lemma read_loop_callback:
  assumes "read_loop E ss offset c w = (0, c', w')" "int (length ss) \<le> oc_counter c" "0 < oc_counter c \<or> ss = []"
  shows "oc_counter c - int (length ss) \<le> oc_counter c' \<and>
    oc_callbacks c' = (if ss \<noteq> [] \<and> oc_counter c' = 0 then Suc (oc_callbacks c) else oc_callbacks c)"
  using assms
proof (induction ss arbitrary: offset c w)
  case (Cons s ss)
  let ?hole = "sl_offset s - offset"
  obtain r1 c1 w1 where z: "(if ?hole > 0 then add_zero_aligned_buffer E ?hole c w else (0, c, w)) = (r1, c1, w1)" by (metis prod_cases3)
  have "r1 = 0" using Cons.prems z by (simp add: Let_def split: if_splits)
  note z = z [unfolded this]
  have zero: "oc_counter d' = oc_counter d \<and> oc_callbacks d' = oc_callbacks d"
    if "add_zero_aligned_buffer E n d v = (0, d', v')" for n d v d' v'
    using that by (auto simp: add_zero_aligned_buffer_def take_call_def split: if_splits)
  let ?c2 = "if ?hole > 0 then c1\<lparr>oc_done_bytes := oc_done_bytes c1 + ?hole\<rparr> else c1"
  have c2: "oc_counter ?c2 = oc_counter c" "oc_callbacks ?c2 = oc_callbacks c"
    using z by (auto split: if_splits dest: zero)
  have pos: "0 < oc_counter c" "int (length ss) \<le> oc_counter c - 1" using Cons.prems(2,3) by auto
  show ?case
  proof (cases "sl_type s = OB_SLICE_TYPE_ALLOC")
    case True
    obtain c3 w3 c4 w4 where a: "add_zero_aligned_buffer E (sl_length s) ?c2 w1 = (0, c3, w3)" "do_read_done s 0 c3 w3 = (c4, w4)"
      and r: "read_loop E ss (sl_end s) c4 w4 = (0, c', w')"
      using Cons.prems(1) z True by (auto simp: Let_def split: prod.splits if_splits)
    note d = read_done_callback [OF a(2)] and zz = zero [OF a(1)]
    show ?thesis
    proof (cases "ss = []")
      case True
      then show ?thesis using r d zz c2 by auto
    next
      case False
      then have "0 < oc_counter c4" using pos d zz c2 by (cases ss) auto
      then show ?thesis using Cons.IH [OF r] d zz c2 pos False by (cases ss) auto
    qed
  next
    case False
    obtain w3 where r: "read_loop E ss (sl_end s) (?c2\<lparr>oc_aio_buffers := oc_aio_buffers ?c2 @ [None]\<rparr>) w3 = (0, c', w')"
      using Cons.prems(1) z False by (auto simp: Let_def split: prod.splits if_splits)
    show ?thesis
    proof (cases "ss = []")
      case True
      then have "c' = ?c2\<lparr>oc_aio_buffers := oc_aio_buffers ?c2 @ [None]\<rparr>" using r by simp
      then show ?thesis using True c2 pos by auto
    next
      case ne: False
      then show ?thesis using Cons.IH [OF r] c2 pos by (simp del: read_loop.simps)
    qed
  qed
qed simp

text \<open>Each slice is reported once.\<close>

fun reports :: "io_event list \<Rightarrow> nat" where
  "reports [] = 0"
| "reports (WRITE_DONE s r # evs) = Suc (reports evs)"
| "reports (READ_DONE s r # evs) = Suc (reports evs)"
| "reports (RPC_ANSWER # evs) = reports evs"
| "reports (SHUTDOWN # evs) = reports evs"

lemma io_pending_fold:
  assumes "io_pending t" "io_only evs" "int (reports evs) \<le> oc_counter (dt_ctx t)"
  shows "io_pending (fold io_step evs t)"
  using assms
proof (induction evs arbitrary: t rule: reports.induct)
  case (2 s r evs)
  then have "\<not> dt_notify_done t" by (auto simp: io_pending_def)
  from io_pending_step [OF "2.prems"(1) this, of "WRITE_DONE s r"] have "io_pending (io_step (WRITE_DONE s r) t)" by simp
  moreover have "oc_counter (dt_ctx (io_step (WRITE_DONE s r) t)) = oc_counter (dt_ctx t) - 1"
    by (simp add: with_callback_def data_thread_notify_def Let_def write_done_callback)
  ultimately show ?case using "2.IH" "2.prems" by (simp add: io_only_def del: io_step.simps)
next
  case (3 s r evs)
  then have "\<not> dt_notify_done t" by (auto simp: io_pending_def)
  from io_pending_step [OF "3.prems"(1) this, of "READ_DONE s r"] have "io_pending (io_step (READ_DONE s r) t)" by simp
  moreover have "oc_counter (dt_ctx (io_step (READ_DONE s r) t)) = oc_counter (dt_ctx t) - 1"
    by (auto simp: with_callback_def data_thread_notify_def Let_def read_done_callback split: prod.splits)
  ultimately show ?case using "3.IH" "3.prems" by (simp add: io_only_def del: io_step.simps)
qed (simp_all add: io_only_def io_pending_def)

lemma get_slices_nonempty: "get_slices E chain key ah = (0, ah') \<Longrightarrow> pa_slices (fst ah') \<noteq> []"
  by (auto simp: get_slices_def then_ok_def Let_def split: option.splits prod.splits if_splits)

lemma get_ex_nonempty: "ob_index_get_slices_ex E sched key arr0 reclaim st = Some (0, arr, st') \<Longrightarrow> pa_slices arr \<noteq> []"
  by (auto simp: ob_index_get_slices_ex_def Let_def split: option.splits prod.splits if_splits dest: get_slices_nonempty)

lemma read_starts_io:
  assumes "fs_slice_read E sched c w = Some (0, c', w')"
  shows "0 \<le> oc_counter c' \<and> (oc_callbacks c < oc_callbacks c' \<longleftrightarrow> oc_counter c' = 0)"
proof -
  obtain arr ix where g: "ob_index_get_slices_ex E sched (oc_bs_key c) (oc_slice_ptr_array c) (is_reclaim c) (ow_ix w) = Some (0, arr, ix)"
    using assms by (auto simp: fs_slice_read_def Let_def split: option.splits if_splits)
  note run = assms [unfolded fs_slice_read_def g option.case prod.case Let_def]
  obtain c2 w2 where ck: "check_realloc_buffer_ptr_array E (int (length (pa_slices arr)) * 2) (c\<lparr>oc_slice_ptr_array := arr\<rparr>) (w\<lparr>ow_ix := ix\<rparr>) = (0, c2, w2)"
    and rl: "read_loop E (pa_slices arr) (ss_offset (bs_slice (oc_bs_key c)))
      (c2\<lparr>oc_result := 0, oc_done_bytes := 0, oc_counter := int (length (pa_slices arr)), oc_aio_buffers := []\<rparr>) w2 = (0, c', w')"
    using run by (auto split: prod.splits if_splits)
  have "oc_callbacks c2 = oc_callbacks c"
    using ck by (auto simp: check_realloc_buffer_ptr_array_def take_call_def Let_def split: if_splits)
  then show ?thesis using read_loop_callback [OF rl] get_ex_nonempty [OF g] by auto
qed

lemma finish_counter:
  assumes "fs_write_finish E scheds interf c w = Some (c', w')"
  shows "oc_counter c' = oc_counter c"
  using assms
  by (auto simp: fs_write_finish_def free_slice_array_def set_data_version_def Let_def split: option.splits prod.splits if_splits)

text \<open>The start of the I/O of a read or a write: \<open>c1\<close> and \<open>w1\<close> are left by the call that queues the slices.\<close>

definition starts_io :: "fc_env \<Rightarrow> op_args \<Rightarrow> data_thread \<Rightarrow> FSSliceOpContext \<Rightarrow> op_world \<Rightarrow> bool" where
  "starts_io E a t c1 w1 \<longleftrightarrow>
     op_operation (dt_op t) = DATA_OPERATION_SLICE_READ \<and> fs_slice_read E (oa_sched a) (dt_ctx t) (dt_world t) = Some (0, c1, w1) \<or>
     op_operation (dt_op t) = DATA_OPERATION_SLICE_WRITE \<and> oc_sarray c1 \<noteq> [] \<and>
       fs_slice_write E (oa_discard a) (oa_asched a) (oa_junk a) ((dt_ctx t)\<lparr>oc_buffer_type := fs_buffer_type_direct\<rparr>) (dt_world t) = Some (0, c1, w1)"

lemma starts_io_pending:
  assumes "starts_io E a t c1 w1" "\<not> dt_notify_done t"
  shows "io_pending (with_callback c1 w1 t)"
proof -
  have "0 \<le> oc_counter c1 \<and> (oc_callbacks (dt_ctx t) < oc_callbacks c1 \<longleftrightarrow> oc_counter c1 = 0)"
    using assms(1) unfolding starts_io_def
  proof
    assume "op_operation (dt_op t) = DATA_OPERATION_SLICE_READ \<and> fs_slice_read E (oa_sched a) (dt_ctx t) (dt_world t) = Some (0, c1, w1)"
    then show ?thesis using read_starts_io by blast
  next
    assume w: "op_operation (dt_op t) = DATA_OPERATION_SLICE_WRITE \<and> oc_sarray c1 \<noteq> [] \<and>
      fs_slice_write E (oa_discard a) (oa_asched a) (oa_junk a) ((dt_ctx t)\<lparr>oc_buffer_type := fs_buffer_type_direct\<rparr>) (dt_world t) = Some (0, c1, w1)"
    then obtain ps where "c1 = (dt_ctx t)\<lparr>oc_buffer_type := fs_buffer_type_direct, oc_done_bytes := 0, oc_space_changed := 0, oc_sarray := ps,
        oc_result := 0, oc_counter := int (length ps)\<rparr>"
      using fs_slice_write_cases by blast
    then show ?thesis using w by simp
  qed
  then show ?thesis using assms(2) by (auto simp: io_pending_def with_callback_def data_thread_notify_def Let_def)
qed


text \<open>
  Property C35. A write that finds no space calls the callback, which sets the flag of the thread, but the thread does not wait
  for it: the flag stays set. The next operation of the thread, here a read, then does not wait for its I/O: it is answered as
  successful while slices are outstanding and no byte of them has been read.
\<close>
theorem failed_write_cuts_next_wait:
  assumes "op_operation (dt_op t) = DATA_OPERATION_SLICE_WRITE" "dt_continue t" "op_source (dt_op t) \<noteq> DATA_SOURCE_SLAVE_REPLICA"
    and "fs_slice_write E (oa_discard a) (oa_asched a) (oa_junk a) ((dt_ctx t)\<lparr>oc_buffer_type := fs_buffer_type_direct\<rparr>) (dt_world t) = Some (ENOSPC, c1, w1)"
    and "oc_callbacks (dt_ctx t) < oc_callbacks c1" "oa_io_early a = []"
    and "op_operation op2 = DATA_OPERATION_SLICE_READ" "fs_slice_read E (oa_sched a) c2 w1 = Some (0, c3, w3)" "0 < oc_counter c3"
  shows "\<exists>t1. deal_one_operation E L a [] [] t = Some t1 \<and> dt_answered t1 = Suc (dt_answered t) \<and> oc_result (dt_ctx t1) = ENOSPC \<and> dt_notify_done t1 \<and>
    (\<exists>t2. deal_one_operation E L a [] [] (t1\<lparr>dt_op := op2, dt_ctx := c2, dt_world := w1\<rparr>) = Some t2 \<and> dt_answered t2 = Suc (dt_answered t1) \<and>
       oc_result (dt_ctx t2) = 0 \<and> oc_counter (dt_ctx t2) = oc_counter c3 \<and> oc_done_bytes (dt_ctx t2) = oc_done_bytes c3)"
proof -
  let ?t1 = "t\<lparr>dt_notify_done := True, dt_ctx := c1\<lparr>oc_result := ENOSPC\<rparr>, dt_world := w1, dt_answered := Suc (dt_answered t)\<rparr>"
  have d1: "deal_one_operation E L a [] [] t = Some ?t1"
    using assms(1-6) by (simp add: deal_one_operation_def run_operation_def deal_operation_finish_def with_callback_def data_thread_notify_def
        set_op_result_def Let_def)
  have "\<exists>t2. deal_one_operation E L a [] [] (?t1\<lparr>dt_op := op2, dt_ctx := c2, dt_world := w1\<rparr>) = Some t2 \<and> dt_answered t2 = Suc (dt_answered ?t1) \<and>
       oc_result (dt_ctx t2) = 0 \<and> oc_counter (dt_ctx t2) = oc_counter c3 \<and> oc_done_bytes (dt_ctx t2) = oc_done_bytes c3"
    using assms(2,6-9)
    by (simp add: deal_one_operation_def run_operation_def deal_operation_finish_def with_callback_def data_thread_notify_def
        set_op_result_def DATA_THREAD_COND_WAIT_def cond_wait.simps Let_def)
  then show ?thesis using d1 by (intro exI [of _ ?t1]) simp
qed

text \<open>
  Property C36. The error of a read can be lost. The result of \<open>fs_slice_read\<close> is stored into the field in which the
  read threads report errors: when a read thread reports an error before the call has returned, the 0 that the call
  returns overwrites it and the read is answered as successful. The same report after the return of the call makes the read fail.
\<close>
theorem early_read_error_lost:
  assumes "op_operation (dt_op t) = DATA_OPERATION_SLICE_READ" "dt_continue t" "\<not> dt_notify_done t"
    "fs_slice_read E (oa_sched a) (dt_ctx t) (dt_world t) = Some (0, c1, w1)" "oc_counter c1 = 1" "err \<noteq> 0"
  shows "(\<exists>t1. deal_one_operation E L (a\<lparr>oa_io_early := [READ_DONE s err]\<rparr>) [] [] t = Some t1 \<and> dt_answered t1 = Suc (dt_answered t) \<and> oc_result (dt_ctx t1) = 0) \<and>
    (\<exists>t2. deal_one_operation E L (a\<lparr>oa_io_early := []\<rparr>) [READ_DONE s err] [] t = Some t2 \<and> dt_answered t2 = Suc (dt_answered t) \<and> oc_result (dt_ctx t2) = err)"
proof -
  have "\<not> oc_callbacks (dt_ctx t) < oc_callbacks c1" using read_starts_io [OF assms(4)] assms(5) by simp
  then show ?thesis
    using assms
    by (simp add: deal_one_operation_def run_operation_def deal_operation_finish_def with_callback_def data_thread_notify_def
        set_op_result_def DATA_THREAD_COND_WAIT_def cond_wait.simps do_read_done_def Let_def)
qed

section \<open>Sending and logging an update\<close>

lemma log_data_update_frame [simp]:
  "dt_waiting_rpc (snd (log_data_update E L t)) = dt_waiting_rpc t" "dt_notify_done (snd (log_data_update E L t)) = dt_notify_done t"
  "dt_continue (snd (log_data_update E L t)) = dt_continue t" "dt_slaves (snd (log_data_update E L t)) = dt_slaves t"
  "op_binlog_write_done (dt_op (snd (log_data_update E L t)))"
  by (auto simp: log_data_update_def Let_def split: prod.splits)

text \<open>One slave of the loop: it is pushed to, or it counts as inactive.\<close>

lemma push_slaves_ConsE:
  assumes "push_slaves E L (s # ss) t = (ss', n, t')"
  obtains t1 s1 ss1 m where "t1 = t \<or> t1 = snd (log_data_update E L t)" "push_slaves E L ss t1 = (ss1, m, t')" "ss' = s1 # ss1"
    "n = m + 1 \<and> sv_pushed s1 = sv_pushed s \<or> n = m \<and> sv_pushed s1 = Suc (sv_pushed s)"
proof -
  define t1 where "t1 = (if sv_status s = FS_DS_STATUS_ONLINE then snd (log_data_update E L t) else t)"
  obtain ss1 m t2 where r: "push_slaves E L ss t1 = (ss1, m, t2)" by (metis prod_cases3)
  have "t1 = t \<or> t1 = snd (log_data_update E L t)" by (simp add: t1_def)
  moreover note assms [unfolded push_slaves.simps Let_def t1_def [symmetric] r prod.case]
  ultimately show thesis using that [of t1 ss1 m] r by (auto split: if_splits)
qed

lemma push_slaves_frame:
  assumes "push_slaves E L ss t = (ss', n, t')"
  shows "dt_waiting_rpc t' = dt_waiting_rpc t \<and> dt_notify_done t' = dt_notify_done t \<and> dt_continue t' = dt_continue t \<and>
    0 \<le> n \<and> length ss' = length ss \<and> n + int (\<Sum>s\<leftarrow>ss'. sv_pushed s) = int (length ss) + int (\<Sum>s\<leftarrow>ss. sv_pushed s)"
  using assms
proof (induction ss arbitrary: t ss' n t')
  case (Cons s ss)
  obtain t1 s1 ss1 m where c: "t1 = t \<or> t1 = snd (log_data_update E L t)" "push_slaves E L ss t1 = (ss1, m, t')" "ss' = s1 # ss1"
    "n = m + 1 \<and> sv_pushed s1 = sv_pushed s \<or> n = m \<and> sv_pushed s1 = Suc (sv_pushed s)"
    by (rule push_slaves_ConsE [OF Cons.prems])
  from Cons.IH [OF c(2)] c(1,3,4) show ?case by auto
qed simp

lemma decrease_frame [simp]: "dt_waiting_rpc (decrease_task_waiting_rpc_count t) = dt_waiting_rpc t - 1"
  "dt_continue (decrease_task_waiting_rpc_count t) = dt_continue t" "dt_slaves (decrease_task_waiting_rpc_count t) = dt_slaves t"
  by (simp_all add: decrease_task_waiting_rpc_count_def data_thread_notify_def Let_def)

lemma decrease_notify: "dt_notify_done (decrease_task_waiting_rpc_count t) \<longleftrightarrow> dt_notify_done t \<or> dt_waiting_rpc t = 1"
  by (simp add: decrease_task_waiting_rpc_count_def data_thread_notify_def Let_def)

lemma decrease_many:
  assumes "int k \<le> dt_waiting_rpc t" "\<not> dt_notify_done t"
  shows "dt_waiting_rpc ((decrease_task_waiting_rpc_count ^^ k) t) = dt_waiting_rpc t - int k \<and>
    dt_continue ((decrease_task_waiting_rpc_count ^^ k) t) = dt_continue t \<and> dt_slaves ((decrease_task_waiting_rpc_count ^^ k) t) = dt_slaves t \<and>
    (dt_notify_done ((decrease_task_waiting_rpc_count ^^ k) t) \<longleftrightarrow> 0 < k \<and> int k = dt_waiting_rpc t)"
  using assms(1)
proof (induction k)
  case (Suc k)
  then show ?case using assms(2) by (auto simp: decrease_notify)
qed (use assms(2) in simp)

lemma replication_continue:
  assumes "replication_caller_push_to_slave_queues E L early t = (r, t')"
  shows "dt_continue t' = dt_continue t"
proof -
  have many: "dt_continue ((decrease_task_waiting_rpc_count ^^ k) u) = dt_continue u" for k u by (induction k) simp_all
  have "dt_continue v = dt_continue u" if "push_to_slave_queues E L early ss u = (x, v)" for ss u x v
    using that by (auto simp: push_to_slave_queues_def many Let_def split: prod.splits if_splits dest: push_slaves_frame)
  then show ?thesis
    using assms by (auto simp: replication_caller_push_to_slave_queues_def split: option.splits prod.splits if_splits)
qed

lemma cond_wait_answers:
  assumes "dt_waiting_rpc t = int m" "dt_notify_done t \<longleftrightarrow> m = 0" "dt_continue t"
  shows "\<exists>t'. cond_wait (replicate m RPC_ANSWER @ evs) t = Some (t', evs) \<and> dt_waiting_rpc t' = 0 \<and> \<not> dt_notify_done t'"
  using assms
proof (induction m arbitrary: t)
  case 0
  then show ?case by (simp add: cond_wait.simps)
next
  case (Suc m)
  let ?t = "decrease_task_waiting_rpc_count t"
  from Suc.IH [of ?t] Suc.prems have "\<exists>t'. cond_wait (replicate m RPC_ANSWER @ evs) ?t = Some (t', evs) \<and> dt_waiting_rpc t' = 0 \<and> \<not> dt_notify_done t'"
    by (auto simp: decrease_notify)
  then show ?case using Suc.prems by (simp add: cond_wait.simps [of "RPC_ANSWER # _"])
qed

text \<open>
  Property C9. A master waits for its slaves exactly when one of them has yet to answer. Slaves that are not online or not connected are taken off the
  count of awaited answers after the calls are queued, and answers may arrive before that: either the call says that nothing is awaited,
  and then all calls are answered and the flag of the thread is clear; or the thread waits, the answers still
  to come end the wait, and it leaves the flag clear. The thread neither hangs nor is woken up twice.
\<close>
theorem replication_wait_ends:
  assumes "dt_waiting_rpc t = 0" "\<not> dt_notify_done t" "dt_continue t" "slaves \<noteq> []"
    "push_to_slave_queues E L early slaves t = (r, t1)" "dt_slaves t1 = Some ss"
    "(\<Sum>s\<leftarrow>ss. sv_pushed s) = (\<Sum>s\<leftarrow>slaves. sv_pushed s) + pushed" "early \<le> pushed"
  shows "r = 0 \<and> early = pushed \<and> dt_waiting_rpc t1 = 0 \<and> \<not> dt_notify_done t1 \<or>
    r = TASK_STATUS_CONTINUE \<and>
      (\<exists>t2. cond_wait (replicate (pushed - early) RPC_ANSWER @ evs) t1 = Some (t2, evs) \<and> dt_waiting_rpc t2 = 0 \<and> \<not> dt_notify_done t2)"
proof -
  let ?t = "t\<lparr>dt_waiting_rpc := dt_waiting_rpc t + int (length slaves)\<rparr>"
  obtain ss0 n t0 where ps: "push_slaves E L slaves ?t = (ss0, n, t0)" by (metis prod_cases3)
  note f = push_slaves_frame [OF ps]
  let ?t2 = "(decrease_task_waiting_rpc_count ^^ early) (t0\<lparr>dt_slaves := Some ss0\<rparr>)"
  note run = assms(5) [unfolded push_to_slave_queues_def ps prod.case Let_def]
  have w0: "dt_waiting_rpc (t0\<lparr>dt_slaves := Some ss0\<rparr>) = int (length slaves)" "\<not> dt_notify_done (t0\<lparr>dt_slaves := Some ss0\<rparr>)"
    using f assms(1,2) by simp_all
  have sum0: "n + int (\<Sum>s\<leftarrow>ss0. sv_pushed s) = int (length slaves) + int (\<Sum>s\<leftarrow>slaves. sv_pushed s)" "0 \<le> n" using f by simp_all
  have early: "int early \<le> int (length slaves)" if "ss = ss0" using sum0 assms(7,8) that by simp
  have slaves: "dt_slaves ?t2 = Some ss0" by (induction early) simp_all
  have "ss = ss0" using run assms(6) slaves by (auto split: if_splits)
  note d = decrease_many [of early "t0\<lparr>dt_slaves := Some ss0\<rparr>", unfolded w0(1), OF early [OF this] w0(2)]
  have n: "n + int pushed = int (length slaves)" using sum0(1) assms(7) \<open>ss = ss0\<close> by simp
  show ?thesis
  proof (cases "n > 0")
    case True
    let ?t3 = "?t2\<lparr>dt_waiting_rpc := dt_waiting_rpc ?t2 - n\<rparr>"
    have t1: "t1 = ?t3" "r = (if dt_waiting_rpc ?t3 = 0 then 0 else TASK_STATUS_CONTINUE)" using run True by auto
    have w3: "dt_waiting_rpc ?t3 = int (pushed - early)" "\<not> dt_notify_done ?t3" "dt_continue ?t3"
      using d n True assms(8) f assms(3) by simp_all
    show ?thesis
    proof (cases "early = pushed")
      case True
      then show ?thesis using t1 w3 by simp
    next
      case False
      then show ?thesis using t1 w3 assms(8) cond_wait_answers [of ?t3 "pushed - early" evs] by simp
    qed
  next
    case False
    then have "n = 0" using sum0(2) by simp
    then have t1: "t1 = ?t2" "r = TASK_STATUS_CONTINUE" using run by auto
    have "0 < pushed" using n \<open>n = 0\<close> assms(4) by (cases slaves) auto
    then have "dt_waiting_rpc ?t2 = int (pushed - early)" "dt_notify_done ?t2 \<longleftrightarrow> pushed - early = 0" "dt_continue ?t2"
      using d n \<open>n = 0\<close> assms(8) f assms(3) by auto
    from cond_wait_answers [OF this] show ?thesis using t1 by simp
  qed
qed

text \<open>The part of the shared state that the log depends on.\<close>

definition same_but_calls :: "op_world \<Rightarrow> op_world \<Rightarrow> bool" where
  "same_but_calls w v \<longleftrightarrow> ow_ix w = ow_ix v \<and> ow_now w = ow_now v \<and> ow_logs w = ow_logs v"

lemma log_functions_same:
  assumes "same_but_calls w v"
  shows "ow_logs (snd (snd (fs_log_slice_write L c w))) = ow_logs (snd (snd (fs_log_slice_write L c v)))"
    "ow_logs (snd (snd (fs_log_slice_allocate E L c w))) = ow_logs (snd (snd (fs_log_slice_allocate E L c v)))"
    "ow_logs (snd (fs_log_delete_slices L c w)) = ow_logs (snd (fs_log_delete_slices L c v))"
    "ow_logs (snd (fs_log_delete_block L c w)) = ow_logs (snd (fs_log_delete_block L c v))"
proof -
  have eq: "ow_ix w = ow_ix v" "ow_now w = ow_now v" "ow_logs w = ow_logs v" using assms by (simp_all add: same_but_calls_def)
  show "ow_logs (snd (snd (fs_log_slice_write L c w))) = ow_logs (snd (snd (fs_log_slice_write L c v)))"
    by (simp add: fs_log_slice_write_def eq free_slice_array_def split: prod.splits)
  show "ow_logs (snd (snd (fs_log_slice_allocate E L c w))) = ow_logs (snd (snd (fs_log_slice_allocate E L c v)))"
    by (simp add: fs_log_slice_allocate_def eq realloc_slice_sn_pairs_def take_call_def Let_def split: prod.splits)
  show "ow_logs (snd (fs_log_delete_slices L c w)) = ow_logs (snd (fs_log_delete_slices L c v))"
    by (simp add: fs_log_delete_slices_def eq split: prod.splits)
  show "ow_logs (snd (fs_log_delete_block L c w)) = ow_logs (snd (fs_log_delete_block L c v))"
    by (simp add: fs_log_delete_block_def eq split: prod.splits)
qed

lemma log_data_update_logs:
  assumes "\<not> op_binlog_write_done (dt_op t)"
  shows "ow_logs (dt_world (snd (log_data_update E L t))) =
    (let op = op_operation (dt_op t); c = dt_ctx t; w = dt_world t
     in if op = DATA_OPERATION_SLICE_WRITE then ow_logs (snd (snd (fs_log_slice_write L c w)))
        else if op = DATA_OPERATION_SLICE_ALLOCATE then ow_logs (snd (snd (fs_log_slice_allocate E L c w)))
        else if op = DATA_OPERATION_SLICE_DELETE then ow_logs (snd (fs_log_delete_slices L c w))
        else if op = DATA_OPERATION_BLOCK_DELETE then ow_logs (snd (fs_log_delete_block L c w)) else ow_logs w)"
  using assms by (simp add: log_data_update_def Let_def split: prod.splits)

lemma log_same_logs:
  assumes "dt_ctx t = dt_ctx u" "same_but_calls (dt_world t) (dt_world u)" "op_operation (dt_op t) = op_operation (dt_op u)"
    "\<not> op_binlog_write_done (dt_op t)" "\<not> op_binlog_write_done (dt_op u)"
  shows "ow_logs (dt_world (snd (log_data_update E L t))) = ow_logs (dt_world (snd (log_data_update E L u)))"
  unfolding log_data_update_logs [OF assms(4)] log_data_update_logs [OF assms(5)] assms(1,3)
  using assms(2) log_functions_same [OF assms(2)] by (simp add: Let_def same_but_calls_def)

definition logged_once :: "fc_env \<Rightarrow> log_env \<Rightarrow> data_thread \<Rightarrow> data_thread \<Rightarrow> bool" where
  "logged_once E L t0 t \<longleftrightarrow> op_operation (dt_op t) = op_operation (dt_op t0) \<and>
     (if op_binlog_write_done (dt_op t) then ow_logs (dt_world t) = ow_logs (dt_world (snd (log_data_update E L t0)))
      else dt_ctx t = dt_ctx t0 \<and> same_but_calls (dt_world t) (dt_world t0))"

lemma logged_once_log:
  assumes "\<not> op_binlog_write_done (dt_op t0)" "logged_once E L t0 t"
  shows "logged_once E L t0 (snd (log_data_update E L t))"
proof (cases "op_binlog_write_done (dt_op t)")
  case True
  then show ?thesis using assms(2) by (simp add: log_data_update_def)
next
  case False
  have "op_operation (dt_op (snd (log_data_update E L t))) = op_operation (dt_op t)"
    by (auto simp: log_data_update_def Let_def split: prod.splits)
  then show ?thesis
    using assms False log_same_logs [of t t0 E L] by (simp add: logged_once_def)
qed

lemma logged_once_frame:
  "logged_once E L t0 (decrease_task_waiting_rpc_count t) = logged_once E L t0 t"
  "logged_once E L t0 (t\<lparr>dt_waiting_rpc := n\<rparr>) = logged_once E L t0 t" "logged_once E L t0 (t\<lparr>dt_slaves := sl\<rparr>) = logged_once E L t0 t"
  "logged_once E L t0 (t\<lparr>dt_notify_done := b\<rparr>) = logged_once E L t0 t"
  "logged_once E L t0 (t\<lparr>dt_world := snd (take_call E' (dt_world t))\<rparr>) = logged_once E L t0 t"
  by (simp_all add: logged_once_def decrease_task_waiting_rpc_count_def data_thread_notify_def take_call_def same_but_calls_def Let_def)

lemma logged_once_push:
  assumes "\<not> op_binlog_write_done (dt_op t0)" "logged_once E L t0 t" "push_slaves E L ss t = (ss', n, t')"
  shows "logged_once E L t0 t'"
  using assms(2,3)
proof (induction ss arbitrary: t ss' n t')
  case (Cons s ss)
  obtain t1 s1 ss1 m where c: "t1 = t \<or> t1 = snd (log_data_update E L t)" "push_slaves E L ss t1 = (ss1, m, t')"
    by (rule push_slaves_ConsE [OF Cons.prems(2)])
  have "logged_once E L t0 t1" using logged_once_log [OF assms(1) Cons.prems(1)] Cons.prems(1) c(1) by auto
  from Cons.IH [OF this c(2)] show ?case .
qed simp

lemma logged_once_replicate:
  assumes "\<not> op_binlog_write_done (dt_op t0)" "logged_once E L t0 t" "replication_caller_push_to_slave_queues E L early t = (r, t')"
  shows "logged_once E L t0 t'"
proof -
  have many: "logged_once E L t0 ((decrease_task_waiting_rpc_count ^^ k) u) = logged_once E L t0 u" for k u
    by (induction k) (simp_all add: logged_once_frame)
  have q: "logged_once E L t0 v" if "push_to_slave_queues E L early ss u = (x, v)" "logged_once E L t0 u" for ss u x v
  proof -
    obtain ss1 n t1 where ps: "push_slaves E L ss (u\<lparr>dt_waiting_rpc := dt_waiting_rpc u + int (length ss)\<rparr>) = (ss1, n, t1)" by (metis prod_cases3)
    have "logged_once E L t0 t1" by (rule logged_once_push [OF assms(1) _ ps]) (simp add: logged_once_frame that(2))
    then show ?thesis using that(1) by (auto simp: push_to_slave_queues_def ps Let_def many logged_once_frame split: if_splits)
  qed
  show ?thesis
    using assms(2,3) q logged_once_frame(5) [where E' = E and t = t]
    by (auto simp: replication_caller_push_to_slave_queues_def split: option.splits prod.splits if_splits)
qed

lemma logged_once_wait:
  assumes "cond_wait evs t = Some (t', evs')" "set evs \<subseteq> {RPC_ANSWER}"
  shows "logged_once E L t0 t' = logged_once E L t0 t \<and> dt_continue t' = dt_continue t"
  using assms
proof (induction evs arbitrary: t)
  case Nil
  then show ?case by (auto simp: cond_wait.simps [of "[]"] logged_once_frame split: if_splits)
next
  case (Cons e evs)
  then show ?case using Cons.IH [of "io_step e t"] by (auto simp: cond_wait.simps [of "e # evs"] logged_once_frame split: if_splits)
qed

text \<open>
  Property C10. A successful update is logged exactly once: with or without slaves, with the log written before or after the slaves answer, and however many
  of the slaves are online and ask for the log to be written first, the logs after the operation are those of one call
  of the log function on the state that the operation left.
\<close>
theorem update_logged_once:
  assumes "oc_result (dt_ctx t) = 0" "dt_continue t" "set evs \<subseteq> {RPC_ANSWER}"
    "deal_operation_finish E L failover early evs True t = Some t'"
  shows "op_binlog_write_done (dt_op t') \<and>
    ow_logs (dt_world t') = ow_logs (dt_world (snd (log_data_update E L (t\<lparr>dt_op := (dt_op t)\<lparr>op_binlog_write_done := False\<rparr>\<rparr>))))"
proof -
  let ?t0 = "t\<lparr>dt_op := (dt_op t)\<lparr>op_binlog_write_done := False\<rparr>\<rparr>"
  have nd: "\<not> op_binlog_write_done (dt_op ?t0)" by simp
  have j0: "logged_once E L ?t0 ?t0" by (simp add: logged_once_def same_but_calls_def)
  note log = logged_once_log [OF nd]
  have "\<exists>u. logged_once E L ?t0 u \<and> t' = snd (log_data_update E L u)"
  proof (cases "op_source (dt_op t) = DATA_SOURCE_MASTER_SERVICE")
    case False
    then show ?thesis using assms(1,4) j0 by (auto simp: deal_operation_finish_def Let_def)
  next
    case True
    let ?t2 = "if \<not> failover then snd (log_data_update E L ?t0) else ?t0"
    have j2: "logged_once E L ?t0 ?t2" "dt_continue ?t2" using log [OF j0] j0 assms(2) by simp_all
    obtain r t3 where p: "replication_caller_push_to_slave_queues E L early ?t2 = (r, t3)" by fastforce
    note j3 = logged_once_replicate [OF nd j2(1) p]
    note run = assms(4) [unfolded deal_operation_finish_def Let_def, simplified assms(1) True, simplified, simplified p prod.case]
    show ?thesis
    proof (cases "r = TASK_STATUS_CONTINUE")
      case False
      then show ?thesis using run j3 by auto
    next
      case c: True
      then obtain t4 evs' where w: "cond_wait evs t3 = Some (t4, evs')"
        using run by (auto simp: DATA_THREAD_COND_WAIT_def split: option.splits)
      have "dt_continue t3" using replication_continue [OF p] j2(2) by simp
      then have "dt_continue t4" "logged_once E L ?t0 t4" using logged_once_wait [OF w assms(3)] j3 by auto
      then show ?thesis using run w c by (auto simp: DATA_THREAD_COND_WAIT_def)
    qed
  qed
  then obtain u where u: "logged_once E L ?t0 u" "t' = snd (log_data_update E L u)" by blast
  from log [OF u(1)] show ?thesis unfolding u(2) by (simp add: logged_once_def)
qed

section \<open>Runs\<close>

text \<open>
  A master with three slaves: the first is online and gets the call, the second is active but not connected, the third is
  active and gets the call.
\<close>

definition ex_slaves :: "slave_server list" where
  "ex_slaves = [\<lparr>sv_status = FS_DS_STATUS_ONLINE, sv_ready = True, sv_pushed = 0\<rparr>, \<lparr>sv_status = FS_DS_STATUS_ACTIVE, sv_ready = False, sv_pushed = 0\<rparr>,
     \<lparr>sv_status = FS_DS_STATUS_ACTIVE, sv_ready = True, sv_pushed = 0\<rparr>]"

definition ex_thread :: "char \<Rightarrow> FSSliceOpContext \<Rightarrow> op_world \<Rightarrow> data_thread" where
  "ex_thread op c w = \<lparr>dt_notify_done = False, dt_continue = True,
     dt_op = \<lparr>op_operation = op, op_source = DATA_SOURCE_MASTER_SERVICE, op_binlog_write_done = False\<rparr>,
     dt_ctx = c, dt_world = w, dt_slaves = Some ex_slaves, dt_waiting_rpc = 0, dt_answered = 0\<rparr>"

definition ex_args :: op_args where
  "ex_args = \<lparr>oa_discard = 16, oa_asched = [[]], oa_ascheds = (\<lambda>_. [[]]), oa_junk = ex_new, oa_sched = [], oa_gscheds = [], oa_scheds = (\<lambda>_. []),
     oa_interf = [], oa_failover = True, oa_early = 1, oa_io_early = [WRITE_DONE ex_new 0]\<rparr>"

lemma ex_write_run:
  "case fs_slice_write list_env 16 [[]] ex_new (ex_ctx\<lparr>oc_buffer_type := fs_buffer_type_direct\<rparr>) ex_world of None \<Rightarrow> False
    | Some (r, c, w) \<Rightarrow> r = 0 \<and> oc_counter c = 2 \<and> oc_sarray c \<noteq> []"
  by code_simp


text \<open>The example world with no trunk that can be written to.\<close>

definition ex_full_world :: op_world where
  "ex_full_world = ex_world\<lparr>ow_ix := (ow_ix ex_world)\<lparr>ix_mgr := ex_op_mgr\<lparr>am_avail := (am_avail ex_op_mgr)\<lparr>aa_items := []\<rparr>\<rparr>\<rparr>\<rparr>"

theorem failed_write_cuts_next_wait_witness:
  "\<exists>t1 t2 w. deal_one_operation list_env list_log_env (ex_args\<lparr>oa_io_early := []\<rparr>) [] [] (ex_thread DATA_OPERATION_SLICE_WRITE ex_ctx ex_full_world) = Some t1 \<and>
     oc_result (dt_ctx t1) = ENOSPC \<and>
     deal_one_operation list_env list_log_env (ex_args\<lparr>oa_io_early := []\<rparr>) [] []
       (t1\<lparr>dt_op := dt_op (ex_thread DATA_OPERATION_SLICE_READ ex_ctx ex_world), dt_ctx := ex_rd_ctx, dt_world := w\<rparr>) = Some t2 \<and>
     oc_result (dt_ctx t2) = 0 \<and> oc_counter (dt_ctx t2) = 1"
proof -
  let ?t = "ex_thread DATA_OPERATION_SLICE_WRITE ex_ctx ex_full_world" and ?a = "ex_args\<lparr>oa_io_early := []\<rparr>"
  have "case fs_slice_write list_env 16 [[]] ex_new (ex_ctx\<lparr>oc_buffer_type := fs_buffer_type_direct\<rparr>) ex_full_world of None \<Rightarrow> False
    | Some (r, c, w) \<Rightarrow> r = ENOSPC \<and> oc_callbacks ex_ctx < oc_callbacks c \<and>
        (case fs_slice_read list_env [] ex_rd_ctx w of None \<Rightarrow> False | Some (r3, c3, w3) \<Rightarrow> r3 = 0 \<and> oc_counter c3 = 1)" by code_simp
  then obtain c1 w1 c3 w3 where w: "fs_slice_write list_env 16 [[]] ex_new (ex_ctx\<lparr>oc_buffer_type := fs_buffer_type_direct\<rparr>) ex_full_world = Some (ENOSPC, c1, w1)"
      "oc_callbacks ex_ctx < oc_callbacks c1" and r: "fs_slice_read list_env [] ex_rd_ctx w1 = Some (0, c3, w3)" "oc_counter c3 = 1"
    by (auto split: option.splits)
  have sel: "dt_ctx ?t = ex_ctx" "dt_world ?t = ex_full_world" "oa_sched ?a = []" "oa_discard ?a = 16" "oa_asched ?a = [[]]" "oa_junk ?a = ex_new"
    by (simp_all add: ex_thread_def ex_args_def)
  from failed_write_cuts_next_wait [of ?t list_env ?a c1 w1 "dt_op (ex_thread DATA_OPERATION_SLICE_READ ex_ctx ex_world)" ex_rd_ctx c3 w3 list_log_env]
  obtain t1 t2 where t: "deal_one_operation list_env list_log_env ?a [] [] ?t = Some t1" "oc_result (dt_ctx t1) = ENOSPC"
      "deal_one_operation list_env list_log_env ?a [] [] (t1\<lparr>dt_op := dt_op (ex_thread DATA_OPERATION_SLICE_READ ex_ctx ex_world), dt_ctx := ex_rd_ctx, dt_world := w1\<rparr>) = Some t2"
      "oc_result (dt_ctx t2) = 0" "oc_counter (dt_ctx t2) = oc_counter c3"
    using w r unfolding sel by (auto simp: ex_thread_def)
  show ?thesis using t r(2) by auto
qed

theorem early_read_error_lost_witness:
  "\<exists>t1. deal_one_operation list_env list_log_env (ex_args\<lparr>oa_io_early := [READ_DONE ex_new 5]\<rparr>) [] []
      (ex_thread DATA_OPERATION_SLICE_READ ex_rd_ctx ex_world) = Some t1 \<and> dt_answered t1 = 1 \<and> oc_result (dt_ctx t1) = 0"
proof -
  let ?t = "ex_thread DATA_OPERATION_SLICE_READ ex_rd_ctx ex_world"
  have "case fs_slice_read list_env [] ex_rd_ctx ex_world of None \<Rightarrow> False | Some (r, c, w) \<Rightarrow> r = 0 \<and> oc_counter c = 1" by code_simp
  then obtain c1 w1 where "fs_slice_read list_env [] ex_rd_ctx ex_world = Some (0, c1, w1)" "oc_counter c1 = 1" by (auto split: option.splits)
  then show ?thesis
    using early_read_error_lost [of ?t list_env ex_args c1 w1 5 list_log_env ex_new] by (simp add: ex_thread_def ex_args_def)
qed

theorem replication_wait_ends_witness:
  "\<exists>r t1 t2. push_to_slave_queues list_env list_log_env 1 ex_slaves (ex_thread DATA_OPERATION_SLICE_WRITE ex_ctx ex_world) = (r, t1) \<and>
     r = TASK_STATUS_CONTINUE \<and> cond_wait [RPC_ANSWER, SHUTDOWN] t1 = Some (t2, [SHUTDOWN]) \<and> dt_waiting_rpc t2 = 0 \<and> \<not> dt_notify_done t2"
proof -
  let ?t = "ex_thread DATA_OPERATION_SLICE_WRITE ex_ctx ex_world"
  have "case push_to_slave_queues list_env list_log_env 1 ex_slaves ?t of (r, t1) \<Rightarrow> r \<noteq> 0 \<and> map_option (\<lambda>ss. map sv_pushed ss) (dt_slaves t1) = Some [1, 0, 1]"
    by (simp add: push_to_slave_queues_def ex_slaves_def Let_def ex_thread_def)
  then obtain r t1 ss where p: "push_to_slave_queues list_env list_log_env 1 ex_slaves ?t = (r, t1)" "r \<noteq> 0" "dt_slaves t1 = Some ss" "map sv_pushed ss = [1, 0, 1]"
    by auto
  have "(\<Sum>s\<leftarrow>ss. sv_pushed s) = (\<Sum>s\<leftarrow>ex_slaves. sv_pushed s) + 2" by (simp add: p(4)) (simp add: ex_slaves_def)
  from replication_wait_ends [OF _ _ _ _ p(1,3) this, of "[SHUTDOWN]"] p
  show ?thesis by (simp add: ex_thread_def ex_slaves_def)
qed

theorem update_logged_once_witness:
  "\<exists>t'. deal_operation_finish list_env list_log_env True 1 [RPC_ANSWER] True (ex_thread DATA_OPERATION_SLICE_DELETE ex_ctx ex_world) = Some t' \<and>
     ow_logs (dt_world t') = ow_logs (dt_world (snd (log_data_update list_env list_log_env (ex_thread DATA_OPERATION_SLICE_DELETE ex_ctx ex_world))))"
proof -
  let ?t = "ex_thread DATA_OPERATION_SLICE_DELETE ex_ctx ex_world"
  have ok: "oc_result (dt_ctx ?t) = 0" by (simp add: ex_thread_def ex_ctx_def)
  have "\<exists>t'. deal_operation_finish list_env list_log_env True 1 [RPC_ANSWER] True ?t = Some t'"
    using ok by (simp add: deal_operation_finish_def replication_caller_push_to_slave_queues_def push_to_slave_queues_def ex_slaves_def
        DATA_THREAD_COND_WAIT_def cond_wait.simps take_call_def list_env_def decrease_notify Let_def ex_thread_def)
  then obtain t' where r: "deal_operation_finish list_env list_log_env True 1 [RPC_ANSWER] True ?t = Some t'" by blast
  from update_logged_once [OF ok _ _ r] r show ?thesis by (simp add: ex_thread_def)
qed

end
