(* ===== verification/Slice_Loader.thy ===== *)
theory Slice_Loader
  imports Index_Properties Binlog_Roundtrip
begin

text \<open>
  Loading the slice binlog at the start of the server (\<open>src/server/binlog/slice_loader.c\<close>). The main thread hands the buffers of the
  log to parse threads in turn, waits for them in the same order and gives each record to the data thread that the hash code
  of its block selects; the data threads change the index.

  A parse thread is a function of its buffer. The data threads run beside the main thread, at any speed: a load is a list of events,
  the next buffer or the next record of a data thread.
\<close>

section \<open>Data\<close>

record SliceDataThreadContext =
  sd_total_count :: nat
  sd_done_count :: nat
  sd_slices :: "SliceBinlogRecord list"
  sd_queue :: "SliceBinlogRecord list"

text \<open>
  The outputs of the parse threads that have a buffer, in the order of the threads (their number is \<open>dealing_threads\<close>), the
  number of parse threads, the records parsed, and the flag of the program.
\<close>

record SliceLoaderContext =
  lc_outputs :: "SliceBinlogRecord list list"
  lc_parse_count :: nat
  lc_parsed :: nat
  lc_data :: "SliceDataThreadContext list"
  lc_continue :: bool

section \<open>Parsing a buffer\<close>

text \<open>
  The records come from batches of 1024: \<open>free\<close> are left of the current batch and \<open>batches\<close> says
  which of the next batches can be allocated. A record that is recycled holds \<open>junk\<close>.
\<close>

function parse_buffer :: "log_env \<Rightarrow> bool list \<Rightarrow> SliceBinlogRecord \<Rightarrow> bool list \<Rightarrow> nat \<Rightarrow> string \<Rightarrow> int \<times> SliceBinlogRecord list" where
  "parse_buffer L paths junk batches free buff =
     (case dropWhile (\<lambda>c. c \<noteq> NEWLINE) buff of
        [] \<Rightarrow> (0, [])
      | nl # next_lines \<Rightarrow>
          (let line = takeWhile (\<lambda>c. c \<noteq> NEWLINE) buff
           in if free = 0 \<and> (case batches of [] \<Rightarrow> True | b # _ \<Rightarrow> \<not> b) then (ENOMEM, [])
              else
                (case slice_parse_line L paths line (nl # next_lines) junk of
                   Inl e \<Rightarrow> (e, [])
                 | Inr rec \<Rightarrow>
                     (case parse_buffer L paths junk (if free = 0 then tl batches else batches)
                             ((if free = 0 then 1024 else free) - 1) next_lines of
                        (r, recs) \<Rightarrow> (r, rec # recs)))))"
  by pat_completeness auto
termination
  by (relation "measure (\<lambda>(_, _, _, _, _, buff). length buff)") (auto dest: dropWhile_Cons_shorter)

declare parse_buffer.simps [simp del]

section \<open>Distributing the records\<close>

definition SLICE_ADD_TO_CHAIN :: "SliceBinlogRecord \<Rightarrow> SliceDataThreadContext \<Rightarrow> SliceDataThreadContext" where
  "SLICE_ADD_TO_CHAIN rec d = d\<lparr>sd_slices := sd_slices d @ [rec], sd_total_count := Suc (sd_total_count d)\<rparr>"

definition data_thread_of :: "nat \<Rightarrow> SliceBinlogRecord \<Rightarrow> nat" where
  "data_thread_of n rec = nat (bk_hash_code (bs_block (sb_bs_key rec)) mod int n)"

definition waiting_and_process_parse_result :: "SliceBinlogRecord list \<Rightarrow> SliceDataThreadContext list \<Rightarrow> SliceDataThreadContext list" where
  "waiting_and_process_parse_result recs ds =
     fold (\<lambda>rec ds. ds[data_thread_of (length ds) rec := SLICE_ADD_TO_CHAIN rec (ds ! data_thread_of (length ds) rec)]) recs ds"

definition push_chain :: "SliceDataThreadContext \<Rightarrow> SliceDataThreadContext" where
  "push_chain d = d\<lparr>sd_queue := sd_queue d @ sd_slices d, sd_slices := []\<rparr>"

definition waiting_and_process_parse_outputs :: "SliceLoaderContext \<Rightarrow> SliceLoaderContext" where
  "waiting_and_process_parse_outputs ctx =
     (if \<not> lc_continue ctx then ctx
      else ctx\<lparr>lc_data := map push_chain (fold waiting_and_process_parse_result (lc_outputs ctx) (lc_data ctx)), lc_outputs := []\<rparr>)"

text \<open>A parse thread that fails ends the program.\<close>

definition slice_parse_buffer :: "log_env \<Rightarrow> bool list \<Rightarrow> SliceBinlogRecord \<Rightarrow> bool list \<Rightarrow> nat \<Rightarrow> string \<Rightarrow> SliceLoaderContext \<Rightarrow> SliceLoaderContext" where
  "slice_parse_buffer L paths junk batches free buff ctx =
     (case parse_buffer L paths junk batches free buff of (r, recs) \<Rightarrow>
        (let ctx1 = ctx\<lparr>lc_outputs := lc_outputs ctx @ [recs], lc_parsed := lc_parsed ctx + length recs,
                        lc_continue := lc_continue ctx \<and> r = 0\<rparr>
         in if length (lc_outputs ctx1) = lc_parse_count ctx then waiting_and_process_parse_outputs ctx1 else ctx1))"

text \<open>The end of the log, up to the wait for the data threads.\<close>

definition slice_binlog_read_done :: "SliceLoaderContext \<Rightarrow> SliceLoaderContext" where
  "slice_binlog_read_done ctx = (if lc_outputs ctx \<noteq> [] then waiting_and_process_parse_outputs ctx else ctx)"

section \<open>Dealing with a record\<close>

text \<open>\<open>None\<close>: the caller waits for a reclaim that never ends.\<close>

definition slice_loader_deal_record :: "fc_env \<Rightarrow> OBSliceEntry \<Rightarrow> SliceBinlogRecord \<Rightarrow> ob_index \<Rightarrow> (int \<times> ob_index) option" where
  "slice_loader_deal_record E junk rec st =
     (if sb_op_type rec = BINLOG_OP_TYPE_WRITE_SLICE \<or> sb_op_type rec = BINLOG_OP_TYPE_ALLOC_SLICE then
        (case ob_index_alloc_slice_ex E junk (bs_block (sb_bs_key rec)) 1 st of
           (None, st1) \<Rightarrow> Some (ENOMEM, st1)
         | (Some slice, st1) \<Rightarrow>
             Some (ob_index_add_slice_by_binlog E
               (slice\<lparr>sl_type := sb_slice_type rec, sl_ssize := bs_slice (sb_bs_key rec), sl_space := sb_space rec\<rparr>) st1))
      else if sb_op_type rec = BINLOG_OP_TYPE_DEL_SLICE then
        map_option (\<lambda>(r, _, _, st1). (r, st1)) (ob_index_delete_slices_ex E [] (sb_bs_key rec) False False st)
      else if sb_op_type rec = BINLOG_OP_TYPE_DEL_BLOCK then
        map_option (\<lambda>(r, _, _, st1). (r, st1)) (ob_index_delete_block_ex E [] (bs_block (sb_bs_key rec)) False False st)
      else Some (0, st))"

text \<open>One turn of the loop of \<open>deal_records\<close>: an error stops the program.\<close>

definition deal_records :: "fc_env \<Rightarrow> OBSliceEntry \<Rightarrow> nat \<Rightarrow> SliceLoaderContext \<times> ob_index \<Rightarrow> (SliceLoaderContext \<times> ob_index) option" where
  "deal_records E junk i = (\<lambda>(ctx, st).
     case sd_queue (lc_data ctx ! i) of
       [] \<Rightarrow> Some (ctx, st)
     | rec # recs \<Rightarrow>
         (case slice_loader_deal_record E junk rec st of
            None \<Rightarrow> None
          | Some (r, st1) \<Rightarrow>
              if r \<noteq> 0 then Some (ctx\<lparr>lc_continue := False\<rparr>, st1)
              else Some (ctx\<lparr>lc_data := (lc_data ctx)[i := (lc_data ctx ! i)\<lparr>sd_queue := recs,
                           sd_done_count := Suc (sd_done_count (lc_data ctx ! i))\<rparr>]\<rparr>, st1)))"

section \<open>A load\<close>

datatype loader_event = BUFFER "bool list" nat string | READ_END | DEAL nat

definition loader_step :: "fc_env \<Rightarrow> log_env \<Rightarrow> bool list \<Rightarrow> SliceBinlogRecord \<Rightarrow> OBSliceEntry \<Rightarrow> loader_event \<Rightarrow>
    SliceLoaderContext \<times> ob_index \<Rightarrow> (SliceLoaderContext \<times> ob_index) option" where
  "loader_step E L paths rjunk junk e = (\<lambda>(ctx, st).
     if \<not> lc_continue ctx then Some (ctx, st)
     else (case e of
             BUFFER batches free buff \<Rightarrow> Some (slice_parse_buffer L paths rjunk batches free buff ctx, st)
           | READ_END \<Rightarrow> Some (slice_binlog_read_done ctx, st)
           | DEAL i \<Rightarrow> if i < length (lc_data ctx) then deal_records E junk i (ctx, st) else Some (ctx, st)))"

fun loader_run :: "fc_env \<Rightarrow> log_env \<Rightarrow> bool list \<Rightarrow> SliceBinlogRecord \<Rightarrow> OBSliceEntry \<Rightarrow> loader_event list \<Rightarrow>
    SliceLoaderContext \<times> ob_index \<Rightarrow> (SliceLoaderContext \<times> ob_index) option" where
  "loader_run E L paths rjunk junk [] x = Some x"
| "loader_run E L paths rjunk junk (e # es) x =
     (case loader_step E L paths rjunk junk e x of None \<Rightarrow> None | Some y \<Rightarrow> loader_run E L paths rjunk junk es y)"

definition init_data_thread_context :: SliceDataThreadContext where
  "init_data_thread_context = \<lparr>sd_total_count = 0, sd_done_count = 0, sd_slices = [], sd_queue = []\<rparr>"

definition init_thread_ctx_array :: "nat \<Rightarrow> SliceLoaderContext" where
  "init_thread_ctx_array cpus =
     (let parse_threads = (if cpus div 4 = 0 then 1 else cpus div 4); data_threads = parse_threads * 3
      in \<lparr>lc_outputs = [], lc_parse_count = parse_threads, lc_parsed = 0, lc_data = replicate data_threads init_data_thread_context, lc_continue = True\<rparr>)"

text \<open>The condition for which \<open>waiting_data_threads_finish\<close> waits.\<close>

definition data_threads_finished :: "SliceLoaderContext \<Rightarrow> bool" where
  "data_threads_finished ctx \<longleftrightarrow> (\<forall>d\<in>set (lc_data ctx). sd_total_count d \<le> sd_done_count d)"

end
