(* ===== verification/Slice_Loader_Facts.thy ===== *)
theory Slice_Loader_Facts
  imports Slice_Loader
begin

text \<open>
  What a record of the slice binlog means for the byte maps of the blocks, and that the loader does just that to the index.
\<close>

section \<open>The meaning of a record\<close>

abbreviation rec_block :: "SliceBinlogRecord \<Rightarrow> int \<times> int" where
  "rec_block rec \<equiv> block_id (bs_block (sb_bs_key rec))"

abbreviation is_add :: "SliceBinlogRecord \<Rightarrow> bool" where
  "is_add rec \<equiv> sb_op_type rec = BINLOG_OP_TYPE_WRITE_SLICE \<or> sb_op_type rec = BINLOG_OP_TYPE_ALLOC_SLICE"

definition rec_map :: "SliceBinlogRecord \<Rightarrow> int \<Rightarrow> (OBSliceType \<times> nat \<times> FSTrunkIdInfo \<times> int) option" where
  "rec_map rec x = (if x \<in> ssize_range (bs_slice (sb_bs_key rec))
     then Some (sb_slice_type rec, ts_store (sb_space rec), ts_id_info (sb_space rec), ts_offset (sb_space rec) + (x - ss_offset (bs_slice (sb_bs_key rec))))
     else None)"

definition on_block :: "SliceBinlogRecord \<Rightarrow> (int \<Rightarrow> (OBSliceType \<times> nat \<times> FSTrunkIdInfo \<times> int) option) \<Rightarrow>
    int \<Rightarrow> (OBSliceType \<times> nat \<times> FSTrunkIdInfo \<times> int) option" where
  "on_block rec m =
     (if is_add rec then m ++ rec_map rec
      else if sb_op_type rec = BINLOG_OP_TYPE_DEL_SLICE then m |` (- ssize_range (bs_slice (sb_bs_key rec)))
      else if sb_op_type rec = BINLOG_OP_TYPE_DEL_BLOCK then (\<lambda>_. None) else m)"

text \<open>A deletion is logged only when it deletes something.\<close>

definition rec_hits :: "SliceBinlogRecord \<Rightarrow> (int \<Rightarrow> (OBSliceType \<times> nat \<times> FSTrunkIdInfo \<times> int) option) \<Rightarrow> bool" where
  "rec_hits rec m \<longleftrightarrow>
     (sb_op_type rec = BINLOG_OP_TYPE_DEL_SLICE \<longrightarrow> ssize_range (bs_slice (sb_bs_key rec)) \<inter> dom m \<noteq> {}) \<and>
     (sb_op_type rec = BINLOG_OP_TYPE_DEL_BLOCK \<longrightarrow> dom m \<noteq> {})"

definition rec_ok :: "SliceBinlogRecord \<Rightarrow> bool" where
  "rec_ok rec \<longleftrightarrow> key_ok (bs_block (sb_bs_key rec)) \<and> (sb_op_type rec \<noteq> BINLOG_OP_TYPE_DEL_BLOCK \<longrightarrow> 0 < ss_length (bs_slice (sb_bs_key rec)))"

definition apply_record :: "SliceBinlogRecord \<Rightarrow> (int \<times> int \<Rightarrow> int \<Rightarrow> (OBSliceType \<times> nat \<times> FSTrunkIdInfo \<times> int) option) \<Rightarrow>
    int \<times> int \<Rightarrow> int \<Rightarrow> (OBSliceType \<times> nat \<times> FSTrunkIdInfo \<times> int) option" where
  "apply_record rec M = M(rec_block rec := on_block rec (M (rec_block rec)))"

fun history_ok :: "SliceBinlogRecord list \<Rightarrow> (int \<times> int \<Rightarrow> int \<Rightarrow> (OBSliceType \<times> nat \<times> FSTrunkIdInfo \<times> int) option) \<Rightarrow> bool" where
  "history_ok [] M = True"
| "history_ok (rec # recs) M = (rec_ok rec \<and> rec_hits rec (M (rec_block rec)) \<and> history_ok recs (apply_record rec M))"

section \<open>Blocks are independent\<close>

fun block_history_ok :: "SliceBinlogRecord list \<Rightarrow> (int \<Rightarrow> (OBSliceType \<times> nat \<times> FSTrunkIdInfo \<times> int) option) \<Rightarrow> bool" where
  "block_history_ok [] m = True"
| "block_history_ok (rec # recs) m = (rec_ok rec \<and> rec_hits rec m \<and> block_history_ok recs (on_block rec m))"

lemma fold_apply_block: "fold apply_record recs M b = fold on_block (filter (\<lambda>r. rec_block r = b) recs) (M b)"
  by (induction recs arbitrary: M) (simp_all add: apply_record_def)

lemma history_ok_blocks: "history_ok recs M \<longleftrightarrow> (\<forall>b. block_history_ok (filter (\<lambda>r. rec_block r = b) recs) (M b))"
proof (induction recs arbitrary: M)
  case (Cons rec recs)
  have "(\<forall>b. block_history_ok (filter (\<lambda>r. rec_block r = b) (rec # recs)) (M b)) \<longleftrightarrow>
    rec_ok rec \<and> rec_hits rec (M (rec_block rec)) \<and> (\<forall>b. block_history_ok (filter (\<lambda>r. rec_block r = b) recs) (apply_record rec M b))"
    by (simp add: apply_record_def del: split_paired_All) metis
  then show ?case using Cons.IH by (simp del: split_paired_All)
qed simp

lemma history_ok_append: "history_ok (xs @ ys) M \<longleftrightarrow> history_ok xs M \<and> history_ok ys (fold apply_record xs M)"
  by (induction xs arbitrary: M) auto

text \<open>Two orders of the same records that agree on each block mean the same.\<close>

lemma same_blocks:
  assumes "\<And>b. filter (\<lambda>r. rec_block r = b) xs = filter (\<lambda>r. rec_block r = b) ys"
  shows "fold apply_record xs M = fold apply_record ys M" "history_ok xs M = history_ok ys M"
  using assms by (auto simp: fold_apply_block history_ok_blocks fun_eq_iff)

section \<open>The index during a load\<close>

text \<open>No block is being reclaimed, and the books of the trunks are not kept yet.\<close>

definition calm :: "ob_index \<Rightarrow> bool" where
  "calm st \<longleftrightarrow> (\<forall>ob\<in>set (entries st). ob_reclaiming_count ob \<le> 0)"

definition loading :: "fc_env \<Rightarrow> ob_index \<Rightarrow> bool" where
  "loading E st \<longleftrightarrow> table_ok E st \<and> calm st \<and> \<not> ht_modify_sallocator (ix_ht st)"

lemma calm_table: "ix_ht st = ix_ht st' \<Longrightarrow> calm st = calm st'"
  by (simp add: calm_def entries_def)

lemma calm_put_block: "calm st \<Longrightarrow> calm (put_block p bs st)"
  by (auto simp: calm_def put_block_def entries_def upd_entry_def split: if_splits)

lemma calm_set_bucket: "calm st \<Longrightarrow> (\<And>ob. ob \<in> set c \<Longrightarrow> ob_reclaiming_count ob \<le> 0) \<Longrightarrow> calm (set_bucket i c st)"
  by (auto simp: calm_def set_bucket_def entries_def dest!: subsetD [OF set_update_subset_insert])

lemma calm_bucket: "calm st \<Longrightarrow> i < length (ht_buckets (ix_ht st)) \<Longrightarrow> ob \<in> set (ht_buckets (ix_ht st) ! i) \<Longrightarrow> ob_reclaiming_count ob \<le> 0"
  by (auto simp: calm_def entries_def)

lemma after_entry_subset: "set (after_entry p chain) \<subseteq> set chain"
  by (auto simp: after_entry_def dest: list.set_sel(2) [rotated] set_dropWhileD) (metis list.set_sel(2) set_dropWhileD tl_Nil)

lemma upto_entry_subset: "set (upto_entry p chain) \<subseteq> set chain"
  by (auto simp: upto_entry_def dest: set_takeWhileD set_dropWhileD in_set_takeD)

lemma calm_delete_entry:
  assumes "calm st" "OB_INDEX_DELETE_OB_ENTRY ob pv st = (r, st')"
  shows "calm st'"
proof -
  let ?i = "bucket_index (ix_ht st) (ob_bkey ob)"
  let ?st1 = "st\<lparr>ix_heap := fold slice_free_func (ob_slices ob) (ix_heap st)\<rparr>"
  have c1: "calm ?st1" using assms(1) by (simp add: calm_def entries_def)
  have sb: "calm (set_bucket ?i c ?st1)" if c: "set c \<subseteq> set (ht_buckets (ix_ht st) ! ?i)" for c
  proof (cases "?i < length (ht_buckets (ix_ht st))")
    case True
    then show ?thesis using calm_set_bucket [OF c1] calm_bucket [OF assms(1)] c by blast
  next
    case False
    then show ?thesis using c1 by (simp add: calm_def entries_def set_bucket_def list_update_beyond)
  qed
  have "calm (set_bucket ?i (after_entry (ob_ptr ob) (ht_buckets (ix_ht st) ! ?i)) ?st1)" by (rule sb) (rule after_entry_subset)
  moreover have "calm (set_bucket ?i (upto_entry q (ht_buckets (ix_ht st) ! ?i) @ after_entry (ob_ptr ob) (ht_buckets (ix_ht st) ! ?i)) ?st1)" for q
    by (rule sb) (use after_entry_subset upto_entry_subset in auto)
  ultimately show ?thesis using assms(2) c1 by (auto simp: OB_INDEX_DELETE_OB_ENTRY_def Let_def split: option.splits if_splits)
qed

lemma sallocator_delete_entry: "OB_INDEX_DELETE_OB_ENTRY ob pv st = (r, st') \<Longrightarrow> ht_modify_sallocator (ix_ht st') = ht_modify_sallocator (ix_ht st)"
  by (auto simp: OB_INDEX_DELETE_OB_ENTRY_def Let_def split: option.splits if_splits)

lemma put_block_sallocator [simp]: "ht_modify_sallocator (ix_ht (put_block p bs st)) = ht_modify_sallocator (ix_ht st)"
  by (simp add: put_block_def)

lemma chain_walk_subset: "chain_walk E k c = (pre, hit, post) \<Longrightarrow> set pre \<union> set post \<subseteq> set c"
  by (induction c arbitrary: pre hit post) (fastforce simp: Let_def split: if_splits prod.splits)+

context fastcommon
begin

lemma loading_alloc:
  assumes "loading E st" "key_ok k" "ob_index_alloc_slice_ex E junk k n st = (Some slice, st1)"
  shows "loading E st1"
proof -
  obtain ob pv st2 where g: "get_ob_entry_ex E k True st = (Some ob, pv, st2)" and fr: "ix_ht st1 = ix_ht st2"
    using assms(3) by (auto simp: ob_index_alloc_slice_ex_def split: prod.splits option.splits)
  obtain pre hit post where w: "chain_walk E k (bucket_at st k) = (pre, hit, post)" by (metis prod_cases3)
  have "table_ok E st" "calm st" using assms(1) by (simp_all add: loading_def)
  note bk = bucket_at_ok [OF this(1), of k]
  have old: "ob_reclaiming_count x \<le> 0" if "x \<in> set pre \<union> set post" for x
    using calm_bucket [OF \<open>calm st\<close> bk(1), of x] that chain_walk_subset [OF w] by (auto simp: bucket_at_def)
  have "calm st2"
  proof (cases hit)
    case None
    let ?st = "st\<lparr>ix_calls := Suc (ix_calls st)\<rparr>"
    from None g w have "ob_reclaiming_count ob = 0" "st2 = set_bucket (bucket_index (ix_ht st) k) (pre @ [ob] @ post) ?st"
      by (auto simp: get_ob_entry_ex_def Let_def split: option.splits if_splits)
    moreover have "calm ?st" using \<open>calm st\<close> by (simp add: calm_def entries_def)
    ultimately show ?thesis using old by (auto intro!: calm_set_bucket)
  qed (use g w \<open>calm st\<close> in \<open>auto simp: get_ob_entry_ex_def\<close>)
  then show ?thesis
    using alloc_slice_map(1) [OF \<open>table_ok E st\<close> assms(2,3)] get_ob_entry_ex_frame [OF g] calm_table [OF fr] assms(1) fr by (simp add: loading_def)
qed

lemma deal_add:
  assumes ok: "loading E st" and rec: "rec_ok rec" "is_add rec"
  shows "\<exists>r st'. slice_loader_deal_record E junk rec st = Some (r, st') \<and> (r = 0 \<or> r = ENOMEM) \<and>
    (r = 0 \<longrightarrow> loading E st' \<and> byte_map st' = apply_record rec (byte_map st))"
proof -
  let ?k = "bs_block (sb_bs_key rec)"
  obtain so st1 where a: "ob_index_alloc_slice_ex E junk ?k 1 st = (so, st1)" by fastforce
  show ?thesis
  proof (cases so)
    case None
    then show ?thesis using a rec(2) by (auto simp: slice_loader_deal_record_def)
  next
    case (Some slice)
    note a = a [unfolded Some]
    have k: "key_ok ?k" and len: "0 < ss_length (bs_slice (sb_bs_key rec))" and tok: "table_ok E st"
      using rec ok by (auto simp: rec_ok_def loading_def)
    note al = alloc_slice_map [OF tok k a]
    have ok1: "table_ok E st1" "calm st1" "\<not> ht_modify_sallocator (ix_ht st1)" using loading_alloc [OF ok k a] by (simp_all add: loading_def)
    let ?s = "slice\<lparr>sl_type := sb_slice_type rec, sl_ssize := bs_slice (sb_bs_key rec), sl_space := sb_space rec\<rparr>"
    obtain ob where d: "ob_deref st1 (sl_ob ?s) = Some ob" and kb: "ob_bkey ob = ?k" using al(3) by auto
    have e: "ob \<in> set (entries st1)" using d deref_Some [OF ok1(1)] by simp
    have blk: "block_ok (bst_slices (block_in st1 ob))" using table_entry(2) [OF ok1(1) e] by (simp add: block_in_def)
    obtain r inc bs where ad: "add_slice E (ix_ht st1) ?s (block_in st1 ob) = (r, inc, bs)" by (metis prod_cases3)
    have run: "slice_loader_deal_record E junk rec st = Some (r, put_block (sl_ob ?s) bs st1)"
      using rec(2) a d ad by (simp add: slice_loader_deal_record_def ob_index_add_slice_by_binlog_def)
    have r: "r = 0 \<or> r = ENOMEM" using add_slice_atomic [OF blk _ _ _ ad] len ok1(3) by auto
    have "loading E (put_block (sl_ob ?s) bs st1) \<and> byte_map (put_block (sl_ob ?s) bs st1) = apply_record rec (byte_map st)" if "r = 0"
    proof -
      have add: "block_ok (bst_slices bs)" "block_map (bst_slices bs) = block_map (ob_slices ob) ++ slice_map ?s"
        using add_slice_overwrites' [OF blk _ ad [unfolded that]] len by (simp_all add: block_in_def)
      note pb = put_block_ok [OF ok1(1) d add(1)]
      have m: "slice_map ?s = rec_map rec" by (simp add: slice_map_def rec_map_def byte_loc_def fun_eq_iff)
      have "byte_map (put_block (sl_ob ?s) bs st1) = apply_record rec (byte_map st)"
        using byte_map_put [OF pb(2)] add(2) byte_map_at(2) [OF ok1(1) e] al(2) kb rec(2) m by (simp add: apply_record_def on_block_def)
      then show ?thesis using pb(1) calm_put_block [OF ok1(2)] ok1(3) by (simp add: loading_def)
    qed
    then show ?thesis using run r by blast
  qed
qed

lemma delete_ex_answer:
  assumes ok: "loading E st" and k: "key_ok (bs_block key)" and len: "0 < ss_length (bs_slice key)"
    and hit: "ssize_range (bs_slice key) \<inter> dom (byte_map st (block_id (bs_block key))) \<noteq> {}"
  shows "\<exists>r dec st'. ob_index_delete_slices_ex E [] key False False st = Some (r, None, dec, st') \<and> (r = 0 \<or> r = ENOMEM) \<and>
    calm st' \<and> ht_modify_sallocator (ix_ht st') = ht_modify_sallocator (ix_ht st)"
proof -
  have tok: "table_ok E st" "calm st" using ok by (simp_all add: loading_def)
  obtain ob where d: "tab st (block_id (bs_block key)) = Some ob" using hit by (cases "tab st (block_id (bs_block key))") (auto simp: byte_map_def)
  have e: "ob \<in> set (entries st)" "block_id (ob_bkey ob) = block_id (bs_block key)" using d tab_Some [OF tok(1)] by auto
  have kb: "ob_bkey ob = bs_block key" using key_eqI [OF table_entry(1) [OF tok(1) e(1)] k e(2)] .
  from get_ob_entry_found [OF tok(1) k d] obtain pre post where
    g: "get_ob_entry_ex E (bs_block key) False st = (Some ob, pprev_of pre, st)" and b: "bucket_at st (bs_block key) = pre @ [ob] @ post" by blast
  have dr: "ob_deref st (ob_ptr ob) = Some ob" using e deref_Some [OF tok(1)] by simp
  have nw: "False \<or> ob_reclaiming_count ob \<le> 0" using tok(2) e by (simp add: calm_def)
  have blk: "block_ok (bst_slices (block_in st ob))" using table_entry(2) [OF tok(1) e(1)] by (simp add: block_in_def)
  obtain r cnt dec bs where a: "delete_slices E (ix_ht st) (bs_slice key) (block_in st ob) = (r, cnt, dec, bs)" by (metis prod_cases4)
  have cov: "covered (bst_slices (block_in st ob)) = dom (byte_map st (block_id (bs_block key)))"
    using byte_map_at(2) [OF tok(1) e(1)] e(2) by (simp add: block_in_def dom_block_map)
  have r: "r = 0 \<or> r = ENOMEM" using delete_slices_result [OF blk len a] hit cov by auto
  let ?st2 = "put_block (ob_ptr ob) bs st"
  note run = ob_index_delete_slices_ex_def [of E "[]" key False False st, unfolded g prod.case option.case no_wait [OF dr nw] dr a Let_def]
  show ?thesis
  proof (cases "r = 0")
    case False
    then show ?thesis using run r calm_put_block [OF tok(2)] by simp
  next
    case True
    have "block_ok (bst_slices bs)" using delete_slices_map [OF blk len a [unfolded True]] by simp
    note pb = put_block_ok [OF tok(1) dr this]
    obtain r1 st3 where o: "(if bst_slices bs = [] then OB_INDEX_DELETE_OB_ENTRY (ob\<lparr>ob_slices := []\<rparr>) (pprev_of pre) ?st2 else (0, ?st2)) = (r1, st3)" by fastforce
    have "r1 = 0 \<and> calm st3 \<and> ht_modify_sallocator (ix_ht st3) = ht_modify_sallocator (ix_ht st)"
    proof (cases "bst_slices bs = []")
      case True
      from put_block_bucket [OF b refl bucket_at_ok(1) [OF tok(1)], of bs] obtain pre' post' where
        b2: "bucket_at ?st2 (ob_bkey (ob\<lparr>ob_slices := []\<rparr>)) = pre' @ [ob\<lparr>ob_slices := []\<rparr>] @ post'" "pprev_of pre' = pprev_of pre"
        using True kb by auto
      have run3: "OB_INDEX_DELETE_OB_ENTRY (ob\<lparr>ob_slices := []\<rparr>) (pprev_of pre') ?st2 = (r1, st3)" using o True b2(2) by simp
      show ?thesis
        using delete_entry(1) [OF pb(1) b2(1) run3] calm_delete_entry [OF calm_put_block [OF tok(2)] run3] sallocator_delete_entry [OF run3] by simp
    qed (use o calm_put_block [OF tok(2)] in auto)
    then show ?thesis using run True unfolding o by (simp add: next_sn_def)
  qed
qed

lemma deal_delete:
  assumes ok: "loading E st" and rec: "rec_ok rec" "sb_op_type rec = BINLOG_OP_TYPE_DEL_SLICE" "rec_hits rec (byte_map st (rec_block rec))"
  shows "\<exists>r st'. slice_loader_deal_record E junk rec st = Some (r, st') \<and> (r = 0 \<or> r = ENOMEM) \<and>
    (r = 0 \<longrightarrow> loading E st' \<and> byte_map st' = apply_record rec (byte_map st))"
proof -
  have k: "key_ok (bs_block (sb_bs_key rec))" "0 < ss_length (bs_slice (sb_bs_key rec))"
      "ssize_range (bs_slice (sb_bs_key rec)) \<inter> dom (byte_map st (rec_block rec)) \<noteq> {}"
    using rec by (auto simp: rec_ok_def rec_hits_def)
  have tok: "table_ok E st" using ok by (simp add: loading_def)
  from delete_ex_answer [OF ok k] obtain r dec st' where run: "ob_index_delete_slices_ex E [] (sb_bs_key rec) False False st = Some (r, None, dec, st')"
    and r: "r = 0 \<or> r = ENOMEM" and fr: "calm st'" "ht_modify_sallocator (ix_ht st') = ht_modify_sallocator (ix_ht st)" by blast
  obtain ob where d: "tab st (rec_block rec) = Some ob" using k(3) by (cases "tab st (rec_block rec)") (auto simp: byte_map_def)
  have nw: "False \<or> ob_reclaiming_count ob \<le> 0" using ok d tab_Some [OF tok] by (auto simp: loading_def calm_def)
  have "loading E st' \<and> byte_map st' = apply_record rec (byte_map st)" if "r = 0"
    using delete_ex_map [OF tok k(1) d nw k(2) run [unfolded that]] fr ok rec(2) by (simp add: loading_def apply_record_def on_block_def)
  then show ?thesis using run r rec(2) by (auto simp: slice_loader_deal_record_def)
qed

lemma deal_delete_block:
  assumes ok: "loading E st" and rec: "rec_ok rec" "sb_op_type rec = BINLOG_OP_TYPE_DEL_BLOCK" "rec_hits rec (byte_map st (rec_block rec))"
  shows "\<exists>st'. slice_loader_deal_record E junk rec st = Some (0, st') \<and> loading E st' \<and> byte_map st' = apply_record rec (byte_map st)"
proof -
  let ?k = "bs_block (sb_bs_key rec)"
  have k: "key_ok ?k" "dom (byte_map st (rec_block rec)) \<noteq> {}" using rec by (auto simp: rec_ok_def rec_hits_def)
  have tok: "table_ok E st" using ok by (simp add: loading_def)
  obtain ob where d: "tab st (rec_block rec) = Some ob" using k(2) by (cases "tab st (rec_block rec)") (auto simp: byte_map_def)
  then have e: "ob \<in> set (entries st)" using tab_Some [OF tok] by simp
  have nw: "False \<or> ob_reclaiming_count ob \<le> 0" using ok e by (auto simp: loading_def calm_def)
  from get_ob_entry_found [OF tok k(1) d] obtain pv where g: "get_ob_entry_ex E ?k False st = (Some ob, pv, st)" by metis
  have dr: "ob_deref st (ob_ptr ob) = Some ob" using e deref_Some [OF tok] by simp
  have "ob_index_delete_block_ex E [] ?k False False st \<noteq> None"
    unfolding ob_index_delete_block_ex_def g prod.case option.case no_wait [OF dr nw] dr by (simp add: next_sn_def split: prod.splits)
  then obtain r sn dec st' where run: "ob_index_delete_block_ex E [] ?k False False st = Some (r, sn, dec, st')" by (cases "ob_index_delete_block_ex E [] ?k False False st") auto
  note dm = delete_block_map [OF tok k(1) d nw run]
  from tok k(1) d nw run obtain m pre post st2 where
    o: "OB_INDEX_DELETE_OB_ENTRY ob (pprev_of pre) (st\<lparr>ix_mgr := m\<rparr>) = (0, st2)" and fr: "ix_ht st' = ix_ht st2" by (rule delete_block_cases)
  have "calm (st\<lparr>ix_mgr := m\<rparr>)" using ok by (simp add: loading_def calm_def entries_def)
  from calm_delete_entry [OF this o] sallocator_delete_entry [OF o] fr calm_table [OF fr] ok dm(1) have "loading E st'" by (simp add: loading_def)
  then show ?thesis using run dm(2,4) k(2) rec(2) by (simp add: slice_loader_deal_record_def apply_record_def on_block_def)
qed

text \<open>Dealing with a record that fits the index does what the record means, unless memory runs out.\<close>

lemma deal_record:
  assumes "loading E st" "rec_ok rec" "rec_hits rec (byte_map st (rec_block rec))"
  shows "\<exists>r st'. slice_loader_deal_record E junk rec st = Some (r, st') \<and> (r = 0 \<or> r = ENOMEM) \<and>
    (r = 0 \<longrightarrow> loading E st' \<and> byte_map st' = apply_record rec (byte_map st))"
proof -
  consider "is_add rec" | "sb_op_type rec = BINLOG_OP_TYPE_DEL_SLICE" | "sb_op_type rec = BINLOG_OP_TYPE_DEL_BLOCK"
    | (no) "\<not> is_add rec" "sb_op_type rec \<noteq> BINLOG_OP_TYPE_DEL_SLICE" "sb_op_type rec \<noteq> BINLOG_OP_TYPE_DEL_BLOCK" by blast
  then show ?thesis
  proof cases
    case no
    then show ?thesis using assms(1) by (auto simp: slice_loader_deal_record_def apply_record_def on_block_def)
  qed (use assms deal_add deal_delete deal_delete_block in blast)+
qed

end

end
