(* ===== verification/Slice_Loader_Properties.thy ===== *)
theory Slice_Loader_Properties
  imports Slice_Loader_Facts
begin

text \<open>
  The data threads of the loader may run in any order: the loaded index is that of the log read from the front to the back. And the log
  of the running server leads to the index of the running server.
\<close>

section \<open>Distribution\<close>

abbreviation of_thread :: "nat \<Rightarrow> nat \<Rightarrow> SliceBinlogRecord list \<Rightarrow> SliceBinlogRecord list" where
  "of_thread n i recs \<equiv> filter (\<lambda>r. data_thread_of n r = i) recs"

abbreviation of_block :: "int \<times> int \<Rightarrow> SliceBinlogRecord list \<Rightarrow> SliceBinlogRecord list" where
  "of_block b recs \<equiv> filter (\<lambda>r. rec_block r = b) recs"

lemma data_thread_of_less: "0 < n \<Longrightarrow> data_thread_of n rec < n"
  by (simp add: data_thread_of_def nat_less_iff)

lemma parse_result_chains:
  "length (waiting_and_process_parse_result recs ds) = length ds \<and>
   (\<forall>i<length ds. waiting_and_process_parse_result recs ds ! i =
      (ds ! i)\<lparr>sd_slices := sd_slices (ds ! i) @ of_thread (length ds) i recs,
               sd_total_count := sd_total_count (ds ! i) + length (of_thread (length ds) i recs)\<rparr>)"
proof (induction recs arbitrary: ds)
  case (Cons rec recs)
  let ?ds = "ds[data_thread_of (length ds) rec := SLICE_ADD_TO_CHAIN rec (ds ! data_thread_of (length ds) rec)]"
  have "waiting_and_process_parse_result (rec # recs) ds = waiting_and_process_parse_result recs ?ds"
    by (simp add: waiting_and_process_parse_result_def)
  then show ?case using Cons.IH [of ?ds] by (auto simp: nth_list_update SLICE_ADD_TO_CHAIN_def)
qed (simp add: waiting_and_process_parse_result_def)

lemma parse_outputs_concat: "fold waiting_and_process_parse_result outs ds = waiting_and_process_parse_result (concat outs) ds"
  by (induction outs arbitrary: ds) (simp_all add: waiting_and_process_parse_result_def)

section \<open>The records dealt with\<close>

text \<open>
  \<open>D\<close> are the records dealt with, in the order in which the threads took them, and \<open>Q\<close> those handed out; the rest of the records parsed so
  far lies in the outputs of the parse threads.
\<close>

definition handed :: "SliceLoaderContext \<Rightarrow> SliceBinlogRecord list \<Rightarrow> SliceBinlogRecord list \<Rightarrow> bool" where
  "handed ctx D Q \<longleftrightarrow> lc_data ctx \<noteq> [] \<and> (\<forall>i<length (lc_data ctx).
     of_thread (length (lc_data ctx)) i D @ sd_queue (lc_data ctx ! i) @ sd_slices (lc_data ctx ! i) = of_thread (length (lc_data ctx)) i Q \<and>
     sd_done_count (lc_data ctx ! i) = length (of_thread (length (lc_data ctx)) i D) \<and>
     sd_total_count (lc_data ctx ! i) = length (of_thread (length (lc_data ctx)) i Q))"

lemma handed_members: "handed ctx D Q \<Longrightarrow> set D \<subseteq> set Q"
proof
  fix r assume h: "handed ctx D Q" and r: "r \<in> set D"
  let ?n = "length (lc_data ctx)" and ?i = "data_thread_of (length (lc_data ctx)) r"
  have "?i < ?n" using h by (simp add: handed_def data_thread_of_less)
  then have "set (of_thread ?n ?i D) \<subseteq> set (of_thread ?n ?i Q)" using h unfolding handed_def by (metis Un_iff set_append subsetI)
  then show "r \<in> set Q" using r by auto
qed

lemma handed_outputs:
  assumes "handed ctx D Q" "lc_continue ctx"
  shows "handed (waiting_and_process_parse_outputs ctx) D (Q @ concat (lc_outputs ctx))"
proof -
  let ?n = "length (lc_data ctx)" and ?ds = "waiting_and_process_parse_result (concat (lc_outputs ctx)) (lc_data ctx)"
  note c = parse_result_chains [of "concat (lc_outputs ctx)" "lc_data ctx"]
  have d: "lc_data (waiting_and_process_parse_outputs ctx) = map push_chain ?ds"
    using assms(2) by (simp add: waiting_and_process_parse_outputs_def parse_outputs_concat)
  have "?ds \<noteq> []" using c assms(1) by (auto simp: handed_def)
  moreover have "push_chain (?ds ! i) = (lc_data ctx ! i)\<lparr>sd_queue := sd_queue (lc_data ctx ! i) @ sd_slices (lc_data ctx ! i) @ of_thread ?n i (concat (lc_outputs ctx)),
      sd_slices := [], sd_total_count := sd_total_count (lc_data ctx ! i) + length (of_thread ?n i (concat (lc_outputs ctx)))\<rparr>" if "i < ?n" for i
    using c that by (simp add: push_chain_def)
  ultimately show ?thesis using assms(1) c unfolding handed_def d by simp
qed

lemma handed_same: "lc_data ctx' = lc_data ctx \<Longrightarrow> handed ctx' D Q = handed ctx D Q"
  by (simp add: handed_def)

lemma handed_deal:
  assumes "handed ctx D Q" "i < length (lc_data ctx)" "sd_queue (lc_data ctx ! i) = rec # recs"
  shows "handed (ctx\<lparr>lc_data := (lc_data ctx)[i := (lc_data ctx ! i)\<lparr>sd_queue := recs, sd_done_count := Suc (sd_done_count (lc_data ctx ! i))\<rparr>]\<rparr>) (D @ [rec]) Q"
    "data_thread_of (length (lc_data ctx)) rec = i" "rec \<in> set Q"
proof -
  let ?n = "length (lc_data ctx)"
  have q: "of_thread ?n i Q = of_thread ?n i D @ rec # recs @ sd_slices (lc_data ctx ! i)" using assms by (auto simp: handed_def)
  then have "rec \<in> set (of_thread ?n i Q)" by simp
  then show t: "data_thread_of ?n rec = i" "rec \<in> set Q" by auto
  show "handed (ctx\<lparr>lc_data := (lc_data ctx)[i := (lc_data ctx ! i)\<lparr>sd_queue := recs, sd_done_count := Suc (sd_done_count (lc_data ctx ! i))\<rparr>]\<rparr>) (D @ [rec]) Q"
    using assms q t(1) by (auto simp: handed_def nth_list_update)
qed

text \<open>The records of a block are all dealt with by one thread.\<close>

lemma block_in_thread:
  assumes "\<forall>r\<in>set recs. rec_ok r" "rec_ok rec"
  shows "of_block (rec_block rec) (of_thread n (data_thread_of n rec) recs) = of_block (rec_block rec) recs"
proof -
  have "data_thread_of n r = data_thread_of n rec" if "r \<in> set recs" "rec_block r = rec_block rec" for r
    using that assms key_eqI [of "bs_block (sb_bs_key r)" "bs_block (sb_bs_key rec)"] by (simp add: rec_ok_def data_thread_of_def)
  then show ?thesis by (auto intro!: filter_cong)
qed

lemma prefix_same: "xs @ ys = zs \<Longrightarrow> length zs \<le> length xs \<Longrightarrow> xs = zs"
  by auto

lemma handed_finished:
  assumes "handed ctx D Q" "data_threads_finished ctx" "\<forall>r\<in>set Q. rec_ok r"
  shows "of_block b D = of_block b Q"
proof (cases "of_block b Q = [] \<and> of_block b D = []")
  case False
  let ?n = "length (lc_data ctx)"
  have D: "set D \<subseteq> set Q" by (rule handed_members [OF assms(1)])
  then obtain rec where rec: "rec \<in> set Q" "rec_block rec = b" using False by (auto simp: filter_empty_conv)
  let ?i = "data_thread_of ?n rec"
  have i: "?i < ?n" using assms(1) by (simp add: handed_def data_thread_of_less)
  have "length (of_thread ?n ?i Q) \<le> length (of_thread ?n ?i D)"
    using assms(1,2) i unfolding handed_def data_threads_finished_def by (metis nth_mem)
  moreover have "of_thread ?n ?i D @ sd_queue (lc_data ctx ! ?i) @ sd_slices (lc_data ctx ! ?i) = of_thread ?n ?i Q" using assms(1) i by (simp add: handed_def)
  ultimately have "of_thread ?n ?i D = of_thread ?n ?i Q" by (rule prefix_same [rotated])
  moreover have "\<forall>r\<in>set D. rec_ok r" "rec_ok rec" using assms(3) D rec by auto
  then have "of_block b (of_thread ?n ?i D) = of_block b D" "of_block b (of_thread ?n ?i Q) = of_block b Q"
    using block_in_thread [of D rec ?n] block_in_thread [of Q rec ?n] assms(3) unfolding rec(2) by blast+
  ultimately show ?thesis by metis
qed simp

section \<open>Running the threads\<close>

text \<open>The records of the buffers among the events, when all lines can be parsed.\<close>

fun parsed_records :: "log_env \<Rightarrow> bool list \<Rightarrow> SliceBinlogRecord \<Rightarrow> loader_event list \<Rightarrow> SliceBinlogRecord list option" where
  "parsed_records L paths rjunk [] = Some []"
| "parsed_records L paths rjunk (BUFFER batches free buff # es) =
     (case parse_buffer L paths rjunk batches free buff of (r, recs) \<Rightarrow>
        if r \<noteq> 0 then None else map_option (\<lambda>rs. recs @ rs) (parsed_records L paths rjunk es))"
| "parsed_records L paths rjunk (READ_END # es) = parsed_records L paths rjunk es"
| "parsed_records L paths rjunk (DEAL i # es) = parsed_records L paths rjunk es"

definition load_inv :: "fc_env \<Rightarrow> (int \<times> int \<Rightarrow> int \<Rightarrow> (OBSliceType \<times> nat \<times> FSTrunkIdInfo \<times> int) option) \<Rightarrow> SliceBinlogRecord list \<Rightarrow>
    SliceLoaderContext \<times> ob_index \<Rightarrow> bool" where
  "load_inv E M P = (\<lambda>(ctx, st). \<exists>D Q. handed ctx D Q \<and> P = Q @ concat (lc_outputs ctx) \<and> loading E st \<and> byte_map st = fold apply_record D M)"

lemma history_ok_members: "history_ok recs M \<Longrightarrow> \<forall>r\<in>set recs. rec_ok r"
  by (induction recs arbitrary: M) auto

lemma block_history_ok_append:
  "block_history_ok (xs @ ys) m \<longleftrightarrow> block_history_ok xs m \<and> block_history_ok ys (fold on_block xs m)"
  by (induction xs arbitrary: m) auto

text \<open>The next record of a thread fits the index, whatever the other threads have done.\<close>

lemma next_record_hits:
  assumes h: "handed ctx D Q" and i: "i < length (lc_data ctx)" "sd_queue (lc_data ctx ! i) = rec # recs" and ok: "history_ok Q M"
  shows "rec_ok rec \<and> rec_hits rec (fold apply_record D M (rec_block rec))"
proof -
  let ?n = "length (lc_data ctx)" and ?b = "rec_block rec"
  note d = handed_deal(2,3) [OF h i] and mem = history_ok_members [OF ok]
  have rok: "rec_ok rec" using d(2) mem by simp
  have D: "\<forall>r\<in>set D. rec_ok r" using handed_members [OF h] mem by auto
  have "of_thread ?n i Q = of_thread ?n i D @ rec # recs @ sd_slices (lc_data ctx ! i)" using h i by (auto simp: handed_def)
  then have "of_block ?b (of_thread ?n i Q) = of_block ?b (of_thread ?n i D) @ rec # of_block ?b (recs @ sd_slices (lc_data ctx ! i))"
    by (simp del: filter_filter)
  then have "of_block ?b Q = of_block ?b D @ rec # of_block ?b (recs @ sd_slices (lc_data ctx ! i))"
    unfolding d(1) [symmetric] block_in_thread [OF mem rok, of ?n] block_in_thread [OF D rok, of ?n] .
  moreover have "block_history_ok (of_block ?b Q) (M ?b)" using ok history_ok_blocks by blast
  ultimately show ?thesis using rok by (simp add: block_history_ok_append fold_apply_block)
qed

context fastcommon
begin

text \<open>A deletion that succeeds deletes something.\<close>

lemma delete_ex_hits:
  assumes ok: "table_ok E st" and k: "key_ok (bs_block key)" and d: "tab st (block_id (bs_block key)) = Some ob"
    and nw: "is_reclaim \<or> ob_reclaiming_count ob \<le> 0" and len: "0 < ss_length (bs_slice key)"
    and run: "ob_index_delete_slices_ex E sched key want is_reclaim st = Some (0, sn, dec, st')"
  shows "ssize_range (bs_slice key) \<inter> dom (byte_map st (block_id (bs_block key))) \<noteq> {}"
proof -
  from ok k d nw run obtain cnt bs where a: "delete_slices E (ix_ht st) (bs_slice key) (block_in st ob) = (0, cnt, dec, bs)" by (rule delete_ex_cases)
  have e: "ob \<in> set (entries st)" "block_id (ob_bkey ob) = block_id (bs_block key)" using d tab_Some [OF ok] by auto
  have "block_ok (bst_slices (block_in st ob))" using table_entry(2) [OF ok e(1)] by (simp add: block_in_def)
  from delete_slices_result [OF this len a] byte_map_at(2) [OF ok e(1)] e(2) show ?thesis by (simp add: block_in_def dom_block_map)
qed

lemma load_step:
  assumes inv: "load_inv E M P (ctx, st)" and c: "lc_continue ctx" and ok: "history_ok (P @ recs @ later_recs) M"
    and p: "parsed_records L paths rjunk [e] = Some recs"
  shows "\<exists>ctx' st'. loader_step E L paths rjunk junk e (ctx, st) = Some (ctx', st') \<and>
    (lc_continue ctx' \<and> load_inv E M (P @ recs) (ctx', st') \<or>
     \<not> lc_continue ctx' \<and> (\<exists>rec st1 st2. slice_loader_deal_record E junk rec st1 = Some (ENOMEM, st2)))"
proof -
  obtain D Q where h: "handed ctx D Q" and P: "P = Q @ concat (lc_outputs ctx)" and l: "loading E st" and m: "byte_map st = fold apply_record D M"
    using inv by (auto simp: load_inv_def)
  have out: "load_inv E M (Q @ concat (lc_outputs ctx1)) (waiting_and_process_parse_outputs ctx1, st)"
    if "lc_data ctx1 = lc_data ctx" "lc_continue ctx1" for ctx1
    using handed_outputs [of ctx1 D Q] handed_same [OF that(1)] h that l m
    by (fastforce simp: load_inv_def waiting_and_process_parse_outputs_def)
  show ?thesis
  proof (cases e)
    case (BUFFER batches free buff)
    then have pb: "parse_buffer L paths rjunk batches free buff = (0, recs)" using p by (auto split: prod.splits if_splits)
    let ?ctx1 = "ctx\<lparr>lc_outputs := lc_outputs ctx @ [recs], lc_parsed := lc_parsed ctx + length recs, lc_continue := True\<rparr>"
    have "load_inv E M (P @ recs) (?ctx1, st)" using h P l m handed_same [of ?ctx1 ctx] by (auto simp: load_inv_def)
    then show ?thesis
      using BUFFER c pb out [of ?ctx1] P
      by (auto simp: loader_step_def slice_parse_buffer_def Let_def) (simp_all add: waiting_and_process_parse_outputs_def)
  next
    case READ_END
    then show ?thesis
      using p c inv out [of ctx] P by (auto simp: loader_step_def slice_binlog_read_done_def) (simp_all add: waiting_and_process_parse_outputs_def)
  next
    case (DEAL i)
    then have recs: "recs = []" using p by simp
    show ?thesis
    proof (cases "i < length (lc_data ctx) \<and> sd_queue (lc_data ctx ! i) \<noteq> []")
      case False
      then show ?thesis using DEAL c inv recs by (auto simp: loader_step_def deal_records_def)
    next
      case True
      then obtain rec rs where q: "i < length (lc_data ctx)" "sd_queue (lc_data ctx ! i) = rec # rs" by (auto simp: neq_Nil_conv)
      have "history_ok Q M" using ok P by (simp add: history_ok_append)
      from next_record_hits [OF h q this] m have "rec_ok rec" "rec_hits rec (byte_map st (rec_block rec))" by simp_all
      from deal_record [OF l this, of junk] obtain r st' where dr: "slice_loader_deal_record E junk rec st = Some (r, st')" "r = 0 \<or> r = ENOMEM"
        "r = 0 \<longrightarrow> loading E st' \<and> byte_map st' = apply_record rec (byte_map st)" by blast
      let ?ctx1 = "ctx\<lparr>lc_data := (lc_data ctx)[i := (lc_data ctx ! i)\<lparr>sd_queue := rs, sd_done_count := Suc (sd_done_count (lc_data ctx ! i))\<rparr>]\<rparr>"
      have run: "loader_step E L paths rjunk junk e (ctx, st) = Some (if r \<noteq> 0 then (ctx\<lparr>lc_continue := False\<rparr>, st') else (?ctx1, st'))"
        using DEAL c q dr(1) by (simp add: loader_step_def deal_records_def)
      have "load_inv E M (P @ recs) (?ctx1, st')" if "r = 0"
        using handed_deal(1) [OF h q] dr(3) that P recs m by (auto simp: load_inv_def intro!: exI [of _ "D @ [rec]"])
      then show ?thesis using run dr(1,2) c by auto
    qed
  qed
qed

lemma load_stopped: "\<not> lc_continue ctx \<Longrightarrow> loader_run E L paths rjunk junk es (ctx, st) = Some (ctx, st)"
  by (induction es) (simp_all add: loader_step_def)

lemma load_run:
  assumes "load_inv E M P (ctx, st)" "lc_continue ctx" "parsed_records L paths rjunk es = Some recs" "history_ok (P @ recs) M"
  shows "\<exists>ctx' st'. loader_run E L paths rjunk junk es (ctx, st) = Some (ctx', st') \<and>
    (lc_continue ctx' \<and> load_inv E M (P @ recs) (ctx', st') \<or>
     \<not> lc_continue ctx' \<and> (\<exists>rec st1 st2. slice_loader_deal_record E junk rec st1 = Some (ENOMEM, st2)))"
  using assms
proof (induction es arbitrary: P ctx st recs)
  case (Cons e es)
  obtain recs1 recs2 where r: "parsed_records L paths rjunk [e] = Some recs1" "parsed_records L paths rjunk es = Some recs2" "recs = recs1 @ recs2"
    using Cons.prems(3) by (cases e) (auto split: prod.splits if_splits)
  have "history_ok (P @ recs1 @ recs2) M" using Cons.prems(4) r(3) by simp
  from load_step [OF Cons.prems(1,2) this r(1), of junk] obtain ctx1 st1 where
    s: "loader_step E L paths rjunk junk e (ctx, st) = Some (ctx1, st1)"
    "lc_continue ctx1 \<and> load_inv E M (P @ recs1) (ctx1, st1) \<or>
     \<not> lc_continue ctx1 \<and> (\<exists>rec st1 st2. slice_loader_deal_record E junk rec st1 = Some (ENOMEM, st2))" by blast
  show ?case
  proof (cases "lc_continue ctx1")
    case True
    then have "load_inv E M (P @ recs1) (ctx1, st1)" using s(2) by simp
    from Cons.IH [OF this True r(2)] Cons.prems(4) r(3) s(1) show ?thesis by simp
  next
    case False
    then show ?thesis using s load_stopped [OF False] by auto
  qed
qed simp

lemma load_from_start:
  assumes "loading E st" "parsed_records L paths rjunk es = Some recs" "history_ok recs (byte_map st)"
  shows "\<exists>ctx' st'. loader_run E L paths rjunk junk es (init_thread_ctx_array cpus, st) = Some (ctx', st') \<and>
    (lc_continue ctx' \<and> lc_outputs ctx' = [] \<and> data_threads_finished ctx' \<longrightarrow> table_ok E st' \<and> byte_map st' = fold apply_record recs (byte_map st)) \<and>
    (\<not> lc_continue ctx' \<longrightarrow> (\<exists>rec st1 st2. slice_loader_deal_record E junk rec st1 = Some (ENOMEM, st2)))"
proof -
  let ?M = "byte_map st" and ?c0 = "init_thread_ctx_array cpus"
  have "handed ?c0 [] []" by (simp add: handed_def init_thread_ctx_array_def init_data_thread_context_def Let_def)
  then have "load_inv E ?M [] (?c0, st)"
    unfolding load_inv_def prod.case using assms(1) by (intro exI [of _ "[]"]) (simp add: init_thread_ctx_array_def Let_def)
  moreover have "lc_continue ?c0" by (simp add: init_thread_ctx_array_def Let_def)
  ultimately have "\<exists>ctx' st'. loader_run E L paths rjunk junk es (?c0, st) = Some (ctx', st') \<and>
    (lc_continue ctx' \<and> load_inv E ?M recs (ctx', st') \<or>
     \<not> lc_continue ctx' \<and> (\<exists>rec st1 st2. slice_loader_deal_record E junk rec st1 = Some (ENOMEM, st2)))"
    using load_run [of ?M "[]" ?c0 st L paths rjunk es recs junk] assms(2,3) by simp
  then obtain ctx' st' where run: "loader_run E L paths rjunk junk es (?c0, st) = Some (ctx', st')"
    and o: "lc_continue ctx' \<and> load_inv E ?M recs (ctx', st') \<or>
     \<not> lc_continue ctx' \<and> (\<exists>rec st1 st2. slice_loader_deal_record E junk rec st1 = Some (ENOMEM, st2))" by blast
  have "table_ok E st' \<and> byte_map st' = fold apply_record recs ?M" if c: "lc_continue ctx'" "lc_outputs ctx' = []" "data_threads_finished ctx'"
  proof -
    obtain D where h: "handed ctx' D recs" "loading E st'" "byte_map st' = fold apply_record D ?M" using o c by (auto simp: load_inv_def)
    have "of_block b D = of_block b recs" for b by (rule handed_finished [OF h(1) c(3) history_ok_members [OF assms(3)]])
    from same_blocks(1) [OF this] h show ?thesis by (simp add: loading_def)
  qed
  then show ?thesis using run o by blast
qed

end

text \<open>
  Property C11. Loading the slice binlog in parallel is the same as reading it from the front to the back. The parse threads take the buffers in turn, the
  data threads take the records of their blocks, at any speed and beside the reading: when all of them are done, the index maps every
  block as the records in the order of the log say, and it is well-formed. No thread blocks, and the load stops only when memory runs out.
\<close>
theorem parallel_load_is_sequential:
  assumes "fastcommon E" "loading E st" "parsed_records L paths rjunk es = Some recs" "history_ok recs (byte_map st)"
  shows "\<exists>ctx' st'. loader_run E L paths rjunk junk es (init_thread_ctx_array cpus, st) = Some (ctx', st') \<and>
    (lc_continue ctx' \<and> lc_outputs ctx' = [] \<and> data_threads_finished ctx' \<longrightarrow> table_ok E st' \<and> byte_map st' = fold apply_record recs (byte_map st)) \<and>
    (\<not> lc_continue ctx' \<longrightarrow> (\<exists>rec st1 st2. slice_loader_deal_record E junk rec st1 = Some (ENOMEM, st2)))"
  by (rule fastcommon.load_from_start [OF assms])

section \<open>The log as text\<close>

text \<open>A line of the log that is parsed to a record, wherever it stands in a buffer.\<close>

definition line_means :: "log_env \<Rightarrow> bool list \<Rightarrow> SliceBinlogRecord \<Rightarrow> string \<Rightarrow> SliceBinlogRecord \<Rightarrow> bool" where
  "line_means L paths rjunk tx rec \<longleftrightarrow>
     (\<exists>s. tx = s @ [NEWLINE] \<and> NEWLINE \<notin> set s \<and> (\<forall>after. slice_parse_line L paths s (NEWLINE # after) rjunk = Inr rec))"

text \<open>A parse thread that gets the records it needs.\<close>

definition enough :: "bool list \<Rightarrow> nat \<Rightarrow> nat \<Rightarrow> bool" where
  "enough batches free n \<longleftrightarrow> set batches \<subseteq> {True} \<and> n \<le> free + length batches"

lemma parse_lines:
  assumes "list_all2 (line_means L paths rjunk) texts recs" "enough batches free (length texts)"
  shows "parse_buffer L paths rjunk batches free (concat texts) = (0, recs)"
  using assms
proof (induction texts recs arbitrary: batches free rule: list_all2_induct)
  case Nil
  then show ?case by (subst parse_buffer.simps) simp
next
  case (Cons tx texts rec recs)
  from Cons.hyps(1) obtain s where s: "tx = s @ [NEWLINE]" "NEWLINE \<notin> set s" "slice_parse_line L paths s (NEWLINE # concat texts) rjunk = Inr rec"
    by (auto simp: line_means_def)
  have d: "dropWhile (\<lambda>c. c \<noteq> NEWLINE) (concat (tx # texts)) = NEWLINE # concat texts" "takeWhile (\<lambda>c. c \<noteq> NEWLINE) (concat (tx # texts)) = s"
    using s(1,2) by (auto simp: dropWhile_append takeWhile_append)
  let ?batches = "if free = 0 then tl batches else batches" and ?free = "(if free = 0 then 1024 else free) - 1"
  have "enough ?batches ?free (length texts)" using Cons.prems by (cases batches) (auto simp: enough_def)
  from Cons.IH [OF this] have ih: "parse_buffer L paths rjunk ?batches ?free (concat texts) = (0, recs)" .
  have "\<not> (free = 0 \<and> (case batches of [] \<Rightarrow> True | b # _ \<Rightarrow> \<not> b))" using Cons.prems by (auto simp: enough_def split: list.splits)
  then show ?case unfolding parse_buffer.simps [of L paths rjunk batches free] d using s(3) ih by (simp add: Let_def)
qed

lemma suffixes_snoc: "x \<noteq> sep \<Longrightarrow> suffixes sep (s @ [x]) = map (\<lambda>c. c @ [x]) (suffixes sep s)"
proof (induction sep s rule: suffixes.induct)
  case (1 sep s)
  show ?case
  proof (cases "dropWhile (\<lambda>c. c \<noteq> sep) s")
    case Nil
    moreover have "dropWhile (\<lambda>c. c \<noteq> sep) (s @ [x]) = []" using Nil "1.prems" by simp
    ultimately show ?thesis unfolding suffixes.simps [of sep "s @ [x]"] suffixes.simps [of sep s] by (simp only: list.case list.map append_Nil)
  next
    case (Cons c r)
    then have "dropWhile (\<lambda>c. c \<noteq> sep) s \<noteq> []" by simp
    then have "\<not> (\<forall>y\<in>set s. y \<noteq> sep)" by (simp only: dropWhile_eq_Nil_conv not_False_eq_True)
    then have "dropWhile (\<lambda>c. c \<noteq> sep) (s @ [x]) = c # r @ [x]" using Cons by (simp add: dropWhile_append)
    with Cons "1.IH" [OF Cons "1.prems"] show ?thesis
      unfolding suffixes.simps [of sep "s @ [x]"] suffixes.simps [of sep s] by simp
  qed
qed

lemma columns_snoc: "fs \<noteq> [] \<Longrightarrow> \<exists>s. columns fs = s @ last fs @ [NEWLINE]"
proof (induction fs rule: columns.induct)
  case (3 f g fs)
  then obtain s where "columns (g # fs) = s @ last (g # fs) @ [NEWLINE]" by blast
  then have "columns (f # g # fs) = (f @ CHR '' '' # s) @ last (f # g # fs) @ [NEWLINE]" by simp
  then show ?case by blast
qed auto

lemma columns_no_newline: "\<forall>f\<in>set fs. NEWLINE \<notin> set f \<Longrightarrow> fs \<noteq> [] \<Longrightarrow> \<exists>s. columns fs = s @ [NEWLINE] \<and> NEWLINE \<notin> set s"
proof (induction fs rule: columns.induct)
  case (3 f g fs)
  then obtain s where "columns (g # fs) = s @ [NEWLINE]" "NEWLINE \<notin> set s" by auto
  then have "columns (f # g # fs) = (f @ CHR '' '' # s) @ [NEWLINE]" "NEWLINE \<notin> set (f @ CHR '' '' # s)" using 3 by simp_all
  then show ?case by blast
qed auto

lemma show_int_no_newline: "NEWLINE \<notin> set (show_int i)" "show_int i \<noteq> []"
  using show_nat_digits [of NEWLINE] show_nat_nonempty by (auto simp: show_int_def is_digit_def)

context log_library
begin

text \<open>The parser gets the line without the newline, which follows it in the buffer.\<close>

lemma line_from_columns:
  assumes "\<forall>f\<in>set fs. CHR '' '' \<notin> set f \<and> NEWLINE \<notin> set f \<and> f \<noteq> []" "fs \<noteq> []" "length fs \<le> 16"
    and "\<And>after. slice_parse_line L paths (columns fs) after rjunk = Inr rec"
  shows "line_means L paths rjunk (columns fs) rec"
proof -
  from columns_no_newline [of fs] assms(1,2) obtain s where s: "columns fs = s @ [NEWLINE]" "NEWLINE \<notin> set s" by auto
  have lf: "last fs \<in> set fs" using assms(2) by simp
  then have "last fs \<noteq> []" "CHR '' '' \<notin> set (last fs)" using assms(1) by auto
  moreover obtain s0 where "s = s0 @ last fs" using columns_snoc [OF assms(2)] s(1) by auto
  ultimately have ne: "s \<noteq> []" "last s \<noteq> CHR '' ''" by (auto dest: last_in_set)
  have sf: "suffixes CHR '' '' (columns fs) = map (\<lambda>c. c @ [NEWLINE]) (suffixes CHR '' '' s)" unfolding s(1) by (rule suffixes_snoc) simp
  have "length (suffixes CHR '' '' (columns fs)) = length fs" using suffixes_columns [of fs] assms(1,2) by simp
  then have len: "length (suffixes CHR '' '' s) \<le> 16" "length (suffixes CHR '' '' (columns fs)) \<le> 16" using sf assms(3) by simp_all
  have sp: "le_split L s CHR '' '' 16 = suffixes CHR '' '' s" "le_split L (columns fs) CHR '' '' 16 = map (\<lambda>c. c @ [NEWLINE]) (suffixes CHR '' '' s)"
    using split [OF ne len(1)] split [OF _ _ len(2)] columns_end [of fs] sf by simp_all
  have "slice_parse_line L paths s (NEWLINE # after) rjunk = Inr rec" for after
    using assms(4) [of after] unfolding slice_parse_line_def sp by (simp add: comp_def)
  then show ?thesis using s by (auto simp: line_means_def)
qed

end

section \<open>The running server\<close>

text \<open>
  A step of the running server that changes the index is logged: under the lock of the block the operation gets its serial number, and the log is written in
  the order of these numbers. All other operations keep the byte maps.
\<close>

inductive live_step :: "fc_env \<Rightarrow> log_env \<Rightarrow> bool list \<Rightarrow> ob_index \<times> binlogs \<Rightarrow> ob_index \<times> binlogs \<Rightarrow> bool" for E L paths where
  add: "live_step E L paths (st, b) (st', b')"
    if "ob_deref st (sl_ob slice) = Some ob" "is_reclaim \<or> ob_reclaiming_count ob \<le> 0" "loggable_key (ob_bkey ob)"
      "loggable_size (sl_ssize slice)" "loggable_space paths (sl_space slice)" "source \<noteq> CHR '' ''" "source \<noteq> NEWLINE"
      "ob_index_add_slice_ex E sched slice True is_reclaim st = Some (0, Some sn, inc, st')"
      "slice_binlog_log_add_slice L (ob_bkey ob) slice t sn dv source b = (0, b')"
| delete: "live_step E L paths (st, b) (st', b')"
    if "key_ok (bs_block key)" "tab st (block_id (bs_block key)) = Some ob" "is_reclaim \<or> ob_reclaiming_count ob \<le> 0"
      "loggable_key (bs_block key)" "loggable_size (bs_slice key)" "source \<noteq> CHR '' ''" "source \<noteq> NEWLINE"
      "ob_index_delete_slices_ex E sched key True is_reclaim st = Some (0, Some sn, dec, st')"
      "slice_binlog_log_del_slice L key t sn dv source b = (0, b')"
| delete_block: "live_step E L paths (st, b) (st', b')"
    if "key_ok k" "tab st (block_id k) = Some ob" "is_reclaim \<or> ob_reclaiming_count ob \<le> 0" "loggable_key k" "source \<noteq> CHR '' ''" "source \<noteq> NEWLINE"
      "ob_index_delete_block_ex E sched k True is_reclaim st = Some (0, Some sn, dec, st')"
      "slice_binlog_log_del_block L k t sn dv source b = (0, b')"
| other: "live_step E L paths (st, b) (st', b)" if "table_ok E st'" "byte_map st' = byte_map st"

text \<open>The log tells how the index came about.\<close>

definition log_tells :: "fc_env \<Rightarrow> log_env \<Rightarrow> bool list \<Rightarrow> SliceBinlogRecord \<Rightarrow> ob_index \<times> binlogs \<Rightarrow> bool" where
  "log_tells E L paths rjunk = (\<lambda>(st, b). table_ok E st \<and>
     (\<exists>recs. list_all2 (line_means L paths rjunk) (map ll_text (bl_slice b)) recs \<and> history_ok recs (\<lambda>_ _. None) \<and>
        byte_map st = fold apply_record recs (\<lambda>_ _. None)))"

lemma log_tells_more:
  assumes "log_tells E L paths rjunk (st, b)" "table_ok E st'" "bl_slice b' = bl_slice b @ [line]" "line_means L paths rjunk (ll_text line) rec"
    "rec_ok rec" "rec_hits rec (byte_map st (rec_block rec))" "byte_map st' = apply_record rec (byte_map st)"
  shows "log_tells E L paths rjunk (st', b')"
proof -
  obtain recs where r: "list_all2 (line_means L paths rjunk) (map ll_text (bl_slice b)) recs" "history_ok recs (\<lambda>_ _. None)"
      "byte_map st = fold apply_record recs (\<lambda>_ _. None)"
    using assms(1) by (auto simp: log_tells_def)
  have "list_all2 (line_means L paths rjunk) (map ll_text (bl_slice b')) (recs @ [rec])" using r(1) assms(3,4) by (simp add: list_all2_appendI)
  moreover have "history_ok (recs @ [rec]) (\<lambda>_ _. None)" using r(2,3) assms(5,6) by (simp add: history_ok_append)
  moreover have "byte_map st' = fold apply_record (recs @ [rec]) (\<lambda>_ _. None)" using assms(7) r(3) by simp
  ultimately show ?thesis using assms(2) unfolding log_tells_def prod.case by blast
qed

lemma slice_log_line:
  assumes "log_library L" "slice_binlog_log L sn dv tx b = (0, b')"
  shows "\<exists>line. bl_slice b' = bl_slice b @ [line] \<and> ll_text line = tx"
  using assms by (auto simp: slice_binlog_log_def Let_def log_library.push split: if_splits)

lemma log_tells_step:
  assumes E: "fastcommon E" and L: "log_library L" and step: "live_step E L paths x y" and inv: "log_tells E L paths rjunk x"
  shows "log_tells E L paths rjunk y"
  using step inv
proof (cases rule: live_step.cases)
  case (add st slice ob is_reclaim source sched sn inc st' t dv b b')
  have tok: "table_ok E st" using inv add(1) by (simp add: log_tells_def)
  let ?op = "if sl_type slice = OB_SLICE_TYPE_FILE then BINLOG_OP_TYPE_WRITE_SLICE else BINLOG_OP_TYPE_ALLOC_SLICE"
  let ?rec = "rjunk\<lparr>sb_op_type := ?op, sb_slice_type := sl_type slice, sb_bs_key := \<lparr>bs_block = fs_calc_block_hashcode (ob_bkey ob), bs_slice = sl_ssize slice\<rparr>,
      sb_space := sl_space slice\<rparr>"
  have len: "0 < sl_length slice" using add(6) by (simp add: loggable_size_def)
  note am = fastcommon.add_ex_map [OF E tok add(3,4) len add(10)]
  have "ob \<in> set (entries st)" using add(3) fastcommon.deref_Some [OF E tok] by simp
  then have k: "key_ok (ob_bkey ob)" by (rule fastcommon.table_entry(1) [OF E tok])
  from slice_log_line [OF L add(11) [unfolded slice_binlog_log_add_slice_def]] obtain line where
    l: "bl_slice b' = bl_slice b @ [line]" "ll_text line = columns [show_int t, show_int (s64 dv), [source], [?op],
          show_int (bk_oid (ob_bkey ob)), show_int (bk_offset (ob_bkey ob)), show_int (sl_offset slice), show_int (sl_length slice),
          show_int (int (ts_store (sl_space slice))), show_int (ti_id (ts_id_info (sl_space slice))),
          show_int (ti_subdir (ts_id_info (sl_space slice))), show_int (ts_offset (sl_space slice)), show_int (ts_size (sl_space slice))]" by blast
  have m: "line_means L paths rjunk (ll_text line) ?rec"
    unfolding l(2)
    by (rule log_library.line_from_columns [OF L _ _ _ log_library.add_slice_text [OF L add(5-8) refl]])
      (use add(8,9) show_int_no_blank show_int_no_newline in auto)
  show ?thesis
    unfolding add(2)
    by (rule log_tells_more [OF _ am(1) l(1) m])
      (use inv add(1) k len am(2) in \<open>auto simp: rec_ok_def rec_hits_def key_ok_def apply_record_def on_block_def rec_map_def slice_map_def byte_loc_def fun_eq_iff map_add_def\<close>)
next
  case (delete key st ob is_reclaim source sched sn dec st' t dv b b')
  have tok: "table_ok E st" using inv delete(1) by (simp add: log_tells_def)
  let ?rec = "rjunk\<lparr>sb_op_type := BINLOG_OP_TYPE_DEL_SLICE, sb_bs_key := \<lparr>bs_block = fs_calc_block_hashcode (bs_block key), bs_slice = bs_slice key\<rparr>\<rparr>"
  have len: "0 < ss_length (bs_slice key)" using delete(7) by (simp add: loggable_size_def)
  note dm = fastcommon.delete_ex_map [OF E tok delete(3-5) len delete(10)]
  have hit: "ssize_range (bs_slice key) \<inter> dom (byte_map st (block_id (bs_block key))) \<noteq> {}"
    by (rule fastcommon.delete_ex_hits [OF E tok delete(3-5) len delete(10)])
  from slice_log_line [OF L delete(11) [unfolded slice_binlog_log_del_slice_def]] obtain line where
    l: "bl_slice b' = bl_slice b @ [line]" "ll_text line = columns [show_int t, show_int (s64 dv), [source], [BINLOG_OP_TYPE_DEL_SLICE],
          show_int (bk_oid (bs_block key)), show_int (bk_offset (bs_block key)), show_int (ss_offset (bs_slice key)), show_int (ss_length (bs_slice key))]" by blast
  have m: "line_means L paths rjunk (ll_text line) ?rec"
    unfolding l(2)
    by (rule log_library.line_from_columns [OF L _ _ _ log_library.del_slice_text [OF L delete(6-8)]])
      (use delete(8,9) show_int_no_blank show_int_no_newline in auto)
  show ?thesis
    unfolding delete(2)
    by (rule log_tells_more [OF _ dm(1) l(1) m])
      (use inv delete(1,3) len dm(2) hit in \<open>auto simp: rec_ok_def rec_hits_def key_ok_def apply_record_def on_block_def\<close>)
next
  case (delete_block k st ob is_reclaim source sched sn dec st' t dv b b')
  have tok: "table_ok E st" using inv delete_block(1) by (simp add: log_tells_def)
  let ?rec = "rjunk\<lparr>sb_op_type := BINLOG_OP_TYPE_DEL_BLOCK, sb_bs_key := (sb_bs_key rjunk)\<lparr>bs_block := fs_calc_block_hashcode k\<rparr>\<rparr>"
  note dm = fastcommon.delete_block_map [OF E tok delete_block(3-5) delete_block(9)]
  from slice_log_line [OF L delete_block(10) [unfolded slice_binlog_log_del_block_def]] obtain line where
    l: "bl_slice b' = bl_slice b @ [line]" "ll_text line = columns [show_int t, show_int (s64 dv), [source], [BINLOG_OP_TYPE_DEL_BLOCK],
          show_int (bk_oid k), show_int (bk_offset k)]" by blast
  have m: "line_means L paths rjunk (ll_text line) ?rec"
    unfolding l(2)
    by (rule log_library.line_from_columns [OF L _ _ _ log_library.del_block_text [OF L delete_block(6,7)]])
      (use delete_block(7,8) show_int_no_blank show_int_no_newline in auto)
  show ?thesis
    unfolding delete_block(2)
    by (rule log_tells_more [OF _ dm(1) l(1) m])
      (use inv delete_block(1,3) dm(2,4) in \<open>auto simp: rec_ok_def rec_hits_def key_ok_def apply_record_def on_block_def split: if_splits\<close>)
next
  case (other st' st b)
  then show ?thesis using inv by (auto simp: log_tells_def)
qed

text \<open>The texts of the buffers, and what the parse threads have for them.\<close>

fun buffers :: "loader_event list \<Rightarrow> (bool list \<times> nat \<times> string) list" where
  "buffers [] = []"
| "buffers (BUFFER batches free buff # es) = (batches, free, buff) # buffers es"
| "buffers (READ_END # es) = buffers es"
| "buffers (DEAL i # es) = buffers es"

text \<open>A buffer holds whole lines.\<close>

definition holds_lines :: "bool list \<times> nat \<times> string \<Rightarrow> string list \<Rightarrow> bool" where
  "holds_lines x lines \<longleftrightarrow> (case x of (batches, free, buff) \<Rightarrow> buff = concat lines \<and> enough batches free (length lines))"

lemma parsed_chunks:
  assumes "list_all2 holds_lines (buffers es) chunks" "list_all2 (line_means L paths rjunk) (concat chunks) recs"
  shows "parsed_records L paths rjunk es = Some recs"
  using assms
proof (induction es arbitrary: chunks recs rule: buffers.induct)
  case (2 batches free buff es)
  from "2.prems"(1) obtain lines rest_chunks where c: "chunks = lines # rest_chunks" "buff = concat lines" "enough batches free (length lines)"
      "list_all2 holds_lines (buffers es) rest_chunks"
    by (auto simp: list_all2_Cons1 holds_lines_def [of "(batches, free, buff)"])
  from "2.prems"(2) obtain r1 r2 where r: "recs = r1 @ r2" "list_all2 (line_means L paths rjunk) lines r1"
      "list_all2 (line_means L paths rjunk) (concat rest_chunks) r2"
    by (auto simp: c(1) list_all2_append1)
  show ?case using parse_lines [OF r(2) c(3)] "2.IH" [OF c(4) r(3)] c(2) r(1) by simp
qed simp_all


section \<open>A run\<close>

lemma empty_table:
  assumes "ht_buckets (ix_ht st) = replicate (nat (ht_capacity (ix_ht st))) []" "0 < ht_capacity (ix_ht st)"
  shows "table_ok E st" "byte_map st = (\<lambda>_ _. None)" "calm st"
  using assms by (auto simp: table_ok_def bucket_ok_def entries_def byte_map_def tab_def calm_def fun_eq_iff)

text \<open>The example index without a block, for a running server and for one that starts; the example slice with a place that can be logged.\<close>

definition ex_empty :: "bool \<Rightarrow> ob_index" where
  "ex_empty b = ex_ix\<lparr>ix_ht := ex_ht\<lparr>ht_modify_sallocator := b\<rparr>\<rparr>"

lemma ex_empty_ok: "table_ok list_env (ex_empty b)" "byte_map (ex_empty b) = (\<lambda>_ _. None)" "loading list_env (ex_empty False)"
  using empty_table [of "ex_empty b"] empty_table [of "ex_empty False"] by (simp_all add: ex_empty_def ex_ht_def loading_def)

definition ex_adds :: bool where
  "ex_adds \<longleftrightarrow> (case ob_index_alloc_slice_ex list_env ex_log_slice ex_key 1 (ex_empty False) of
     (None, _) \<Rightarrow> False
   | (Some s, st1) \<Rightarrow> map_option (\<lambda>(r, sn, inc, st2). (r, sn)) (ob_index_add_slice_ex list_env [] s True False st1) = Some (0, Some 42) \<and>
       sl_ssize s = sl_ssize ex_log_slice \<and> sl_space s = sl_space ex_log_slice \<and>
       map_option ob_reclaiming_count (ob_deref st1 (sl_ob s)) = Some 0)"

lemma ex_adds_ok: ex_adds
  by code_simp

lemma ex_live_run:
  obtains st b where "rtranclp (live_step list_env list_log_env [True]) (ex_empty False, ex_logs) (st, b)" "length (bl_slice b) = 1"
    "byte_map st (block_id ex_key) 100 = Some (OB_SLICE_TYPE_FILE, 0, \<lparr>ti_id = 9, ti_subdir = 1\<rparr>, 8192)"
proof -
  obtain s st1 r sn inc st2 where a: "ob_index_alloc_slice_ex list_env ex_log_slice ex_key 1 (ex_empty False) = (Some s, st1)"
    and "ob_index_add_slice_ex list_env [] s True False st1 = Some (r, sn, inc, st2)"
    and "r = 0 \<and> sn = Some 42" and s: "sl_ssize s = sl_ssize ex_log_slice" "sl_space s = sl_space ex_log_slice"
    and rc: "map_option ob_reclaiming_count (ob_deref st1 (sl_ob s)) = Some 0"
    using ex_adds_ok unfolding ex_adds_def by (auto split: prod.splits option.splits)
  then have run: "ob_index_add_slice_ex list_env [] s True False st1 = Some (0, Some 42, inc, st2)" by simp
  note al = list_fc.alloc_slice_map [OF ex_empty_ok(1) ex_key_ok(1) a]
  obtain ob where ob: "ob_deref st1 (sl_ob s) = Some ob" "ob_bkey ob = ex_key" using al(3) by blast
  have k: "loggable_key ex_key" "loggable_size (sl_ssize s)" "loggable_space [True] (sl_space s)" "sl_length s = 50" "sl_offset s = 100"
    using s by (simp_all add: ex_key_def fs_calc_block_hashcode_def loggable_key_def loggable_size_def loggable_space_def ex_log_slice_def ex_log_bs_def)
  obtain b where b: "slice_binlog_log_add_slice list_log_env ex_key s 17 42 9 CHR ''C'' ex_logs = (0, b)"
    by (simp add: slice_binlog_log_add_slice_def slice_binlog_log_def list_log_env_def Let_def)
  then have len: "length (bl_slice b) = 1"
    by (auto simp: slice_binlog_log_add_slice_def slice_binlog_log_def list_log.push ex_logs_def Let_def split: if_splits)
  have "live_step list_env list_log_env [True] (ex_empty False, ex_logs) (st1, ex_logs)" using al by (intro live_step.other) simp_all
  moreover have "live_step list_env list_log_env [True] (st1, ex_logs) (st2, b)"
    by (rule live_step.add [OF ob(1) _ _ k(2,3) _ _ run]) (use ob rc k b in simp_all)
  ultimately have steps: "rtranclp (live_step list_env list_log_env [True]) (ex_empty False, ex_logs) (st2, b)" by simp
  have "byte_map st2 = (byte_map st1)(block_id ex_key := byte_map st1 (block_id ex_key) ++ slice_map s)"
    using list_fc.add_ex_map(2) [OF al(1) ob(1) _ _ run] ob rc k(4) by simp
  moreover have "slice_map s 100 = Some (sl_type s, 0, \<lparr>ti_id = 9, ti_subdir = 1\<rparr>, 8192)"
    using s k by (simp add: slice_map_def byte_loc_def ssize_range_def) (simp add: ex_log_slice_def)
  moreover have "sl_type s = OB_SLICE_TYPE_FILE" using a by (auto simp: ob_index_alloc_slice_ex_def ex_log_slice_def split: prod.splits option.splits)
  ultimately have "byte_map st2 (block_id ex_key) 100 = Some (OB_SLICE_TYPE_FILE, 0, \<lparr>ti_id = 9, ti_subdir = 1\<rparr>, 8192)" by (simp add: map_add_Some_iff)
  with that steps len show thesis by blast
qed


definition ex_fs :: "string list" where
  "ex_fs = [show_int 17, show_int 9, ''C'', ''D'', show_int (bk_oid ex_key), show_int (bk_offset ex_key)]"

definition ex_blk_rec :: SliceBinlogRecord where
  "ex_blk_rec = ex_srec\<lparr>sb_op_type := BINLOG_OP_TYPE_DEL_BLOCK, sb_bs_key := (sb_bs_key ex_srec)\<lparr>bs_block := ex_key\<rparr>\<rparr>"

text \<open>The example block is deleted when its record is loaded.\<close>

definition ex_full :: ob_index where
  "ex_full = ex_ix\<lparr>ix_ht := (ix_ht ex_ix)\<lparr>ht_modify_sallocator := False\<rparr>\<rparr>"

theorem parallel_load_is_sequential_witness:
  "\<exists>ctx' st'. loader_run list_env list_log_env [True] ex_srec ex_log_slice [BUFFER [True] 0 (columns ex_fs), READ_END, DEAL 0, DEAL 1, DEAL 2]
      (init_thread_ctx_array 4, ex_full) = Some (ctx', st') \<and>
     (lc_continue ctx' \<and> lc_outputs ctx' = [] \<and> data_threads_finished ctx' \<longrightarrow> byte_map st' (block_id ex_key) = (\<lambda>_. None))"
proof -
  let ?es = "[BUFFER [True] 0 (columns ex_fs), READ_END, DEAL 0, DEAL 1, DEAL 2]"
  have "loggable_key ex_key" "fs_calc_block_hashcode ex_key = ex_key" by (simp_all add: ex_key_def fs_calc_block_hashcode_def loggable_key_def)
  with list_log.del_block_text [of ex_key "CHR ''C''" "[True]" 17 9 _ ex_srec]
  have "line_means list_log_env [True] ex_srec (columns ex_fs) ex_blk_rec"
    by (intro list_log.line_from_columns) (auto simp: ex_fs_def ex_blk_rec_def show_int_no_blank show_int_no_newline)
  then have "parsed_records list_log_env [True] ex_srec ?es = Some [ex_blk_rec]"
    by (intro parsed_chunks [of _ "[[columns ex_fs]]"]) (simp_all add: holds_lines_def enough_def)
  moreover have tab: "tab ex_full = tab ex_ix" "table_ok list_env ex_full" "calm ex_full"
    using ex_table_ok by (simp_all add: ex_full_def table_ok_def bucket_ok_def bucket_index_def tab_def [abs_def] entries_def calm_def) (simp add: ex_ix_def ex_ob_def)
  then have "loading list_env ex_full" by (simp add: loading_def ex_full_def)
  moreover have "byte_map ex_full (block_id ex_key) \<noteq> (\<lambda>_. None)"
    using tab(1) ex_deref by (simp add: byte_map_def) (simp add: ex_ob_def ex_chain_def block_map_def ex_slice_def ssize_range_def fun_eq_iff exI [of _ 0])
  then have "history_ok [ex_blk_rec] (byte_map ex_full)"
    using ex_key_ok(1) by (simp add: rec_ok_def rec_hits_def ex_blk_rec_def)
  ultimately show ?thesis
    using parallel_load_is_sequential [OF list_fc.fastcommon_axioms, of ex_full list_log_env "[True]" ex_srec ?es "[ex_blk_rec]" ex_log_slice 4]
    by (auto simp: apply_record_def on_block_def ex_blk_rec_def simp del: loader_run.simps)
qed

end
