(* ===== verification/Slice_Dump.thy ===== *)
theory Slice_Dump
  imports Slice_Loader_Properties
begin

text \<open>
  The end of a load (\<open>src/server/binlog/slice_loader.c\<close>): all slices of the index are booked on their trunks, by several threads that take ranges of the
  hash table. Threads that book slices hold the lock of the store path; they come one after the other here.
\<close>

section \<open>Ranges of buckets\<close>

text \<open>\<open>slice_count\<close> is the number of slices in use, as their allocators tell it.\<close>

definition dump_thread_count :: "int \<Rightarrow> int \<Rightarrow> int" where
  "dump_thread_count slice_count cpus = (let n = (slice_count + 200000 - 1) div 200000 in if n > cpus then cpus else n)"

fun dump_ranges_from :: "nat \<Rightarrow> int \<Rightarrow> int \<Rightarrow> int \<Rightarrow> (int \<times> int) list" where
  "dump_ranges_from 0 start buckets_per_thread capacity = []"
| "dump_ranges_from (Suc n) start buckets_per_thread capacity =
     (start, if start + buckets_per_thread > capacity then capacity else start + buckets_per_thread) #
       dump_ranges_from n (start + buckets_per_thread) buckets_per_thread capacity"

definition init_dump_thread_ctx_array :: "int \<Rightarrow> int \<Rightarrow> int \<Rightarrow> (int \<times> int) list" where
  "init_dump_thread_ctx_array slice_count cpus capacity =
     (if slice_count = 0 then []
      else
        (let thread_count = dump_thread_count slice_count cpus
         in if thread_count = 1 then [(0, capacity)]
            else dump_ranges_from (nat thread_count) 0 ((capacity + thread_count - 1) div thread_count) capacity))"

section \<open>Booking\<close>

text \<open>A thread that fails ends the program.\<close>

fun dump_threads :: "fc_env \<Rightarrow> (int \<times> int) list \<Rightarrow> ob_index \<Rightarrow> int \<times> int \<times> ob_index" where
  "dump_threads E [] st = (0, 0, st)"
| "dump_threads E ((a, b) # ranges) st =
     (case ob_index_dump_slices_to_trunk_ex E (nat a) (nat b) st of (result, cnt, st1) \<Rightarrow>
        if result \<noteq> 0 then (result, 0, st1)
        else (case dump_threads E ranges st1 of (result, n, st2) \<Rightarrow> (result, cnt + n, st2)))"

definition slice_dump_slices_to_trunk :: "fc_env \<Rightarrow> int \<Rightarrow> int \<Rightarrow> ob_index \<Rightarrow> int \<times> int \<times> ob_index" where
  "slice_dump_slices_to_trunk E slice_count cpus st =
     dump_threads E (init_dump_thread_ctx_array slice_count cpus (ht_capacity (ix_ht st))) st"

section \<open>Facts\<close>

text \<open>The free start of a trunk lies behind the bytes that are booked.\<close>

definition used_below_start :: "FSTrunkFileInfo \<Rightarrow> bool" where
  "used_below_start t \<longleftrightarrow> (\<forall>s\<in>set (tf_slices t). ts_offset (sl_space s) + ts_size (sl_space s) \<le> tf_free_start t)"

definition starts_ok :: "FSStorageAllocatorManager \<Rightarrow> bool" where
  "starts_ok m \<longleftrightarrow> (\<forall>p t. am_trunks m p = Some t \<longrightarrow> used_below_start t)"

text \<open>What booking slices does to the books of all trunks.\<close>

definition books_more :: "fc_env \<Rightarrow> FSStorageAllocatorManager \<Rightarrow> OBSliceEntry list \<Rightarrow> FSStorageAllocatorManager \<Rightarrow> bool" where
  "books_more E m ss m' \<longleftrightarrow> mgr_ok E m' \<and> starts_ok m' \<and>
     (\<forall>k. booked E m' k = map_option (\<lambda>xs. xs @ filter (\<lambda>s. trunk_key s = k) ss) (booked E m k))"

definition bucket_slices :: "nat \<Rightarrow> nat \<Rightarrow> ob_index \<Rightarrow> OBSliceEntry list" where
  "bucket_slices a b st = concat (map ob_slices (concat (drop a (take b (ht_buckets (ix_ht st))))))"

context fastcommon
begin

lemma batch_add_one_fields:
  "tf_slices (batch_add_one E s t) = tf_slices t @ [s]" "tf_allocator (batch_add_one E s t) = tf_allocator t" "tf_id (batch_add_one E s t) = tf_id t"
  "trunk_books_ok t \<Longrightarrow> trunk_books_ok (batch_add_one E s t)" "used_below_start t \<Longrightarrow> used_below_start (batch_add_one E s t)"
  by (auto simp: batch_add_one_def Let_def list_add_tail trunk_books_ok_def used_below_start_def)

lemma batch_fields:
  "tf_slices (fold (batch_add_one E) ss t) = tf_slices t @ ss" "tf_allocator (fold (batch_add_one E) ss t) = tf_allocator t"
  "tf_id (fold (batch_add_one E) ss t) = tf_id t"
  "trunk_books_ok t \<Longrightarrow> trunk_books_ok (fold (batch_add_one E) ss t)" "used_below_start t \<Longrightarrow> used_below_start (fold (batch_add_one E) ss t)"
  by (induction ss arbitrary: t) (simp_all add: batch_add_one_fields)

lemma compare_trunk_zero: "compare_slice_by_trunk_id E a b = 0 \<longleftrightarrow> trunk_key a = trunk_key b"
  by (auto simp: compare_slice_by_trunk_id_def trunk_key_def Let_def compare_int64_zero)

lemma books_more_trans: "books_more E m xs m1 \<Longrightarrow> books_more E m1 ys m2 \<Longrightarrow> books_more E m (xs @ ys) m2"
  by (simp add: books_more_def option.map_comp o_def)

lemma books_more_known: "books_more E m ss m' \<Longrightarrow> booked E m' k = None \<longleftrightarrow> booked E m k = None"
  by (simp add: books_more_def del: split_paired_All)

lemma batch_books:
  assumes "mgr_ok E m" "starts_ok m" "\<forall>s\<in>set ss. trunk_key s = k" "ss \<noteq> [] \<Longrightarrow> booked E m k \<noteq> None"
  shows "\<exists>m'. trunk_allocator_batch_add_slices E ss m = (0, m') \<and> books_more E m ss m'"
proof (cases ss)
  case Nil
  then show ?thesis using assms(1,2) by (simp add: trunk_allocator_batch_add_slices_def books_more_def option.map_ident)
next
  case (Cons s ss')
  then obtain xs where b: "booked E m (trunk_key s) = Some xs" using assms(3,4) by auto
  from b obtain p t where p: "find_trunk E (ts_store (sl_space s)) (ti_id (ts_id_info (sl_space s))) m = Some p" "am_trunks m p = Some t" "tf_slices t = xs"
    by (rule booked_SomeD) (simp add: trunk_key_def)
  let ?m = "upd_trunk p (fold (batch_add_one E) ss) m"
  have "mgr_ok E ?m" using assms(1) by (intro mgr_ok_upd_trunk) (auto simp: batch_fields mgr_ok_def)
  moreover have "starts_ok ?m" using assms(2) by (auto simp: starts_ok_def batch_fields split: if_splits)
  moreover have bk: "booked E ?m = (booked E m)(trunk_key s \<mapsto> xs @ ss)" using booked_update [OF assms(1) b p(1)] p by (simp add: batch_fields)
  have "filter (\<lambda>s. trunk_key s = k') ss = (if k' = trunk_key s then ss else [])" for k' using assms(3) Cons by (auto simp: filter_id_conv filter_empty_conv)
  then have "booked E ?m k' = map_option (\<lambda>xs. xs @ filter (\<lambda>s. trunk_key s = k') ss) (booked E m k')" for k'
    using bk b by (simp add: option.map_ident)
  ultimately show ?thesis using p(1) Cons by (simp add: trunk_allocator_batch_add_slices_def books_more_def)
qed

lemma runs_books:
  assumes "mgr_ok E m" "starts_ok m" "\<forall>s\<in>set run. trunk_key s = trunk_key (hd run)" "\<forall>s\<in>set (run @ ss). booked E m (trunk_key s) \<noteq> None"
  shows "\<exists>m'. add_slices_runs E run ss m = (0, m') \<and> books_more E m (run @ ss) m'"
  using assms
proof (induction ss arbitrary: run m)
  case Nil
  then show ?case using batch_books [OF Nil(1,2), of run "trunk_key (hd run)"] by (cases run) auto
next
  case (Cons s ss)
  show ?case
  proof (cases "run \<noteq> [] \<and> compare_slice_by_trunk_id E s (hd run) \<noteq> 0")
    case True
    obtain m1 where m1: "trunk_allocator_batch_add_slices E run m = (0, m1)" "books_more E m run m1"
      using batch_books [OF Cons.prems(1-3)] Cons.prems(4) True by (cases run) auto
    have "\<forall>s\<in>set ([s] @ ss). booked E m1 (trunk_key s) \<noteq> None" using books_more_known [OF m1(2)] Cons.prems(4) by simp
    with Cons.IH [of m1 "[s]"] m1(2) obtain m2 where "add_slices_runs E [s] ss m1 = (0, m2)" "books_more E m1 ([s] @ ss) m2"
      by (auto simp: books_more_def)
    then show ?thesis using True m1 books_more_trans [OF m1(2)] by (auto simp: then_ok_def)
  next
    case False
    then have "\<forall>x\<in>set (run @ [s]). trunk_key x = trunk_key (hd (run @ [s]))"
      using Cons.prems(3) compare_trunk_zero [of s "hd run"] by (cases run) auto
    with Cons.IH [of m "run @ [s]"] Cons.prems(1,2,4) False show ?thesis by auto
  qed
qed

lemma add_to_trunk_books:
  assumes "mgr_ok E m" "starts_ok m" "\<forall>s\<in>set ss. booked E m (trunk_key s) \<noteq> None" "add_slices_to_trunk E ss m = (r, m')"
  shows "r = 0 \<and> (\<exists>zs. mset zs = mset ss \<and> books_more E m zs m')"
proof -
  let ?zs = "env_qsort E (compare_slice_by_trunk_id E) ss"
  have ms: "mset ?zs = mset ss" by (rule qsort_perm)
  then have "set ?zs = set ss" by (rule mset_eq_setD)
  then have "\<exists>m'. add_slices_runs E [] ?zs m = (0, m') \<and> books_more E m ?zs m'" using runs_books [OF assms(1,2), of "[]" ?zs] assms(3) by simp
  then show ?thesis using assms(4) ms by (auto simp: add_slices_to_trunk_def)
qed

lemma dump_collect_all: "dump_collect E ss ah = (r, arr, h) \<Longrightarrow> (r = 0 \<and> pa_slices arr = pa_slices (fst ah) @ ss) \<or> r = ENOMEM"
proof (induction ss arbitrary: ah r arr h)
  case Nil
  then show ?case by (cases ah) simp
next
  case (Cons s ss)
  obtain r1 arr1 h1 where g: "(if int (length (pa_slices (fst ah))) = pa_alloc (fst ah) then realloc_slice_ptr_array E ah else (0, ah)) = (r1, arr1, h1)"
    by (metis prod_cases3)
  have r1: "r1 = 0 \<and> pa_slices arr1 = pa_slices (fst ah) \<or> r1 = ENOMEM"
    using g by (cases ah) (auto simp: realloc_slice_ptr_array_def Let_def split: if_splits prod.splits)
  have run: "(if r1 = 0 then dump_collect E ss (arr1\<lparr>pa_slices := pa_slices arr1 @ [s]\<rparr>, h1) else (r1, arr1, h1)) = (r, arr, h)"
    using Cons.prems unfolding dump_collect.simps g by (auto simp: then_ok_def split: if_splits)
  show ?case
  proof (cases "r1 = 0")
    case True
    with Cons.IH [of "(arr1\<lparr>pa_slices := pa_slices arr1 @ [s]\<rparr>, h1)"] run r1 show ?thesis by auto
  qed (use run r1 in auto)
qed

lemma dump_range_books:
  assumes "mgr_ok E (ix_mgr st)" "starts_ok (ix_mgr st)" "\<forall>s\<in>set (bucket_slices a b st). booked E (ix_mgr st) (trunk_key s) \<noteq> None"
    "ob_index_dump_slices_to_trunk_ex E a b st = (r, cnt, st')"
  shows "ix_ht st' = ix_ht st \<and> (r = ENOMEM \<or> r = 0 \<and> cnt = int (length (bucket_slices a b st)) \<and>
    (\<exists>zs. mset zs = mset (bucket_slices a b st) \<and> books_more E (ix_mgr st) zs (ix_mgr st')))"
proof -
  obtain r1 arr1 h1 where i: "init_slice_ptr_array E (128 * 1024) (ix_heap st) = (r1, arr1, h1)" by (metis prod_cases3)
  have r1: "r1 = 0 \<and> pa_slices arr1 = [] \<or> r1 = ENOMEM" using i by (auto simp: init_slice_ptr_array_def split: prod.splits if_splits)
  note run = assms(4) [unfolded ob_index_dump_slices_to_trunk_ex_def i prod.case]
  show ?thesis
  proof (cases "r1 = 0")
    case False
    then show ?thesis using run r1 by auto
  next
    case True
    obtain r2 arr2 h2 where c: "dump_collect E (bucket_slices a b st) (arr1, h1) = (r2, arr2, h2)" by (metis prod_cases3)
    note c2 = dump_collect_all [OF c] and run2 = run [folded bucket_slices_def, unfolded c prod.case]
    show ?thesis
    proof (cases "r2 = 0")
      case False
      then show ?thesis using run2 True c2 by auto
    next
      case r2: True
      then have sl: "pa_slices arr2 = bucket_slices a b st" using c2 r1 True by auto
      show ?thesis
      proof (cases "bucket_slices a b st = []")
        case True
        then show ?thesis using run2 \<open>r1 = 0\<close> r2 sl assms(1,2) by (auto simp: books_more_def option.map_ident)
      next
        case False
        obtain r3 m3 where a3: "add_slices_to_trunk E (bucket_slices a b st) (ix_mgr st) = (r3, m3)" by fastforce
        from add_to_trunk_books [OF assms(1-3) a3] show ?thesis using run2 \<open>r1 = 0\<close> r2 sl False a3 by auto
      qed
    qed
  qed
qed

lemma dump_threads_books:
  assumes "mgr_ok E (ix_mgr st)" "starts_ok (ix_mgr st)"
    "\<forall>s\<in>set (concat (map (\<lambda>(a, b). bucket_slices (nat a) (nat b) st) ranges)). booked E (ix_mgr st) (trunk_key s) \<noteq> None"
    "dump_threads E ranges st = (r, cnt, st')"
  shows "ix_ht st' = ix_ht st \<and> (r = ENOMEM \<or> r = 0 \<and> cnt = int (length (concat (map (\<lambda>(a, b). bucket_slices (nat a) (nat b) st) ranges))) \<and>
    (\<exists>zs. mset zs = mset (concat (map (\<lambda>(a, b). bucket_slices (nat a) (nat b) st) ranges)) \<and> books_more E (ix_mgr st) zs (ix_mgr st')))"
  using assms
proof (induction ranges arbitrary: st r cnt st')
  case Nil
  then show ?case by (auto simp: books_more_def option.map_ident)
next
  case (Cons ab ranges)
  obtain a b where ab: "ab = (a, b)" by fastforce
  obtain r1 n1 st1 where d: "ob_index_dump_slices_to_trunk_ex E (nat a) (nat b) st = (r1, n1, st1)" by (metis prod_cases3)
  have "\<forall>s\<in>set (bucket_slices (nat a) (nat b) st). booked E (ix_mgr st) (trunk_key s) \<noteq> None" using Cons.prems(3) ab by auto
  note d1 = dump_range_books [OF Cons.prems(1,2) this d]
  have same: "bucket_slices x y st1 = bucket_slices x y st" for x y using d1 by (simp add: bucket_slices_def)
  show ?case
  proof (cases "r1 = 0")
    case False
    then show ?thesis using Cons.prems(4) d1 by (auto simp: ab d)
  next
    case True
    then obtain zs where z: "mset zs = mset (bucket_slices (nat a) (nat b) st)" "books_more E (ix_mgr st) zs (ix_mgr st1)"
        "n1 = int (length (bucket_slices (nat a) (nat b) st))" using d1 by auto
    obtain r2 n2 st2 where t: "dump_threads E ranges st1 = (r2, n2, st2)" by (metis prod_cases3)
    have ok1: "mgr_ok E (ix_mgr st1)" "starts_ok (ix_mgr st1)" using z(2) by (simp_all add: books_more_def)
    have "\<forall>s\<in>set (concat (map (\<lambda>(a, b). bucket_slices (nat a) (nat b) st1) ranges)). booked E (ix_mgr st1) (trunk_key s) \<noteq> None"
      unfolding same books_more_known [OF z(2)] using Cons.prems(3) by simp
    from Cons.IH [OF ok1 this t] have ih: "ix_ht st2 = ix_ht st1" "r2 = ENOMEM \<or> r2 = 0 \<and> n2 = int (length (concat (map (\<lambda>(a, b). bucket_slices (nat a) (nat b) st) ranges))) \<and>
        (\<exists>zs. mset zs = mset (concat (map (\<lambda>(a, b). bucket_slices (nat a) (nat b) st) ranges)) \<and> books_more E (ix_mgr st1) zs (ix_mgr st2))"
      unfolding same by blast+
    have out: "r = r2" "cnt = n1 + n2" "st' = st2" using Cons.prems(4) True by (simp_all add: ab d t)
    show ?thesis
    proof (cases "r2 = ENOMEM")
      case False
      with ih(2) obtain ys where y: "mset ys = mset (concat (map (\<lambda>(a, b). bucket_slices (nat a) (nat b) st) ranges))" "books_more E (ix_mgr st1) ys (ix_mgr st2)"
          "r2 = 0" "n2 = int (length (concat (map (\<lambda>(a, b). bucket_slices (nat a) (nat b) st) ranges)))" by auto
      then show ?thesis using z out ih(1) d1 books_more_trans [OF z(2) y(2)] by (auto simp: ab intro!: exI [of _ "zs @ ys"])
    qed (use out ih(1) d1 in simp)
  qed
qed

lemma range_split: "a \<le> b \<Longrightarrow> bucket_slices a (min b c) st @ bucket_slices b c st = bucket_slices a c st"
proof -
  assume "a \<le> b"
  let ?ys = "drop a (take c (ht_buckets (ix_ht st)))"
  have "drop a (take (min b c) (ht_buckets (ix_ht st))) = take (b - a) ?ys" "drop b (take c (ht_buckets (ix_ht st))) = drop (b - a) ?ys"
    using \<open>a \<le> b\<close> by (simp_all add: take_drop min.commute)
  then show ?thesis unfolding bucket_slices_def by (metis append_take_drop_id concat_append map_append)
qed

lemma ranges_cover:
  assumes "0 \<le> start" "0 \<le> k" "capacity \<le> start + int n * k" "0 \<le> capacity"
  shows "concat (map (\<lambda>(a, b). bucket_slices (nat a) (nat b) st) (dump_ranges_from n start k capacity)) = bucket_slices (nat start) (nat capacity) st"
  using assms
proof (induction n arbitrary: start)
  case 0
  then show ?case by (simp add: bucket_slices_def)
next
  case (Suc n)
  have "nat (if start + k > capacity then capacity else start + k) = min (nat (start + k)) (nat capacity)" using Suc.prems by auto
  then show ?case
    using Suc.IH [of "start + k"] Suc.prems range_split [of "nat start" "nat (start + k)" "nat capacity" st] by (simp add: distrib_right)
qed

lemma dump_array_cover:
  assumes "0 < slice_count" "1 \<le> cpus" "0 < capacity"
  shows "concat (map (\<lambda>(a, b). bucket_slices (nat a) (nat b) st) (init_dump_thread_ctx_array slice_count cpus capacity)) = bucket_slices 0 (nat capacity) st"
proof -
  let ?n = "dump_thread_count slice_count cpus"
  have n: "1 \<le> ?n" using assms(1,2) by (auto simp: dump_thread_count_def Let_def)
  let ?k = "(capacity + ?n - 1) div ?n"
  have "(capacity + ?n - 1) mod ?n < ?n" using n by simp
  then have "capacity \<le> ?n * ?k" using mult_div_mod_eq [of ?n "capacity + ?n - 1"] by linarith
  moreover have "0 \<le> ?k" using assms(3) n by (simp add: pos_imp_zdiv_nonneg_iff)
  ultimately have "concat (map (\<lambda>(a, b). bucket_slices (nat a) (nat b) st) (dump_ranges_from (nat ?n) 0 ?k capacity)) = bucket_slices 0 (nat capacity) st"
    using ranges_cover [of 0 ?k capacity "nat ?n" st] assms(3) n by simp
  then show ?thesis using assms(1) by (simp add: init_dump_thread_ctx_array_def Let_def)
qed

end

text \<open>
  Property C37. At the end of a load every slice of the index is booked on its trunk exactly once, however the hash table is divided among threads: if the
  trunks are known and nothing is booked yet, then afterwards the books of the trunks and the index agree, each trunk's space in use is the
  sum of its slices, no byte that is in use lies at or behind the start of the free space of its trunk, and the number of slices is reported. It fails only when memory runs out.
\<close>
theorem load_books_all_slices:
  assumes "fastcommon E" "table_ok E st" "mgr_ok E (ix_mgr st)" "\<forall>p t. am_trunks (ix_mgr st) p = Some t \<longrightarrow> tf_slices t = []"
    "\<forall>s\<in>set (all_slices st). booked E (ix_mgr st) (trunk_key s) \<noteq> None" "1 \<le> cpus" "int (length (all_slices st)) \<le> slice_count"
    "slice_dump_slices_to_trunk E slice_count cpus st = (r, cnt, st')"
  shows "ix_ht st' = ix_ht st \<and> (r = ENOMEM \<or> r = 0 \<and> cnt = int (length (all_slices st)) \<and>
    books_balanced E (ix_mgr st') (\<lambda>_. {#}) (all_slices st') \<and>
    (\<forall>p t. am_trunks (ix_mgr st') p = Some t \<longrightarrow> used_below_start t))"
proof -
  let ?all = "concat (map (\<lambda>(a, b). bucket_slices (nat a) (nat b) st) (init_dump_thread_ctx_array slice_count cpus (ht_capacity (ix_ht st))))"
  have cap: "0 < ht_capacity (ix_ht st)" "length (ht_buckets (ix_ht st)) = nat (ht_capacity (ix_ht st))" using assms(2) by (simp_all add: table_ok_def)
  have "bucket_slices 0 (nat (ht_capacity (ix_ht st))) st = all_slices st" using cap by (simp add: bucket_slices_def all_slices_def entries_def)
  then have all: "?all = all_slices st"
    using fastcommon.dump_array_cover [OF assms(1) _ assms(6) cap(1), of slice_count st] assms(7)
    by (cases "slice_count = 0") (auto simp: init_dump_thread_ctx_array_def)
  have starts: "starts_ok (ix_mgr st)" using assms(4) by (auto simp: starts_ok_def used_below_start_def)
  note d = fastcommon.dump_threads_books [OF assms(1,3) starts _ assms(8) [unfolded slice_dump_slices_to_trunk_def], unfolded all, OF assms(5)]
  have same: "all_slices st' = all_slices st" using d by (simp add: all_slices_def entries_def)
  show ?thesis
  proof (cases "r = ENOMEM")
    case False
    then obtain zs where z: "r = 0" "cnt = int (length (all_slices st))" "mset zs = mset (all_slices st)" "books_more E (ix_mgr st) zs (ix_mgr st')"
      using d by auto
    have "mset ys = {#s \<in># mset (all_slices st). trunk_key s = k#}" if b: "booked E (ix_mgr st') k = Some ys" for k ys
    proof -
      have "booked E (ix_mgr st') k = map_option (\<lambda>xs. xs @ filter (\<lambda>s. trunk_key s = k) zs) (booked E (ix_mgr st) k)"
        using z(4) unfolding books_more_def by blast
      then obtain xs where x: "booked E (ix_mgr st) k = Some xs" "ys = xs @ filter (\<lambda>s. trunk_key s = k) zs" using b by (cases "booked E (ix_mgr st) k") auto
      have "xs = []" using x(1) assms(4) by (auto simp: booked_def split: option.splits)
      then show ?thesis using x(2) z(3) by (metis append_Nil mset_filter)
    qed
    moreover have "\<forall>s\<in>set (all_slices st). booked E (ix_mgr st') (trunk_key s) \<noteq> None"
      using assms(5) fastcommon.books_more_known [OF assms(1) z(4)] by simp
    ultimately have "books_balanced E (ix_mgr st') (\<lambda>_. {#}) (all_slices st)" using z(4) by (simp add: books_balanced_def books_more_def)
    then show ?thesis using z d same by (auto simp: books_more_def starts_ok_def)
  qed (use d in simp)
qed

text \<open>The example index before its two slices are booked.\<close>

definition ex_unbooked :: ob_index where
  "ex_unbooked = ex_ix\<lparr>ix_mgr := upd_trunk 1 (\<lambda>t. t\<lparr>tf_slices := [], tf_used_count := 0, tf_used_bytes := 0\<rparr>) (ix_mgr ex_ix)\<rparr>"

theorem load_books_all_slices_witness:
  "\<exists>st'. slice_dump_slices_to_trunk list_env 2 4 ex_unbooked = (0, 2, st') \<and> books_balanced list_env (ix_mgr st') (\<lambda>_. {#}) (all_slices st')"
proof -
  have run: "fst (slice_dump_slices_to_trunk list_env 2 4 ex_unbooked) = 0" by code_simp
  obtain r cnt st' where d: "slice_dump_slices_to_trunk list_env 2 4 ex_unbooked = (r, cnt, st')" by (metis prod_cases3)
  have same: "all_slices ex_unbooked = all_slices ex_ix" "table_ok list_env ex_unbooked" "length (all_slices ex_ix) = 2"
    using ex_table_ok by (simp_all add: ex_unbooked_def all_slices_def entries_def table_ok_def) (simp add: ex_ix_def ex_ob_def ex_chain_def)
  have mgr: "mgr_ok list_env (ix_mgr ex_unbooked)"
    unfolding ex_unbooked_def using ex_mgr_ok by (auto intro!: mgr_ok_upd_trunk simp: trunk_books_ok_def ex_ix_def)
  have none: "\<forall>p t. am_trunks (ix_mgr ex_unbooked) p = Some t \<longrightarrow> tf_slices t = []"
    by (auto simp: ex_unbooked_def ex_ix_def ex_mgr_def split: if_splits)
  have known: "\<forall>s\<in>set (all_slices ex_unbooked). booked list_env (ix_mgr ex_unbooked) (trunk_key s) \<noteq> None" by code_simp
  from load_books_all_slices [OF list_fc.fastcommon_axioms same(2) mgr none known _ _ d] run d same show ?thesis by auto
qed

end
