(* ===== verification/Write_Thread.thy ===== *)
theory Write_Thread
  imports Slice_Op_Properties
begin

text \<open>
  The write threads (\<open>src/server/dio/trunk_write_thread.c\<close>). A thread takes the requests from its queue, orders them by version in a skip list, joins
  writes to successive places of a trunk to a batch, writes the batch with \<open>writev\<close> and reports each request.

  The answers of the system come from a list: a negative number is an error number with its sign changed, what \<open>open\<close>, \<open>lseek\<close>, \<open>mkdir\<close>,
  \<open>fallocate\<close> and \<open>unlink\<close> answer otherwise does not matter, and \<open>writev\<close> answers the number of bytes written. \<open>None\<close> says that the answers
  ended, so the thread is still in a call. The offset in the file handle is what the program believes; \<open>tw_pos\<close> is the position of the file descriptor.
\<close>

section \<open>Data\<close>

datatype write_request = CREATE_TRUNK int FSTrunkSpaceInfo | DELETE_TRUNK int FSTrunkSpaceInfo | WRITE_SLICE TrunkWriteIOBuffer

fun req_version :: "write_request \<Rightarrow> int" where
  "req_version (CREATE_TRUNK v sp) = v"
| "req_version (DELETE_TRUNK v sp) = v"
| "req_version (WRITE_SLICE iob) = io_version iob"

text \<open>The difference is returned as an \<open>int\<close>.\<close>

definition compare_by_version :: "write_request \<Rightarrow> write_request \<Rightarrow> int" where
  "compare_by_version p1 p2 = s32 (req_version p1 - req_version p2)"

record TrunkWriteThreadContext =
  tw_queue :: "write_request list"
  tw_skiplist :: "write_request list"
  tw_iobs :: "TrunkWriteIOBuffer list"
  tw_iovecs :: "string list"
  tw_iovec_bytes :: int
  tw_trunk_id :: int
  tw_offset :: int
  tw_file :: "(nat \<times> FSTrunkIdInfo) option"
  tw_pos :: int
  tw_disk :: disk
  tw_sys :: "int list"
  tw_notified :: "(write_request \<times> int) list"
  tw_continue :: bool

abbreviation (input) IOV_MAX :: nat where "IOV_MAX \<equiv> 1024"
abbreviation (input) IO_THREAD_IOB_MAX :: nat where "IO_THREAD_IOB_MAX \<equiv> 256"
abbreviation (input) IO_THREAD_BYTES_MAX :: int where "IO_THREAD_BYTES_MAX \<equiv> 64 * 1024 * 1024"

text \<open>The next answer of the system.\<close>

definition sys_call :: "TrunkWriteThreadContext \<Rightarrow> (int \<Rightarrow> TrunkWriteThreadContext \<Rightarrow> 'a option) \<Rightarrow> 'a option" where
  "sys_call t k = (case tw_sys t of [] \<Rightarrow> None | n # ns \<Rightarrow> k n (t\<lparr>tw_sys := ns\<rparr>))"

section \<open>Files\<close>

definition put_bytes :: "nat \<times> FSTrunkIdInfo \<Rightarrow> int \<Rightarrow> string \<Rightarrow> disk \<Rightarrow> disk" where
  "put_bytes f pos bytes d = (\<lambda>(st, tid, x).
     if (st, tid) = f \<and> pos \<le> x \<and> x < pos + int (length bytes) then bytes ! nat (x - pos) else d (st, tid, x))"

text \<open>A write on a closed descriptor does nothing here; the theorems show that it does not occur.\<close>

definition fd_write :: "string \<Rightarrow> TrunkWriteThreadContext \<Rightarrow> TrunkWriteThreadContext" where
  "fd_write bytes t =
     (case tw_file t of
        None \<Rightarrow> t
      | Some f \<Rightarrow> t\<lparr>tw_disk := put_bytes f (tw_pos t) bytes (tw_disk t), tw_pos := tw_pos t + int (length bytes)\<rparr>)"

definition clear_write_fd :: "TrunkWriteThreadContext \<Rightarrow> TrunkWriteThreadContext" where
  "clear_write_fd t = (if tw_file t = None then t else t\<lparr>tw_file := None, tw_trunk_id := 0\<rparr>)"

definition get_write_fd :: "FSTrunkSpaceInfo \<Rightarrow> TrunkWriteThreadContext \<Rightarrow> (int \<times> TrunkWriteThreadContext) option" where
  "get_write_fd sp t =
     (if ti_id (ts_id_info sp) = tw_trunk_id t then Some (0, t)
      else sys_call t (\<lambda>n t1.
             if n < 0 then Some (- n, t1)
             else Some (0, t1\<lparr>tw_trunk_id := ti_id (ts_id_info sp), tw_file := Some (ts_store sp, ts_id_info sp), tw_offset := 0, tw_pos := 0\<rparr>)))"

text \<open>The last answer of these is the result of \<open>trunk_binlog_write\<close>. A file that exists keeps its bytes.\<close>

definition do_create_trunk :: "TrunkWriteThreadContext \<Rightarrow> (int \<times> TrunkWriteThreadContext) option" where
  "do_create_trunk t =
     (let fallocate = (\<lambda>n t. if n < 0 then Some (- n, t)
                 else sys_call t (\<lambda>n t. if n < 0 then Some (- n, t) else sys_call t (\<lambda>r t. Some (r, t))))
      in sys_call t (\<lambda>n t.
           if n = - ENOENT
           then sys_call t (\<lambda>n t. if n < 0 then Some (- n, t) else sys_call t fallocate)
           else fallocate n t))"

text \<open>A file that is gone reads as if empty; a file created again has zeros. The descriptor that may still be open on it is not followed further.\<close>

definition drop_file :: "nat \<times> FSTrunkIdInfo \<Rightarrow> disk \<Rightarrow> disk" where
  "drop_file f d = (\<lambda>(st, tid, x). if (st, tid) = f then CHR 0x00 else d (st, tid, x))"

definition do_delete_trunk :: "FSTrunkSpaceInfo \<Rightarrow> TrunkWriteThreadContext \<Rightarrow> (int \<times> TrunkWriteThreadContext) option" where
  "do_delete_trunk sp t =
     sys_call t (\<lambda>n t. if n < 0 then Some (- n, t)
                  else sys_call (t\<lparr>tw_disk := drop_file (ts_store sp, ts_id_info sp) (tw_disk t)\<rparr>) (\<lambda>r t. Some (r, t)))"

section \<open>Writing a batch\<close>

text \<open>Moving on in the buffers by the bytes written; \<open>iov_sum\<close> is the length of the buffers passed.\<close>

fun iov_advance :: "string list \<Rightarrow> int \<Rightarrow> int \<Rightarrow> string list" where
  "iov_advance [] iov_sum write_bytes = []"
| "iov_advance (v # vs) iov_sum write_bytes =
     (let iov_sum1 = iov_sum + int (length v); iov_remain = iov_sum1 - write_bytes
      in if iov_remain = 0 then vs
         else if iov_remain > 0 then drop (length v - nat iov_remain) v # vs
         else iov_advance vs iov_sum1 write_bytes)"

text \<open>\<open>sys\<close> are the answers of \<open>writev\<close>, which never writes more than it is given.\<close>

fun write_iovec :: "int list \<Rightarrow> string list \<Rightarrow> int \<Rightarrow> TrunkWriteThreadContext \<Rightarrow> (int \<times> int \<times> TrunkWriteThreadContext) option" where
  "write_iovec sys iovs remain_bytes t =
     (if iovs = [] then Some (0, remain_bytes, t\<lparr>tw_sys := sys\<rparr>)
      else
        (case sys of
           [] \<Rightarrow> None
         | n # ns \<Rightarrow>
             if n = - EINTR then write_iovec ns iovs remain_bytes t
             else if n < 0 then Some (- n, remain_bytes, t\<lparr>tw_sys := ns\<rparr>)
             else
               (let bytes = take (nat n) (concat iovs); write_bytes = int (length bytes); t1 = fd_write bytes t
                in if remain_bytes - write_bytes = 0 then Some (0, 0, t1\<lparr>tw_sys := ns\<rparr>)
                   else write_iovec ns (iov_advance iovs 0 write_bytes) (remain_bytes - write_bytes) t1)))"

declare write_iovec.simps [simp del]

text \<open>Pieces of at most \<open>IOV_MAX\<close> buffers.\<close>

function write_chunks :: "string list \<Rightarrow> int \<Rightarrow> TrunkWriteThreadContext \<Rightarrow> (int \<times> int \<times> TrunkWriteThreadContext) option" where
  "write_chunks iovs remain_bytes t =
     (if iovs = [] then Some (0, remain_bytes, t)
      else
        (case write_iovec (tw_sys t) (take IOV_MAX iovs) remain_bytes t of
           None \<Rightarrow> None
         | Some (r, rb, t1) \<Rightarrow> if r \<noteq> 0 then Some (r, rb, t1) else write_chunks (drop IOV_MAX iovs) rb t1))"
  by pat_completeness auto
termination
  by (relation "measure (\<lambda>(iovs, _, _). length iovs)") auto

declare write_chunks.simps [simp del]

text \<open>The result and whether the requests of the batch succeeded.\<close>

definition do_write_slices :: "TrunkWriteThreadContext \<Rightarrow> (int \<times> TrunkWriteThreadContext) option" where
  "do_write_slices t =
     (let sp = sl_space (io_slice (hd (tw_iobs t)))
      in case get_write_fd sp t of
           None \<Rightarrow> None
         | Some (r, t1) \<Rightarrow>
             if r \<noteq> 0 then Some (r, t1)
             else
               (case (if tw_offset t1 \<noteq> ts_offset sp
                      then sys_call t1 (\<lambda>n t. if n < 0 then Some (- n, clear_write_fd t) else Some (0, t\<lparr>tw_pos := ts_offset sp\<rparr>))
                      else Some (0, t1)) of
                  None \<Rightarrow> None
                | Some (r, t2) \<Rightarrow>
                    if r \<noteq> 0 then Some (r, t2)
                    else
                      (case write_chunks (tw_iovecs t2) (tw_iovec_bytes t2) t2 of
                         None \<Rightarrow> None
                       | Some (r, rb, t3) \<Rightarrow>
                           if r \<noteq> 0 then Some (r, (clear_write_fd t3)\<lparr>tw_offset := - 1\<rparr>)
                           else Some (0, t3\<lparr>tw_offset := ts_offset sp + tw_iovec_bytes t3\<rparr>))))"

definition batch_write :: "TrunkWriteThreadContext \<Rightarrow> TrunkWriteThreadContext option" where
  "batch_write t =
     map_option (\<lambda>(r, t1). t1\<lparr>tw_notified := tw_notified t1 @ map (\<lambda>iob. (WRITE_SLICE iob, r)) (tw_iobs t1),
                             tw_iovec_bytes := 0, tw_iovecs := [], tw_iobs := []\<rparr>)
       (do_write_slices t)"

section \<open>The requests\<close>

definition pop_to_request_skiplist :: "write_request uniq_skiplist \<Rightarrow> TrunkWriteThreadContext \<Rightarrow> int \<times> TrunkWriteThreadContext" where
  "pop_to_request_skiplist S t =
     fold (\<lambda>head (cnt, t). if cnt < 0 then (cnt, t)
             else (case skl_insert S (tw_skiplist t) head of (r, xs) \<Rightarrow>
                     if r \<noteq> 0 then (- 1, t\<lparr>tw_continue := False\<rparr>) else (cnt + 1, t\<lparr>tw_skiplist := xs\<rparr>)))
       (tw_queue t) (0, t\<lparr>tw_queue := []\<rparr>)"

definition IOB_IS_SUCCESSIVE :: "TrunkWriteIOBuffer \<Rightarrow> TrunkWriteIOBuffer \<Rightarrow> bool" where
  "IOB_IS_SUCCESSIVE last_iob current \<longleftrightarrow>
     ti_id (ts_id_info (sl_space (io_slice current))) = ti_id (ts_id_info (sl_space (io_slice last_iob))) \<and>
     ts_offset (sl_space (io_slice last_iob)) + ts_size (sl_space (io_slice last_iob)) = ts_offset (sl_space (io_slice current))"

text \<open>
  The buffers of a request: as many bytes are written as the slice has space, which is aligned. Bytes behind the data are what lies behind it
  in memory: \<open>behind iob\<close>.
\<close>

definition new_iovecs :: "(TrunkWriteIOBuffer \<Rightarrow> string) \<Rightarrow> TrunkWriteIOBuffer \<Rightarrow> string list" where
  "new_iovecs behind iob =
     (let sz = nat (ts_size (sl_space (io_slice iob)))
      in case io_data iob of
           IO_BUFF b \<Rightarrow> [take sz (b @ behind iob)]
         | IO_IOVEC vs \<Rightarrow>
             if length vs = 1 then [take sz (hd vs @ behind iob)]
             else if sz > length (concat vs) then butlast vs @ [last vs @ take (sz - length (concat vs)) (behind iob)]
             else vs)"

definition batch_full :: "TrunkWriteIOBuffer \<Rightarrow> TrunkWriteThreadContext \<Rightarrow> bool" where
  "batch_full iob t \<longleftrightarrow> tw_iobs t \<noteq> [] \<and>
     \<not> (IOB_IS_SUCCESSIVE (last (tw_iobs t)) iob \<and> length (tw_iobs t) < min IOV_MAX IO_THREAD_IOB_MAX \<and>
        length (tw_iovecs t) < IOV_MAX \<and> tw_iovec_bytes t < IO_THREAD_BYTES_MAX)"

text \<open>
  One turn of the loop of \<open>deal_request_skiplist\<close>, for the first request of the skip list; the results are whether
  the loop goes on, whether a batch or a trunk operation was done (\<open>io_count\<close>), and the thread.
\<close>

definition deal_request :: "write_request uniq_skiplist \<Rightarrow> (TrunkWriteIOBuffer \<Rightarrow> string) \<Rightarrow> write_request \<Rightarrow> TrunkWriteThreadContext \<Rightarrow>
    (bool \<times> bool \<times> TrunkWriteThreadContext) option" where
  "deal_request S behind iob t =
     (let remove = (\<lambda>io t. case skl_delete S (tw_skiplist t) iob of
                              None \<Rightarrow> Some (False, io, t\<lparr>tw_continue := False\<rparr>)
                            | Some (_, xs) \<Rightarrow> Some (True, io, t\<lparr>tw_skiplist := xs\<rparr>));
          trunk_op = (\<lambda>f. case (if tw_iovecs t \<noteq> [] then batch_write t else Some t) of
                            None \<Rightarrow> None
                          | Some t1 \<Rightarrow>
                              (case f t1 of None \<Rightarrow> None | Some (r, t2) \<Rightarrow> remove True (t2\<lparr>tw_notified := tw_notified t2 @ [(iob, r)]\<rparr>)))
      in case iob of
           CREATE_TRUNK v sp \<Rightarrow> trunk_op do_create_trunk
         | DELETE_TRUNK v sp \<Rightarrow> trunk_op (do_delete_trunk sp)
         | WRITE_SLICE w \<Rightarrow>
             (case (if batch_full w t then batch_write t else Some t) of
                None \<Rightarrow> None
              | Some t1 \<Rightarrow>
                  sys_call t1 (\<lambda>n t2.
                    if n < 0 then Some (False, batch_full w t, t2)
                    else remove (batch_full w t)
                           (t2\<lparr>tw_iovecs := tw_iovecs t2 @ new_iovecs behind w, tw_iobs := tw_iobs t2 @ [w],
                               tw_iovec_bytes := tw_iovec_bytes t2 + ts_size (sl_space (io_slice w))\<rparr>))))"

fun deal_request_skiplist :: "write_request uniq_skiplist \<Rightarrow> (TrunkWriteIOBuffer \<Rightarrow> string) \<Rightarrow> nat \<Rightarrow> bool \<Rightarrow> TrunkWriteThreadContext \<Rightarrow>
    TrunkWriteThreadContext option" where
  "deal_request_skiplist S behind 0 io t = None"
| "deal_request_skiplist S behind (Suc fuel) io t =
     (case tw_skiplist t of
        [] \<Rightarrow> if tw_iovecs t \<noteq> [] \<and> \<not> io then batch_write t else Some t
      | iob # _ \<Rightarrow>
          (case deal_request S behind iob t of
             None \<Rightarrow> None
           | Some (go_on, io1, t1) \<Rightarrow> if go_on then deal_request_skiplist S behind fuel (io \<or> io1) t1 else Some t1))"

text \<open>
  One turn of the loop of the thread. Every turn first gets what has been pushed to the queue meanwhile; the pop
  waits for a request when no batch is open.
\<close>

definition trunk_write_thread_turn :: "write_request uniq_skiplist \<Rightarrow> (TrunkWriteIOBuffer \<Rightarrow> string) \<Rightarrow> write_request list \<Rightarrow> TrunkWriteThreadContext \<Rightarrow>
    TrunkWriteThreadContext option" where
  "trunk_write_thread_turn S behind pushed t =
     (if \<not> tw_continue t then Some t
      else
        (case pop_to_request_skiplist S (t\<lparr>tw_queue := tw_queue t @ pushed\<rparr>) of (cnt, t1) \<Rightarrow>
           if cnt < 0 then Some t1
           else if cnt = 0 then (if tw_iovecs t1 \<noteq> [] then batch_write t1 else Some t1)
           else deal_request_skiplist S behind (Suc (length (tw_skiplist t1))) False t1))"

text \<open>The thread, for what is pushed to its queue in each turn.\<close>

fun trunk_write_thread_func :: "write_request uniq_skiplist \<Rightarrow> (TrunkWriteIOBuffer \<Rightarrow> string) \<Rightarrow> write_request list list \<Rightarrow> TrunkWriteThreadContext \<Rightarrow>
    TrunkWriteThreadContext option" where
  "trunk_write_thread_func S behind [] t = Some t"
| "trunk_write_thread_func S behind (pushed # turns) t =
     (case trunk_write_thread_turn S behind pushed t of None \<Rightarrow> None | Some t1 \<Rightarrow> trunk_write_thread_func S behind turns t1)"

definition init_thread_context :: "disk \<Rightarrow> int list \<Rightarrow> TrunkWriteThreadContext" where
  "init_thread_context d sys =
     \<lparr>tw_queue = [], tw_skiplist = [], tw_iobs = [], tw_iovecs = [], tw_iovec_bytes = 0, tw_trunk_id = 0, tw_offset = 0, tw_file = None, tw_pos = 0,
      tw_disk = d, tw_sys = sys, tw_notified = [], tw_continue = True\<rparr>"

end
