(* ===== verification/Write_Thread_Facts.thy ===== *)
theory Write_Thread_Facts
  imports Write_Thread
begin

text \<open>
  The batches of a write thread: \<open>writev\<close> in pieces writes the same bytes as one call, the handle knows the position of the file, and a batch writes
  the bytes of each of its slices to the place of the slice.
\<close>

section \<open>The skip list of requests\<close>

text \<open>Versions that the comparison of \<open>int\<close>s orders.\<close>

definition in_window :: "write_request set \<Rightarrow> bool" where
  "in_window A \<longleftrightarrow> (\<forall>a\<in>A. \<forall>b\<in>A. \<bar>req_version a - req_version b\<bar> < 2 ^ 31)"

abbreviation by_version :: "write_request list \<Rightarrow> bool" where
  "by_version xs \<equiv> sorted_wrt (\<lambda>a b. req_version a < req_version b) xs"

locale version_skiplist =
  fixes S :: "write_request uniq_skiplist"
  assumes insert_new: "in_window (insert e (set xs)) \<Longrightarrow> skl_ordered compare_by_version xs \<Longrightarrow> (\<forall>x\<in>set xs. compare_by_version x e \<noteq> 0) \<Longrightarrow>
        \<exists>ys. skl_insert S xs e = (0, ys) \<and> skl_ordered compare_by_version ys \<and> mset ys = add_mset e (mset xs)"
    and delete_hit: "in_window (set xs) \<Longrightarrow> skl_ordered compare_by_version xs \<Longrightarrow> x \<in> set xs \<Longrightarrow> skl_delete S xs x = Some (x, remove1 x xs)"

lemma s32_small: "- (2 ^ 31) \<le> x \<Longrightarrow> x < 2 ^ 31 \<Longrightarrow> s32 x = x"
  by (simp add: s32_def mod_pos_pos_trivial)

lemma compare_in_window:
  assumes "in_window A" "a \<in> A" "b \<in> A"
  shows "compare_by_version a b = req_version a - req_version b"
proof -
  have "\<bar>req_version a - req_version b\<bar> < 2 ^ 31" using assms by (simp add: in_window_def)
  then show ?thesis unfolding compare_by_version_def by (intro s32_small) auto
qed

lemma ordered_in_window: "in_window (set xs) \<Longrightarrow> skl_ordered compare_by_version xs \<longleftrightarrow> by_version xs"
proof -
  assume w: "in_window (set xs)"
  have "compare_by_version a b < 0 \<longleftrightarrow> req_version a < req_version b" if "a \<in> set xs" "b \<in> set xs" for a b
    using compare_in_window [OF w that] by simp
  then show ?thesis unfolding skl_ordered_def using sorted_wrt_mono_rel by (metis (no_types, lifting))
qed

interpretation list_versions: version_skiplist "list_skiplist req_version"
proof
  fix e :: write_request and xs
  assume w: "in_window (insert e (set xs))" and o: "skl_ordered compare_by_version xs" and n: "\<forall>x\<in>set xs. compare_by_version x e \<noteq> 0"
  have w': "in_window (set xs)" using w by (auto simp: in_window_def)
  have o': "by_version xs" using o ordered_in_window [OF w'] by simp
  have n': "\<forall>x\<in>set xs. req_version x \<noteq> req_version e" using n compare_in_window [OF w, of _ e] by auto
  let ?ys = "insort_key req_version e xs"
  have "by_version ?ys" by (rule sorted_wrt_insort_key [OF o' n'])
  moreover have "set ?ys = insert e (set xs)" by (simp add: set_insort_key)
  ultimately have "skl_ordered compare_by_version ?ys" using ordered_in_window [of ?ys] w by simp
  then show "\<exists>ys. skl_insert (list_skiplist req_version) xs e = (0, ys) \<and> skl_ordered compare_by_version ys \<and> mset ys = add_mset e (mset xs)"
    using n' by (auto simp: list_skiplist_def)
next
  fix x :: write_request and xs
  assume w: "in_window (set xs)" and o: "skl_ordered compare_by_version xs" and x: "x \<in> set xs"
  then have "find (\<lambda>y. req_version y = req_version x) xs = Some x" by (intro find_key_unique) (simp_all add: ordered_in_window)
  then show "skl_delete (list_skiplist req_version) xs x = Some (x, remove1 x xs)" by (simp add: list_skiplist_def)
qed

section \<open>Writing with \<open>writev\<close>\<close>

lemma put_bytes_nil [simp]: "put_bytes f pos [] d = d"
  by (auto simp: put_bytes_def fun_eq_iff)

lemma put_bytes_append: "put_bytes f (pos + int (length a)) b (put_bytes f pos a d) = put_bytes f pos (a @ b) d"
proof
  fix p :: "nat \<times> FSTrunkIdInfo \<times> int"
  obtain st tid x where p: "p = (st, tid, x)" by (cases p)
  show "put_bytes f (pos + int (length a)) b (put_bytes f pos a d) p = put_bytes f pos (a @ b) d p"
    by (auto simp: p put_bytes_def nth_append nat_less_iff) (metis add_diff_cancel_left' diff_diff_add nat_int nat_diff_distrib' of_nat_0_le_iff order_le_less_trans linorder_not_le)+
qed

lemma iov_advance_concat:
  assumes "s \<le> n" "n \<le> s + int (length (concat vs))"
  shows "concat (iov_advance vs s n) = drop (nat (n - s)) (concat vs)"
  using assms
proof (induction vs arbitrary: s)
  case (Cons v vs)
  let ?s = "s + int (length v)"
  consider "?s = n" | (less) "n < ?s" | (more) "?s < n" by linarith
  then show ?case
  proof cases
    case less
    then have "length v - nat (?s - n) = nat (n - s)" "nat (n - s) < length v" using Cons.prems by linarith+
    then show ?thesis using less by (simp add: Let_def)
  next
    case more
    then have "nat (n - s) = length v + nat (n - ?s)" using Cons.prems by linarith
    then show ?thesis using more Cons.IH [of ?s] Cons.prems by (simp add: Let_def)
  qed (simp add: Let_def nat_eq_iff2)
qed simp

text \<open>What a piece of the batch does: it writes a part of the bytes, all of them when it succeeds.\<close>

definition wrote :: "nat \<times> FSTrunkIdInfo \<Rightarrow> string \<Rightarrow> int \<Rightarrow> TrunkWriteThreadContext \<Rightarrow> TrunkWriteThreadContext \<Rightarrow> bool" where
  "wrote f bytes r t t' \<longleftrightarrow> (\<exists>k sys. k \<le> length bytes \<and> (r = 0 \<longrightarrow> k = length bytes) \<and>
     t' = t\<lparr>tw_disk := put_bytes f (tw_pos t) (take k bytes) (tw_disk t), tw_pos := tw_pos t + int k, tw_sys := sys\<rparr>)"

lemma wroteI:
  "k \<le> length bytes \<Longrightarrow> (r = 0 \<Longrightarrow> k = length bytes) \<Longrightarrow>
   t' = t\<lparr>tw_disk := put_bytes f (tw_pos t) (take k bytes) (tw_disk t), tw_pos := tw_pos t + int k, tw_sys := sys\<rparr> \<Longrightarrow> wrote f bytes r t t'"
  unfolding wrote_def by blast

lemma wrote_append:
  assumes "wrote f a 0 t t1" "wrote f b r t1 t2"
  shows "wrote f (a @ b) r t t2"
proof -
  obtain sys1 where 1: "t1 = t\<lparr>tw_disk := put_bytes f (tw_pos t) a (tw_disk t), tw_pos := tw_pos t + int (length a), tw_sys := sys1\<rparr>"
    using assms(1) by (auto simp: wrote_def)
  obtain k sys2 where 2: "k \<le> length b" "r = 0 \<longrightarrow> k = length b"
      "t2 = t1\<lparr>tw_disk := put_bytes f (tw_pos t1) (take k b) (tw_disk t1), tw_pos := tw_pos t1 + int k, tw_sys := sys2\<rparr>"
    using assms(2) by (auto simp: wrote_def)
  show ?thesis by (rule wroteI [where k = "length a + k" and sys = sys2]) (use 1 2 in \<open>auto simp: put_bytes_append add.assoc\<close>)
qed

lemma write_iovec_wrote:
  assumes "write_iovec sys iovs rb t = Some (r, rb', t')" "tw_file t = Some f" "int (length (concat iovs)) \<le> rb"
  shows "wrote f (concat iovs) r t t' \<and> (r = 0 \<longrightarrow> rb' = rb - int (length (concat iovs)))"
  using assms
proof (induction sys arbitrary: iovs rb t)
  case Nil
  then show ?case
    by (cases "iovs = []") (auto simp: write_iovec.simps [of "[]"] intro!: wroteI [where k = 0 and sys = "[]"])
next
  case (Cons n ns)
  consider (empty) "iovs = []" | (again) "iovs \<noteq> []" "n = - EINTR" | (fail) "iovs \<noteq> []" "n < 0" "n \<noteq> - EINTR" | (part) "iovs \<noteq> []" "\<not> n < 0" by linarith
  then show ?case
  proof cases
    case empty
    then show ?thesis using Cons.prems(1) by (auto simp: write_iovec.simps [of "n # ns"] intro!: wroteI [where k = 0 and sys = "n # ns"])
  next
    case again
    then show ?thesis using Cons.IH [of iovs rb t] Cons.prems by (simp add: write_iovec.simps [of "_ # _"])
  next
    case fail
    then show ?thesis using Cons.prems(1) by (auto simp: write_iovec.simps [of "n # ns"] intro!: wroteI [where k = 0 and sys = ns])
  next
    case part
    let ?bytes = "take (nat n) (concat iovs)"
    let ?n = "int (length ?bytes)" and ?t1 = "fd_write ?bytes t"
    have n: "n \<noteq> - EINTR" "\<not> n < 0" "iovs \<noteq> []" using part by auto
    have t1: "?t1 = t\<lparr>tw_disk := put_bytes f (tw_pos t) ?bytes (tw_disk t), tw_pos := tw_pos t + ?n\<rparr>"
      using Cons.prems(2) by (simp add: fd_write_def)
    have all: "take (length ?bytes) ?bytes = ?bytes" by (rule take_all) (rule order_refl)
    have w1: "wrote f ?bytes 0 t (?t1\<lparr>tw_sys := s\<rparr>)" for s
      by (intro wroteI [where k = "length ?bytes" and sys = s] order_refl refl) (simp only: t1 all TrunkWriteThreadContext.simps)
    show ?thesis
    proof (cases "rb - ?n = 0")
      case True
      then have "?bytes = concat iovs" using Cons.prems(3) by simp
      moreover have "r = 0" "rb' = 0" "t' = ?t1\<lparr>tw_sys := ns\<rparr>"
        using Cons.prems(1) n True by (auto simp: write_iovec.simps [of "n # ns"] Let_def split: if_splits)
      ultimately show ?thesis using w1 [of ns] True by simp
    next
      case rb: False
      let ?vs = "iov_advance iovs 0 ?n"
      have vs: "concat ?vs = drop (length ?bytes) (concat iovs)" using iov_advance_concat [of 0 ?n iovs] by simp
      have run: "write_iovec ns ?vs (rb - ?n) ?t1 = Some (r, rb', t')"
        using Cons.prems(1) n rb by (auto simp: write_iovec.simps [of "n # ns"] Let_def split: if_splits)
      have "tw_file ?t1 = Some f" using t1 Cons.prems(2) by simp
      from Cons.IH [OF run this] vs Cons.prems(3) have ih: "wrote f (concat ?vs) r ?t1 t'" "r = 0 \<longrightarrow> rb' = rb - ?n - int (length (concat ?vs))"
        by simp_all
      have eq: "?t1\<lparr>tw_sys := tw_sys ?t1\<rparr> = ?t1" by simp
      have "?bytes @ concat ?vs = concat iovs" unfolding vs by (simp add: append_take_drop_id min_def)
      with wrote_append [OF w1 [of "tw_sys ?t1", unfolded eq] ih(1)] ih(2) vs show ?thesis by (auto simp: min_def)
    qed
  qed
qed

lemma write_chunks_wrote:
  assumes "write_chunks iovs rb t = Some (r, rb', t')" "tw_file t = Some f" "int (length (concat iovs)) \<le> rb"
  shows "wrote f (concat iovs) r t t'"
  using assms
proof (induction iovs rb t rule: write_chunks.induct)
  case (1 iovs rb t)
  show ?case
  proof (cases "iovs = []")
    case True
    then show ?thesis using "1.prems"(1) by (auto simp: write_chunks.simps [of "[]"] intro!: wroteI [where k = 0 and sys = "tw_sys t"])
  next
    case False
    let ?a = "take IOV_MAX iovs" and ?b = "drop IOV_MAX iovs"
    obtain r1 rb1 t1 where w: "write_iovec (tw_sys t) ?a rb t = Some (r1, rb1, t1)"
      using "1.prems"(1) False by (auto simp: write_chunks.simps [of iovs] split: option.splits)
    have cc: "concat iovs = concat ?a @ concat ?b" by (metis append_take_drop_id concat_append)
    then have "int (length (concat ?a)) \<le> rb" using "1.prems"(3) by simp
    note w1 = write_iovec_wrote [OF w "1.prems"(2) this]
    show ?thesis
    proof (cases "r1 = 0")
      case True
      then have run: "write_chunks ?b rb1 t1 = Some (r, rb', t')" using "1.prems"(1) False w by (simp add: write_chunks.simps [of iovs])
      have "tw_file t1 = Some f" using w1 "1.prems"(2) by (auto simp: wrote_def)
      moreover have "int (length (concat ?b)) \<le> rb1" using w1 True "1.prems"(3) cc by simp
      ultimately have "wrote f (concat ?b) r t1 t'" using "1.IH" [OF False w refl refl _ run] True by simp
      then show ?thesis using wrote_append [of f "concat ?a" t t1] w1 True cc by simp
    next
      case r1: False
      then have "r = r1" "t' = t1" using "1.prems"(1) False w by (simp_all add: write_chunks.simps [of iovs])
      moreover obtain k sys where "k \<le> length (concat ?a)" "t1 = t\<lparr>tw_disk := put_bytes f (tw_pos t) (take k (concat ?a)) (tw_disk t), tw_pos := tw_pos t + int k, tw_sys := sys\<rparr>"
        using w1 unfolding wrote_def by blast
      ultimately show ?thesis using r1 cc by (intro wroteI [where k = k and sys = sys]) auto
    qed
  qed
qed

section \<open>A batch\<close>

text \<open>
  What a thread may be given: slices of its store path whose data fit into their space, with the bytes that lie behind the data in
  memory; \<open>info\<close> tells the subdirectory of a trunk.
\<close>

definition raw_bytes :: "TrunkWriteIOBuffer \<Rightarrow> string" where
  "raw_bytes iob = (case io_data iob of IO_BUFF b \<Rightarrow> b | IO_IOVEC vs \<Rightarrow> concat vs)"

abbreviation req_space :: "TrunkWriteIOBuffer \<Rightarrow> FSTrunkSpaceInfo" where
  "req_space iob \<equiv> sl_space (io_slice iob)"

definition req_ok :: "(TrunkWriteIOBuffer \<Rightarrow> string) \<Rightarrow> nat \<Rightarrow> (int \<Rightarrow> FSTrunkIdInfo) \<Rightarrow> TrunkWriteIOBuffer \<Rightarrow> bool" where
  "req_ok behind path info iob \<longleftrightarrow> ts_store (req_space iob) = path \<and> ts_id_info (req_space iob) = info (ti_id (ts_id_info (req_space iob))) \<and>
     0 < ti_id (ts_id_info (req_space iob)) \<and> 0 < ts_size (req_space iob) \<and> io_data iob \<noteq> IO_IOVEC [] \<and>
     (case io_data iob of IO_BUFF b \<Rightarrow> True | IO_IOVEC vs \<Rightarrow> int (length (concat vs)) \<le> ts_size (req_space iob)) \<and>
     ts_size (req_space iob) \<le> int (length (raw_bytes iob @ behind iob))"

definition req_bytes :: "(TrunkWriteIOBuffer \<Rightarrow> string) \<Rightarrow> TrunkWriteIOBuffer \<Rightarrow> string" where
  "req_bytes behind iob = take (nat (ts_size (req_space iob))) (raw_bytes iob @ behind iob)"

lemma req_bytes_length: "req_ok behind path info iob \<Longrightarrow> int (length (req_bytes behind iob)) = ts_size (req_space iob)"
  by (auto simp: req_ok_def req_bytes_def)

lemma new_iovecs_concat:
  assumes "req_ok behind path info iob"
  shows "concat (new_iovecs behind iob) = req_bytes behind iob" "new_iovecs behind iob \<noteq> []"
proof -
  have "concat (new_iovecs behind iob) = req_bytes behind iob \<and> new_iovecs behind iob \<noteq> []"
  proof (cases "io_data iob")
    case (IO_BUFF b)
    then show ?thesis by (simp add: new_iovecs_def req_bytes_def raw_bytes_def Let_def)
  next
    case (IO_IOVEC vs)
    then have vs: "vs \<noteq> []" "int (length (concat vs)) \<le> ts_size (req_space iob)" using assms by (auto simp: req_ok_def)
    have split: "concat (butlast vs) @ last vs = concat vs" using vs(1) by (metis append_butlast_last_id concat.simps concat_append append_Nil2)
    have one: "length vs = 1 \<Longrightarrow> concat vs = hd vs" by (cases vs) auto
    have "length (concat vs) \<le> nat (ts_size (req_space iob))" using vs(2) by simp
    then show ?thesis
      using IO_IOVEC vs(1) split one
      by (auto simp: new_iovecs_def req_bytes_def raw_bytes_def Let_def simp flip: append_assoc)
  qed
  then show "concat (new_iovecs behind iob) = req_bytes behind iob" "new_iovecs behind iob \<noteq> []" by simp_all
qed

text \<open>The open batch: successive slices with their bytes.\<close>

definition batch_ok :: "(TrunkWriteIOBuffer \<Rightarrow> string) \<Rightarrow> nat \<Rightarrow> (int \<Rightarrow> FSTrunkIdInfo) \<Rightarrow> TrunkWriteThreadContext \<Rightarrow> bool" where
  "batch_ok behind path info t \<longleftrightarrow> (\<forall>w\<in>set (tw_iobs t). req_ok behind path info w) \<and> successively IOB_IS_SUCCESSIVE (tw_iobs t) \<and>
     concat (tw_iovecs t) = concat (map (req_bytes behind) (tw_iobs t)) \<and> (tw_iovecs t = [] \<longleftrightarrow> tw_iobs t = []) \<and>
     tw_iovec_bytes t = int (length (concat (tw_iovecs t)))"

text \<open>The handle of the file tells the trunk and the position of the descriptor.\<close>

definition handle_ok :: "nat \<Rightarrow> (int \<Rightarrow> FSTrunkIdInfo) \<Rightarrow> TrunkWriteThreadContext \<Rightarrow> bool" where
  "handle_ok path info t \<longleftrightarrow>
     (case tw_file t of
        None \<Rightarrow> tw_trunk_id t = 0
      | Some (st, tid) \<Rightarrow> st = path \<and> tid = info (tw_trunk_id t) \<and> tw_offset t = tw_pos t)"

definition write_req :: "(TrunkWriteIOBuffer \<Rightarrow> string) \<Rightarrow> TrunkWriteIOBuffer \<Rightarrow> disk \<Rightarrow> disk" where
  "write_req behind w d = disk_write (io_slice w) (req_bytes behind w) d"

lemma write_req_put:
  "req_ok behind path info w \<Longrightarrow> write_req behind w d = put_bytes (path, ts_id_info (req_space w)) (ts_offset (req_space w)) (req_bytes behind w) d"
  by (auto simp: write_req_def disk_write_def put_bytes_def req_ok_def fun_eq_iff)

lemma batch_on_disk:
  assumes "\<forall>w\<in>set ws. req_ok behind path info w" "successively IOB_IS_SUCCESSIVE ws" "ws \<noteq> []"
  shows "put_bytes (path, ts_id_info (req_space (hd ws))) (ts_offset (req_space (hd ws))) (concat (map (req_bytes behind) ws)) d = fold (write_req behind) ws d"
  using assms
proof (induction ws arbitrary: d)
  case (Cons w ws)
  have w: "req_ok behind path info w" using Cons.prems by simp
  show ?case
  proof (cases ws)
    case Nil
    then show ?thesis using write_req_put [OF w] by simp
  next
    case (Cons w' ws')
    have "IOB_IS_SUCCESSIVE w w'" "req_ok behind path info w'" "successively IOB_IS_SUCCESSIVE ws" "ws \<noteq> []" "hd ws = w'"
      using Cons.prems Cons by (auto simp: successively_Cons)
    then have nx: "ts_id_info (req_space w') = ts_id_info (req_space w)" "ts_offset (req_space w') = ts_offset (req_space w) + int (length (req_bytes behind w))"
      using w req_bytes_length [OF w] by (auto simp: IOB_IS_SUCCESSIVE_def req_ok_def)
    have ih: "put_bytes (path, ts_id_info (req_space (hd ws))) (ts_offset (req_space (hd ws))) (concat (map (req_bytes behind) ws)) (write_req behind w d) =
        fold (write_req behind) ws (write_req behind w d)"
      using Cons.IH Cons.prems \<open>ws \<noteq> []\<close> \<open>successively IOB_IS_SUCCESSIVE ws\<close> by simp
    then show ?thesis
      using nx \<open>hd ws = w'\<close> write_req_put [OF w, of d] put_bytes_append [of "(path, ts_id_info (req_space w))" "ts_offset (req_space w)" "req_bytes behind w"]
      by simp
  qed
qed simp

text \<open>What a batch leaves: the part of its bytes that was written, all of them when it succeeds.\<close>

definition batch_wrote :: "(TrunkWriteIOBuffer \<Rightarrow> string) \<Rightarrow> nat \<Rightarrow> TrunkWriteIOBuffer list \<Rightarrow> int \<Rightarrow> disk \<Rightarrow> disk \<Rightarrow> bool" where
  "batch_wrote behind path ws r d d' \<longleftrightarrow> (\<exists>k. (r = 0 \<longrightarrow> k = length (concat (map (req_bytes behind) ws))) \<and>
     d' = put_bytes (path, ts_id_info (req_space (hd ws))) (ts_offset (req_space (hd ws))) (take k (concat (map (req_bytes behind) ws))) d)"

end
