(* ===== verification/Write_Thread_Inv.thy ===== *)
theory Write_Thread_Inv
  imports Write_Thread_Facts
begin

text \<open>
  The run of a write thread: a batch changes only the places of its slices and leaves their bytes there when it succeeds; every turn of the thread keeps
  the invariant that ties the requests, the handle of the file, the open batch and the disk; a batch ends when \<open>writev\<close> goes on writing.
\<close>

section \<open>One batch\<close>

text \<open>The parts of a thread that writing a batch does not touch.\<close>

definition same_work :: "TrunkWriteThreadContext \<Rightarrow> TrunkWriteThreadContext \<Rightarrow> bool" where
  "same_work t t' \<longleftrightarrow> tw_queue t' = tw_queue t \<and> tw_skiplist t' = tw_skiplist t \<and> tw_iobs t' = tw_iobs t \<and> tw_iovecs t' = tw_iovecs t \<and>
     tw_iovec_bytes t' = tw_iovec_bytes t \<and> tw_notified t' = tw_notified t \<and> tw_continue t' = tw_continue t"

lemma same_work_refl [simp]: "same_work t t"
  by (simp add: same_work_def)

lemma same_work_trans [trans]: "same_work a b \<Longrightarrow> same_work b c \<Longrightarrow> same_work a c"
  by (simp add: same_work_def)

lemma wrote_same_work: "wrote f bytes r t t' \<Longrightarrow> same_work t t' \<and> tw_file t' = tw_file t \<and> tw_trunk_id t' = tw_trunk_id t"
  by (auto simp: wrote_def same_work_def)

lemma handle_ok_update [simp]:
  "handle_ok path info (t\<lparr>tw_notified := a\<rparr>) = handle_ok path info t" "handle_ok path info (t\<lparr>tw_skiplist := b\<rparr>) = handle_ok path info t"
  "handle_ok path info (t\<lparr>tw_iovecs := c\<rparr>) = handle_ok path info t" "handle_ok path info (t\<lparr>tw_iobs := e\<rparr>) = handle_ok path info t"
  "handle_ok path info (t\<lparr>tw_iovec_bytes := g\<rparr>) = handle_ok path info t" "handle_ok path info (t\<lparr>tw_queue := b\<rparr>) = handle_ok path info t"
  "handle_ok path info (t\<lparr>tw_sys := sys\<rparr>) = handle_ok path info t" "handle_ok path info (t\<lparr>tw_disk := d\<rparr>) = handle_ok path info t"
  by (simp_all add: handle_ok_def split: option.splits)

lemma clear_write_fd_ok:
  "handle_ok path info t \<Longrightarrow> handle_ok path info (clear_write_fd t)" "same_work t (clear_write_fd t)" "tw_disk (clear_write_fd t) = tw_disk t"
  "tw_file (clear_write_fd t) = None"
  by (auto simp: handle_ok_def clear_write_fd_def same_work_def split: option.splits)

lemma get_write_fd_ok:
  assumes "get_write_fd sp t = Some (r, t1)" "handle_ok path info t" "ts_store sp = path" "ts_id_info sp = info (ti_id (ts_id_info sp))"
    "0 < ti_id (ts_id_info sp)"
  shows "handle_ok path info t1" "r = 0 \<Longrightarrow> tw_file t1 = Some (path, ts_id_info sp) \<and> tw_trunk_id t1 = ti_id (ts_id_info sp)"
    "same_work t t1" "tw_disk t1 = tw_disk t"
proof -
  have "handle_ok path info t1 \<and> (r = 0 \<longrightarrow> tw_file t1 = Some (path, ts_id_info sp) \<and> tw_trunk_id t1 = ti_id (ts_id_info sp)) \<and>
      same_work t t1 \<and> tw_disk t1 = tw_disk t"
  proof (cases "ti_id (ts_id_info sp) = tw_trunk_id t")
    case True
    then show ?thesis using assms by (auto simp: get_write_fd_def handle_ok_def split: option.splits)
  next
    case False
    then show ?thesis using assms
      by (auto simp: get_write_fd_def sys_call_def handle_ok_def same_work_def split: list.splits if_splits option.splits)
  qed
  then show "handle_ok path info t1" "r = 0 \<Longrightarrow> tw_file t1 = Some (path, ts_id_info sp) \<and> tw_trunk_id t1 = ti_id (ts_id_info sp)"
    "same_work t t1" "tw_disk t1 = tw_disk t" by simp_all
qed

lemma batch_wrote_none: "r \<noteq> 0 \<Longrightarrow> batch_wrote behind path ws r d d"
  unfolding batch_wrote_def by (rule exI [of _ 0]) simp

text \<open>The chunks, written at the place of the first slice.\<close>

lemma write_chunks_batch:
  assumes run: "write_chunks (tw_iovecs t) (tw_iovec_bytes t) t = Some (r, rb, t')" and b: "batch_ok behind path info t"
    and f: "tw_file t = Some (path, ts_id_info (req_space (hd (tw_iobs t))))" and pos: "tw_pos t = ts_offset (req_space (hd (tw_iobs t)))"
  shows "batch_wrote behind path (tw_iobs t) r (tw_disk t) (tw_disk t')" "same_work t t'" "tw_file t' = tw_file t" "tw_trunk_id t' = tw_trunk_id t"
    "r = 0 \<Longrightarrow> tw_pos t' = tw_pos t + tw_iovec_bytes t"
proof -
  have cc: "concat (tw_iovecs t) = concat (map (req_bytes behind) (tw_iobs t))" "tw_iovec_bytes t = int (length (concat (tw_iovecs t)))"
    using b by (simp_all add: batch_ok_def)
  have w: "wrote (path, ts_id_info (req_space (hd (tw_iobs t)))) (concat (tw_iovecs t)) r t t'"
    by (rule write_chunks_wrote [OF run f]) (simp add: cc)
  then obtain k sys where k: "k \<le> length (concat (tw_iovecs t))" "r = 0 \<longrightarrow> k = length (concat (tw_iovecs t))"
      "t' = t\<lparr>tw_disk := put_bytes (path, ts_id_info (req_space (hd (tw_iobs t)))) (tw_pos t) (take k (concat (tw_iovecs t))) (tw_disk t),
              tw_pos := tw_pos t + int k, tw_sys := sys\<rparr>"
    unfolding wrote_def by blast
  show "batch_wrote behind path (tw_iobs t) r (tw_disk t) (tw_disk t')"
    unfolding batch_wrote_def using k cc(1) pos by (intro exI [of _ k]) simp
  show "r = 0 \<Longrightarrow> tw_pos t' = tw_pos t + tw_iovec_bytes t" using k cc(2) by simp
  show "same_work t t'" "tw_file t' = tw_file t" "tw_trunk_id t' = tw_trunk_id t" using wrote_same_work [OF w] by simp_all
qed

lemma do_write_slices_ok:
  assumes run: "do_write_slices t = Some (r, t')" and b: "batch_ok behind path info t" and h: "handle_ok path info t" and ne: "tw_iobs t \<noteq> []"
  shows "handle_ok path info t' \<and> same_work t t' \<and> batch_wrote behind path (tw_iobs t) r (tw_disk t) (tw_disk t')"
proof -
  let ?sp = "req_space (hd (tw_iobs t))"
  have sp: "ts_store ?sp = path" "ts_id_info ?sp = info (ti_id (ts_id_info ?sp))" "0 < ti_id (ts_id_info ?sp)"
    using b ne by (auto simp: batch_ok_def req_ok_def)
  obtain r1 t1 where g: "get_write_fd ?sp t = Some (r1, t1)" using run by (auto simp: do_write_slices_def Let_def split: option.splits)
  note g1 = get_write_fd_ok [OF g h sp]
  show ?thesis
  proof (cases "r1 = 0")
    case False
    then have "r = r1" "t' = t1" using run g by (simp_all add: do_write_slices_def Let_def)
    then show ?thesis using g1 False by (simp add: batch_wrote_none)
  next
    case True
    let ?seek = "if tw_offset t1 \<noteq> ts_offset ?sp
                 then sys_call t1 (\<lambda>n t. if n < 0 then Some (- n, clear_write_fd t) else Some (0, t\<lparr>tw_pos := ts_offset ?sp\<rparr>))
                 else Some (0, t1)"
    obtain r2 t2 where s: "?seek = Some (r2, t2)" using run g True by (auto simp: do_write_slices_def Let_def split: option.splits)
    have t2: "same_work t t2" "tw_disk t2 = tw_disk t" "r2 \<noteq> 0 \<Longrightarrow> handle_ok path info t2"
        "r2 = 0 \<Longrightarrow> tw_pos t2 = ts_offset ?sp \<and> tw_file t2 = tw_file t1 \<and> tw_trunk_id t2 = tw_trunk_id t1"
      using s g1 True by (auto simp: sys_call_def same_work_def clear_write_fd_def handle_ok_def split: if_splits list.splits option.splits)
    show ?thesis
    proof (cases "r2 = 0")
      case False
      then have "r = r2" "t' = t2" using run g True s by (simp_all add: do_write_slices_def Let_def del: if_split)
      then show ?thesis using t2 False by (simp add: batch_wrote_none)
    next
      case r2: True
      have b2: "batch_ok behind path info t2" "tw_iobs t2 = tw_iobs t" using b t2(1) by (simp_all add: batch_ok_def same_work_def)
      obtain r3 rb t3 where c: "write_chunks (tw_iovecs t2) (tw_iovec_bytes t2) t2 = Some (r3, rb, t3)"
        using run g True s r2 by (auto simp: do_write_slices_def Let_def simp del: if_split split: option.splits)
      have at: "tw_file t2 = Some (path, ts_id_info (req_space (hd (tw_iobs t2))))" "tw_pos t2 = ts_offset (req_space (hd (tw_iobs t2)))"
        using t2(4) r2 True g1(2) b2(2) by simp_all
      note c1 = write_chunks_batch [OF c b2(1) at]
      have res: "r = r3" "t' = (if r3 \<noteq> 0 then (clear_write_fd t3)\<lparr>tw_offset := - 1\<rparr> else t3\<lparr>tw_offset := ts_offset ?sp + tw_iovec_bytes t3\<rparr>)"
        using run g True s r2 c by (simp_all add: do_write_slices_def Let_def del: if_split split: if_splits)
      have sw: "same_work t t3" using t2(1) c1(2) by (rule same_work_trans)
      have d: "batch_wrote behind path (tw_iobs t) r3 (tw_disk t) (tw_disk t3)" using c1(1) b2(2) t2(2) by simp
      have bytes: "tw_iovec_bytes t3 = tw_iovec_bytes t2" using c1(2) by (simp add: same_work_def)
      show ?thesis
      proof (cases "r3 = 0")
        case True
        then show ?thesis using res sw d c1(3-5) at b2(2) sp r2 t2(4) g1(2) \<open>r1 = 0\<close> bytes by (auto simp: handle_ok_def same_work_def)
      next
        case False
        then show ?thesis using res sw d by (auto simp: handle_ok_def same_work_def clear_write_fd_def c1(3) at)
      qed
    qed
  qed
qed

lemma batch_write_ok:
  assumes run: "batch_write t = Some t'" and b: "batch_ok behind path info t" and h: "handle_ok path info t" and ne: "tw_iobs t \<noteq> []"
  obtains r where "handle_ok path info t'" "batch_ok behind path info t'" "batch_wrote behind path (tw_iobs t) r (tw_disk t) (tw_disk t')"
    "tw_notified t' = tw_notified t @ map (\<lambda>w. (WRITE_SLICE w, r)) (tw_iobs t)" "tw_iobs t' = []"
    "tw_queue t' = tw_queue t" "tw_skiplist t' = tw_skiplist t" "tw_continue t' = tw_continue t"
proof -
  obtain r t1 where t1: "do_write_slices t = Some (r, t1)" and t': "t' = t1\<lparr>tw_notified := tw_notified t1 @ map (\<lambda>iob. (WRITE_SLICE iob, r)) (tw_iobs t1),
                             tw_iovec_bytes := 0, tw_iovecs := [], tw_iobs := []\<rparr>"
    using run by (auto simp: batch_write_def)
  show thesis
    by (rule that [of r]) (use do_write_slices_ok [OF t1 b h ne] in \<open>auto simp: t' same_work_def handle_ok_def batch_ok_def split: option.splits\<close>)
qed

section \<open>Places on the disk\<close>

fun req_touches :: "write_request \<Rightarrow> nat \<times> FSTrunkIdInfo \<times> int \<Rightarrow> bool" where
  "req_touches (CREATE_TRUNK v sp) p \<longleftrightarrow> False"
| "req_touches (DELETE_TRUNK v sp) (st, tid, x) \<longleftrightarrow> st = ts_store sp \<and> tid = ts_id_info sp"
| "req_touches (WRITE_SLICE w) (st, tid, x) \<longleftrightarrow> st = ts_store (req_space w) \<and> tid = ts_id_info (req_space w) \<and>
     ts_offset (req_space w) \<le> x \<and> x < ts_offset (req_space w) + ts_size (req_space w)"

fun req_byte :: "(TrunkWriteIOBuffer \<Rightarrow> string) \<Rightarrow> TrunkWriteIOBuffer \<Rightarrow> nat \<times> FSTrunkIdInfo \<times> int \<Rightarrow> char" where
  "req_byte behind w (st, tid, x) = req_bytes behind w ! nat (x - ts_offset (req_space w))"

lemma write_req_at:
  "req_ok behind path info w \<Longrightarrow> write_req behind w d p = (if req_touches (WRITE_SLICE w) p then req_byte behind w p else d p)"
  using req_bytes_length [of behind path info w] by (cases p) (auto simp: write_req_put put_bytes_def req_ok_def)

lemma fold_write_req_outside:
  "\<forall>w\<in>set ws. req_ok behind path info w \<Longrightarrow> \<forall>w\<in>set ws. \<not> req_touches (WRITE_SLICE w) p \<Longrightarrow> fold (write_req behind) ws d p = d p"
  by (induction ws arbitrary: d) (simp_all add: write_req_at [of behind path info])

lemma fold_write_req_inside:
  assumes "\<forall>w\<in>set ws. req_ok behind path info w" "w \<in> set ws" "req_touches (WRITE_SLICE w) p" "\<forall>w'\<in>set ws. req_touches (WRITE_SLICE w') p \<longrightarrow> w' = w"
  shows "fold (write_req behind) ws d p = req_byte behind w p"
  using assms
proof (induction ws arbitrary: d)
  case (Cons v ws)
  show ?case
  proof (cases "w \<in> set ws")
    case True
    have "fold (write_req behind) ws (write_req behind v d) p = req_byte behind w p" by (rule Cons.IH [OF _ True Cons.prems(3)]) (use Cons.prems in auto)
    then show ?thesis by simp
  next
    case False
    then have "v = w" "\<forall>w'\<in>set ws. \<not> req_touches (WRITE_SLICE w') p" using Cons.prems by auto
    moreover have "req_ok behind path info v" "\<forall>w\<in>set ws. req_ok behind path info w" using Cons.prems(1) by auto
    ultimately show ?thesis using Cons.prems(3) fold_write_req_outside [of ws behind path info p] by (simp add: write_req_at [of behind path info])
  qed
qed simp

text \<open>A batch changes only places of its slices: the values at any other place are those of the disk before, for every disk.\<close>

lemma put_bytes_inside:
  "put_bytes f pos bytes d (st, tid, x) \<noteq> d (st, tid, x) \<Longrightarrow> (st, tid) = f \<and> pos \<le> x \<and> x < pos + int (length bytes)"
  by (auto simp: put_bytes_def split: if_splits)

lemma batch_wrote_outside:
  assumes "batch_wrote behind path ws r d d'" "\<forall>w\<in>set ws. req_ok behind path info w" "successively IOB_IS_SUCCESSIVE ws" "ws \<noteq> []"
    "\<forall>w\<in>set ws. \<not> req_touches (WRITE_SLICE w) p"
  shows "d' p = d p"
proof (rule ccontr)
  assume ch: "d' p \<noteq> d p"
  let ?f = "(path, ts_id_info (req_space (hd ws)))" and ?o = "ts_offset (req_space (hd ws))" and ?b = "concat (map (req_bytes behind) ws)"
  obtain st tid x where p: "p = (st, tid, x)" by (cases p)
  obtain k where "d' = put_bytes ?f ?o (take k ?b) d" using assms(1) unfolding batch_wrote_def by blast
  with ch have "(st, tid) = ?f \<and> ?o \<le> x \<and> x < ?o + int (length (take k ?b))" unfolding p using put_bytes_inside by blast
  then have in_b: "put_bytes ?f ?o ?b e p = ?b ! nat (x - ?o)" for e by (auto simp: p put_bytes_def)
  have "put_bytes ?f ?o ?b e p = e p" for e
    using batch_on_disk [OF assms(2-4), of e] fold_write_req_outside [OF assms(2,5), of e] by simp
  then have "e p = ?b ! nat (x - ?o)" for e :: disk using in_b [of e] by metis
  from trans [OF this [of "\<lambda>_. CHR ''a''"] this [of "\<lambda>_. CHR ''b''", symmetric]] show False by simp
qed

lemma batch_wrote_all:
  assumes "batch_wrote behind path ws 0 d d'" "\<forall>w\<in>set ws. req_ok behind path info w" "successively IOB_IS_SUCCESSIVE ws" "ws \<noteq> []"
  shows "d' = fold (write_req behind) ws d"
  using assms(1) batch_on_disk [OF assms(2-4), of d] by (auto simp: batch_wrote_def)

section \<open>The invariant of a thread\<close>

text \<open>
  \<open>rs\<close> are all the requests the thread is ever given: their versions differ and are close enough for the comparison of \<open>int\<close>s.
  \<open>pend\<close> are the ones not pushed yet.
\<close>

definition requests_ok :: "(TrunkWriteIOBuffer \<Rightarrow> string) \<Rightarrow> nat \<Rightarrow> (int \<Rightarrow> FSTrunkIdInfo) \<Rightarrow> write_request list \<Rightarrow> bool" where
  "requests_ok behind path info rs \<longleftrightarrow> distinct (map req_version rs) \<and> in_window (set rs) \<and> (\<forall>w. WRITE_SLICE w \<in> set rs \<longrightarrow> req_ok behind path info w)"

definition thread_requests :: "TrunkWriteThreadContext \<Rightarrow> write_request multiset" where
  "thread_requests t = mset (map fst (tw_notified t)) + mset (map WRITE_SLICE (tw_iobs t)) + mset (tw_skiplist t) + mset (tw_queue t)"

definition disk_ok :: "(TrunkWriteIOBuffer \<Rightarrow> string) \<Rightarrow> write_request list \<Rightarrow> disk \<Rightarrow> (write_request \<times> int) list \<Rightarrow> disk \<Rightarrow> bool" where
  "disk_ok behind rs d0 notified d \<longleftrightarrow>
     (\<forall>w p. (WRITE_SLICE w, 0) \<in> set notified \<longrightarrow> req_touches (WRITE_SLICE w) p \<longrightarrow>
        (\<forall>q\<in>set rs. req_touches q p \<longrightarrow> q = WRITE_SLICE w) \<longrightarrow> d p = req_byte behind w p) \<and>
     (\<forall>p. (\<forall>q\<in>set rs. \<not> req_touches q p) \<longrightarrow> d p = d0 p)"

lemma disk_okI:
  assumes "\<And>w p. (WRITE_SLICE w, 0) \<in> set ns \<Longrightarrow> req_touches (WRITE_SLICE w) p \<Longrightarrow> \<forall>q\<in>set rs. req_touches q p \<longrightarrow> q = WRITE_SLICE w \<Longrightarrow> d p = req_byte behind w p"
    and "\<And>p. \<forall>q\<in>set rs. \<not> req_touches q p \<Longrightarrow> d p = d0 p"
  shows "disk_ok behind rs d0 ns d"
  unfolding disk_ok_def using assms by blast

lemma disk_ok_written:
  "disk_ok behind rs d0 ns d \<Longrightarrow> (WRITE_SLICE w, 0) \<in> set ns \<Longrightarrow> req_touches (WRITE_SLICE w) p \<Longrightarrow>
   \<forall>q\<in>set rs. req_touches q p \<longrightarrow> q = WRITE_SLICE w \<Longrightarrow> d p = req_byte behind w p"
  unfolding disk_ok_def by blast

lemma disk_ok_outside: "disk_ok behind rs d0 ns d \<Longrightarrow> \<forall>q\<in>set rs. \<not> req_touches q p \<Longrightarrow> d p = d0 p"
  unfolding disk_ok_def by blast

definition thread_inv ::
    "(TrunkWriteIOBuffer \<Rightarrow> string) \<Rightarrow> nat \<Rightarrow> (int \<Rightarrow> FSTrunkIdInfo) \<Rightarrow> write_request list \<Rightarrow> disk \<Rightarrow> write_request multiset \<Rightarrow> TrunkWriteThreadContext \<Rightarrow> bool" where
  "thread_inv behind path info rs d0 pend t \<longleftrightarrow> handle_ok path info t \<and> batch_ok behind path info t \<and> tw_continue t \<and>
     skl_ordered compare_by_version (tw_skiplist t) \<and> thread_requests t + pend = mset rs \<and> disk_ok behind rs d0 (tw_notified t) (tw_disk t)"

lemma init_thread_inv: "thread_inv behind path info rs d (mset rs) (init_thread_context d sys)"
  by (simp add: thread_inv_def init_thread_context_def handle_ok_def batch_ok_def skl_ordered_def thread_requests_def disk_ok_def)

lemma batch_disk_ok:
  assumes d: "disk_ok behind rs d0 ns d" and w: "batch_wrote behind path ws r d d'" and ok: "\<forall>w\<in>set ws. req_ok behind path info w"
    and suc: "successively IOB_IS_SUCCESSIVE ws" and ne: "ws \<noteq> []" and sub: "WRITE_SLICE ` set ws \<subseteq> set rs"
    and new: "\<forall>w\<in>set ws. WRITE_SLICE w \<notin> fst ` set ns"
  shows "disk_ok behind rs d0 (ns @ map (\<lambda>w. (WRITE_SLICE w, r)) ws) d'"
proof -
  note outside = batch_wrote_outside [OF w ok suc ne]
  show ?thesis
  proof (rule disk_okI)
    fix v p
    assume n: "(WRITE_SLICE v, 0) \<in> set (ns @ map (\<lambda>w. (WRITE_SLICE w, r)) ws)" and t: "req_touches (WRITE_SLICE v) p"
      and only: "\<forall>q\<in>set rs. req_touches q p \<longrightarrow> q = WRITE_SLICE v"
    show "d' p = req_byte behind v p"
    proof (cases "r = 0 \<and> v \<in> set ws")
      case True
      then have "d' = fold (write_req behind) ws d" using batch_wrote_all [OF _ ok suc ne] w by simp
      moreover have "\<forall>w'\<in>set ws. req_touches (WRITE_SLICE w') p \<longrightarrow> w' = v" using only sub by auto
      ultimately show ?thesis using fold_write_req_inside [OF ok _ t] True by simp
    next
      case False
      then have v: "(WRITE_SLICE v, 0) \<in> set ns" using n by auto
      then have "v \<notin> set ws" using new by force
      then have "\<forall>w\<in>set ws. \<not> req_touches (WRITE_SLICE w) p" using only sub by blast
      then show ?thesis using outside disk_ok_written [OF d v t only] by metis
    qed
  next
    fix p
    assume none: "\<forall>q\<in>set rs. \<not> req_touches q p"
    then have "\<forall>w\<in>set ws. \<not> req_touches (WRITE_SLICE w) p" using sub by blast
    then show "d' p = d0 p" using outside disk_ok_outside [OF d none] by metis
  qed
qed

lemma requests_ok_distinct: "requests_ok behind path info rs \<Longrightarrow> distinct rs"
  by (simp add: requests_ok_def distinct_map)

lemma thread_inv_versions:
  assumes "thread_inv behind path info rs d0 pend t" "requests_ok behind path info rs"
  obtains ps where "mset ps = pend" "distinct (map req_version (map fst (tw_notified t) @ map WRITE_SLICE (tw_iobs t) @ tw_skiplist t @ tw_queue t @ ps))"
    "set (map fst (tw_notified t) @ map WRITE_SLICE (tw_iobs t) @ tw_skiplist t @ tw_queue t @ ps) = set rs"
proof -
  obtain ps where ps: "mset ps = pend" by (metis ex_mset)
  let ?all = "map fst (tw_notified t) @ map WRITE_SLICE (tw_iobs t) @ tw_skiplist t @ tw_queue t @ ps"
  have m: "mset ?all = mset rs" using assms(1) by (simp add: thread_inv_def thread_requests_def ps add.assoc)
  then have "mset (map req_version ?all) = mset (map req_version rs)" by (metis mset_map)
  then have "distinct (map req_version ?all)" using assms(2) unfolding requests_ok_def by (metis mset_eq_imp_distinct_iff)
  then show thesis using that [OF ps] mset_eq_setD [OF m] by blast
qed

lemma thread_inv_parts:
  assumes "thread_inv behind path info rs d0 pend t" "requests_ok behind path info rs"
  shows "set (tw_skiplist t) \<subseteq> set rs" "set (tw_queue t) \<subseteq> set rs" "WRITE_SLICE ` set (tw_iobs t) \<subseteq> set rs"
    "\<forall>w\<in>set (tw_iobs t). WRITE_SLICE w \<notin> fst ` set (tw_notified t)"
proof -
  obtain ps where ps: "distinct (map req_version (map fst (tw_notified t) @ map WRITE_SLICE (tw_iobs t) @ tw_skiplist t @ tw_queue t @ ps))"
      "set (map fst (tw_notified t) @ map WRITE_SLICE (tw_iobs t) @ tw_skiplist t @ tw_queue t @ ps) = set rs"
    by (rule thread_inv_versions [OF assms])
  from ps(2) show "set (tw_skiplist t) \<subseteq> set rs" "set (tw_queue t) \<subseteq> set rs" "WRITE_SLICE ` set (tw_iobs t) \<subseteq> set rs" by auto
  have "distinct (map fst (tw_notified t) @ map WRITE_SLICE (tw_iobs t))" using ps(1) [unfolded distinct_map] by (auto simp: Int_Un_distrib)
  then show "\<forall>w\<in>set (tw_iobs t). WRITE_SLICE w \<notin> fst ` set (tw_notified t)" by auto
qed

lemma batch_write_inv:
  assumes "batch_write t = Some t'" "thread_inv behind path info rs d0 pend t" "requests_ok behind path info rs" "tw_iobs t \<noteq> []"
  shows "thread_inv behind path info rs d0 pend t'" "tw_iobs t' = []" "tw_skiplist t' = tw_skiplist t" "tw_queue t' = tw_queue t"
proof -
  note i = assms(2) [unfolded thread_inv_def]
  obtain r where r: "handle_ok path info t'" "batch_ok behind path info t'" "batch_wrote behind path (tw_iobs t) r (tw_disk t) (tw_disk t')"
      "tw_notified t' = tw_notified t @ map (\<lambda>w. (WRITE_SLICE w, r)) (tw_iobs t)" "tw_iobs t' = []"
      "tw_queue t' = tw_queue t" "tw_skiplist t' = tw_skiplist t" "tw_continue t' = tw_continue t"
    by (rule batch_write_ok [OF assms(1) _ _ assms(4)]) (use i in auto)
  note parts = thread_inv_parts [OF assms(2,3)]
  have "disk_ok behind rs d0 (tw_notified t') (tw_disk t')"
    unfolding r(4) using i by (intro batch_disk_ok [where path = path and info = info, OF _ r(3) _ _ assms(4) parts(3,4)]) (simp_all add: batch_ok_def)
  moreover have "thread_requests t' = thread_requests t" by (simp add: thread_requests_def r comp_def)
  ultimately show "thread_inv behind path info rs d0 pend t'" using i r by (simp add: thread_inv_def)
  show "tw_iobs t' = []" "tw_skiplist t' = tw_skiplist t" "tw_queue t' = tw_queue t" using r by simp_all
qed

lemma trunk_op_inv:
  assumes "thread_inv behind path info rs d0 pend t"
  shows "do_create_trunk t = Some (r, t') \<Longrightarrow> thread_inv behind path info rs d0 pend t' \<and> same_work t t'"
    and "do_delete_trunk sp t = Some (r, t') \<Longrightarrow> DELETE_TRUNK v sp \<in> set rs \<Longrightarrow> thread_inv behind path info rs d0 pend t' \<and> same_work t t'"
proof -
  assume "do_create_trunk t = Some (r, t')"
  then have "\<exists>sys. t' = t\<lparr>tw_sys := sys\<rparr>" by (auto simp: do_create_trunk_def sys_call_def Let_def split: list.splits if_splits)
  then show "thread_inv behind path info rs d0 pend t' \<and> same_work t t'"
    using assms by (auto simp: thread_inv_def same_work_def batch_ok_def thread_requests_def)
next
  assume del: "do_delete_trunk sp t = Some (r, t')" and rs: "DELETE_TRUNK v sp \<in> set rs"
  let ?d = "drop_file (ts_store sp, ts_id_info sp) (tw_disk t)"
  have t': "\<exists>sys. t' = t\<lparr>tw_sys := sys\<rparr> \<or> t' = t\<lparr>tw_disk := ?d, tw_sys := sys\<rparr>"
    using del by (auto simp: do_delete_trunk_def sys_call_def split: list.splits if_splits)
  have same: "?d p = tw_disk t p" if "\<not> req_touches (DELETE_TRUNK v sp) p" for p using that by (cases p) (auto simp: drop_file_def)
  have i: "disk_ok behind rs d0 (tw_notified t) (tw_disk t)" using assms by (simp add: thread_inv_def)
  have "disk_ok behind rs d0 (tw_notified t) ?d"
  proof (rule disk_okI)
    fix w p
    assume w: "(WRITE_SLICE w, 0) \<in> set (tw_notified t)" "req_touches (WRITE_SLICE w) p" "\<forall>q\<in>set rs. req_touches q p \<longrightarrow> q = WRITE_SLICE w"
    then have "\<not> req_touches (DELETE_TRUNK v sp) p" using rs by blast
    then show "?d p = req_byte behind w p" using same disk_ok_written [OF i w] by simp
  next
    fix p
    assume "\<forall>q\<in>set rs. \<not> req_touches q p"
    then show "?d p = d0 p" using same rs disk_ok_outside [OF i] by metis
  qed
  then show "thread_inv behind path info rs d0 pend t' \<and> same_work t t'"
    using assms t' by (auto simp: thread_inv_def same_work_def batch_ok_def thread_requests_def)
qed

text \<open>Taking the first request from the skip list, when it has been reported or joined to the batch.\<close>

lemma first_versions:
  assumes "thread_inv behind path info rs d0 pend t" "requests_ok behind path info rs" "tw_skiplist t = iob # xs"
  shows "iob \<in> set rs" "in_window (set (iob # xs))" "skl_ordered compare_by_version xs"
proof -
  have sub: "set (iob # xs) \<subseteq> set rs" using thread_inv_parts(1) [OF assms(1,2)] assms(3) by simp
  then show "iob \<in> set rs" by simp
  show "in_window (set (iob # xs))" using sub assms(2) unfolding requests_ok_def in_window_def by blast
  show "skl_ordered compare_by_version xs" using assms(1,3) by (simp add: thread_inv_def skl_ordered_def)
qed

lemma report_inv:
  assumes "thread_inv behind path info rs d0 pend t" "tw_skiplist t = iob # xs" "\<nexists>w. iob = WRITE_SLICE w"
  shows "thread_inv behind path info rs d0 pend (t\<lparr>tw_notified := tw_notified t @ [(iob, r)], tw_skiplist := xs\<rparr>)"
proof -
  have "disk_ok behind rs d0 (tw_notified t @ [(iob, r)]) (tw_disk t)" if "disk_ok behind rs d0 (tw_notified t) (tw_disk t)"
    by (rule disk_okI) (use assms(3) disk_ok_written [OF that] disk_ok_outside [OF that] in auto)
  then show ?thesis using assms(1,2) by (auto simp: thread_inv_def batch_ok_def thread_requests_def skl_ordered_def)
qed

lemma join_inv:
  assumes i: "thread_inv behind path info rs d0 pend t" and rs: "requests_ok behind path info rs" and t: "tw_skiplist t = WRITE_SLICE w # xs"
    and suc: "tw_iobs t = [] \<or> IOB_IS_SUCCESSIVE (last (tw_iobs t)) w"
  shows "thread_inv behind path info rs d0 pend (t\<lparr>tw_iovecs := tw_iovecs t @ new_iovecs behind w, tw_iobs := tw_iobs t @ [w],
           tw_iovec_bytes := tw_iovec_bytes t + ts_size (sl_space (io_slice w)), tw_skiplist := xs\<rparr>)"
proof -
  have ok: "req_ok behind path info w" using first_versions(1) [OF i rs t] rs by (simp add: requests_ok_def)
  have "successively IOB_IS_SUCCESSIVE (tw_iobs t @ [w])" using i suc by (auto simp: thread_inv_def batch_ok_def successively_append_iff)
  then show ?thesis
    using i t ok new_iovecs_concat [OF ok] req_bytes_length [OF ok]
    by (auto simp: thread_inv_def batch_ok_def thread_requests_def skl_ordered_def)
qed

context version_skiplist
begin

lemma pop_to_request_skiplist_all:
  assumes "distinct (map req_version (tw_skiplist t @ qs))" "in_window (set (tw_skiplist t @ qs))" "skl_ordered compare_by_version (tw_skiplist t)" "0 \<le> cnt"
  shows "\<exists>ys. fold (\<lambda>head (cnt, t). if cnt < 0 then (cnt, t)
             else (case skl_insert S (tw_skiplist t) head of (r, xs) \<Rightarrow>
                     if r \<noteq> 0 then (- 1, t\<lparr>tw_continue := False\<rparr>) else (cnt + 1, t\<lparr>tw_skiplist := xs\<rparr>))) qs (cnt, t) =
      (cnt + int (length qs), t\<lparr>tw_skiplist := ys\<rparr>) \<and> skl_ordered compare_by_version ys \<and> mset ys = mset (tw_skiplist t @ qs)"
  using assms
proof (induction qs arbitrary: t cnt)
  case Nil
  then show ?case by (intro exI [of _ "tw_skiplist t"]) simp
next
  case (Cons q qs)
  let ?xs = "tw_skiplist t"
  have w: "in_window (insert q (set ?xs))" using Cons.prems(2) unfolding in_window_def by simp
  have new: "req_version q \<notin> req_version ` set ?xs" using Cons.prems(1) by simp
  have "compare_by_version x q \<noteq> 0" if "x \<in> set ?xs" for x
  proof -
    have "req_version x \<noteq> req_version q" using new that by (metis imageI)
    then show ?thesis using compare_in_window [OF w, of x q] that by simp
  qed
  then obtain ys where ys: "skl_insert S ?xs q = (0, ys)" "skl_ordered compare_by_version ys" "mset ys = add_mset q (mset ?xs)"
    using insert_new [OF w Cons.prems(3)] by blast
  have m: "mset (ys @ qs) = mset (?xs @ q # qs)" using ys(3) by simp
  have "distinct (map req_version (ys @ qs))" using m Cons.prems(1) by (metis mset_eq_imp_distinct_iff mset_map)
  moreover have "in_window (set (ys @ qs))" using Cons.prems(2) mset_eq_setD [OF m] by simp
  ultimately obtain zs where "fold (\<lambda>head (cnt, t). if cnt < 0 then (cnt, t)
             else (case skl_insert S (tw_skiplist t) head of (r, xs) \<Rightarrow>
                     if r \<noteq> 0 then (- 1, t\<lparr>tw_continue := False\<rparr>) else (cnt + 1, t\<lparr>tw_skiplist := xs\<rparr>))) qs (cnt + 1, t\<lparr>tw_skiplist := ys\<rparr>) =
      (cnt + 1 + int (length qs), t\<lparr>tw_skiplist := zs\<rparr>)" "skl_ordered compare_by_version zs" "mset zs = mset (ys @ qs)"
    using Cons.IH [of "t\<lparr>tw_skiplist := ys\<rparr>" "cnt + 1"] ys(2) Cons.prems(4) by auto
  then show ?case using ys(1) m Cons.prems(4) by (intro exI [of _ zs]) (simp add: algebra_simps)
qed

lemma pop_inv:
  assumes i: "thread_inv behind path info rs d0 (mset pushed + pend) t" and rs: "requests_ok behind path info rs"
    and run: "pop_to_request_skiplist S (t\<lparr>tw_queue := tw_queue t @ pushed\<rparr>) = (cnt, t1)"
  shows "thread_inv behind path info rs d0 pend t1" "tw_queue t1 = []" "cnt = int (length (tw_queue t @ pushed))" "tw_iobs t1 = tw_iobs t"
    "length (tw_skiplist t1) = length (tw_skiplist t) + length (tw_queue t @ pushed)"
proof -
  obtain ps where ps: "mset ps = mset pushed + pend" and d: "distinct (map req_version (map fst (tw_notified t) @ map WRITE_SLICE (tw_iobs t) @ tw_skiplist t @ tw_queue t @ ps))"
      and all: "set (map fst (tw_notified t) @ map WRITE_SLICE (tw_iobs t) @ tw_skiplist t @ tw_queue t @ ps) = set rs"
    by (rule thread_inv_versions [OF i rs])
  obtain qs where qs: "mset qs = pend" by (metis ex_mset)
  have "mset (map req_version ((tw_skiplist t @ tw_queue t) @ ps)) = mset (map req_version ((tw_skiplist t @ tw_queue t) @ pushed @ qs))"
    using ps qs by simp
  moreover have "distinct (map req_version ((tw_skiplist t @ tw_queue t) @ ps))" using d by simp
  ultimately have "distinct (map req_version ((tw_skiplist t @ tw_queue t) @ pushed @ qs))" using mset_eq_imp_distinct_iff by blast
  then have d1: "distinct (map req_version (tw_skiplist t @ (tw_queue t @ pushed)))" by (auto simp: Int_Un_distrib)
  have "set pushed \<subseteq> set ps" using ps by (metis set_mset_mset set_mset_union Un_upper1)
  then have "set (tw_skiplist t @ (tw_queue t @ pushed)) \<subseteq> set rs" using all by auto
  then have w: "in_window (set (tw_skiplist t @ (tw_queue t @ pushed)))" using rs unfolding requests_ok_def in_window_def by blast
  obtain ys where ys: "cnt = int (length (tw_queue t @ pushed))" "t1 = t\<lparr>tw_queue := [], tw_skiplist := ys\<rparr>" "skl_ordered compare_by_version ys"
      "mset ys = mset (tw_skiplist t @ (tw_queue t @ pushed))"
    using pop_to_request_skiplist_all [of "t\<lparr>tw_queue := []\<rparr>" "tw_queue t @ pushed" 0] d1 w run i
    by (auto simp: pop_to_request_skiplist_def thread_inv_def simp del: map_append fold_append)
  have "thread_requests t1 + pend = thread_requests t + (mset pushed + pend)" using ys by (simp add: thread_requests_def)
  then show "thread_inv behind path info rs d0 pend t1" using i ys(2,3) by (simp add: thread_inv_def batch_ok_def add.assoc)
  show "tw_queue t1 = []" "cnt = int (length (tw_queue t @ pushed))" "tw_iobs t1 = tw_iobs t" using ys by simp_all
  show "length (tw_skiplist t1) = length (tw_skiplist t) + length (tw_queue t @ pushed)" using ys(2) mset_eq_length [OF ys(4)] by simp
qed

lemma deal_request_inv:
  assumes run: "deal_request S behind iob t = Some (go_on, io, t')" and i: "thread_inv behind path info rs d0 pend t" and rs: "requests_ok behind path info rs"
    and t: "tw_skiplist t = iob # xs"
  shows "thread_inv behind path info rs d0 pend t'" "tw_queue t' = tw_queue t" "go_on \<Longrightarrow> tw_skiplist t' = xs"
proof -
  have del: "skl_delete S (iob # xs) iob = Some (iob, xs)"
    using delete_hit [of "iob # xs" iob] first_versions [OF i rs t] i t by (simp add: thread_inv_def)
  have b: "thread_inv behind path info rs d0 pend t1 \<and> tw_skiplist t1 = iob # xs \<and> tw_queue t1 = tw_queue t \<and> (c \<longrightarrow> tw_iobs t1 = []) \<and> (\<not> c \<longrightarrow> t1 = t)"
    if "(if c then batch_write t else Some t) = Some t1" "c \<longrightarrow> tw_iobs t \<noteq> []" for c t1
  proof (cases c)
    case True
    then have "batch_write t = Some t1" "tw_iobs t \<noteq> []" using that by simp_all
    then show ?thesis using batch_write_inv [OF _ i rs] t True by metis
  qed (use that i t in simp)
  have ne: "tw_iovecs t \<noteq> [] \<longleftrightarrow> tw_iobs t \<noteq> []" using i by (simp add: thread_inv_def batch_ok_def)
  have trunk: "thread_inv behind path info rs d0 pend t' \<and> tw_queue t' = tw_queue t \<and> (go_on \<longrightarrow> tw_skiplist t' = xs)"
    if f: "\<And>t1 r t2. f t1 = Some (r, t2) \<Longrightarrow> thread_inv behind path info rs d0 pend t1 \<Longrightarrow> thread_inv behind path info rs d0 pend t2 \<and> same_work t1 t2"
      and run: "(case (if tw_iovecs t \<noteq> [] then batch_write t else Some t) of
                   None \<Rightarrow> None
                 | Some t1 \<Rightarrow> (case f t1 of None \<Rightarrow> None | Some (r, t2) \<Rightarrow>
                     (case skl_delete S (tw_skiplist (t2\<lparr>tw_notified := tw_notified t2 @ [(iob, r)]\<rparr>)) iob of
                        None \<Rightarrow> Some (False, True, t2\<lparr>tw_notified := tw_notified t2 @ [(iob, r)], tw_continue := False\<rparr>)
                      | Some (_, xs) \<Rightarrow> Some (True, True, t2\<lparr>tw_notified := tw_notified t2 @ [(iob, r)], tw_skiplist := xs\<rparr>)))) = Some (go_on, io, t')"
      and iob: "\<nexists>w. iob = WRITE_SLICE w" for f
  proof -
    obtain t1 where t1: "(if tw_iovecs t \<noteq> [] then batch_write t else Some t) = Some t1" using run by (auto split: option.splits)
    note b1 = b [OF t1] ne
    obtain r t2 where t2: "f t1 = Some (r, t2)" using run t1 by (auto split: option.splits)
    have t2i: "thread_inv behind path info rs d0 pend t2" "tw_skiplist t2 = iob # xs" "tw_queue t2 = tw_queue t"
      using f [OF t2] b1 by (auto simp: same_work_def)
    then have "t' = t2\<lparr>tw_notified := tw_notified t2 @ [(iob, r)], tw_skiplist := xs\<rparr>" using run t1 t2 del by simp
    then show ?thesis using report_inv [OF t2i(1,2) iob] t2i(3) by simp
  qed
  have "thread_inv behind path info rs d0 pend t' \<and> tw_queue t' = tw_queue t \<and> (go_on \<longrightarrow> tw_skiplist t' = xs)"
  proof (cases iob)
    case (CREATE_TRUNK v sp)
    show ?thesis by (rule trunk [where f = do_create_trunk]) (use trunk_op_inv(1) run CREATE_TRUNK in \<open>auto simp: deal_request_def Let_def\<close>)
  next
    case (DELETE_TRUNK v sp)
    have "iob \<in> set rs" by (rule first_versions(1) [OF i rs t])
    then show ?thesis
      by (intro trunk [where f = "do_delete_trunk sp"]) (use trunk_op_inv(2) run DELETE_TRUNK in \<open>auto simp: deal_request_def Let_def\<close>)
  next
    case (WRITE_SLICE w)
    obtain t1 where t1: "(if batch_full w t then batch_write t else Some t) = Some t1"
      using run WRITE_SLICE by (auto simp: deal_request_def Let_def split: option.splits)
    have b1: "thread_inv behind path info rs d0 pend t1" "tw_skiplist t1 = iob # xs" "tw_queue t1 = tw_queue t"
        "tw_iobs t1 = [] \<or> IOB_IS_SUCCESSIVE (last (tw_iobs t1)) w"
      using b [OF t1] by (auto simp: batch_full_def split: if_splits)
    obtain n ns where sys: "tw_sys t1 = n # ns" using run WRITE_SLICE t1 by (auto simp: deal_request_def Let_def sys_call_def split: list.splits option.splits)
    let ?t2 = "t1\<lparr>tw_sys := ns\<rparr>"
    have i2: "thread_inv behind path info rs d0 pend ?t2" using b1(1) by (simp add: thread_inv_def batch_ok_def thread_requests_def)
    have "thread_inv behind path info rs d0 pend (?t2\<lparr>tw_iovecs := tw_iovecs ?t2 @ new_iovecs behind w, tw_iobs := tw_iobs ?t2 @ [w],
           tw_iovec_bytes := tw_iovec_bytes ?t2 + ts_size (sl_space (io_slice w)), tw_skiplist := xs\<rparr>)"
      by (rule join_inv [OF i2 rs]) (use b1 WRITE_SLICE in auto)
    then show ?thesis using run WRITE_SLICE t1 sys i2 b1 del by (auto simp: deal_request_def Let_def sys_call_def split: if_splits)
  qed
  then show "thread_inv behind path info rs d0 pend t'" "tw_queue t' = tw_queue t" "go_on \<Longrightarrow> tw_skiplist t' = xs" by simp_all
qed

lemma deal_request_skiplist_inv:
  assumes "deal_request_skiplist S behind fuel io t = Some t'" "thread_inv behind path info rs d0 pend t" "requests_ok behind path info rs"
  shows "thread_inv behind path info rs d0 pend t'" "tw_queue t' = tw_queue t"
proof -
  have "thread_inv behind path info rs d0 pend t' \<and> tw_queue t' = tw_queue t"
    using assms
  proof (induction fuel arbitrary: io t)
    case (Suc fuel)
    show ?case
    proof (cases "tw_skiplist t")
      case Nil
      have "tw_iovecs t \<noteq> [] \<longleftrightarrow> tw_iobs t \<noteq> []" using Suc.prems(2) by (simp add: thread_inv_def batch_ok_def)
      note ne = this
      show ?thesis
      proof (cases "tw_iovecs t \<noteq> [] \<and> \<not> io")
        case True
        then have "batch_write t = Some t'" "tw_iobs t \<noteq> []" using Suc.prems(1) Nil ne by simp_all
        then show ?thesis using batch_write_inv(1,4) [OF _ Suc.prems(2,3)] by blast
      next
        case False
        then show ?thesis using Suc.prems(1,2) Nil by (simp split: if_splits)
      qed
    next
      case (Cons iob xs)
      then obtain g io1 t1 where d: "deal_request S behind iob t = Some (g, io1, t1)" using Suc.prems(1) by (auto split: option.splits)
      note d1 = deal_request_inv [OF d Suc.prems(2,3) Cons]
      show ?thesis
      proof (cases g)
        case True
        then have "deal_request_skiplist S behind fuel (io \<or> io1) t1 = Some t'" using Suc.prems(1) Cons d by simp
        then show ?thesis using Suc.IH [OF _ d1(1) Suc.prems(3)] d1(2) by simp
      next
        case False
        then show ?thesis using Suc.prems(1) Cons d d1 by simp
      qed
    qed
  qed simp
  then show "thread_inv behind path info rs d0 pend t'" "tw_queue t' = tw_queue t" by simp_all
qed

lemma turn_inv:
  assumes run: "trunk_write_thread_turn S behind pushed t = Some t'" and i: "thread_inv behind path info rs d0 (mset pushed + pend) t"
    and rs: "requests_ok behind path info rs"
  shows "thread_inv behind path info rs d0 pend t'"
proof -
  obtain cnt t1 where p: "pop_to_request_skiplist S (t\<lparr>tw_queue := tw_queue t @ pushed\<rparr>) = (cnt, t1)" by fastforce
  note p1 = pop_inv [OF i rs p]
  have "tw_iovecs t1 \<noteq> [] \<longleftrightarrow> tw_iobs t1 \<noteq> []" "tw_continue t" using p1(1) i by (simp_all add: thread_inv_def batch_ok_def)
  then show ?thesis
    using run p p1(1) batch_write_inv(1) [OF _ p1(1) rs] deal_request_skiplist_inv(1) [OF _ p1(1) rs]
    by (auto simp: trunk_write_thread_turn_def simp del: deal_request_skiplist.simps split: if_splits)
qed

lemma thread_func_inv:
  "trunk_write_thread_func S behind turns t = Some t' \<Longrightarrow> thread_inv behind path info rs d0 (mset (concat turns)) t \<Longrightarrow>
   requests_ok behind path info rs \<Longrightarrow> thread_inv behind path info rs d0 {#} t'"
  by (induction turns arbitrary: t) (auto intro: turn_inv split: option.splits)

lemma turn_empties:
  assumes run: "trunk_write_thread_turn S behind pushed t = Some t'" and i: "thread_inv behind path info rs d0 (mset pushed + pend) t"
    and rs: "requests_ok behind path info rs"
  shows "tw_queue t' = []" "pushed = [] \<Longrightarrow> tw_queue t = [] \<Longrightarrow> tw_iobs t' = []"
proof -
  obtain cnt t1 where p: "pop_to_request_skiplist S (t\<lparr>tw_queue := tw_queue t @ pushed\<rparr>) = (cnt, t1)" by fastforce
  note p1 = pop_inv [OF i rs p]
  have ne: "tw_iovecs t1 \<noteq> [] \<longleftrightarrow> tw_iobs t1 \<noteq> []" "tw_continue t" using p1(1) i by (simp_all add: thread_inv_def batch_ok_def)
  show "tw_queue t' = []"
    using run p ne p1(2) batch_write_inv(4) [OF _ p1(1) rs] deal_request_skiplist_inv(2) [OF _ p1(1) rs]
    by (auto simp: trunk_write_thread_turn_def simp del: deal_request_skiplist.simps split: if_splits)
  assume "pushed = []" "tw_queue t = []"
  then have "cnt = 0" using p1(3) by simp
  then show "tw_iobs t' = []"
    using run p ne batch_write_inv(2) [OF _ p1(1) rs] by (auto simp: trunk_write_thread_turn_def split: if_splits)
qed

lemma thread_func_queue:
  "trunk_write_thread_func S behind turns t = Some t' \<Longrightarrow> thread_inv behind path info rs d0 (mset (concat turns) + pend) t \<Longrightarrow>
   requests_ok behind path info rs \<Longrightarrow> tw_queue t = [] \<Longrightarrow> tw_queue t' = [] \<and> thread_inv behind path info rs d0 pend t'"
proof (induction turns arbitrary: t)
  case (Cons pushed turns)
  obtain t1 where t1: "trunk_write_thread_turn S behind pushed t = Some t1" "trunk_write_thread_func S behind turns t1 = Some t'"
    using Cons.prems(1) by (auto split: option.splits)
  have i: "thread_inv behind path info rs d0 (mset pushed + (mset (concat turns) + pend)) t" using Cons.prems(2) by (simp add: add.assoc)
  show ?case by (rule Cons.IH [OF t1(2) turn_inv [OF t1(1) i Cons.prems(3)] Cons.prems(3) turn_empties(1) [OF t1(1) i Cons.prems(3)]])
qed simp

lemma idle_turn_reports_all:
  assumes run: "trunk_write_thread_func S behind (turns @ [[]]) (init_thread_context d0 sys) = Some t" and rs: "requests_ok behind path info (concat turns)"
    and skl: "tw_skiplist t = []"
  shows "mset (map fst (tw_notified t)) = mset (concat turns)"
proof -
  have append: "trunk_write_thread_func S behind (turns @ [[]]) u = Some t \<Longrightarrow>
      \<exists>t1. trunk_write_thread_func S behind turns u = Some t1 \<and> trunk_write_thread_turn S behind [] t1 = Some t" for u
    by (induction turns arbitrary: u) (auto split: option.splits)
  obtain t1 where t1: "trunk_write_thread_func S behind turns (init_thread_context d0 sys) = Some t1" "trunk_write_thread_turn S behind [] t1 = Some t"
    using append [OF run] by blast
  have i: "tw_queue t1 = []" "thread_inv behind path info (concat turns) d0 {#} t1"
    using thread_func_queue [OF t1(1) _ rs, of d0 "{#}"] by (simp_all add: init_thread_inv) (simp_all add: init_thread_context_def)
  have "thread_inv behind path info (concat turns) d0 {#} t" using turn_inv [OF t1(2) _ rs, of d0 "{#}"] i(2) by simp
  moreover have "tw_queue t = []" "tw_iobs t = []" using turn_empties [OF t1(2) _ rs, of d0 "{#}"] i by simp_all
  ultimately show ?thesis using skl by (simp add: thread_inv_def thread_requests_def)
qed

end

section \<open>A batch ends\<close>

text \<open>
  \<open>writev\<close> that goes on writing: every answer is a number of bytes or an interrupt. Each answer that is no interrupt writes a byte or passes an
  empty buffer, so as many of them as there are bytes and buffers are enough.
\<close>

abbreviation goes_on :: "int list \<Rightarrow> bool" where
  "goes_on sys \<equiv> \<forall>n\<in>set sys. n = - EINTR \<or> 0 < n"

abbreviation writes_in :: "int list \<Rightarrow> nat" where
  "writes_in sys \<equiv> length (filter (\<lambda>n. 0 < n) sys)"

definition iov_need :: "string list \<Rightarrow> nat" where
  "iov_need vs = length (concat vs) + length vs"

lemma iov_need_append: "iov_need (a @ b) = iov_need a + iov_need b"
  by (simp add: iov_need_def)

lemma iov_advance_need:
  assumes "vs \<noteq> []" "s \<le> n" "n \<le> s + int (length (concat vs))" "s < n \<or> concat vs = []"
  shows "iov_need (iov_advance vs s n) < iov_need vs"
  using assms
proof (induction vs arbitrary: s)
  case (Cons v vs)
  let ?s = "s + int (length v)"
  consider "?s = n" | (less) "n < ?s" | (more) "?s < n" by linarith
  then show ?case
  proof cases
    case less
    then have "length v - nat (?s - n) > 0" using Cons.prems by auto
    then show ?thesis using less by (simp add: Let_def iov_need_def)
  next
    case more
    then show ?thesis using Cons.IH [of ?s] Cons.prems by (cases "vs = []") (auto simp: Let_def iov_need_def)
  qed (simp add: Let_def iov_need_def)
qed simp

lemma write_iovec_ends:
  assumes "goes_on sys" "iov_need vs \<le> writes_in sys"
  shows "\<exists>rb' t'. write_iovec sys vs rb t = Some (0, rb', t') \<and> goes_on (tw_sys t') \<and> writes_in sys \<le> writes_in (tw_sys t') + iov_need vs"
  using assms
proof (induction sys arbitrary: vs rb t)
  case Nil
  then show ?case by (simp add: iov_need_def write_iovec.simps [of "[]"])
next
  case (Cons n ns)
  show ?case
  proof (cases "vs = []")
    case True
    then show ?thesis using Cons.prems by (simp add: write_iovec.simps [of "n # ns"] iov_need_def)
  next
    case vs: False
    show ?thesis
    proof (cases "n = - EINTR")
      case True
      then have "write_iovec (n # ns) vs rb t = write_iovec ns vs rb t" using vs by (subst write_iovec.simps) simp
      then show ?thesis using Cons.IH [of vs rb t] Cons.prems True by simp
    next
      case False
      then have n: "0 < n" "goes_on ns" using Cons.prems by auto
      let ?bytes = "take (nat n) (concat vs)"
      let ?vs = "iov_advance vs 0 (int (length ?bytes))"
      have less: "iov_need ?vs < iov_need vs"
        by (rule iov_advance_need) (use vs n in \<open>auto simp: min_def\<close>)
      then have "iov_need ?vs \<le> writes_in ns" using Cons.prems n by simp
      note ih = Cons.IH [OF n(2) this, of "rb - int (length ?bytes)" "fd_write ?bytes t"]
      show ?thesis
      proof (cases "rb - int (length ?bytes) = 0")
        case True
        then show ?thesis using False n vs less by (simp add: write_iovec.simps [of "n # ns"] Let_def)
      next
        case rb: False
        have "write_iovec (n # ns) vs rb t = write_iovec ns ?vs (rb - int (length ?bytes)) (fd_write ?bytes t)"
          using False n vs rb by (simp add: write_iovec.simps [of "n # ns"] Let_def del: length_take)
        then show ?thesis using ih less n by auto
      qed
    qed
  qed
qed

lemma write_chunks_ends:
  assumes "goes_on (tw_sys t)" "iov_need vs \<le> writes_in (tw_sys t)"
  shows "\<exists>rb' t'. write_chunks vs rb t = Some (0, rb', t')"
  using assms
proof (induction vs rb t rule: write_chunks.induct)
  case (1 vs rb t)
  show ?case
  proof (cases "vs = []")
    case False
    have need: "iov_need vs = iov_need (take IOV_MAX vs) + iov_need (drop IOV_MAX vs)" by (metis append_take_drop_id iov_need_append)
    then obtain rb1 t1 where w: "write_iovec (tw_sys t) (take IOV_MAX vs) rb t = Some (0, rb1, t1)" "goes_on (tw_sys t1)"
        "writes_in (tw_sys t) \<le> writes_in (tw_sys t1) + iov_need (take IOV_MAX vs)"
      using write_iovec_ends [OF "1.prems"(1), of "take IOV_MAX vs" rb t] "1.prems"(2) by auto
    then have "\<exists>rb' t'. write_chunks (drop IOV_MAX vs) rb1 t1 = Some (0, rb', t')"
      using "1.IH" [OF False w(1) refl refl _ w(2)] need "1.prems"(2) by simp
    then show ?thesis using w(1) False by (simp add: write_chunks.simps [of vs])
  qed (simp add: write_chunks.simps [of "[]"])
qed

text \<open>Two more calls at most, to open the file and to move to the place.\<close>

lemma do_write_slices_ends:
  assumes pos: "\<forall>n\<in>set (take 2 (tw_sys t)). 0 \<le> n" and more: "goes_on (tw_sys t)" "iov_need (tw_iovecs t) + 2 \<le> writes_in (tw_sys t)"
  shows "\<exists>t'. do_write_slices t = Some (0, t')"
proof -
  obtain a b ns where sys: "tw_sys t = a # b # ns" using more(2) by (cases "tw_sys t" rule: remdups_adj.cases) (auto split: if_splits)
  then have ab: "0 \<le> a" "0 \<le> b" using pos by auto
  have enough: "goes_on ns" "goes_on (b # ns)" "iov_need (tw_iovecs t) \<le> writes_in ns" "iov_need (tw_iovecs t) \<le> writes_in (b # ns)" using more sys by auto
  have fin: "\<exists>t'. (case write_chunks (tw_iovecs t) rb u of None \<Rightarrow> None | Some (r, rb', t3) \<Rightarrow> if r \<noteq> 0 then Some (r, f t3) else Some (0, g t3)) = Some (0, t')"
    if "tw_sys u \<in> {ns, b # ns, a # b # ns}" for rb u f g
  proof -
    have "\<exists>rb' t'. write_chunks (tw_iovecs t) rb u = Some (0, rb', t')" by (rule write_chunks_ends) (use that more sys enough in auto)
    then show ?thesis by auto
  qed
  show ?thesis
    unfolding do_write_slices_def get_write_fd_def sys_call_def Let_def
    by (cases "ti_id (ts_id_info (sl_space (io_slice (hd (tw_iobs t))))) = tw_trunk_id t"; cases "tw_offset t = ts_offset (sl_space (io_slice (hd (tw_iobs t))))";
        cases "0 = ts_offset (sl_space (io_slice (hd (tw_iobs t))))") (use ab in \<open>auto simp: sys intro!: fin\<close>)
qed

end
