(* ===== verification/Write_Thread_Properties.thy ===== *)
theory Write_Thread_Properties
  imports Write_Thread_Inv
begin

text \<open>
  The properties of the write threads: what is reported as written is on the disk, no request is lost or reported twice, and a batch
  ends when the system goes on writing.
\<close>

section \<open>Properties\<close>

text \<open>
  Property C3. A write reported as done is on the disk. Whatever the system answers, and however the requests are pushed, ordered, joined to
  batches and written in pieces: at a place that no other request of the thread touches, the disk has the byte of the slice after its success
  has been reported; a place that no request touches has its old byte. The slices' data fit their space, and the versions of the requests differ and
  are close enough for the comparison.\<close>
theorem reported_write_is_on_disk:
  assumes "version_skiplist S" "requests_ok behind path info (concat turns)"
    and "trunk_write_thread_func S behind turns (init_thread_context d0 sys) = Some t"
  shows "(\<forall>w p. (WRITE_SLICE w, 0) \<in> set (tw_notified t) \<and> req_touches (WRITE_SLICE w) p \<and>
             (\<forall>q\<in>set (concat turns). req_touches q p \<longrightarrow> q = WRITE_SLICE w) \<longrightarrow> tw_disk t p = req_byte behind w p) \<and>
         (\<forall>p. (\<forall>q\<in>set (concat turns). \<not> req_touches q p) \<longrightarrow> tw_disk t p = d0 p)"
proof -
  have "thread_inv behind path info (concat turns) d0 {#} t"
    using version_skiplist.thread_func_inv [OF assms(1,3) init_thread_inv assms(2)] by simp
  then have "disk_ok behind (concat turns) d0 (tw_notified t) (tw_disk t)" by (simp add: thread_inv_def)
  from disk_ok_written [OF this] disk_ok_outside [OF this] show ?thesis by blast
qed

text \<open>
  Property C13. No request of a write thread is lost and none is reported twice: when the thread has nothing to do any more, the requests reported are exactly
  those pushed (a request is set aside only when there was no memory for its buffers).\<close>
theorem write_requests_reported_once:
  assumes "version_skiplist S" "requests_ok behind path info (concat turns)"
    and "trunk_write_thread_func S behind (turns @ [[]]) (init_thread_context d0 sys) = Some t" "tw_skiplist t = []"
  shows "mset (map fst (tw_notified t)) = mset (concat turns)"
  using version_skiplist.idle_turn_reports_all [OF assms(1,3,2,4)] .

text \<open>
  Property C14. Writing a batch ends and succeeds when the system goes on writing: although \<open>writev\<close> may be interrupted and may write only a
  part, as many answers as there are bytes and buffers (and two, to open the file and to move to the place) are enough, and then every slice of the batch
  is reported as written and is on the disk.\<close>
theorem batch_write_ends:
  assumes "batch_ok behind path info t" "handle_ok path info t" "tw_iobs t \<noteq> []"
    and "\<forall>n\<in>set (take 2 (tw_sys t)). 0 \<le> n" "\<forall>n\<in>set (tw_sys t). n = - EINTR \<or> 0 < n"
    and "length (concat (tw_iovecs t)) + length (tw_iovecs t) + 2 \<le> length (filter (\<lambda>n. 0 < n) (tw_sys t))"
  shows "\<exists>t'. batch_write t = Some t' \<and> tw_notified t' = tw_notified t @ map (\<lambda>w. (WRITE_SLICE w, 0)) (tw_iobs t) \<and>
          tw_disk t' = fold (write_req behind) (tw_iobs t) (tw_disk t)"
proof -
  obtain t1 where t1: "do_write_slices t = Some (0, t1)" using do_write_slices_ends [OF assms(4,5)] assms(6) by (auto simp: iov_need_def)
  note ok = do_write_slices_ok [OF t1 assms(1-3)]
  then have "tw_disk t1 = fold (write_req behind) (tw_iobs t) (tw_disk t)"
    using batch_wrote_all [of behind path "tw_iobs t" "tw_disk t" "tw_disk t1" info] assms(1,3) by (simp add: batch_ok_def)
  then show ?thesis using t1 ok by (simp add: batch_write_def same_work_def)
qed

section \<open>Example\<close>

text \<open>Two successive slices, pushed in the wrong order and written with two calls of \<open>writev\<close>.\<close>

definition ex_wtrunk :: FSTrunkIdInfo where
  "ex_wtrunk = \<lparr>ti_id = 7, ti_subdir = 1\<rparr>"

definition ex_write :: "int \<Rightarrow> int \<Rightarrow> string \<Rightarrow> TrunkWriteIOBuffer" where
  "ex_write v off bytes = \<lparr>io_version = v,
     io_slice = \<lparr>sl_ptr = 1, sl_ob = 1, sl_type = OB_SLICE_TYPE_FILE, sl_ssize = \<lparr>ss_offset = off, ss_length = 3\<rparr>,
                 sl_space = \<lparr>ts_store = 0, ts_id_info = ex_wtrunk, ts_offset = off, ts_size = 4\<rparr>\<rparr>,
     io_data = IO_BUFF bytes\<rparr>"

abbreviation ex_w1 :: TrunkWriteIOBuffer where "ex_w1 \<equiv> ex_write 1 0 ''abc''"
abbreviation ex_w2 :: TrunkWriteIOBuffer where "ex_w2 \<equiv> ex_write 2 4 ''def''"
abbreviation ex_behind :: "TrunkWriteIOBuffer \<Rightarrow> string" where "ex_behind \<equiv> \<lambda>_. ''....''"
abbreviation ex_turns :: "write_request list list" where "ex_turns \<equiv> [[WRITE_SLICE ex_w2, WRITE_SLICE ex_w1]]"
abbreviation ex_disk :: disk where "ex_disk \<equiv> \<lambda>_. CHR ''?''"

lemma ex_requests_ok: "requests_ok ex_behind 0 (\<lambda>_. ex_wtrunk) (concat ex_turns)"
  by (auto simp: requests_ok_def in_window_def ex_write_def req_ok_def raw_bytes_def ex_wtrunk_def)

lemma ex_write_thread_run:
  "\<exists>t. trunk_write_thread_func (list_skiplist req_version) ex_behind (ex_turns @ [[]]) (init_thread_context ex_disk [0, 0, 3, 5, 3]) = Some t \<and>
     tw_notified t = [(WRITE_SLICE ex_w1, 0), (WRITE_SLICE ex_w2, 0)] \<and> tw_skiplist t = []"
  by (simp add: init_thread_context_def trunk_write_thread_turn_def pop_to_request_skiplist_def list_skiplist_def deal_request_def Let_def
      batch_full_def IOB_IS_SUCCESSIVE_def sys_call_def batch_write_def do_write_slices_def get_write_fd_def write_chunks.simps write_iovec.simps
      new_iovecs_def ex_write_def ex_wtrunk_def fd_write_def)

theorem reported_write_is_on_disk_witness:
  "\<exists>t. trunk_write_thread_func (list_skiplist req_version) ex_behind (ex_turns @ [[]]) (init_thread_context ex_disk [0, 0, 3, 5, 3]) = Some t \<and>
     tw_disk t (0, ex_wtrunk, 5) = CHR ''e'' \<and> tw_disk t (0, ex_wtrunk, 8) = CHR ''?''"
proof -
  obtain t where t: "trunk_write_thread_func (list_skiplist req_version) ex_behind (ex_turns @ [[]]) (init_thread_context ex_disk [0, 0, 3, 5, 3]) = Some t"
      "tw_notified t = [(WRITE_SLICE ex_w1, 0), (WRITE_SLICE ex_w2, 0)]"
    using ex_write_thread_run by blast
  have rs: "requests_ok ex_behind 0 (\<lambda>_. ex_wtrunk) (concat (ex_turns @ [[]]))" using ex_requests_ok by simp
  note r = reported_write_is_on_disk [OF list_versions.version_skiplist_axioms rs t(1)]
  have "tw_disk t (0, ex_wtrunk, 5) = req_byte ex_behind ex_w2 (0, ex_wtrunk, 5)"
    by (rule conjunct1 [OF r, rule_format]) (simp add: t(2) ex_write_def)
  moreover have "tw_disk t (0, ex_wtrunk, 8) = CHR ''?''"
    by (rule conjunct2 [OF r, rule_format]) (auto simp: ex_write_def)
  ultimately show ?thesis using t(1) by (simp add: req_bytes_def raw_bytes_def ex_write_def)
qed

theorem write_requests_reported_once_witness:
  "\<exists>t. trunk_write_thread_func (list_skiplist req_version) ex_behind (ex_turns @ [[]]) (init_thread_context ex_disk [0, 0, 3, 5, 3]) = Some t \<and>
     mset (map fst (tw_notified t)) = {#WRITE_SLICE ex_w2, WRITE_SLICE ex_w1#}"
proof -
  obtain t where t: "trunk_write_thread_func (list_skiplist req_version) ex_behind (ex_turns @ [[]]) (init_thread_context ex_disk [0, 0, 3, 5, 3]) = Some t"
      "tw_skiplist t = []"
    using ex_write_thread_run by blast
  show ?thesis using write_requests_reported_once [OF list_versions.version_skiplist_axioms ex_requests_ok t] t(1) by auto
qed

definition ex_batch :: TrunkWriteThreadContext where
  "ex_batch = (init_thread_context ex_disk [3, 1, - EINTR, 2, 1, 1, 1, 1, 1, 1, 1, 1, 1])
     \<lparr>tw_iobs := [ex_w1, ex_w2], tw_iovecs := [''abc.'', ''def.''], tw_iovec_bytes := 8\<rparr>"

theorem batch_write_ends_witness:
  "\<exists>t'. batch_write ex_batch = Some t' \<and> tw_notified t' = [(WRITE_SLICE ex_w1, 0), (WRITE_SLICE ex_w2, 0)]"
proof -
  have "batch_ok ex_behind 0 (\<lambda>_. ex_wtrunk) ex_batch"
    by (simp add: batch_ok_def ex_batch_def init_thread_context_def req_ok_def raw_bytes_def req_bytes_def IOB_IS_SUCCESSIVE_def ex_write_def ex_wtrunk_def)
  moreover have "handle_ok 0 (\<lambda>_. ex_wtrunk) ex_batch" by (simp add: handle_ok_def ex_batch_def init_thread_context_def)
  ultimately have "\<exists>t'. batch_write ex_batch = Some t' \<and> tw_notified t' = tw_notified ex_batch @ map (\<lambda>w. (WRITE_SLICE w, 0)) (tw_iobs ex_batch) \<and>
      tw_disk t' = fold (write_req ex_behind) (tw_iobs ex_batch) (tw_disk ex_batch)"
    by (rule batch_write_ends) (simp_all add: ex_batch_def init_thread_context_def)
  then show ?thesis by (auto simp: ex_batch_def init_thread_context_def)
qed

end
