(* ===== verification/Master_Election.thy ===== *)
theory Master_Election
  imports FC_Contracts
begin

text \<open>
  The choice of a master for each data group by the leader of the cluster (\<open>src/server/master_election.c\<close>): groups without a master wait in a queue, a thread takes them
  out and selects a master; a group for which it is too early goes to a second queue, which the leader
  empties every second.

  A data server is named by its position in \<open>data_server_array\<close> of its group, a group by its position in the array of groups. The status of the servers is read once per
  selection. \<open>qsort\<close> is an argument with the contract \<open>qsort_contract\<close>. The notifications on a change of the master are collected in \<open>me_changes\<close>.
  \<open>mem k\<close> tells whether the \<open>k\<close>-th push to a queue gets its memory.
\<close>

section \<open>Data\<close>

abbreviation (input) FS_SERVER_STATUS_OFFLINE :: int where "FS_SERVER_STATUS_OFFLINE \<equiv> 0"
abbreviation (input) FS_SERVER_STATUS_ONLINE :: int where "FS_SERVER_STATUS_ONLINE \<equiv> 1"
abbreviation (input) FS_SERVER_STATUS_ACTIVE :: int where "FS_SERVER_STATUS_ACTIVE \<equiv> 2"
abbreviation (input) OFFLINE_WAIT_TIMEOUT :: int where "OFFLINE_WAIT_TIMEOUT \<equiv> 5"
abbreviation (input) ONLINE_WAIT_TIMEOUT :: int where "ONLINE_WAIT_TIMEOUT \<equiv> 30"

record FSClusterServerInfo =
  cs_status :: int
  cs_status_changed_time :: int
  cs_last_ping_time :: int

record FSClusterDataServerInfo =
  ds_cs :: nat
  ds_is_preseted :: bool
  ds_is_master :: bool
  ds_data_version :: int

record FSClusterDataGroupInfo =
  dg_hash_code :: int
  dg_in_queue :: bool
  dg_in_delay_queue :: bool
  dg_retry_count :: int
  dg_start_time_ms :: int
  dg_servers :: "FSClusterDataServerInfo list"
  dg_ds_ptr_array :: "nat list"
  dg_myself :: "nat option"
  dg_master :: "nat option"

record FSMasterElectionContext =
  me_groups :: "FSClusterDataGroupInfo list"
  me_servers :: "nat \<Rightarrow> FSClusterServerInfo"
  me_is_running :: bool
  me_waiting_count :: int
  me_queue :: "nat list"
  me_delay_queue :: "nat list"
  me_changes :: "(nat \<times> nat option \<times> nat option) list"
  me_calls :: nat

text \<open>\<open>FS_MASTER_ELECTION_POLICY_STRICT_INT\<close> and \<open>FS_MASTER_ELECTION_POLICY_TIMEOUT_INT\<close>.\<close>

datatype election_policy = POLICY_STRICT | POLICY_TIMEOUT

record election_cfg =
  ec_failover :: bool
  ec_policy :: election_policy
  ec_timeouts :: int
  ec_myself :: nat
  ec_is_leader :: bool

record clock =
  ck_now :: int
  ck_now_ms :: int

type_synonym sort_fun = "nat qsort_fun"

section \<open>Selecting a master\<close>

definition compare_ds_by_data_version :: "(nat \<Rightarrow> FSClusterServerInfo) \<Rightarrow> FSClusterDataServerInfo \<Rightarrow> FSClusterDataServerInfo \<Rightarrow> int" where
  "compare_ds_by_data_version cs ds1 ds2 =
     (if ds_data_version ds1 < ds_data_version ds2 then - 1
      else if ds_data_version ds1 > ds_data_version ds2 then 1
      else if cs_status (cs (ds_cs ds1)) \<noteq> cs_status (cs (ds_cs ds2)) then cs_status (cs (ds_cs ds1)) - cs_status (cs (ds_cs ds2))
      else if ds_is_preseted ds1 \<noteq> ds_is_preseted ds2 then of_bool (ds_is_preseted ds1) - of_bool (ds_is_preseted ds2)
      else of_bool (ds_is_master ds1) - of_bool (ds_is_master ds2))"

text \<open>The first preset server, or the first of all.\<close>

definition get_preseted_master :: "FSClusterDataGroupInfo \<Rightarrow> nat" where
  "get_preseted_master dg = (case find (\<lambda>i. ds_is_preseted (dg_servers dg ! i)) [0..<length (dg_servers dg)] of Some i \<Rightarrow> i | None \<Rightarrow> 0)"

definition IS_SERVER_TIMEDOUT :: "int \<Rightarrow> FSClusterServerInfo \<Rightarrow> int \<Rightarrow> int \<Rightarrow> bool" where
  "IS_SERVER_TIMEDOUT now cs election_start_time timeout \<longleftrightarrow>
     now - (if cs_status_changed_time cs > 0 then min (cs_status_changed_time cs) election_start_time else election_start_time) \<ge> timeout"

text \<open>
  The counters of the loop over the servers: active servers that have reported, servers to wait for, and the variable \<open>timeout\<close>, which the code uses after the
  loop with the value of the last server that is not active. \<open>None\<close>: an active server has not been heard of for too long.
\<close>

record election_counts =
  ct_active :: nat
  ct_waiting_report :: nat
  ct_waiting_online :: nat
  ct_waiting_offline :: nat
  ct_timeout :: int

fun count_servers :: "int \<Rightarrow> int \<Rightarrow> FSClusterServerInfo list \<Rightarrow> election_counts \<Rightarrow> election_counts option" where
  "count_servers now start [] k = Some k"
| "count_servers now start (cs # css) k =
     (if cs_status cs = FS_SERVER_STATUS_ACTIVE then
        if cs_last_ping_time cs \<ge> start then count_servers now start css (k\<lparr>ct_active := Suc (ct_active k)\<rparr>)
        else if now - cs_last_ping_time cs \<le> ONLINE_WAIT_TIMEOUT + 5
        then count_servers now start css (k\<lparr>ct_waiting_report := Suc (ct_waiting_report k)\<rparr>)
        else None
      else if cs_status cs = FS_SERVER_STATUS_ONLINE
      then count_servers now start css (k\<lparr>ct_timeout := ONLINE_WAIT_TIMEOUT,
             ct_waiting_online := ct_waiting_online k + (if IS_SERVER_TIMEDOUT now cs start ONLINE_WAIT_TIMEOUT then 0 else 1)\<rparr>)
      else count_servers now start css (k\<lparr>ct_timeout := OFFLINE_WAIT_TIMEOUT,
             ct_waiting_offline := ct_waiting_offline k + (if IS_SERVER_TIMEDOUT now cs start OFFLINE_WAIT_TIMEOUT then 0 else 1)\<rparr>))"

text \<open>The part of \<open>select_master\<close> after the counting: \<open>k\<close> are the counters, \<open>ptrs\<close> the sorted array.\<close>

definition choose_master :: "election_cfg \<Rightarrow> int \<Rightarrow> int \<Rightarrow> (nat \<Rightarrow> FSClusterServerInfo) \<Rightarrow> election_counts \<Rightarrow> nat list \<Rightarrow> FSClusterDataGroupInfo \<Rightarrow>
    int \<times> nat option" where
  "choose_master cfg now start cs k ptrs dg =
     (let srv = (\<lambda>i. dg_servers dg ! i); st = (\<lambda>i. cs_status (cs (ds_cs (srv i)))); n = length (dg_servers dg); lst = last ptrs;
          timeout = (if st lst = FS_SERVER_STATUS_ACTIVE then ct_timeout k
                     else if st lst = FS_SERVER_STATUS_ONLINE then ONLINE_WAIT_TIMEOUT * 3 else OFFLINE_WAIT_TIMEOUT * 3)
      in if st lst = FS_SERVER_STATUS_ACTIVE \<and> (ds_is_preseted (srv lst) \<or> ct_active k = length ptrs) then (0, Some lst)
         else if \<not> IS_SERVER_TIMEDOUT now (cs (ds_cs (srv lst))) start timeout then (EAGAIN, None)
         else
           (case find (\<lambda>i. st i = FS_SERVER_STATUS_ACTIVE) (rev [0..<Suc lst]) of
              None \<Rightarrow> (ENOENT, None)
            | Some i \<Rightarrow>
                (let max_data_version = ds_data_version (srv i)
                 in if max_data_version < ds_data_version (srv lst) \<and>
                       (ec_policy cfg = POLICY_STRICT \<or> \<not> IS_SERVER_TIMEDOUT now (cs (ds_cs (srv lst))) start (ec_timeouts cfg))
                    then (EAGAIN, None)
                    else
                      (let online = filter (\<lambda>i. st i = FS_SERVER_STATUS_ACTIVE \<and> ds_data_version (srv i) \<ge> max_data_version) [0..<n]
                       in if online = [] then (ENOENT, None)
                          else if length online = n then (0, Some lst)
                          else (let ds = online ! nat (dg_hash_code dg mod int (length online))
                                in if st ds = FS_SERVER_STATUS_ACTIVE then (0, Some ds) else (EAGAIN, None))))))"

text \<open>The first attempt notes the time.\<close>

definition election_start :: "election_cfg \<Rightarrow> clock \<Rightarrow> (nat \<Rightarrow> FSClusterServerInfo) \<Rightarrow> FSClusterDataGroupInfo \<Rightarrow> (nat \<Rightarrow> FSClusterServerInfo) \<times> FSClusterDataGroupInfo" where
  "election_start cfg ck cs dg =
     (if dg_start_time_ms dg = 0
      then (if ec_is_leader cfg \<and> dg_myself dg \<noteq> None
            then cs(ec_myself cfg := (cs (ec_myself cfg))\<lparr>cs_last_ping_time := ck_now ck + 1\<rparr>) else cs,
            dg\<lparr>dg_start_time_ms := ck_now_ms ck, dg_retry_count := 1\<rparr>)
      else (cs, dg\<lparr>dg_retry_count := dg_retry_count dg + 1\<rparr>))"

definition sort_servers :: "sort_fun \<Rightarrow> (nat \<Rightarrow> FSClusterServerInfo) \<Rightarrow> FSClusterDataGroupInfo \<Rightarrow> nat list" where
  "sort_servers qs cs dg =
     (if length (dg_ds_ptr_array dg) > 1
      then qs (\<lambda>i j. compare_ds_by_data_version cs (dg_servers dg ! i) (dg_servers dg ! j)) (dg_ds_ptr_array dg)
      else dg_ds_ptr_array dg)"

definition select_master :: "sort_fun \<Rightarrow> election_cfg \<Rightarrow> clock \<Rightarrow> int \<Rightarrow> (nat \<Rightarrow> FSClusterServerInfo) \<Rightarrow> FSClusterDataGroupInfo \<Rightarrow>
    int \<times> nat option \<times> (nat \<Rightarrow> FSClusterServerInfo) \<times> FSClusterDataGroupInfo" where
  "select_master qs cfg ck junk cs dg =
     (case election_start cfg ck cs dg of (cs1, g1) \<Rightarrow>
      let start = dg_start_time_ms g1 div 1000
      in if \<not> ec_failover cfg then
           (let ds = get_preseted_master g1
            in if cs_status (cs1 (ds_cs (dg_servers g1 ! ds))) = FS_SERVER_STATUS_ACTIVE then (0, Some ds, cs1, g1) else (EAGAIN, None, cs1, g1))
         else
           (case count_servers (ck_now ck) start (map (\<lambda>ds. cs1 (ds_cs ds)) (dg_servers g1))
                   \<lparr>ct_active = 0, ct_waiting_report = 0, ct_waiting_online = 0, ct_waiting_offline = 0, ct_timeout = junk\<rparr> of
              None \<Rightarrow> (EAGAIN, None, cs1, g1\<lparr>dg_start_time_ms := 0, dg_retry_count := 0\<rparr>)
            | Some k \<Rightarrow>
                if ct_active k = 0 \<or> ct_waiting_report k + ct_waiting_online k + ct_waiting_offline k > 0 then (EAGAIN, None, cs1, g1)
                else
                  (let ptrs = sort_servers qs cs1 g1;
                       g2 = g1\<lparr>dg_ds_ptr_array := ptrs\<rparr>
                   in case choose_master cfg (ck_now ck) start cs1 k ptrs g2 of (result, ds) \<Rightarrow> (result, ds, cs1, g2))))"

section \<open>The queues\<close>

definition upd_group :: "nat \<Rightarrow> (FSClusterDataGroupInfo \<Rightarrow> FSClusterDataGroupInfo) \<Rightarrow> FSMasterElectionContext \<Rightarrow> FSMasterElectionContext" where
  "upd_group g f ctx = ctx\<lparr>me_groups := (me_groups ctx)[g := f (me_groups ctx ! g)]\<rparr>"

definition set_is_master :: "nat \<Rightarrow> bool \<Rightarrow> FSClusterDataGroupInfo \<Rightarrow> FSClusterDataGroupInfo" where
  "set_is_master i b dg = dg\<lparr>dg_servers := (dg_servers dg)[i := (dg_servers dg ! i)\<lparr>ds_is_master := b\<rparr>]\<rparr>"

definition take_mem :: "(nat \<Rightarrow> bool) \<Rightarrow> FSMasterElectionContext \<Rightarrow> bool \<times> FSMasterElectionContext" where
  "take_mem mem ctx = (mem (me_calls ctx), ctx\<lparr>me_calls := Suc (me_calls ctx)\<rparr>)"

text \<open>The compare-and-swap of the flag and the push; the flag stays set when the push fails.\<close>

definition master_election_push_to_delay_queue :: "(nat \<Rightarrow> bool) \<Rightarrow> nat \<Rightarrow> FSMasterElectionContext \<Rightarrow> int \<times> FSMasterElectionContext" where
  "master_election_push_to_delay_queue mem g ctx =
     (if dg_in_delay_queue (me_groups ctx ! g) then (0, ctx)
      else (case take_mem mem (upd_group g (\<lambda>x. x\<lparr>dg_in_delay_queue := True\<rparr>) ctx) of (ok, ctx1) \<Rightarrow>
              if ok then (0, ctx1\<lparr>me_delay_queue := me_delay_queue ctx1 @ [g]\<rparr>) else (ENOMEM, ctx1)))"

definition master_election_thread_start :: "FSMasterElectionContext \<Rightarrow> FSMasterElectionContext" where
  "master_election_thread_start ctx = ctx\<lparr>me_is_running := True\<rparr>"

definition master_election_queue_push :: "(nat \<Rightarrow> bool) \<Rightarrow> nat \<Rightarrow> FSMasterElectionContext \<Rightarrow> int \<times> FSMasterElectionContext" where
  "master_election_queue_push mem g ctx0 =
     (let ctx = (if \<not> me_is_running ctx0 then master_election_thread_start ctx0 else ctx0)
      in if dg_in_queue (me_groups ctx ! g) then (0, ctx)
         else (case take_mem mem (upd_group g (\<lambda>x. x\<lparr>dg_in_queue := True\<rparr>) ctx) of (ok, ctx1) \<Rightarrow>
                 if ok then (0, ctx1\<lparr>me_queue := me_queue ctx1 @ [g], me_waiting_count := me_waiting_count ctx1 + 1\<rparr>) else (ENOMEM, ctx1)))"

definition unset_master :: "(nat \<Rightarrow> bool) \<Rightarrow> nat \<Rightarrow> FSMasterElectionContext \<Rightarrow> FSMasterElectionContext" where
  "unset_master mem g ctx =
     (let ctx1 = (case dg_master (me_groups ctx ! g) of
                    None \<Rightarrow> ctx
                  | Some m \<Rightarrow> upd_group g (\<lambda>x. set_is_master m False (x\<lparr>dg_master := None\<rparr>)) (ctx\<lparr>me_changes := me_changes ctx @ [(g, Some m, None)]\<rparr>))
      in if length (dg_servers (me_groups ctx1 ! g)) = 1 then snd (master_election_queue_push mem g ctx1)
         else snd (master_election_push_to_delay_queue mem g ctx1))"

definition master_election_unset_all_masters :: "(nat \<Rightarrow> bool) \<Rightarrow> FSMasterElectionContext \<Rightarrow> FSMasterElectionContext" where
  "master_election_unset_all_masters mem ctx = fold (unset_master mem) [0..<length (me_groups ctx)] ctx"

definition master_election_select_master :: "sort_fun \<Rightarrow> election_cfg \<Rightarrow> clock \<Rightarrow> int \<Rightarrow> nat \<Rightarrow> FSMasterElectionContext \<Rightarrow> int \<times> FSMasterElectionContext" where
  "master_election_select_master qs cfg ck junk g ctx =
     (if dg_master (me_groups ctx ! g) \<noteq> None then (0, ctx)
      else (case select_master qs cfg ck junk (me_servers ctx) (me_groups ctx ! g) of (result, ds, cs, dg) \<Rightarrow>
              (let ctx1 = upd_group g (\<lambda>_. dg) (ctx\<lparr>me_servers := cs\<rparr>)
               in case ds of
                    None \<Rightarrow> (result, ctx1)
                  | Some m \<Rightarrow>
                      (0, upd_group g (\<lambda>x. set_is_master m True (x\<lparr>dg_master := Some m, dg_start_time_ms := 0, dg_retry_count := 0\<rparr>))
                            (ctx1\<lparr>me_changes := me_changes ctx1 @ [(g, None, Some m)]\<rparr>)))))"

text \<open>What the thread does with a group it has taken from the queue, in the two parts that other threads may run between.\<close>

definition select_thread_pop :: "FSMasterElectionContext \<Rightarrow> (nat \<times> FSMasterElectionContext) option" where
  "select_thread_pop ctx =
     (case me_queue ctx of
        [] \<Rightarrow> None
      | g # q \<Rightarrow> Some (g, upd_group g (\<lambda>x. x\<lparr>dg_in_queue := False\<rparr>) (ctx\<lparr>me_queue := q, me_waiting_count := me_waiting_count ctx - 1\<rparr>)))"

definition select_thread_deal :: "sort_fun \<Rightarrow> (nat \<Rightarrow> bool) \<Rightarrow> election_cfg \<Rightarrow> clock \<Rightarrow> int \<Rightarrow> nat \<Rightarrow> FSMasterElectionContext \<Rightarrow> FSMasterElectionContext" where
  "select_thread_deal qs mem cfg ck junk g ctx =
     (case master_election_select_master qs cfg ck junk g ctx of (result, ctx1) \<Rightarrow>
        if result = EAGAIN then snd (master_election_push_to_delay_queue mem g ctx1) else ctx1)"

text \<open>The thread, for the clock at each of its turns; it ends when the queue stays empty or the server is no leader any more.\<close>

fun select_master_thread_run :: "sort_fun \<Rightarrow> (nat \<Rightarrow> bool) \<Rightarrow> election_cfg \<Rightarrow> (clock \<times> int) list \<Rightarrow> FSMasterElectionContext \<Rightarrow> FSMasterElectionContext" where
  "select_master_thread_run qs mem cfg [] ctx = ctx"
| "select_master_thread_run qs mem cfg ((ck, junk) # turns) ctx =
     (case (if ec_is_leader cfg then select_thread_pop ctx else None) of
        None \<Rightarrow> ctx\<lparr>me_is_running := False\<rparr>
      | Some (g, ctx1) \<Rightarrow> select_master_thread_run qs mem cfg turns (select_thread_deal qs mem cfg ck junk g ctx1))"

text \<open>A group of the second queue: first it is pushed to the queue, then its flag is cleared.\<close>

definition delay_requeue :: "(nat \<Rightarrow> bool) \<Rightarrow> nat \<Rightarrow> FSMasterElectionContext \<Rightarrow> FSMasterElectionContext" where
  "delay_requeue mem g ctx = (if dg_master (me_groups ctx ! g) = None then snd (master_election_queue_push mem g ctx) else ctx)"

definition delay_clear :: "nat \<Rightarrow> FSMasterElectionContext \<Rightarrow> FSMasterElectionContext" where
  "delay_clear g ctx = upd_group g (\<lambda>x. x\<lparr>dg_in_delay_queue := False\<rparr>) ctx"

definition delay_pop_all :: "FSMasterElectionContext \<Rightarrow> nat list \<times> FSMasterElectionContext" where
  "delay_pop_all ctx = (me_delay_queue ctx, ctx\<lparr>me_delay_queue := []\<rparr>)"

definition master_election_deal_delay_queue :: "(nat \<Rightarrow> bool) \<Rightarrow> FSMasterElectionContext \<Rightarrow> FSMasterElectionContext" where
  "master_election_deal_delay_queue mem ctx =
     (case delay_pop_all ctx of (gs, ctx1) \<Rightarrow>
        (let ctx2 = fold (\<lambda>g ctx. delay_clear g (delay_requeue mem g ctx)) gs ctx1
         in if me_waiting_count ctx2 > 0 \<and> \<not> me_is_running ctx2 then master_election_thread_start ctx2 else ctx2))"

end
