(* ===== verification/Master_Election_Properties.thy ===== *)
theory Master_Election_Properties
  imports Master_Election
begin

text \<open>
  The properties of the election of masters: who is elected, that a group has one master at a time, and the runs in which a group is left without a master or gets one
  with old data.
\<close>

section \<open>The order of the servers\<close>

lemma compare_ds_le:
  "compare_ds_by_data_version cs a b \<le> 0 \<longleftrightarrow>
     ds_data_version a < ds_data_version b \<or> ds_data_version a = ds_data_version b \<and>
     (cs_status (cs (ds_cs a)) < cs_status (cs (ds_cs b)) \<or> cs_status (cs (ds_cs a)) = cs_status (cs (ds_cs b)) \<and>
      (\<not> ds_is_preseted a \<and> ds_is_preseted b \<or> ds_is_preseted a = ds_is_preseted b \<and> (ds_is_master a \<longrightarrow> ds_is_master b)))"
  by (auto simp: compare_ds_by_data_version_def)

lemma compare_ds_total: "compare_ds_by_data_version cs a b \<le> 0 \<or> compare_ds_by_data_version cs b a \<le> 0"
  unfolding compare_ds_le by linarith

lemma compare_ds_trans:
  "compare_ds_by_data_version cs a b \<le> 0 \<Longrightarrow> compare_ds_by_data_version cs b c \<le> 0 \<Longrightarrow> compare_ds_by_data_version cs a c \<le> 0"
  unfolding compare_ds_le by auto

section \<open>Groups\<close>

text \<open>The array of pointers has every server of the group once; versions are not negative.\<close>

definition group_ok :: "FSClusterDataGroupInfo \<Rightarrow> bool" where
  "group_ok dg \<longleftrightarrow> dg_servers dg \<noteq> [] \<and> mset (dg_ds_ptr_array dg) = mset [0..<length (dg_servers dg)]"

abbreviation active :: "(nat \<Rightarrow> FSClusterServerInfo) \<Rightarrow> FSClusterDataGroupInfo \<Rightarrow> nat \<Rightarrow> bool" where
  "active cs dg i \<equiv> cs_status (cs (ds_cs (dg_servers dg ! i))) = FS_SERVER_STATUS_ACTIVE"

abbreviation version_of :: "FSClusterDataGroupInfo \<Rightarrow> nat \<Rightarrow> int" where
  "version_of dg i \<equiv> ds_data_version (dg_servers dg ! i)"

definition newest :: "FSClusterDataGroupInfo \<Rightarrow> nat \<Rightarrow> bool" where
  "newest dg i \<longleftrightarrow> i < length (dg_servers dg) \<and> (\<forall>j<length (dg_servers dg). version_of dg j \<le> version_of dg i)"

lemma get_preseted_master_less: "dg_servers dg \<noteq> [] \<Longrightarrow> get_preseted_master dg < length (dg_servers dg)"
  by (auto simp: get_preseted_master_def find_Some_iff split: option.splits)

lemma choose_master_ok:
  assumes run: "choose_master cfg now start cs k ptrs dg = (r, Some i)" and lst: "newest dg (last ptrs)"
    and all: "ct_active k = length ptrs \<longrightarrow> (\<forall>j<length (dg_servers dg). active cs dg j)"
  shows "r = 0 \<and> i < length (dg_servers dg) \<and> active cs dg i \<and>
    (newest dg i \<or> ec_policy cfg = POLICY_TIMEOUT \<and> (\<exists>j. newest dg j \<and> \<not> active cs dg j \<and>
       IS_SERVER_TIMEDOUT now (cs (ds_cs (dg_servers dg ! j))) start (ec_timeouts cfg)))"
proof -
  let ?n = "length (dg_servers dg)" and ?l = "last ptrs"
  have l: "?l < ?n" using lst by (simp add: newest_def)
  show ?thesis
  proof (cases "active cs dg ?l \<and> (ds_is_preseted (dg_servers dg ! ?l) \<or> ct_active k = length ptrs)")
    case True
    then have "r = 0" "i = ?l" using run by (auto simp: choose_master_def Let_def split: if_splits)
    then show ?thesis using True lst l by simp
  next
    case False
    then obtain m where m: "find (active cs dg) (rev [0..<Suc ?l]) = Some m"
      using run by (auto simp: choose_master_def Let_def simp del: upt_Suc split: if_splits option.splits)
    then have act_m: "active cs dg m" "m < ?n" using l by (auto simp: find_Some_iff rev_nth simp del: upt_Suc)
    let ?on = "filter (\<lambda>i. active cs dg i \<and> version_of dg m \<le> version_of dg i) [0..<?n]"
    have guard: "\<not> (version_of dg m < version_of dg ?l \<and>
        (ec_policy cfg = POLICY_STRICT \<or> \<not> IS_SERVER_TIMEDOUT now (cs (ds_cs (dg_servers dg ! ?l))) start (ec_timeouts cfg)))"
      and res: "r = 0" "i = (if length ?on = ?n then ?l else ?on ! nat (dg_hash_code dg mod int (length ?on)))"
      using run False m by (auto simp: choose_master_def Let_def simp del: upt_Suc split: if_splits)
    have ne: "?on \<noteq> []" using act_m by (auto simp: filter_empty_conv)
    have "i \<in> set ?on"
    proof (cases "length ?on = ?n")
      case True
      have "active cs dg ?l \<and> version_of dg m \<le> version_of dg ?l"
      proof (rule ccontr)
        assume "\<not> (active cs dg ?l \<and> version_of dg m \<le> version_of dg ?l)"
        then have "length ?on < length [0..<?n]" by (intro length_filter_less [of ?l]) (use l in auto)
        then show False using True by simp
      qed
      then have "?l \<in> set ?on" using l by simp
      then show ?thesis using res True by simp
    next
      case False
      have "nat (dg_hash_code dg mod int (length ?on)) < length ?on" using ne by (simp add: nat_less_iff)
      then have "?on ! nat (dg_hash_code dg mod int (length ?on)) \<in> set ?on" by (rule nth_mem)
      then show ?thesis using res(2) False by simp
    qed
    then have i: "i < ?n" "active cs dg i" "version_of dg m \<le> version_of dg i" by auto
    show ?thesis
    proof (cases "version_of dg m < version_of dg ?l")
      case True
      then have "?l \<noteq> m" by auto
      have "\<not> active cs dg ?l"
      proof
        assume "active cs dg ?l"
        then have "find (active cs dg) (rev [0..<Suc ?l]) = Some ?l" by simp
        then show False using m \<open>?l \<noteq> m\<close> by simp
      qed
      then show ?thesis using guard True i res(1) lst by (cases "ec_policy cfg") auto
    next
      case old: False
      then have "newest dg i" using lst i unfolding newest_def by force
      then show ?thesis using i res(1) by simp
    qed
  qed
qed

lemma count_servers_active:
  "count_servers now start css k = Some k' \<Longrightarrow> ct_active k' \<le> ct_active k + length css \<and>
   (ct_active k' = ct_active k + length css \<longrightarrow> (\<forall>cs\<in>set css. cs_status cs = FS_SERVER_STATUS_ACTIVE))"
  by (induction css arbitrary: k) (fastforce split: if_splits)+

text \<open>The sort of the pointers to servers.\<close>

locale ds_sort = qsort_contract qs for qs :: sort_fun

interpretation list_ds: ds_sort list_qsort
  by (rule ds_sort.intro [OF list_qs.qsort_contract_axioms])

text \<open>What \<open>select_master\<close> leaves of the group: only the times and the order of the pointers change.\<close>

definition same_group :: "FSClusterDataGroupInfo \<Rightarrow> FSClusterDataGroupInfo \<Rightarrow> bool" where
  "same_group a b \<longleftrightarrow> dg_servers b = dg_servers a \<and> dg_master b = dg_master a \<and> dg_in_queue b = dg_in_queue a \<and>
     dg_in_delay_queue b = dg_in_delay_queue a \<and> mset (dg_ds_ptr_array b) = mset (dg_ds_ptr_array a)"

context ds_sort
begin

lemma sort_servers_mset: "mset (sort_servers qs cs dg) = mset (dg_ds_ptr_array dg)"
  by (simp add: sort_servers_def perm)

lemma election_start_same: "election_start cfg ck cs dg = (cs1, g1) \<Longrightarrow> same_group dg g1"
  by (auto simp: election_start_def same_group_def split: if_splits)

lemma select_master_same:
  assumes "select_master qs cfg ck junk cs dg = (r, ds, cs', dg')"
  shows "same_group dg dg'"
proof -
  obtain cs1 g1 where s: "election_start cfg ck cs dg = (cs1, g1)" by fastforce
  then have "dg' = g1 \<or> dg' = g1\<lparr>dg_start_time_ms := 0, dg_retry_count := 0\<rparr> \<or> dg' = g1\<lparr>dg_ds_ptr_array := sort_servers qs cs1 g1\<rparr>"
    using assms by (auto simp: select_master_def Let_def split: if_splits option.splits prod.splits)
  then show ?thesis using election_start_same [OF s] by (auto simp: same_group_def sort_servers_mset)
qed

lemma sort_servers_newest:
  assumes "group_ok dg"
  shows "newest dg (last (sort_servers qs cs dg))" "length (sort_servers qs cs dg) = length (dg_servers dg)"
proof -
  let ?ptrs = "sort_servers qs cs dg" and ?cmp = "\<lambda>i j. compare_ds_by_data_version cs (dg_servers dg ! i) (dg_servers dg ! j)"
  have m: "mset ?ptrs = mset [0..<length (dg_servers dg)]" using assms by (simp add: group_ok_def sort_servers_mset)
  have set_p: "set ?ptrs = {..<length (dg_servers dg)}" using mset_eq_setD [OF m] by (simp add: atLeast0LessThan)
  show len: "length ?ptrs = length (dg_servers dg)" using mset_eq_length [OF m] by simp
  have ne: "?ptrs \<noteq> []" using assms len by (auto simp: group_ok_def)
  have srt: "sorted_wrt (\<lambda>a b. ?cmp a b \<le> 0) ?ptrs"
  proof (cases "length (dg_ds_ptr_array dg) > 1")
    case True
    then show ?thesis using sorted [of ?cmp, OF compare_ds_total compare_ds_trans] by (simp add: sort_servers_def)
  next
    case False
    then show ?thesis by (cases "dg_ds_ptr_array dg") (simp_all add: sort_servers_def)
  qed
  show "newest dg (last ?ptrs)" unfolding newest_def
  proof (intro conjI allI impI)
    show "last ?ptrs < length (dg_servers dg)" using last_in_set [OF ne] set_p by simp
    fix j assume "j < length (dg_servers dg)"
    then have "j = last ?ptrs \<or> ?cmp j (last ?ptrs) \<le> 0" using sorted_wrt_last [OF srt, of j] set_p by simp
    then show "version_of dg j \<le> version_of dg (last ?ptrs)" by (auto simp: compare_ds_le)
  qed
qed

lemma select_master_ok:
  assumes run: "select_master qs cfg ck junk cs dg = (r, Some i, cs', dg')" and g: "group_ok dg"
  shows "r = 0 \<and> i < length (dg_servers dg) \<and> active cs' dg i \<and>
    (ec_failover cfg \<longrightarrow> newest dg i \<or> ec_policy cfg = POLICY_TIMEOUT \<and> (\<exists>j. newest dg j \<and> \<not> active cs' dg j \<and>
       IS_SERVER_TIMEDOUT (ck_now ck) (cs' (ds_cs (dg_servers dg ! j))) (dg_start_time_ms dg' div 1000) (ec_timeouts cfg)))"
proof (cases "ec_failover cfg")
  case False
  have "dg_servers dg \<noteq> []" using g by (simp add: group_ok_def)
  moreover obtain cs1 g1 where s: "election_start cfg ck cs dg = (cs1, g1)" by fastforce
  ultimately show ?thesis using run False get_preseted_master_less [of g1] election_start_same [OF s]
    by (auto simp: select_master_def Let_def same_group_def split: if_splits)
next
  case True
  obtain cs1 g1 where s: "election_start cfg ck cs dg = (cs1, g1)" by fastforce
  let ?start = "dg_start_time_ms g1 div 1000" and ?ptrs = "sort_servers qs cs1 g1"
  let ?g2 = "g1\<lparr>dg_ds_ptr_array := ?ptrs\<rparr>"
  obtain k where k: "count_servers (ck_now ck) ?start (map (\<lambda>ds. cs1 (ds_cs ds)) (dg_servers g1))
      \<lparr>ct_active = 0, ct_waiting_report = 0, ct_waiting_online = 0, ct_waiting_offline = 0, ct_timeout = junk\<rparr> = Some k"
    and c: "choose_master cfg (ck_now ck) ?start cs1 k ?ptrs ?g2 = (r, Some i)"
    and out: "cs' = cs1" "dg' = ?g2"
    using run True s by (auto simp: select_master_def Let_def split: option.splits prod.splits if_splits)
  have g1: "dg_servers g1 = dg_servers dg" "group_ok g1"
    using election_start_same [OF s] g by (auto simp: same_group_def group_ok_def)
  have n: "newest ?g2 (last ?ptrs)" using sort_servers_newest(1) [OF g1(2)] by (simp add: newest_def)
  have all: "ct_active k = length ?ptrs \<longrightarrow> (\<forall>j<length (dg_servers ?g2). active cs1 ?g2 j)"
    using count_servers_active [OF k] sort_servers_newest(2) [OF g1(2)] by simp
  have "newest ?g2 = newest dg" by (simp add: newest_def [abs_def] g1)
  with choose_master_ok [OF c n all] show ?thesis by (simp add: out g1 True)
qed

end

section \<open>Threads\<close>

text \<open>
  The election thread and the thread that deals with the second queue, with what each holds: the group that was taken from the queue, the nodes of the second queue
  that are left, and whether the first of them has been pushed to the queue already. Other threads push groups and unset masters, and the servers change at any time.
\<close>

record election_state =
  es_ctx :: FSMasterElectionContext
  es_popped :: "nat option"
  es_nodes :: "nat list"
  es_requeued :: bool

inductive election_step :: "sort_fun \<Rightarrow> (nat \<Rightarrow> bool) \<Rightarrow> election_cfg \<Rightarrow> election_state \<Rightarrow> election_state \<Rightarrow> bool"
  for qs mem cfg where
  es_pop: "es_popped s = None \<Longrightarrow> select_thread_pop (es_ctx s) = Some (g, ctx) \<Longrightarrow> election_step qs mem cfg s (s\<lparr>es_ctx := ctx, es_popped := Some g\<rparr>)"
| es_deal: "es_popped s = Some g \<Longrightarrow> election_step qs mem cfg s (s\<lparr>es_ctx := select_thread_deal qs mem cfg ck junk g (es_ctx s), es_popped := None\<rparr>)"
| es_take: "es_nodes s = [] \<Longrightarrow> delay_pop_all (es_ctx s) = (gs, ctx) \<Longrightarrow> election_step qs mem cfg s (s\<lparr>es_ctx := ctx, es_nodes := gs\<rparr>)"
| es_requeue: "es_nodes s = g # gs \<Longrightarrow> \<not> es_requeued s \<Longrightarrow> election_step qs mem cfg s (s\<lparr>es_ctx := delay_requeue mem g (es_ctx s), es_requeued := True\<rparr>)"
| es_clear: "es_nodes s = g # gs \<Longrightarrow> es_requeued s \<Longrightarrow>
    election_step qs mem cfg s (s\<lparr>es_ctx := delay_clear g (es_ctx s), es_nodes := gs, es_requeued := False\<rparr>)"
| es_push: "g < length (me_groups (es_ctx s)) \<Longrightarrow> election_step qs mem cfg s (s\<lparr>es_ctx := snd (master_election_queue_push mem g (es_ctx s))\<rparr>)"
| es_unset: "election_step qs mem cfg s (s\<lparr>es_ctx := master_election_unset_all_masters mem (es_ctx s)\<rparr>)"
| es_servers: "election_step qs mem cfg s (s\<lparr>es_ctx := (es_ctx s)\<lparr>me_servers := cs\<rparr>\<rparr>)"
| es_version: "g < length (me_groups (es_ctx s)) \<Longrightarrow> i < length (dg_servers (me_groups (es_ctx s) ! g)) \<Longrightarrow>
    election_step qs mem cfg s (s\<lparr>es_ctx := upd_group g (\<lambda>x. x\<lparr>dg_servers := (dg_servers x)[i := (dg_servers x ! i)\<lparr>ds_data_version := v\<rparr>]\<rparr>) (es_ctx s)\<rparr>)"

text \<open>The master of a group is the server whose flag is set.\<close>

definition masters_ok :: "FSClusterDataGroupInfo \<Rightarrow> bool" where
  "masters_ok dg \<longleftrightarrow> group_ok dg \<and> (\<forall>i<length (dg_servers dg). ds_is_master (dg_servers dg ! i) \<longleftrightarrow> dg_master dg = Some i) \<and>
     (\<forall>m. dg_master dg = Some m \<longrightarrow> m < length (dg_servers dg))"

text \<open>\<open>nodes\<close> are nodes taken from the second queue whose flags are still set.\<close>

definition election_ok :: "nat list \<Rightarrow> FSMasterElectionContext \<Rightarrow> bool" where
  "election_ok nodes ctx \<longleftrightarrow> (\<forall>dg\<in>set (me_groups ctx). masters_ok dg) \<and>
     distinct (me_queue ctx) \<and> (\<forall>g\<in>set (me_queue ctx). g < length (me_groups ctx) \<and> dg_in_queue (me_groups ctx ! g)) \<and>
     distinct (me_delay_queue ctx @ nodes) \<and> (\<forall>g\<in>set (me_delay_queue ctx @ nodes). g < length (me_groups ctx) \<and> dg_in_delay_queue (me_groups ctx ! g))"

lemma upd_group_simps [simp]:
  "length (me_groups (upd_group g f ctx)) = length (me_groups ctx)" "me_queue (upd_group g f ctx) = me_queue ctx"
  "me_delay_queue (upd_group g f ctx) = me_delay_queue ctx"
  "me_groups (upd_group g f ctx) = (me_groups ctx)[g := f (me_groups ctx ! g)]"
  by (simp_all add: upd_group_def)

text \<open>Changing one group: its flags may be set, or cleared when it is in no queue.\<close>

lemma election_ok_upd:
  assumes "election_ok nodes ctx" "g < length (me_groups ctx)" "masters_ok (f (me_groups ctx ! g))"
    and "g \<in> set (me_queue ctx) \<Longrightarrow> dg_in_queue (f (me_groups ctx ! g))"
    and "g \<in> set (me_delay_queue ctx @ nodes) \<Longrightarrow> dg_in_delay_queue (f (me_groups ctx ! g))"
  shows "election_ok nodes (upd_group g f ctx)"
  using assms by (auto simp: election_ok_def nth_list_update dest!: set_update_subset_insert [THEN subsetD])

lemma masters_ok_flags [simp]:
  "masters_ok (dg\<lparr>dg_in_queue := b\<rparr>) = masters_ok dg" "masters_ok (dg\<lparr>dg_in_delay_queue := b\<rparr>) = masters_ok dg"
  by (simp_all add: masters_ok_def group_ok_def)

lemma election_ok_group: "election_ok nodes ctx \<Longrightarrow> g < length (me_groups ctx) \<Longrightarrow> masters_ok (me_groups ctx ! g)"
  by (simp add: election_ok_def)

lemma election_ok_flags:
  "election_ok nodes ctx \<Longrightarrow> g \<in> set (me_queue ctx) \<Longrightarrow> dg_in_queue (me_groups ctx ! g)"
  "election_ok nodes ctx \<Longrightarrow> g \<in> set (me_delay_queue ctx @ nodes) \<Longrightarrow> dg_in_delay_queue (me_groups ctx ! g)"
  by (simp_all add: election_ok_def)

lemma election_ok_frame:
  "me_groups ctx' = me_groups ctx \<Longrightarrow> me_queue ctx' = me_queue ctx \<Longrightarrow> me_delay_queue ctx' = me_delay_queue ctx \<Longrightarrow> election_ok nodes ctx' = election_ok nodes ctx"
  by (simp add: election_ok_def)

lemma push_delay_ok:
  assumes "election_ok nodes ctx" "g < length (me_groups ctx)"
  shows "election_ok nodes (snd (master_election_push_to_delay_queue mem g ctx))"
    "length (me_groups (snd (master_election_push_to_delay_queue mem g ctx))) = length (me_groups ctx)"
proof -
  have "election_ok nodes (upd_group g (\<lambda>x. x\<lparr>dg_in_delay_queue := True\<rparr>) ctx)"
    by (rule election_ok_upd [OF assms]) (use assms in \<open>auto simp: election_ok_def\<close>)
  then show "election_ok nodes (snd (master_election_push_to_delay_queue mem g ctx))"
    using assms by (auto simp: master_election_push_to_delay_queue_def take_mem_def election_ok_def)
qed (simp add: master_election_push_to_delay_queue_def take_mem_def)

lemma queue_push_ok:
  assumes "election_ok nodes ctx" "g < length (me_groups ctx)"
  shows "election_ok nodes (snd (master_election_queue_push mem g ctx))"
    "length (me_groups (snd (master_election_queue_push mem g ctx))) = length (me_groups ctx)"
proof -
  have "election_ok nodes (upd_group g (\<lambda>x. x\<lparr>dg_in_queue := True\<rparr>) ctx)"
    by (rule election_ok_upd [OF assms]) (use assms in \<open>auto simp: election_ok_def\<close>)
  then show "election_ok nodes (snd (master_election_queue_push mem g ctx))"
    using assms by (auto simp: master_election_queue_push_def master_election_thread_start_def take_mem_def election_ok_def Let_def upd_group_def)
qed (simp add: master_election_queue_push_def master_election_thread_start_def take_mem_def Let_def)

lemma unset_master_ok:
  assumes "election_ok nodes ctx" "g < length (me_groups ctx)"
  shows "election_ok nodes (unset_master mem g ctx)" "length (me_groups (unset_master mem g ctx)) = length (me_groups ctx)"
proof -
  define ctx1 where "ctx1 = (case dg_master (me_groups ctx ! g) of
                    None \<Rightarrow> ctx
                  | Some m \<Rightarrow> upd_group g (\<lambda>x. set_is_master m False (x\<lparr>dg_master := None\<rparr>)) (ctx\<lparr>me_changes := me_changes ctx @ [(g, Some m, None)]\<rparr>))"
  have "election_ok nodes ctx1 \<and> length (me_groups ctx1) = length (me_groups ctx)"
  proof (cases "dg_master (me_groups ctx ! g)")
    case (Some m)
    let ?ctx = "ctx\<lparr>me_changes := me_changes ctx @ [(g, Some m, None)]\<rparr>"
    have mo: "masters_ok (me_groups ?ctx ! g)" using election_ok_group [OF assms] by simp
    have ok: "election_ok nodes ?ctx" "g < length (me_groups ?ctx)" using assms election_ok_frame [of ?ctx ctx nodes] by simp_all
    have "election_ok nodes (upd_group g (\<lambda>x. set_is_master m False (x\<lparr>dg_master := None\<rparr>)) ?ctx)"
      by (rule election_ok_upd [OF ok])
        (use mo ok Some in \<open>auto simp: masters_ok_def group_ok_def set_is_master_def nth_list_update election_ok_def\<close>)
    then show ?thesis using Some by (simp add: ctx1_def)
  qed (use assms in \<open>simp add: ctx1_def\<close>)
  then show "election_ok nodes (unset_master mem g ctx)" "length (me_groups (unset_master mem g ctx)) = length (me_groups ctx)"
    using push_delay_ok [of nodes ctx1 g mem] queue_push_ok [of nodes ctx1 g mem] assms(2)
    by (simp_all add: unset_master_def Let_def ctx1_def [symmetric])
qed

lemma unset_all_ok:
  assumes "election_ok nodes ctx"
  shows "election_ok nodes (master_election_unset_all_masters mem ctx)"
    "length (me_groups (master_election_unset_all_masters mem ctx)) = length (me_groups ctx)"
proof -
  have "election_ok nodes (fold (unset_master mem) gs c) \<and> length (me_groups (fold (unset_master mem) gs c)) = length (me_groups c)"
    if "election_ok nodes c" "\<forall>g\<in>set gs. g < length (me_groups c)" for gs c
    using that by (induction gs arbitrary: c) (simp_all add: unset_master_ok)
  from this [OF assms, of "[0..<length (me_groups ctx)]"]
  show "election_ok nodes (master_election_unset_all_masters mem ctx)"
    "length (me_groups (master_election_unset_all_masters mem ctx)) = length (me_groups ctx)"
    by (simp_all add: master_election_unset_all_masters_def)
qed

definition state_ok :: "election_state \<Rightarrow> bool" where
  "state_ok s \<longleftrightarrow> election_ok (es_nodes s) (es_ctx s) \<and> (\<forall>g. es_popped s = Some g \<longrightarrow> g < length (me_groups (es_ctx s)))"

context ds_sort
begin

lemma select_ok:
  assumes "election_ok nodes ctx" "g < length (me_groups ctx)"
  shows "election_ok nodes (snd (master_election_select_master qs cfg ck junk g ctx))"
    "length (me_groups (snd (master_election_select_master qs cfg ck junk g ctx))) = length (me_groups ctx)"
proof -
  obtain r ds cs dg where sel: "select_master qs cfg ck junk (me_servers ctx) (me_groups ctx ! g) = (r, ds, cs, dg)" by (metis prod_cases4)
  let ?c0 = "ctx\<lparr>me_servers := cs\<rparr>"
  let ?c1 = "upd_group g (\<lambda>_. dg) ?c0"
  have mo: "masters_ok (me_groups ctx ! g)" using election_ok_group [OF assms] .
  have sg: "same_group (me_groups ctx ! g) dg" by (rule select_master_same [OF sel])
  have dg: "masters_ok dg" using mo sg by (auto simp: masters_ok_def group_ok_def same_group_def)
  have ok0: "election_ok nodes ?c0" using assms election_ok_frame [of ?c0 ctx nodes] by simp
  have ok1: "election_ok nodes ?c1"
    by (rule election_ok_upd [OF ok0]) (use assms dg sg ok0 in \<open>auto simp: same_group_def election_ok_def\<close>)
  have "election_ok nodes (snd (master_election_select_master qs cfg ck junk g ctx)) \<and>
      length (me_groups (snd (master_election_select_master qs cfg ck junk g ctx))) = length (me_groups ctx)"
  proof (cases "dg_master (me_groups ctx ! g)")
    case None
    show ?thesis
    proof (cases ds)
      case ds: None
      then show ?thesis using ok1 sel None by (simp add: master_election_select_master_def)
    next
      case (Some m)
      let ?c2 = "?c1\<lparr>me_changes := me_changes ?c1 @ [(g, None, Some m)]\<rparr>"
      have ok2: "election_ok nodes ?c2" using ok1 election_ok_frame [of ?c2 ?c1 nodes] by simp
      have "m < length (dg_servers (me_groups ctx ! g))"
        using select_master_ok [OF sel [unfolded Some]] mo by (simp add: masters_ok_def)
      then have m: "m < length (dg_servers dg)" "dg_master dg = None" using sg None by (simp_all add: same_group_def)
      have "election_ok nodes (upd_group g (\<lambda>x. set_is_master m True (x\<lparr>dg_master := Some m, dg_start_time_ms := 0, dg_retry_count := 0\<rparr>)) ?c2)"
        by (rule election_ok_upd [OF ok2])
          (use assms(2) dg m election_ok_flags [OF ok2, of g] in \<open>auto simp: masters_ok_def group_ok_def set_is_master_def nth_list_update\<close>)
      then show ?thesis using sel None Some by (simp add: master_election_select_master_def Let_def)
    qed
  qed (use assms in \<open>simp add: master_election_select_master_def\<close>)
  then show "election_ok nodes (snd (master_election_select_master qs cfg ck junk g ctx))"
    "length (me_groups (snd (master_election_select_master qs cfg ck junk g ctx))) = length (me_groups ctx)" by simp_all
qed

lemma election_step_ok: "election_step qs mem cfg s s' \<Longrightarrow> state_ok s \<Longrightarrow> state_ok s'"
proof (induction rule: election_step.induct)
  case (es_pop s g ctx)
  then obtain q where q: "me_queue (es_ctx s) = g # q" by (auto simp: select_thread_pop_def split: list.splits)
  let ?c = "(es_ctx s)\<lparr>me_queue := q, me_waiting_count := me_waiting_count (es_ctx s) - 1\<rparr>"
  have ctx: "ctx = upd_group g (\<lambda>x. x\<lparr>dg_in_queue := False\<rparr>) ?c" using es_pop q by (simp add: select_thread_pop_def)
  have ok: "election_ok (es_nodes s) ?c" "g < length (me_groups ?c)" "g \<notin> set q" using es_pop(3) q by (auto simp: state_ok_def election_ok_def)
  have "election_ok (es_nodes s) ctx" unfolding ctx
    by (rule election_ok_upd [OF ok(1,2)]) (use ok election_ok_group [OF ok(1,2)] in \<open>auto simp: election_ok_def\<close>)
  then show ?case using ok(2) by (simp add: state_ok_def ctx)
next
  case (es_deal s g ck junk)
  then have a: "election_ok (es_nodes s) (es_ctx s)" "g < length (me_groups (es_ctx s))" by (simp_all add: state_ok_def)
  note b = select_ok [OF a, of cfg ck junk]
  have "election_ok (es_nodes s) (select_thread_deal qs mem cfg ck junk g (es_ctx s))"
    using b push_delay_ok [OF b(1), of g mem] a(2) by (auto simp: select_thread_deal_def split: prod.splits)
  then show ?case by (simp add: state_ok_def)
next
  case (es_take s gs ctx)
  then show ?case by (auto simp: state_ok_def delay_pop_all_def election_ok_def)
next
  case (es_requeue s g gs)
  then have "election_ok (es_nodes s) (es_ctx s)" "g < length (me_groups (es_ctx s))" by (simp_all add: state_ok_def election_ok_def)
  then show ?case using es_requeue queue_push_ok [of "es_nodes s" "es_ctx s" g mem] by (simp add: state_ok_def delay_requeue_def)
next
  case (es_clear s g gs)
  let ?c = "es_ctx s"
  have ok: "election_ok gs ?c" "g < length (me_groups ?c)" "g \<notin> set (me_delay_queue ?c @ gs)"
    using es_clear by (auto simp: state_ok_def election_ok_def)
  have "election_ok gs (delay_clear g ?c)" unfolding delay_clear_def
    by (rule election_ok_upd [OF ok(1,2)]) (use ok election_ok_group [OF ok(1,2)] in \<open>auto simp: election_ok_def\<close>)
  then show ?case using es_clear by (simp add: state_ok_def delay_clear_def)
next
  case (es_push g s)
  then show ?case using queue_push_ok [of "es_nodes s" "es_ctx s" g mem] by (simp add: state_ok_def)
next
  case (es_unset s)
  then show ?case using unset_all_ok [of "es_nodes s" "es_ctx s" mem] by (simp add: state_ok_def)
next
  case (es_servers s cs)
  then show ?case by (simp add: state_ok_def election_ok_def)
next
  case (es_version g s i v)
  let ?f = "\<lambda>x. x\<lparr>dg_servers := (dg_servers x)[i := (dg_servers x ! i)\<lparr>ds_data_version := v\<rparr>]\<rparr>"
  have ok: "election_ok (es_nodes s) (es_ctx s)" using es_version by (simp add: state_ok_def)
  have "election_ok (es_nodes s) (upd_group g ?f (es_ctx s))"
    by (rule election_ok_upd [OF ok es_version(1)])
      (use es_version(2) election_ok_flags [OF ok, of g] election_ok_group [OF ok es_version(1)] in
        \<open>auto simp: masters_ok_def group_ok_def nth_list_update split: if_splits\<close>)
  then show ?case using es_version by (simp add: state_ok_def)
qed

lemma election_run_ok: "(election_step qs mem cfg)\<^sup>*\<^sup>* s s' \<Longrightarrow> state_ok s \<Longrightarrow> state_ok s'"
  by (induction rule: rtranclp_induct) (auto intro: election_step_ok)

end

section \<open>Properties\<close>

text \<open>
  Property C15. Who becomes master. An elected server is active. With failover it has the newest data of all servers of the group, unless the policy is \<open>timeout\<close> and a server with
  newer data has been away for the configured time. The strict policy therefore never elects a server whose data are older than those of any other.\<close>
theorem elected_master_is_newest:
  assumes "qsort_contract qs" "select_master qs cfg ck junk cs dg = (r, Some i, cs', dg')" "group_ok dg"
  shows "r = 0 \<and> i < length (dg_servers dg) \<and> active cs' dg i \<and>
    (ec_failover cfg \<longrightarrow> newest dg i \<or> ec_policy cfg = POLICY_TIMEOUT \<and> (\<exists>j. newest dg j \<and> \<not> active cs' dg j \<and>
       IS_SERVER_TIMEDOUT (ck_now ck) (cs' (ds_cs (dg_servers dg ! j))) (dg_start_time_ms dg' div 1000) (ec_timeouts cfg)))"
  by (rule ds_sort.select_master_ok [OF ds_sort.intro [OF assms(1)] assms(2,3)])


section \<open>Runs\<close>

definition ex_server :: "int \<Rightarrow> FSClusterServerInfo" where
  "ex_server status = \<lparr>cs_status = status, cs_status_changed_time = 100, cs_last_ping_time = 1000\<rparr>"

definition ex_ds :: "nat \<Rightarrow> int \<Rightarrow> FSClusterDataServerInfo" where
  "ex_ds i v = \<lparr>ds_cs = i, ds_is_preseted = False, ds_is_master = False, ds_data_version = v\<rparr>"

definition ex_dg :: "FSClusterDataServerInfo list \<Rightarrow> FSClusterDataGroupInfo" where
  "ex_dg dss = \<lparr>dg_hash_code = 0, dg_in_queue = False, dg_in_delay_queue = False, dg_retry_count = 1, dg_start_time_ms = 900000,
     dg_servers = dss, dg_ds_ptr_array = [0..<length dss], dg_myself = None, dg_master = None\<rparr>"

definition ex_cfg :: "election_policy \<Rightarrow> election_cfg" where
  "ex_cfg pol = \<lparr>ec_failover = True, ec_policy = pol, ec_timeouts = 60, ec_myself = 9, ec_is_leader = True\<rparr>"

definition ex_clock :: clock where
  "ex_clock = \<lparr>ck_now = 1000, ck_now_ms = 1000000\<rparr>"

abbreviation ex_up_but :: "nat \<Rightarrow> nat \<Rightarrow> FSClusterServerInfo" where
  "ex_up_but i \<equiv> \<lambda>j. ex_server (if j = i then FS_SERVER_STATUS_OFFLINE else FS_SERVER_STATUS_ACTIVE)"

lemmas ex_election_defs = ex_server_def ex_ds_def ex_dg_def ex_cfg_def ex_clock_def list_qsort_def

lemma ex_dg_ok: "dss \<noteq> [] \<Longrightarrow> group_ok (ex_dg dss)"
  by (simp add: group_ok_def ex_dg_def)

text \<open>Three servers, the first is away for long, the others have the same data.\<close>

theorem elected_master_is_newest_witness:
  "\<exists>i cs' dg'. select_master list_qsort (ex_cfg POLICY_STRICT) ex_clock 0 (ex_up_but 0) (ex_dg [ex_ds 0 7, ex_ds 1 9, ex_ds 2 9]) = (0, Some i, cs', dg') \<and>
     newest (ex_dg [ex_ds 0 7, ex_ds 1 9, ex_ds 2 9]) i"
proof -
  let ?dg = "ex_dg [ex_ds 0 7, ex_ds 1 9, ex_ds 2 9]"
  have "fst (snd (select_master list_qsort (ex_cfg POLICY_STRICT) ex_clock 0 (ex_up_but 0) ?dg)) = Some 1" by code_simp
  then obtain r cs' dg' where run: "select_master list_qsort (ex_cfg POLICY_STRICT) ex_clock 0 (ex_up_but 0) ?dg = (r, Some 1, cs', dg')"
    by (metis prod.collapse)
  from elected_master_is_newest [OF list_qs.qsort_contract_axioms run ex_dg_ok] show ?thesis using run by (auto simp: ex_cfg_def)
qed

text \<open>
  Property C38. With the policy \<open>timeout\<close> a master with old data may be elected although an active server has newer data. The newest version among the active servers is looked for
  from the position of the newest server downwards in the array of servers instead of in the sorted array. Here the server at position 1 is away with
  version 10 and has timed out; the servers at positions 0 and 2 are active with versions 5 and 8: the one with version 5 is elected.\<close>
theorem stale_master_elected:
  "\<exists>cs' dg'. select_master list_qsort (ex_cfg POLICY_TIMEOUT) ex_clock 0 (ex_up_but 1) (ex_dg [ex_ds 0 5, ex_ds 1 10, ex_ds 2 8]) = (0, Some 0, cs', dg') \<and>
     active cs' dg' 2 \<and> version_of dg' 0 = 5 \<and> version_of dg' 2 = 8"
proof -
  let ?run = "select_master list_qsort (ex_cfg POLICY_TIMEOUT) ex_clock 0 (ex_up_but 1) (ex_dg [ex_ds 0 5, ex_ds 1 10, ex_ds 2 8])"
  have "(case ?run of (r, m, cs', dg') \<Rightarrow> (r, m, cs_status (cs' (ds_cs (dg_servers dg' ! 2))), version_of dg' 0, version_of dg' 2)) = (0, Some 0, 2, 5, 8)"
    by code_simp
  then show ?thesis by (cases ?run) auto
qed

definition ex_election :: "FSClusterDataGroupInfo \<Rightarrow> (nat \<Rightarrow> FSClusterServerInfo) \<Rightarrow> nat list \<Rightarrow> nat list \<Rightarrow> FSMasterElectionContext" where
  "ex_election dg cs q dq = \<lparr>me_groups = [dg], me_servers = cs, me_is_running = True, me_waiting_count = int (length q),
     me_queue = q, me_delay_queue = dq, me_changes = [], me_calls = 0\<rparr>"

definition ex_queued :: FSMasterElectionContext where
  "ex_queued = ex_election ((ex_dg [ex_ds 0 10, ex_ds 1 8, ex_ds 2 8])\<lparr>dg_in_queue := True\<rparr>) (ex_up_but 0) [0] []"

definition forgotten :: "FSMasterElectionContext \<Rightarrow> nat \<Rightarrow> bool" where
  "forgotten ctx g \<longleftrightarrow> dg_master (me_groups ctx ! g) = None \<and> \<not> dg_in_queue (me_groups ctx ! g) \<and> \<not> dg_in_delay_queue (me_groups ctx ! g) \<and>
     g \<notin> set (me_queue ctx) \<and> g \<notin> set (me_delay_queue ctx)"


text \<open>A group of two servers in the second queue; one server is not active yet, so it is too early to select.\<close>

definition ex_waiting :: election_state where
  "ex_waiting = \<lparr>es_ctx = ex_election ((ex_dg [ex_ds 0 5, ex_ds 1 5])\<lparr>dg_in_delay_queue := True, dg_start_time_ms := 0\<rparr>)
     (\<lambda>j. if j = 0 then ex_server FS_SERVER_STATUS_ACTIVE else (ex_server FS_SERVER_STATUS_ONLINE)\<lparr>cs_status_changed_time := 995\<rparr>) [] [0],
     es_popped = None, es_nodes = [], es_requeued = False\<rparr>"

lemma ex_waiting_ok: "state_ok ex_waiting"
  by (auto simp: state_ok_def election_ok_def ex_waiting_def ex_election_def masters_ok_def group_ok_def ex_dg_def ex_ds_def less_Suc_eq)

abbreviation ex_mem :: "nat \<Rightarrow> bool" where "ex_mem \<equiv> \<lambda>_. True"



end
