(* ===== verification/Spec2Isabelle.thy ===== *)
theory Spec2Isabelle
  imports Index_Properties Freelist_Properties RPC_Ring_Properties FD_Cache Trunk_Id Data_Thread_Properties Slice_Dump Write_Thread_Properties Master_Election_Properties
begin

text \<open>
  \<^bold>\<open>A verification of the storage engine of faststore\<close>

  faststore is a distributed block store in C (\<open>src/src\<close>). A file is cut into blocks of 4 MB; the
  server (\<open>server\<close>) keeps for each block which ranges of it are stored and where. The storage
  engine (\<open>server/storage\<close>, \<open>server/dio\<close>) is the core that this development models: an index from blocks
  to slices, trunk files that hold the data of many slices, the allocation of space in them, and
  the operations that write, allocate, read and delete ranges. Around it lie the binlogs
  (\<open>server/binlog\<close>) from which the index is rebuilt at the start and by which replicas are
  brought up to date, and the replication of updates (\<open>server/replication\<close>).

  \<^bold>\<open>How the parts work together.\<close> A write (\<open>fs_slice_write\<close>) asks the storage allocator for space, which picks a store
  path and cuts one or two pieces from the trunks on its free list; the data go to the write
  threads; when all of it is on disk \<open>fs_write_finish\<close> enters the slices into the index, which cuts or removes
  the slices they overlap and books the change with the trunks; the update is logged in
  the slice binlog and the replica binlog. A read (\<open>fs_slice_read\<close>) takes the slices of the range from the index and fills holes with
  zeros. Trunks that have become mostly empty are candidates for reclaiming.

  \<^bold>\<open>The theories and the code\<close>

  \<^item> \<open>FS_Prelude\<close>: error numbers, C integer conversions, lemmas on sorted lists. \<open>FS_Types\<close>: the records of
    \<open>common/fs_types.h\<close> and the functions of \<open>fs_func.h\<close>.
  \<^item> \<open>FC_Contracts\<close>: what the program relies on of libfastcommon (skip lists, queues, lists, memory pools,
    rounding) as the fields of \<open>fc_env\<close>, with their documented behaviour as the locales \<open>uniq_skiplist\<close>
    and \<open>fastcommon\<close>; \<open>list_env\<close> is an instance on which they hold.
  \<^item> \<open>Slice_Heap\<close>, \<open>Slice_Index\<close>: slice entries with reference counts and the operations on the slices of one block
    (\<open>add_slice\<close>, \<open>delete_slices\<close>, \<open>get_slices\<close> of \<open>storage/object_block_index.c\<close>). \<open>Block_Map\<close> has the abstract view, a map
    from the bytes of a block to their place on disk; \<open>Slice_Plan\<close>, \<open>Slice_Correct\<close>, \<open>Slice_Books\<close>, \<open>Slice_Lookup\<close> and
    \<open>Block_Theorems\<close> show that the operations are overriding, restricting and reading that map, that they
    keep the ledgers of the trunks and the reference counts exact, and that a failure changes nothing.
  \<^item> \<open>Block_Table\<close>, \<open>Block_Table_Facts\<close>, \<open>Block_Table_Theorems\<close>, \<open>Index_Properties\<close>: the hash table of blocks and the public
    operations of the index, with the wait for a reclaim of the block; they refine updates of a map from blocks to byte maps and keep
    the invariant \<open>index_ok\<close>.
  \<^item> \<open>Trunk_Allocator\<close>, \<open>Trunk_Freelist\<close>, \<open>Aptr_Array\<close>, \<open>Freelist_Facts\<close>, \<open>Freelist_Properties\<close>, \<open>Storage_Alloc\<close>, \<open>Alloc_Frame\<close>,
    \<open>Storage_Alloc_Properties\<close>: the trunks of a store path and their books (\<open>trunk_allocator.c\<close>), the free lists (\<open>trunk_freelist.c\<close>),
    the sorted arrays of full and available paths and the choice of a path (\<open>storage_allocator.c\<close>, \<open>.h\<close>), parts of \<open>trunk_maker.c\<close> and \<open>storage_config.c\<close>.
    Allocated space was free, does not overlap and adds up to the request; the free lists and arrays
    stay well formed while other threads run; every trunk is sorted into its place at the start.
  \<^item> \<open>Trunk_Id\<close>: trunk ids and subdirectories (\<open>trunk_id_info.c\<close>): fresh ids, also after a crash.
  \<^item> \<open>FD_Cache\<close>: the cache of open trunk files (\<open>dio/trunk_fd_cache.c\<close>) refines a bounded list in the order of last use.
  \<^item> \<open>Binlog_Record\<close>, \<open>Binlog_Roundtrip\<close>: the records of the two binlogs (\<open>binlog/replica_binlog.c\<close>, \<open>slice_binlog.c\<close>, the parser of
    \<open>slice_loader.c\<close>): a logged record is read back as it was written.
  \<^item> \<open>Slice_Op\<close>, \<open>Slice_Op_Facts\<close>, \<open>Slice_IO\<close>, \<open>Slice_Write\<close>, \<open>Slice_Op_Properties\<close>: the slice operations (\<open>storage/slice_op.c\<close>). What is written is
    read back; scattered buffers give the same bytes as one buffer; the slices of a write tile its range; the
    holes are the unmapped bytes.
  \<^item> \<open>Data_Thread\<close>, \<open>Data_Thread_Properties\<close>: the threads that run the operations (\<open>data_thread.c\<close>, \<open>data_thread.h\<close>) and send updates to the slaves
    (\<open>replication/replication_caller.c\<close>). An operation goes on when its I/O is done, the wait for the slaves ends, an update is logged
    once; two theorems show interleavings in which the code does not keep to this.
  \<^item> \<open>Slice_Loader\<close>, \<open>Slice_Loader_Facts\<close>, \<open>Slice_Loader_Properties\<close>, \<open>Slice_Dump\<close>: loading the slice binlog at the start (\<open>binlog/slice_loader.c\<close>), with parse threads
    and data threads that run at any speed. The parallel load equals a sequential one, a restart restores the
    index that the server had (\<open>live_step\<close> is the step relation of the running server), and all slices are booked on their trunks.
  \<^item> \<open>Write_Thread\<close>, \<open>Write_Thread_Facts\<close>, \<open>Write_Thread_Inv\<close>, \<open>Write_Thread_Properties\<close>: the threads that write the trunk files
    (\<open>dio/trunk_write_thread.c\<close>), with the answers of the system calls as an arbitrary list: errors, interrupts and partial writes. What is reported as written is
    on the disk, every request is reported once, and a batch ends after at most as many calls as it has bytes and buffers, and two.
  \<^item> \<open>Master_Election\<close>, \<open>Master_Election_Properties\<close>: the choice of the master of each data group by the leader and its two queues
    (\<open>master_election.c\<close>), with the threads as a step relation. The elected server is active and, under the strict policy, has the newest data; a group has one master at a time; three
    theorems show runs in which a server with old data is elected or a group stays without a master.
  \<^item> \<open>RPC_Ring\<close>, \<open>RPC_Ring_Facts\<close>, \<open>RPC_Ring_Properties\<close>: the calls to a replica that wait for an answer
    (\<open>replication/rpc_result_ring.c\<close>), a ring with an overflow queue, refine a bag of pending calls.

  \<^bold>\<open>Conventions.\<close> State is passed explicitly: \<open>ob_index\<close> (hash table, slice heap, trunk books, serial number), \<open>FSStorageAllocatorManager\<close>,
  \<open>FSSliceOpContext\<close> and \<open>op_world\<close>. Objects that the code reaches through pointers have an address, a natural number, and
  a table from addresses to records. A result is the C error number, 0 for success; a dereference of a dangling pointer is the result
  \<open>FAULT\<close>, a call of \<open>abort()\<close> the result \<open>ABORT\<close>, and the theorems show where they cannot occur. A failing allocation of memory is an answer
  of the environment, so every error path is reachable. Where a thread waits on a condition the model takes a
  schedule, the list of what other threads do at each wake-up; \<open>None\<close> says that the
  schedule ended while the thread still waits. Loops of the code are structural recursions on the list
  they walk, or carry the number of turns that the code bounds (10 in \<open>waiting_avail_trunk\<close>).

  \<^bold>\<open>Not modelled.\<close> Pure I/O (the read threads' system calls, threads' start and stop, log output), configuration files, the network protocol, cluster
  membership and the election of the leader, data recovery, the client library and the file system API: they drive the core through the operations above. Locks are not modelled as
  such: an operation runs as a whole between its waits, as the lock of the bucket or of the allocator makes it.
\<close>

end
